(* ===== verification/Prelude.thy ===== *)
theory Prelude
  imports Main "HOL-Library.AList" "HOL-Library.Char_ord" "HOL-Library.List_Lexorder"
begin

text \<open>
  Shared vocabulary of the CassetteDB development: fallible results, machine integers as
  natural numbers with the wrap-around written out, byte strings and their little-endian
  integers, the cursor reads of \<open>std::io::Read\<close>, hash maps and ordered maps as association
  lists with distinct keys, string helpers of the Rust standard library, and the interfaces
  (\<open>framed\<close>, \<open>framed_strict\<close>, \<open>machine\<close>, \<open>monotone_machine\<close>, \<open>doc_store\<close>) that the components
  provide.

  Conventions. A Rust \<open>String\<close> is its UTF-8 byte sequence, a HOL \<open>string\<close> (one \<open>char\<close> per
  byte), so \<open>len()\<close> is \<open>length\<close> and \<open>as_bytes()\<close> the identity; character classification
  (\<open>to_lowercase\<close>, \<open>is_alphanumeric\<close>, \<open>trim\<close>) is exact on ASCII. File operations of the
  operating system succeed, apart from reads past the end of a file.
\<close>

subsection \<open>Collections of facts\<close>

named_theorems codec_simps \<open>reading back what was just written\<close>
named_theorems hm_simps \<open>hash maps as association lists\<close>
named_theorems frame_simps \<open>what an operation leaves unchanged\<close>

subsection \<open>Results: \<open>CassetteError\<close>, panics, and the question-mark operator\<close>

datatype error =
    Io string
  | Serialization
  | Corrupt string
  | InvalidQuery string
  | NotFound string
  | Conflict
  | WalError string
  | IndexError string
  | ReplicationError string
  | BackupError string
  | ClusterError string
  | ShardError string
  | DistTxError string

datatype 'a outcome = Ok 'a | Err error | Panic

fun and_then :: "'a outcome \<Rightarrow> ('a \<Rightarrow> 'b outcome) \<Rightarrow> 'b outcome" where
  "and_then (Ok x) f = f x"
| "and_then (Err e) f = Err e"
| "and_then Panic f = Panic"

lemma and_then_cong [fundef_cong]:
  "m = m' \<Longrightarrow> (\<And>x. m' = Ok x \<Longrightarrow> f x = f' x) \<Longrightarrow> and_then m f = and_then m' f'"
  by (cases m') auto

lemma and_then_eq_Ok [simp]: "and_then m f = Ok y \<longleftrightarrow> (\<exists>x. m = Ok x \<and> f x = Ok y)"
  by (cases m) auto

lemma and_then_assoc: "and_then (and_then m f) g = and_then m (\<lambda>x. and_then (f x) g)"
  by (cases m) auto

fun ok_or :: "'a option \<Rightarrow> error \<Rightarrow> 'a outcome" where
  "ok_or (Some x) e = Ok x"
| "ok_or None e = Err e"

lemma ok_or_eq_Ok [simp]: "ok_or m e = Ok x \<longleftrightarrow> m = Some x"
  by (cases m) auto

lemma ok_or_eq_Err [simp]: "ok_or m e = Err e' \<longleftrightarrow> m = None \<and> e = e'"
  by (cases m) auto

lemma ok_or_not_Panic [simp]: "ok_or m e \<noteq> Panic" "Panic \<noteq> ok_or m e"
  by (cases m; simp)+

fun outcome_map :: "('a \<Rightarrow> 'b) \<Rightarrow> 'a outcome \<Rightarrow> 'b outcome" where
  "outcome_map f (Ok x) = Ok (f x)"
| "outcome_map f (Err e) = Err e"
| "outcome_map f Panic = Panic"

lemma and_then_OkE:
  assumes "and_then m f = Ok y"
  obtains x where "m = Ok x" "f x = Ok y"
  using assms by (cases m) auto

lemma outcome_map_OkE:
  assumes "outcome_map f m = Ok y"
  obtains x where "m = Ok x" "y = f x"
  using assms by (cases m) auto

fun is_ok :: "'a outcome \<Rightarrow> bool" where
  "is_ok (Ok x) = True"
| "is_ok _ = False"

lemma is_ok_iff: "is_ok r \<longleftrightarrow> (\<exists>x. r = Ok x)"
  by (cases r) auto

text \<open>A loop whose body may fail: \<open>for x in xs { s = f(s, x)? }\<close>.\<close>

fun foldM :: "('s \<Rightarrow> 'a \<Rightarrow> 's outcome) \<Rightarrow> 'a list \<Rightarrow> 's \<Rightarrow> 's outcome" where
  "foldM f [] s = Ok s"
| "foldM f (x # xs) s = and_then (f s x) (foldM f xs)"

lemma foldM_append: "foldM f (xs @ ys) s = and_then (foldM f xs s) (foldM f ys)"
proof (induction xs arbitrary: s)
  case Nil
  then show ?case by simp
next
  case (Cons x xs)
  then show ?case by (cases "f s x") auto
qed

lemma foldM_total: "(\<And>s x. f s x = Ok (g s x)) \<Longrightarrow> foldM f xs s = Ok (foldl g s xs)"
  by (induction xs arbitrary: s) auto

text \<open>The error every \<open>read_exact\<close> past the end of a file gives.\<close>

abbreviation unexpected_eof :: error where
  "unexpected_eof \<equiv> Io ''failed to fill whole buffer''"

subsection \<open>Machine integers\<close>

text \<open>
  A \<open>u32\<close> or \<open>u64\<close> is a natural number below \<open>2 ^ 32\<close> or \<open>2 ^ 64\<close>; the additions of a
  release build wrap, and \<open>as u32\<close> truncates.
\<close>

definition u64_add :: "nat \<Rightarrow> nat \<Rightarrow> nat" where
  "u64_add a b = (a + b) mod 2 ^ 64"

definition u32_add :: "nat \<Rightarrow> nat \<Rightarrow> nat" where
  "u32_add a b = (a + b) mod 2 ^ 32"

definition as_u32 :: "nat \<Rightarrow> nat" where
  "as_u32 n = n mod 2 ^ 32"

definition u32_saturating_add :: "nat \<Rightarrow> nat \<Rightarrow> nat" where
  "u32_saturating_add a b = min (a + b) (2 ^ 32 - 1)"

definition u32_saturating_sub :: "nat \<Rightarrow> nat \<Rightarrow> nat" where
  "u32_saturating_sub a b = a - b"

definition div_ceil :: "nat \<Rightarrow> nat \<Rightarrow> nat" where
  "div_ceil a b = (a + b - 1) div b"

lemma u64_add_less [simp]: "u64_add a b < 2 ^ 64"
  unfolding u64_add_def by simp

lemma u64_add_id [simp]: "a + b < 2 ^ 64 \<Longrightarrow> u64_add a b = a + b"
  unfolding u64_add_def by simp

lemma u32_add_id [simp]: "a + b < 2 ^ 32 \<Longrightarrow> u32_add a b = a + b"
  unfolding u32_add_def by simp

lemma as_u32_id [simp]: "n < 2 ^ 32 \<Longrightarrow> as_u32 n = n"
  unfolding as_u32_def by simp

lemma as_u32_less [simp]: "as_u32 n < 2 ^ 32"
  unfolding as_u32_def by simp

lemma div_ceil_mult_ge: "0 < b \<Longrightarrow> a \<le> div_ceil a b * b"
proof -
  assume "0 < b"
  have "a + b - 1 = (a + b - 1) div b * b + (a + b - 1) mod b" by simp
  moreover have "(a + b - 1) mod b < b" using \<open>0 < b\<close> by simp
  ultimately show ?thesis unfolding div_ceil_def by linarith
qed

lemma div_ceil_pos: "0 < b \<Longrightarrow> 0 < a \<Longrightarrow> 0 < div_ceil a b"
  unfolding div_ceil_def by (simp add: div_greater_zero_iff)

subsection \<open>Byte strings and cursor reads\<close>

type_synonym bytes = "char list"

primrec le_bytes :: "nat \<Rightarrow> nat \<Rightarrow> bytes" where
  "le_bytes 0 n = []"
| "le_bytes (Suc k) n = char_of (n mod 256) # le_bytes k (n div 256)"

primrec le_value :: "bytes \<Rightarrow> nat" where
  "le_value [] = 0"
| "le_value (b # bs) = of_char b + 256 * le_value bs"

lemma length_le_bytes [simp]: "length (le_bytes k n) = k"
  by (induction k arbitrary: n) auto

lemma le_value_le_bytes: "le_value (le_bytes k n) = n mod 256 ^ k"
proof (induction k arbitrary: n)
  case 0
  then show ?case by simp
next
  case (Suc k)
  have "n mod 256 ^ Suc k = n mod 256 + 256 * (n div 256 mod 256 ^ k)"
    by (simp add: mod_mult2_eq)
  with Suc show ?case by (simp add: of_char_of)
qed

lemma le_value_u32 [codec_simps]: "n < 2 ^ 32 \<Longrightarrow> le_value (le_bytes 4 n) = n"
  by (simp add: le_value_le_bytes)

lemma le_value_u16 [codec_simps]: "n < 2 ^ 16 \<Longrightarrow> le_value (le_bytes 2 n) = n"
  by (simp add: le_value_le_bytes)

lemma le_value_u64 [codec_simps]: "n < 2 ^ 64 \<Longrightarrow> le_value (le_bytes 8 n) = n"
  by (simp add: le_value_le_bytes)

lemma of_char_less: "of_char c < (256 :: nat)"
  by (metis char_of_char mod_less_divisor of_char_of zero_less_numeral)

lemma le_value_less: "le_value bs < 256 ^ length bs"
proof (induction bs)
  case Nil
  then show ?case by simp
next
  case (Cons b bs)
  have "of_char b + 256 * le_value bs < 256 * (le_value bs + 1)"
    using of_char_less [of b] by (simp only: distrib_left)
  also have "\<dots> \<le> 256 * 256 ^ length bs"
    using Cons by (intro mult_le_mono2) simp
  finally show ?case by simp
qed

text \<open>\<open>read_exact\<close>: the bytes read and the rest of the stream; \<open>None\<close> is an unexpected end.\<close>

definition read_exact :: "nat \<Rightarrow> bytes \<Rightarrow> (bytes \<times> bytes) option" where
  "read_exact n bs = (if n \<le> length bs then Some (take n bs, drop n bs) else None)"

definition read_le :: "nat \<Rightarrow> bytes \<Rightarrow> (nat \<times> bytes) option" where
  "read_le k bs = map_option (apfst le_value) (read_exact k bs)"

lemma read_exact_append [codec_simps]: "length xs = n \<Longrightarrow> read_exact n (xs @ ys) = Some (xs, ys)"
  by (simp add: read_exact_def)

lemma read_exact_short: "length bs < n \<Longrightarrow> read_exact n bs = None"
  by (simp add: read_exact_def)

lemma read_exact_length: "read_exact n bs = Some (x, r) \<Longrightarrow> length bs = n + length r \<and> bs = x @ r"
  by (auto simp: read_exact_def split: if_splits)

lemma read_exact_extend: "read_exact n bs = Some (x, r) \<Longrightarrow> read_exact n (bs @ ys) = Some (x, r @ ys)"
  by (auto simp: read_exact_def split: if_splits)

lemma read_le_extend: "read_le k bs = Some (v, r) \<Longrightarrow> read_le k (bs @ ys) = Some (v, r @ ys)"
  by (auto simp: read_le_def dest: read_exact_extend)

lemma read_le_append: "read_le k (le_bytes k n @ ys) = Some (n mod 256 ^ k, ys)"
  by (simp add: read_le_def codec_simps le_value_le_bytes)

lemma read_u32 [codec_simps]: "n < 2 ^ 32 \<Longrightarrow> read_le 4 (le_bytes 4 n @ ys) = Some (n, ys)"
  by (simp add: read_le_append)

lemma read_u16 [codec_simps]: "n < 2 ^ 16 \<Longrightarrow> read_le 2 (le_bytes 2 n @ ys) = Some (n, ys)"
  by (simp add: read_le_append)

lemma read_u8 [codec_simps]: "n < 256 \<Longrightarrow> read_le (Suc 0) (char_of n # ys) = Some (n, ys)"
  by (simp add: read_le_def read_exact_def)

lemma read_le_short: "length bs < k \<Longrightarrow> read_le k bs = None"
  by (simp add: read_le_def read_exact_short)

lemma read_le_length: "read_le k bs = Some (v, r) \<Longrightarrow> length bs = k + length r"
  by (auto simp: read_le_def dest: read_exact_length)

text \<open>\<open>seek\<close> and \<open>write_all\<close>: writing past the end fills the gap with zero bytes.\<close>

definition write_at :: "bytes \<Rightarrow> nat \<Rightarrow> bytes \<Rightarrow> bytes" where
  "write_at file pos data =
     take pos (file @ replicate (pos - length file) (char_of (0 :: nat))) @ data
       @ drop (pos + length data) file"

definition set_len :: "bytes \<Rightarrow> nat \<Rightarrow> bytes" where
  "set_len file n = take n (file @ replicate (n - length file) (char_of (0 :: nat)))"

lemma length_write_at [simp]: "length (write_at file pos data) = max (length file) (pos + length data)"
  by (auto simp: write_at_def)

lemma write_at_end: "pos = length file \<Longrightarrow> write_at file pos data = file @ data"
  by (simp add: write_at_def)

lemma write_at_mid: "length xs = pos \<Longrightarrow> length ys = length data \<Longrightarrow>
    write_at (xs @ ys @ zs) pos data = xs @ data @ zs"
  by (simp add: write_at_def)

lemma take_write_at_before: "n \<le> pos \<Longrightarrow> n \<le> length file \<Longrightarrow> take n (write_at file pos data) = take n file"
  by (auto simp: write_at_def min_def)

lemma slice_write_at_same: "take (length data) (drop pos (write_at file pos data)) = data"
  by (auto simp: write_at_def)

lemma drop_write_at_after:
  "pos + length data \<le> m \<Longrightarrow> pos \<le> length file \<Longrightarrow> drop m (write_at file pos data) = drop m file"
  by (auto simp: write_at_def)

lemma slice_write_at_before:
  "m + n \<le> pos \<Longrightarrow> m + n \<le> length file \<Longrightarrow>
   take n (drop m (write_at file pos data)) = take n (drop m file)"
  by (simp add: take_drop take_write_at_before add.commute)


subsection \<open>Hash maps\<close>

text \<open>
  A \<open>HashMap\<close> is an association list; \<open>hm_ok\<close> says the keys are distinct, and the order of
  the list is the (arbitrary) iteration order. \<open>get\<close> is \<open>map_of\<close>, \<open>insert\<close> and \<open>remove\<close> are
  the update and delete of the library.
\<close>

type_synonym ('k, 'v) hashmap = "('k \<times> 'v) list"

abbreviation hm_get :: "('k, 'v) hashmap \<Rightarrow> 'k \<Rightarrow> 'v option" where
  "hm_get m k \<equiv> map_of m k"

abbreviation hm_insert :: "'k \<Rightarrow> 'v \<Rightarrow> ('k, 'v) hashmap \<Rightarrow> ('k, 'v) hashmap" where
  "hm_insert \<equiv> AList.update"

abbreviation hm_remove :: "'k \<Rightarrow> ('k, 'v) hashmap \<Rightarrow> ('k, 'v) hashmap" where
  "hm_remove \<equiv> AList.delete"

abbreviation hm_values :: "('k, 'v) hashmap \<Rightarrow> 'v list" where
  "hm_values m \<equiv> map snd m"

definition hm_ok :: "('k, 'v) hashmap \<Rightarrow> bool" where
  "hm_ok m \<longleftrightarrow> distinct (map fst m)"

lemma hm_get_insert [hm_simps]: "hm_get (hm_insert k v m) = (hm_get m)(k \<mapsto> v)"
  by (rule update_conv')

lemma hm_get_remove [hm_simps]: "hm_get (hm_remove k m) = (hm_get m)(k := None)"
  by (rule delete_conv')

lemma hm_ok_Nil [hm_simps]: "hm_ok []"
  by (simp add: hm_ok_def)

lemma hm_ok_insert [hm_simps]: "hm_ok m \<Longrightarrow> hm_ok (hm_insert k v m)"
  by (simp add: hm_ok_def distinct_update)

lemma hm_ok_remove [hm_simps]: "hm_ok m \<Longrightarrow> hm_ok (hm_remove k m)"
  by (simp add: hm_ok_def distinct_delete)

lemma hm_value_iff: "hm_ok m \<Longrightarrow> v \<in> set (hm_values m) \<longleftrightarrow> (\<exists>k. hm_get m k = Some v)"
  unfolding hm_ok_def by (force dest: map_of_SomeD)

lemma hm_length_insert: "length (hm_insert k v m) = (if k \<in> fst ` set m then length m else Suc (length m))"
  by (induction m) auto

lemma hm_length_remove: "hm_ok m \<Longrightarrow> hm_get m k = Some v \<Longrightarrow> Suc (length (hm_remove k m)) = length m"
proof (induction m)
  case Nil
  then show ?case by simp
next
  case (Cons p m)
  show ?case
  proof (cases "fst p = k")
    case True
    with Cons.prems have "k \<notin> fst ` set m" by (auto simp: hm_ok_def)
    then have "hm_remove k m = m" by simp
    with True show ?thesis by simp
  next
    case False
    with Cons show ?thesis by (auto simp: hm_ok_def)
  qed
qed

lemma hm_get_mem: "hm_get m k = Some v \<Longrightarrow> k \<in> fst ` set m"
  by (force dest: map_of_SomeD)

lemma hm_get_None_iff: "hm_get m k = None \<longleftrightarrow> k \<notin> fst ` set m"
  by (rule map_of_eq_None_iff)

lemma hm_card_dom: "hm_ok m \<Longrightarrow> card (dom (hm_get m)) = length m"
  unfolding hm_ok_def by (simp add: dom_map_of_conv_image_fst distinct_card flip: set_map)

subsection \<open>Ordered maps\<close>

text \<open>
  A \<open>BTreeMap\<close> is an association list with ascending keys; \<open>get\<close> is \<open>map_of\<close>, iteration the
  order of the list. The order of strings is the lexicographic order of their bytes.
\<close>

fun bt_insert :: "'k::linorder \<Rightarrow> 'v \<Rightarrow> ('k \<times> 'v) list \<Rightarrow> ('k \<times> 'v) list" where
  "bt_insert k v [] = [(k, v)]"
| "bt_insert k v ((k', v') # m) =
     (if k < k' then (k, v) # (k', v') # m
      else if k = k' then (k, v) # m
      else (k', v') # bt_insert k v m)"

definition bt_remove :: "'k \<Rightarrow> ('k \<times> 'v) list \<Rightarrow> ('k \<times> 'v) list" where
  "bt_remove k m = filter (\<lambda>p. fst p \<noteq> k) m"

definition bt_ok :: "('k::linorder \<times> 'v) list \<Rightarrow> bool" where
  "bt_ok m \<longleftrightarrow> sorted_wrt (<) (map fst m)"

lemma bt_ok_Nil [hm_simps]: "bt_ok []"
  by (simp add: bt_ok_def)

lemma bt_keys_insert [hm_simps]: "fst ` set (bt_insert k v m) = insert k (fst ` set m)"
  by (induction k v m rule: bt_insert.induct) auto

lemma bt_get_insert [hm_simps]: "bt_ok m \<Longrightarrow> map_of (bt_insert k v m) = (map_of m)(k \<mapsto> v)"
proof (induction k v m rule: bt_insert.induct)
  case (1 k v)
  then show ?case by auto
next
  case (2 k v k' v' m)
  then show ?case by (auto simp: bt_ok_def fun_eq_iff)
qed

lemma bt_ok_insert [hm_simps]: "bt_ok m \<Longrightarrow> bt_ok (bt_insert k v m)"
proof (induction k v m rule: bt_insert.induct)
  case (1 k v)
  then show ?case by (simp add: bt_ok_def)
next
  case (2 k v k' v' m)
  have "fst ` set (bt_insert k v m) = insert k (fst ` set m)" by (rule bt_keys_insert)
  then show ?case using 2 by (auto simp: bt_ok_def simp flip: set_map)
qed

lemma bt_ok_remove [hm_simps]: "bt_ok m \<Longrightarrow> bt_ok (bt_remove k m)"
  unfolding bt_ok_def bt_remove_def by (induction m) auto

lemma bt_get_remove [hm_simps]: "map_of (bt_remove k m) = (map_of m)(k := None)"
  unfolding bt_remove_def by (induction m) (auto simp: fun_eq_iff)

lemma bt_ok_distinct: "bt_ok m \<Longrightarrow> distinct (map fst m)"
  unfolding bt_ok_def by (induction m) auto

lemma bt_length_insert: "bt_ok m \<Longrightarrow> length (bt_insert k v m) = (if k \<in> fst ` set m then length m else Suc (length m))"
proof (induction k v m rule: bt_insert.induct)
  case (1 k v)
  then show ?case by simp
next
  case (2 k v k' v' m)
  then show ?case by (force simp: bt_ok_def)
qed

text \<open>\<open>range(k..).next()\<close> and \<open>iter().next()\<close>.\<close>

definition bt_ceiling :: "'k::linorder \<Rightarrow> ('k \<times> 'v) list \<Rightarrow> ('k \<times> 'v) option" where
  "bt_ceiling k m = List.find (\<lambda>p. k \<le> fst p) m"

definition bt_first :: "('k \<times> 'v) list \<Rightarrow> ('k \<times> 'v) option" where
  "bt_first m = (case m of [] \<Rightarrow> None | p # _ \<Rightarrow> Some p)"

lemma bt_ceiling_Some:
  assumes "bt_ok m"
  shows "bt_ceiling k m = Some (h, v) \<longleftrightarrow> map_of m h = Some v \<and> k \<le> h \<and> (\<forall>h' \<in> fst ` set m. k \<le> h' \<longrightarrow> h \<le> h')"
  using assms
proof (induction m)
  case Nil
  then show ?case by (simp add: bt_ceiling_def)
next
  case (Cons p m)
  obtain h1 v1 where p: "p = (h1, v1)" by (cases p)
  have less: "\<forall>h' \<in> fst ` set m. h1 < h'" and ok: "bt_ok m" using Cons.prems p by (auto simp: bt_ok_def)
  show ?case
  proof (cases "k \<le> h1")
    case True
    have "map_of m h = None" if "h \<le> h1" using less that by (force simp: map_of_eq_None_iff)
    with True p less show ?thesis by (auto simp: bt_ceiling_def intro: less_imp_le)
  next
    case False
    then have "bt_ceiling k (p # m) = bt_ceiling k m" by (simp add: bt_ceiling_def p)
    with Cons.IH [OF ok] False less p show ?thesis by (auto dest: map_of_SomeD)
  qed
qed

lemma bt_ceiling_None: "bt_ceiling k m = None \<longleftrightarrow> (\<forall>h \<in> fst ` set m. h < k)"
  by (auto simp: bt_ceiling_def find_None_iff not_le)

lemma bt_first_Some:
  assumes "bt_ok m"
  shows "bt_first m = Some (h, v) \<longleftrightarrow> map_of m h = Some v \<and> (\<forall>h' \<in> fst ` set m. h \<le> h')"
proof (cases m)
  case Nil
  then show ?thesis by (simp add: bt_first_def)
next
  case (Cons p m')
  obtain h1 v1 where p: "p = (h1, v1)" by (cases p)
  have less: "\<forall>h' \<in> fst ` set m'. h1 < h'" using assms Cons p by (auto simp: bt_ok_def)
  have "map_of m' h = None" if "h \<le> h1" using less that by (force simp: map_of_eq_None_iff)
  with Cons p less show ?thesis by (auto simp: bt_first_def intro: less_imp_le split: if_splits)
qed

subsection \<open>Strings\<close>

definition is_whitespace :: "char \<Rightarrow> bool" where
  "is_whitespace c \<longleftrightarrow> (let n = (of_char c :: nat) in n = 32 \<or> (9 \<le> n \<and> n \<le> 13))"

definition is_alphanumeric :: "char \<Rightarrow> bool" where
  "is_alphanumeric c \<longleftrightarrow>
     (let n = (of_char c :: nat) in (48 \<le> n \<and> n \<le> 57) \<or> (65 \<le> n \<and> n \<le> 90) \<or> (97 \<le> n \<and> n \<le> 122))"

definition lower_char :: "char \<Rightarrow> char" where
  "lower_char c = (let n = (of_char c :: nat) in if 65 \<le> n \<and> n \<le> 90 then char_of (n + 32) else c)"

definition to_lowercase :: "string \<Rightarrow> string" where
  "to_lowercase s = map lower_char s"

definition trim_by :: "(char \<Rightarrow> bool) \<Rightarrow> string \<Rightarrow> string" where
  "trim_by p s = rev (dropWhile p (rev (dropWhile p s)))"

abbreviation trim :: "string \<Rightarrow> string" where
  "trim \<equiv> trim_by is_whitespace"

abbreviation trim_matches :: "char \<Rightarrow> string \<Rightarrow> string" where
  "trim_matches c \<equiv> trim_by ((=) c)"

definition starts_with :: "string \<Rightarrow> string \<Rightarrow> bool" where
  "starts_with p s \<longleftrightarrow> take (length p) s = p"

definition ends_with :: "string \<Rightarrow> string \<Rightarrow> bool" where
  "ends_with p s \<longleftrightarrow> starts_with (rev p) (rev s)"

definition strip_prefix :: "string \<Rightarrow> string \<Rightarrow> string option" where
  "strip_prefix p s = (if starts_with p s then Some (drop (length p) s) else None)"

definition strip_suffix :: "string \<Rightarrow> string \<Rightarrow> string option" where
  "strip_suffix p s = (if ends_with p s then Some (take (length s - length p) s) else None)"

text \<open>\<open>str::split\<close> with a character predicate: always at least one piece.\<close>

fun split_by :: "(char \<Rightarrow> bool) \<Rightarrow> string \<Rightarrow> string list" where
  "split_by p [] = [[]]"
| "split_by p (c # cs) =
     (if p c then [] # split_by p cs
      else (case split_by p cs of [] \<Rightarrow> [[c]] | w # ws \<Rightarrow> (c # w) # ws))"

lemma split_by_not_Nil [simp]: "split_by p s \<noteq> []"
  by (induction s) (auto split: list.splits)

text \<open>Byte offsets that are not UTF-8 character boundaries make a slice panic.\<close>

definition is_char_boundary :: "string \<Rightarrow> nat \<Rightarrow> bool" where
  "is_char_boundary s i \<longleftrightarrow>
     i = 0 \<or> i = length s \<or>
     (i < length s \<and> \<not> (128 \<le> (of_char (s ! i) :: nat) \<and> (of_char (s ! i) :: nat) < 192))"

definition str_slice :: "string \<Rightarrow> nat \<Rightarrow> nat \<Rightarrow> string outcome" where
  "str_slice s a b =
     (if a \<le> b \<and> b \<le> length s \<and> is_char_boundary s a \<and> is_char_boundary s b
      then Ok (take (b - a) (drop a s)) else Panic)"

definition is_ascii :: "string \<Rightarrow> bool" where
  "is_ascii s \<longleftrightarrow> list_all (\<lambda>c. (of_char c :: nat) < 128) s"

lemma is_ascii_boundary: "is_ascii s \<Longrightarrow> i \<le> length s \<Longrightarrow> is_char_boundary s i"
proof (cases "i = length s")
  case True
  then show ?thesis by (simp add: is_char_boundary_def)
next
  case False
  assume "is_ascii s" "i \<le> length s"
  with False have "(of_char (s ! i) :: nat) < 128" "i < length s"
    by (auto simp: is_ascii_def list_all_length)
  then show ?thesis by (simp add: is_char_boundary_def)
qed

lemma str_slice_ascii: "is_ascii s \<Longrightarrow> a \<le> b \<Longrightarrow> b \<le> length s \<Longrightarrow>
    str_slice s a b = Ok (take (b - a) (drop a s))"
  by (simp add: str_slice_def is_ascii_boundary)

text \<open>Decimal rendering, as \<open>format!("{}", n)\<close> of an unsigned integer.\<close>

fun nat_to_string :: "nat \<Rightarrow> string" where
  "nat_to_string n =
     (if n < 10 then [char_of (48 + n)] else nat_to_string (n div 10) @ [char_of (48 + n mod 10)])"

declare nat_to_string.simps [simp del]

lemma nat_to_string_not_Nil [simp]: "nat_to_string n \<noteq> []"
  by (subst nat_to_string.simps) simp

lemma digit_char_inj: "a < 10 \<Longrightarrow> b < 10 \<Longrightarrow> char_of (48 + a) = (char_of (48 + b) :: char) \<Longrightarrow> a = (b :: nat)"
  by (drule arg_cong [where f = "of_char :: char \<Rightarrow> nat"]) simp

lemma nat_to_string_inj: "nat_to_string m = nat_to_string n \<Longrightarrow> m = n"
proof (induction m arbitrary: n rule: nat_to_string.induct)
  case (1 m)
  show ?case
  proof (cases "m < 10")
    case True
    with "1.prems" show ?thesis
      by (cases "n < 10") (auto simp: nat_to_string.simps [of m] nat_to_string.simps [of n]
          append_eq_Cons_conv Cons_eq_append_conv dest: digit_char_inj)
  next
    case False
    show ?thesis
    proof (cases "n < 10")
      case True
      with False "1.prems" show ?thesis
        by (auto simp: nat_to_string.simps [of m] nat_to_string.simps [of n] append_eq_Cons_conv)
    next
      case n: False
      from "1.prems" False n have "nat_to_string (m div 10) = nat_to_string (n div 10)"
        and "char_of (48 + m mod 10) = (char_of (48 + n mod 10) :: char)"
        by (simp_all add: nat_to_string.simps [of m] nat_to_string.simps [of n])
      then have "m div 10 = n div 10" "m mod 10 = n mod 10"
        using "1.IH" False by (auto dest: digit_char_inj [rotated -1])
      then show ?thesis by (metis div_mult_mod_eq)
    qed
  qed
qed

subsection \<open>Interfaces\<close>

text \<open>
  A log file of self-delimiting frames and the loop that reads it: what the loop returns on
  one frame followed by more bytes fixes what it returns on a whole log.
\<close>

locale framed =
  fixes frame :: "'a \<Rightarrow> bytes"
    and wf :: "'a \<Rightarrow> bool"
    and item :: "'a \<Rightarrow> 'b list"
    and read_all :: "bytes \<Rightarrow> 'b list outcome"
  assumes read_nil: "read_all [] = Ok []"
    and read_frame: "wf x \<Longrightarrow> read_all (frame x @ rest) = outcome_map ((@) (item x)) (read_all rest)"
begin

lemma read_frames_append:
  "list_all wf xs \<Longrightarrow>
   read_all (concat (map frame xs) @ rest) = outcome_map ((@) (concat (map item xs))) (read_all rest)"
proof (induction xs)
  case Nil
  then show ?case by (cases "read_all rest") auto
next
  case (Cons x xs)
  then show ?case by (cases "read_all rest") (auto simp: read_frame)
qed

lemma read_frames: "list_all wf xs \<Longrightarrow> read_all (concat (map frame xs)) = Ok (concat (map item xs))"
  using read_frames_append [of xs "[]"] by (simp add: read_nil)

end

text \<open>
  The frame in which a truncated file ends makes the loop fail from its \<open>header\<close>-th byte on.
\<close>

locale framed_strict = framed +
  fixes header :: nat
  assumes read_torn: "wf x \<Longrightarrow> header \<le> k \<Longrightarrow> k < length (frame x) \<Longrightarrow>
      read_all (take k (frame x)) = Err unexpected_eof"
begin

lemma read_torn_tail:
  assumes "list_all wf xs" "wf x" "header \<le> k" "k < length (frame x)"
  shows "read_all (concat (map frame xs) @ take k (frame x)) = Err unexpected_eof"
  using assms by (simp add: read_frames_append read_torn)

end

text \<open>
  A deterministic state machine driven by events: an invariant kept by every admissible step
  holds after every run, and a rank no step lowers never falls.
\<close>

fun ok_run :: "('s \<Rightarrow> 'e \<Rightarrow> bool) \<Rightarrow> ('s \<Rightarrow> 'e \<Rightarrow> 's) \<Rightarrow> 's \<Rightarrow> 'e list \<Rightarrow> bool" where
  "ok_run ok step s [] = True"
| "ok_run ok step s (e # es) = (ok s e \<and> ok_run ok step (step s e) es)"

lemma ok_run_append: "ok_run ok step s (es @ es') \<longleftrightarrow> ok_run ok step s es \<and> ok_run ok step (foldl step s es) es'"
  by (induction es arbitrary: s) auto

locale machine =
  fixes step :: "'s \<Rightarrow> 'e \<Rightarrow> 's"
    and ok :: "'s \<Rightarrow> 'e \<Rightarrow> bool"
    and inv :: "'s \<Rightarrow> bool"
  assumes step_inv: "inv s \<Longrightarrow> ok s e \<Longrightarrow> inv (step s e)"
begin

lemma run_inv: "inv s \<Longrightarrow> ok_run ok step s es \<Longrightarrow> inv (foldl step s es)"
  by (induction es arbitrary: s) (auto intro: step_inv)

end

locale monotone_machine = machine +
  fixes rank_le :: "'a \<Rightarrow> 'a \<Rightarrow> bool"
  assumes rank_refl: "rank_le s s"
    and rank_trans: "rank_le s t \<Longrightarrow> rank_le t u \<Longrightarrow> rank_le s u"
    and step_rank: "inv s \<Longrightarrow> ok s e \<Longrightarrow> rank_le s (step s e)"
begin

lemma run_rank: "inv s \<Longrightarrow> ok_run ok step s es \<Longrightarrow> rank_le s (foldl step s es)"
proof (induction es arbitrary: s)
  case Nil
  then show ?case by (simp add: rank_refl)
next
  case (Cons e es)
  then have "rank_le s (step s e)" "inv (step s e)" by (auto intro: step_rank step_inv)
  with Cons.IH [of "step s e"] Cons.prems show ?case by (auto intro: rank_trans)
qed

end

text \<open>
  A store of documents: in the states that can arise, every admissible change acts on the
  abstract contents as its specification says. Its clients reason about whole histories.
\<close>

fun ok_history :: "('v \<Rightarrow> 's \<Rightarrow> 'o \<Rightarrow> bool) \<Rightarrow> ('v \<Rightarrow> 's \<Rightarrow> 'o \<Rightarrow> 's) \<Rightarrow> 's \<Rightarrow> ('v \<times> 'o) list \<Rightarrow> bool" where
  "ok_history ok f s [] = True"
| "ok_history ok f s ((v, x) # xs) = (ok v s x \<and> ok_history ok f (f v s x) xs)"

definition history_state :: "('v \<Rightarrow> 's \<Rightarrow> 'o \<Rightarrow> 's) \<Rightarrow> 's \<Rightarrow> ('v \<times> 'o) list \<Rightarrow> 's" where
  "history_state f s xs = foldl (\<lambda>s (v, x). f v s x) s xs"

lemma history_state_simps [simp]:
  "history_state f s [] = s" "history_state f s ((v, x) # xs) = history_state f (f v s x) xs"
  by (simp_all add: history_state_def)

locale doc_store =
  fixes arises :: "'s \<Rightarrow> bool"
    and admissible :: "'v \<Rightarrow> 's \<Rightarrow> 'o \<Rightarrow> bool"
    and change :: "'v \<Rightarrow> 's \<Rightarrow> 'o \<Rightarrow> 's"
    and contents :: "'s \<Rightarrow> 'm"
    and spec :: "'v \<Rightarrow> 'm \<Rightarrow> 'o \<Rightarrow> 'm"
  assumes change_arises: "arises s \<Longrightarrow> admissible v s x \<Longrightarrow> arises (change v s x)"
    and change_refines: "arises s \<Longrightarrow> admissible v s x \<Longrightarrow> contents (change v s x) = spec v (contents s) x"
begin

lemma history_arises: "arises s \<Longrightarrow> ok_history admissible change s xs \<Longrightarrow> arises (history_state change s xs)"
proof (induction xs arbitrary: s)
  case Nil
  then show ?case by simp
next
  case (Cons p xs)
  then show ?case by (cases p) (simp add: change_arises)
qed

lemma history_refines:
  "arises s \<Longrightarrow> ok_history admissible change s xs \<Longrightarrow>
   contents (history_state change s xs) = history_state spec (contents s) xs"
proof (induction xs arbitrary: s)
  case Nil
  then show ?case by simp
next
  case (Cons p xs)
  obtain v x where p: "p = (v, x)" by (cases p)
  with Cons.prems have "admissible v s x" "ok_history admissible change (change v s x) xs" by simp_all
  with Cons.IH [of "change v s x"] Cons.prems(1) p show ?case by (simp add: change_arises change_refines)
qed

end

end
