(* ===== verification/Document.thy ===== *)
theory Document
  imports Prelude
begin

text \<open>
  JSON values and documents (\<open>src/src/document.rs\<close>). The type \<open>'n\<close> stands for the numbers of
  \<open>serde_json\<close>, which are not part of the repository: what the code asks of a number is an
  argument of the definitions that ask. An object is an association list (its keys are
  distinct), an array a list.
\<close>

datatype 'n json =
    JNull
  | JBool bool
  | JNum 'n
  | JStr string
  | JArr "'n json list"
  | JObj "(string \<times> 'n json) list"

text \<open>\<open>Value::get\<close>, \<open>as_str\<close> and \<open>as_object\<close>.\<close>

fun json_get :: "'n json \<Rightarrow> string \<Rightarrow> 'n json option" where
  "json_get (JObj m) k = map_of m k"
| "json_get _ k = None"

fun as_str :: "'n json \<Rightarrow> string option" where
  "as_str (JStr s) = Some s"
| "as_str _ = None"

fun as_object :: "'n json \<Rightarrow> (string \<times> 'n json) list option" where
  "as_object (JObj m) = Some m"
| "as_object _ = None"

record 'n document =
  doc_id :: string
  doc_data :: "'n json"
  doc_meta :: "(string, 'n json) hashmap"

text \<open>\<open>Document::new\<close> takes the fresh UUID as an argument.\<close>

definition document_new :: "string \<Rightarrow> 'n json \<Rightarrow> 'n document" where
  "document_new uuid data = \<lparr>doc_id = uuid, doc_data = data, doc_meta = []\<rparr>"

definition document_with_id :: "string \<Rightarrow> 'n json \<Rightarrow> 'n document" where
  "document_with_id ident data = \<lparr>doc_id = ident, doc_data = data, doc_meta = []\<rparr>"

lemma document_new_simps [simp]:
  "doc_id (document_new u v) = u" "doc_data (document_new u v) = v" "doc_meta (document_new u v) = []"
  by (simp_all add: document_new_def)

end
