(* ===== verification/Index.thy ===== *)
theory Index
  imports Document
begin

text \<open>
  The inverted index of \<open>src/src/index.rs\<close>: \<open>map\<close> from a term to the set of documents that
  contain it. \<open>index_document\<close> and \<open>remove_document\<close> walk the JSON value as the code does;
  \<open>search\<close> keeps the loop with its early return. The result vector of \<open>search\<close> lists a hash
  set in arbitrary order, so it is a set here. The interface \<open>ft_index\<close> says what the engine
  and the queries rely on.
\<close>

type_synonym inverted_index = "string \<rightharpoonup> string set"

definition tokenize :: "string \<Rightarrow> string list" where
  "tokenize txt = filter (\<lambda>s. s \<noteq> []) (split_by (\<lambda>c. \<not> is_alphanumeric c) (to_lowercase txt))"

definition add_token :: "string \<Rightarrow> string \<Rightarrow> inverted_index \<Rightarrow> inverted_index" where
  "add_token d t ix = ix(t \<mapsto> insert d (case ix t of None \<Rightarrow> {} | Some s \<Rightarrow> s))"

definition remove_token :: "string \<Rightarrow> string \<Rightarrow> inverted_index \<Rightarrow> inverted_index" where
  "remove_token d t ix =
     (case ix t of
        None \<Rightarrow> ix
      | Some s \<Rightarrow> (let s' = s - {d} in if s' = {} then ix(t := None) else ix(t \<mapsto> s')))"

fun index_document :: "string \<Rightarrow> 'n json \<Rightarrow> inverted_index \<Rightarrow> inverted_index" where
  "index_document d (JStr s) ix = fold (add_token d) (tokenize s) ix"
| "index_document d (JArr arr) ix = fold (\<lambda>v. index_document d v) arr ix"
| "index_document d (JObj obj) ix = fold (\<lambda>v. index_document d v) (map snd obj) ix"
| "index_document d _ ix = ix"

fun remove_document :: "string \<Rightarrow> 'n json \<Rightarrow> inverted_index \<Rightarrow> inverted_index" where
  "remove_document d (JStr s) ix = fold (remove_token d) (tokenize s) ix"
| "remove_document d (JArr arr) ix = fold (\<lambda>v. remove_document d v) arr ix"
| "remove_document d (JObj obj) ix = fold (\<lambda>v. remove_document d v) (map snd obj) ix"
| "remove_document d _ ix = ix"

fun search_loop :: "inverted_index \<Rightarrow> string list \<Rightarrow> string set option \<Rightarrow> string set" where
  "search_loop ix [] res = (case res of None \<Rightarrow> {} | Some s \<Rightarrow> s)"
| "search_loop ix (t # ts) res =
     (case ix t of
        None \<Rightarrow> {}
      | Some s \<Rightarrow> (case res of
            None \<Rightarrow> search_loop ix ts (Some s)
          | Some r \<Rightarrow> search_loop ix ts (Some (r \<inter> s))))"

definition search :: "inverted_index \<Rightarrow> string \<Rightarrow> string set" where
  "search ix query =
     (let tokens = tokenize query in if tokens = [] then {} else search_loop ix tokens None)"

subsection \<open>What a document contributes\<close>

text \<open>The tokens of all strings of a value: the specification the walks are checked against.\<close>

fun json_tokens :: "'n json \<Rightarrow> string set" where
  "json_tokens (JStr s) = set (tokenize s)"
| "json_tokens (JArr arr) = (\<Union>v \<in> set arr. json_tokens v)"
| "json_tokens (JObj obj) = (\<Union>v \<in> set (map snd obj). json_tokens v)"
| "json_tokens _ = {}"

definition posting_add :: "string \<Rightarrow> string set \<Rightarrow> inverted_index \<Rightarrow> inverted_index" where
  "posting_add d ts ix = (\<lambda>t. if t \<in> ts then Some (insert d (case ix t of None \<Rightarrow> {} | Some s \<Rightarrow> s)) else ix t)"

definition posting_del :: "string \<Rightarrow> string set \<Rightarrow> inverted_index \<Rightarrow> inverted_index" where
  "posting_del d ts ix =
     (\<lambda>t. if t \<in> ts then (case ix t of None \<Rightarrow> None | Some s \<Rightarrow> if s - {d} = {} then None else Some (s - {d}))
          else ix t)"

lemma posting_add_Un: "posting_add d ts (posting_add d us ix) = posting_add d (us \<union> ts) ix"
  by (auto simp: posting_add_def fun_eq_iff)

lemma posting_del_Un: "posting_del d ts (posting_del d us ix) = posting_del d (us \<union> ts) ix"
  by (auto simp: posting_del_def fun_eq_iff split: option.splits)

lemma posting_add_empty [simp]: "posting_add d {} ix = ix"
  by (simp add: posting_add_def)

lemma posting_del_empty [simp]: "posting_del d {} ix = ix"
  by (simp add: posting_del_def)

lemma fold_posting_add:
  "(\<And>x ix. x \<in> set xs \<Longrightarrow> f x ix = posting_add d (g x) ix) \<Longrightarrow>
   fold f xs ix = posting_add d (\<Union>x \<in> set xs. g x) ix"
  by (induction xs arbitrary: ix) (auto simp: posting_add_Un)

lemma fold_posting_del:
  "(\<And>x ix. x \<in> set xs \<Longrightarrow> f x ix = posting_del d (g x) ix) \<Longrightarrow>
   fold f xs ix = posting_del d (\<Union>x \<in> set xs. g x) ix"
  by (induction xs arbitrary: ix) (auto simp: posting_del_Un)

lemma add_token_posting: "add_token d t ix = posting_add d {t} ix"
  by (auto simp: add_token_def posting_add_def fun_eq_iff)

lemma remove_token_posting: "remove_token d t ix = posting_del d {t} ix"
  by (auto simp: remove_token_def posting_del_def fun_eq_iff Let_def split: option.splits)

lemma index_document_posting: "index_document d v ix = posting_add d (json_tokens v) ix"
proof (induction d v ix rule: index_document.induct)
  case (1 d s ix)
  then show ?case
    using fold_posting_add [of "tokenize s" "add_token d" d "\<lambda>t. {t}" ix] by (simp add: add_token_posting)
next
  case (3 d obj ix)
  then show ?case
    unfolding json_tokens.simps index_document.simps by (rule fold_posting_add)
qed (auto intro!: fold_posting_add)

lemma remove_document_posting: "remove_document d v ix = posting_del d (json_tokens v) ix"
proof (induction d v ix rule: remove_document.induct)
  case (1 d s ix)
  then show ?case
    using fold_posting_del [of "tokenize s" "remove_token d" d "\<lambda>t. {t}" ix] by (simp add: remove_token_posting)
next
  case (3 d obj ix)
  then show ?case
    unfolding json_tokens.simps remove_document.simps by (rule fold_posting_del)
qed (auto intro!: fold_posting_del)

lemma search_loop_Some:
  "search_loop ix ts (Some r) =
     (if \<forall>t \<in> set ts. ix t \<noteq> None then {d \<in> r. \<forall>t \<in> set ts. \<exists>s. ix t = Some s \<and> d \<in> s} else {})"
  by (induction ts arbitrary: r) (auto split: option.splits)

lemma search_iff:
  "d \<in> search ix q \<longleftrightarrow> tokenize q \<noteq> [] \<and> (\<forall>t \<in> set (tokenize q). \<exists>s. ix t = Some s \<and> d \<in> s)"
proof (cases "tokenize q")
  case Nil
  then show ?thesis by (simp add: search_def)
next
  case (Cons t ts)
  show ?thesis
  proof (cases "ix t")
    case None
    with Cons show ?thesis by (simp add: search_def)
  next
    case (Some s)
    show ?thesis
    proof (cases "\<forall>t \<in> set ts. ix t \<noteq> None")
      case True
      with Cons Some show ?thesis by (simp add: search_def search_loop_Some)
    next
      case False
      then have "\<not> (\<forall>t \<in> set ts. \<exists>s. ix t = Some s \<and> d \<in> s)" by force
      with Cons Some False show ?thesis by (simp add: search_def search_loop_Some)
    qed
  qed
qed

subsection \<open>The interface of the index\<close>

text \<open>
  \<open>rel ix m\<close>: the index \<open>ix\<close> holds exactly the postings of the documents \<open>m\<close>, a map from ids to
  the token sets of their data. The engine needs nothing else of the index.
\<close>

locale ft_index =
  fixes add :: "string \<Rightarrow> 'n json \<Rightarrow> 'i \<Rightarrow> 'i"
    and del :: "string \<Rightarrow> 'n json \<Rightarrow> 'i \<Rightarrow> 'i"
    and find_all :: "'i \<Rightarrow> string \<Rightarrow> string set"
    and terms :: "string \<Rightarrow> string list"
    and toks :: "'n json \<Rightarrow> string set"
    and rel :: "'i \<Rightarrow> (string \<rightharpoonup> string set) \<Rightarrow> bool"
    and fresh :: "'i"
  assumes rel_fresh: "rel fresh Map.empty"
    and rel_add: "rel ix m \<Longrightarrow> m d = None \<Longrightarrow> rel (add d v ix) (m(d \<mapsto> toks v))"
    and rel_del: "rel ix m \<Longrightarrow> m d = Some (toks v) \<Longrightarrow> rel (del d v ix) (m(d := None))"
    and rel_find: "rel ix m \<Longrightarrow>
      find_all ix q = (if terms q = [] then {} else {d. \<exists>ts. m d = Some ts \<and> set (terms q) \<subseteq> ts})"
begin

lemma rel_replace: "rel ix m \<Longrightarrow> m d = Some (toks v) \<Longrightarrow> rel (add d w (del d v ix)) (m(d \<mapsto> toks w))"
  using rel_add [of "del d v ix" "m(d := None)" d w] rel_del [of ix m d v] by simp

lemma find_in_dom: "rel ix m \<Longrightarrow> find_all ix q \<subseteq> dom m"
  by (auto simp: rel_find)

lemma find_mono: "rel ix m \<Longrightarrow> terms p \<noteq> [] \<Longrightarrow> set (terms p) \<subseteq> set (terms q) \<Longrightarrow>
    find_all ix q \<subseteq> find_all ix p"
  by (auto simp: rel_find)

end

definition postings :: "inverted_index \<Rightarrow> (string \<rightharpoonup> string set) \<Rightarrow> bool" where
  "postings ix m \<longleftrightarrow>
     (\<forall>t. ix t = (let s = {d. \<exists>ts. m d = Some ts \<and> t \<in> ts} in if s = {} then None else Some s))"

lemma postings_add:
  assumes "postings ix m" "m d = None \<or> m d = Some ts"
  shows "postings (posting_add d ts ix) (m(d \<mapsto> ts))"
proof -
  have "{e. \<exists>us. (m(d \<mapsto> ts)) e = Some us \<and> t \<in> us} =
      (if t \<in> ts then insert d {e. \<exists>us. m e = Some us \<and> t \<in> us} else {e. \<exists>us. m e = Some us \<and> t \<in> us})"
    for t using assms(2) by auto
  with assms(1) show ?thesis by (auto simp: postings_def posting_add_def Let_def)
qed

lemma postings_del:
  assumes "postings ix m" "m d = Some ts"
  shows "postings (posting_del d ts ix) (m(d := None))"
proof -
  have "{e. \<exists>us. (m(d := None)) e = Some us \<and> t \<in> us} =
      (if t \<in> ts then {e. \<exists>us. m e = Some us \<and> t \<in> us} - {d} else {e. \<exists>us. m e = Some us \<and> t \<in> us})"
    for t using assms(2) by auto
  with assms(1) show ?thesis by (auto simp: postings_def posting_del_def Let_def)
qed

lemma postings_search:
  assumes "postings ix m"
  shows "search ix q =
    (if tokenize q = [] then {} else {d. \<exists>ts. m d = Some ts \<and> set (tokenize q) \<subseteq> ts})"
proof -
  have "(\<exists>s. ix t = Some s \<and> d \<in> s) \<longleftrightarrow> (\<exists>ts. m d = Some ts \<and> t \<in> ts)" for t d
    using assms by (auto simp: postings_def Let_def)
  then show ?thesis
    by (cases "tokenize q") (auto simp: search_iff)
qed

interpretation fti: ft_index index_document remove_document search tokenize json_tokens postings Map.empty
proof unfold_locales
  show "postings Map.empty Map.empty" by (simp add: postings_def)
next
  fix ix m d and v :: "'n json"
  assume "postings ix m"
  then show "m d = None \<Longrightarrow> postings (index_document d v ix) (m(d \<mapsto> json_tokens v))"
    and "m d = Some (json_tokens v) \<Longrightarrow> postings (remove_document d v ix) (m(d := None))"
    by (simp_all add: index_document_posting remove_document_posting postings_add postings_del)
qed (rule postings_search)

end
