(* ===== verification/Query.thy ===== *)
theory Query
  imports Index Complex_Main
begin

text \<open>
  The query language of \<open>src/src/query.rs\<close>: \<open>parse_query\<close> is \<open>Query::parse\<close>, \<open>matches\<close> and
  \<open>execute\<close> the evaluation. Strings are byte strings; every needle the parser looks for is
  ASCII, so the byte offsets of \<open>find_balanced\<close> are character boundaries, and the two slices
  whose ends are fixed numbers or depend on the length go through \<open>str_slice\<close>, which panics.
  A \<open>f64\<close> is a rational, an infinity or NaN (the two zeros compare equal), \<open>str::parse\<close> to it
  rounds to the nearest binary64 number. The numbers of \<open>serde_json\<close> stay abstract: a record
  \<open>number_api\<close> holds the three conversions the code uses. The nesting depth of
  \<open>find_balanced\<close> is unbounded (the code's \<open>i32\<close> overflows after \<open>2 ^ 31\<close> parentheses).
\<close>

subsection \<open>Floating-point numbers\<close>

datatype f64 = FNaN | FNegInf | FFin rat | FPosInf

fun f64_less :: "f64 \<Rightarrow> f64 \<Rightarrow> bool" where
  "f64_less FNegInf (FFin y) = True"
| "f64_less FNegInf FPosInf = True"
| "f64_less (FFin x) (FFin y) = (x < y)"
| "f64_less (FFin x) FPosInf = True"
| "f64_less _ _ = False"

fun f64_eq :: "f64 \<Rightarrow> f64 \<Rightarrow> bool" where
  "f64_eq FNaN _ = False"
| "f64_eq x y = (x = y)"

definition f64_le :: "f64 \<Rightarrow> f64 \<Rightarrow> bool" where
  "f64_le x y \<longleftrightarrow> f64_less x y \<or> f64_eq x y"

text \<open>Rounding a positive rational to 53 significant bits, ties to even, no ulp below \<open>2 ^ -1074\<close>.\<close>

fun bit_length :: "nat \<Rightarrow> nat" where
  "bit_length n = (if n = 0 then 0 else Suc (bit_length (n div 2)))"

declare bit_length.simps [simp del]

definition two_power :: "int \<Rightarrow> rat" where
  "two_power e = (if 0 \<le> e then 2 ^ nat e else 1 / 2 ^ nat (- e))"

definition round_half_even :: "rat \<Rightarrow> int" where
  "round_half_even q =
     (let n = \<lfloor>q\<rfloor>; r = q - of_int n
      in if r < 1 / 2 then n else if 1 / 2 < r then n + 1 else if even n then n else n + 1)"

definition round_f64 :: "rat \<Rightarrow> f64" where
  "round_f64 x =
     (if x = 0 then FFin 0
      else (let (a, b) = quotient_of \<bar>x\<bar>;
                e0 = int (bit_length (nat a)) - int (bit_length (nat b));
                e = (if two_power e0 \<le> \<bar>x\<bar> then e0 else e0 - 1);
                u = two_power (max (e - 52) (- 1074));
                y = of_int (round_half_even (\<bar>x\<bar> / u)) * u
            in if two_power 1024 \<le> y then (if x < 0 then FNegInf else FPosInf)
               else FFin (if x < 0 then - y else y)))"

definition is_digit :: "char \<Rightarrow> bool" where
  "is_digit c \<longleftrightarrow> 48 \<le> (of_char c :: nat) \<and> (of_char c :: nat) \<le> 57"

definition digits_value :: "string \<Rightarrow> nat" where
  "digits_value ds = foldl (\<lambda>v c. 10 * v + (of_char c - 48)) 0 ds"

text \<open>An optional sign.\<close>

definition parse_sign :: "string \<Rightarrow> bool \<times> string" where
  "parse_sign s = (case s of c # r \<Rightarrow> if c = CHR ''-'' then (True, r) else if c = CHR ''+'' then (False, r) else (False, s)
                   | [] \<Rightarrow> (False, []))"

text \<open>\<open>str::parse::<i64>\<close>.\<close>

definition parse_i64 :: "string \<Rightarrow> int option" where
  "parse_i64 s =
     (let (neg, ds) = parse_sign s; v = (if neg then - int (digits_value ds) else int (digits_value ds))
      in if ds \<noteq> [] \<and> list_all is_digit ds \<and> - (2 ^ 63) \<le> v \<and> v < 2 ^ 63 then Some v else None)"

text \<open>The exponent part, the empty string or \<open>e\<close>, a sign and digits.\<close>

definition parse_exponent :: "string \<Rightarrow> int option" where
  "parse_exponent s =
     (case s of
        [] \<Rightarrow> Some 0
      | c # r \<Rightarrow>
          if c = CHR ''e'' \<or> c = CHR ''E''
          then (let (neg, ds) = parse_sign r
                in if ds \<noteq> [] \<and> list_all is_digit ds
                   then Some (if neg then - int (digits_value ds) else int (digits_value ds)) else None)
          else None)"

definition decimal :: "nat \<Rightarrow> int \<Rightarrow> rat" where
  "decimal m e = (if 0 \<le> e then of_nat m * 10 ^ nat e else of_nat m / 10 ^ nat (- e))"

text \<open>\<open>str::parse::<f64>\<close>.\<close>

definition parse_f64 :: "string \<Rightarrow> f64 option" where
  "parse_f64 s =
     (let (neg, body) = parse_sign s; low = to_lowercase body in
      if low = ''nan'' then Some FNaN
      else if low = ''inf'' \<or> low = ''infinity'' then Some (if neg then FNegInf else FPosInf)
      else (let ip = takeWhile is_digit body;
                r = dropWhile is_digit body;
                (fp, r') = (case r of c # q \<Rightarrow> if c = CHR ''.'' then (takeWhile is_digit q, dropWhile is_digit q) else ([], r)
                            | [] \<Rightarrow> ([], []))
            in if ip = [] \<and> fp = [] then None
               else (case parse_exponent r' of
                       None \<Rightarrow> None
                     | Some e \<Rightarrow>
                         let v = decimal (digits_value (ip @ fp)) (e - int (length fp))
                         in Some (round_f64 (if neg then - v else v)))))"

record 'n number_api =
  num_of_i64 :: "int \<Rightarrow> 'n"
  num_of_f64 :: "f64 \<Rightarrow> 'n option"
  num_as_f64 :: "'n \<Rightarrow> f64 option"

subsection \<open>Queries\<close>

datatype 'n query =
    QAll
  | QEq "string list" "'n json"
  | QGt "string list" f64
  | QLt "string list" f64
  | QGte "string list" f64
  | QLte "string list" f64
  | QSearch string
  | QAnd "'n query" "'n query"
  | QOr "'n query" "'n query"

record 'n query_result =
  documents :: "'n document list"
  count :: nat

text \<open>The text of a \<open>ParseError\<close>, whose position is always known.\<close>

definition parse_error :: "string \<Rightarrow> nat \<Rightarrow> string \<Rightarrow> error" where
  "parse_error message pos ctx =
     InvalidQuery (message @ '' at position '' @ nat_to_string pos
                   @ (if ctx = [] then [] else '' near '' @ [CHR 39] @ ctx @ [CHR 39]))"

fun find_from :: "string \<Rightarrow> nat \<Rightarrow> int \<Rightarrow> string \<Rightarrow> nat option" where
  "find_from needle i depth [] = None"
| "find_from needle i depth (c # cs) =
     (let depth' = (if c = CHR ''('' then depth + 1 else if c = CHR '')'' then depth - 1 else depth)
      in if depth' = 0 \<and> starts_with needle (c # cs) then Some i else find_from needle (Suc i) depth' cs)"

definition find_balanced :: "string \<Rightarrow> string \<Rightarrow> nat option" where
  "find_balanced haystack needle = find_from needle 0 0 haystack"

definition parse_path :: "string \<Rightarrow> string list outcome" where
  "parse_path s =
     (let s1 = trim s;
          s2 = (case strip_prefix ''$'' s1 of None \<Rightarrow> s1 | Some r \<Rightarrow> r);
          s3 = (case strip_prefix ''.'' s2 of None \<Rightarrow> s2 | Some r \<Rightarrow> r)
      in if s3 = [] then Err (parse_error ''Empty field path'' 0 s3)
         else Ok (split_by ((=) CHR ''.'') s3))"

definition quoted_by :: "char \<Rightarrow> string \<Rightarrow> bool" where
  "quoted_by q s \<longleftrightarrow> starts_with [q] s \<and> ends_with [q] s"

definition parse_value :: "'n number_api \<Rightarrow> string \<Rightarrow> 'n json outcome" where
  "parse_value num s0 =
     (let s = trim s0 in
      if quoted_by (CHR 34) s \<or> quoted_by (CHR 39) s
      then outcome_map JStr (str_slice s 1 (length s - 1))
      else case parse_i64 s of
          Some n \<Rightarrow> Ok (JNum (num_of_i64 num n))
        | None \<Rightarrow>
            (case Option.bind (parse_f64 s) (num_of_f64 num) of
               Some n \<Rightarrow> Ok (JNum n)
             | None \<Rightarrow>
                 if s = ''true'' then Ok (JBool True)
                 else if s = ''false'' then Ok (JBool False)
                 else if s = ''null'' then Ok JNull
                 else Ok (JStr s)))"

definition parse_number :: "string \<Rightarrow> f64 outcome" where
  "parse_number s = ok_or (parse_f64 (trim s)) (InvalidQuery (''Not a number: '' @ s))"

datatype comparison = CGte | CLte | CGt | CLt | CEq

definition comparisons :: "(string \<times> comparison) list" where
  "comparisons = [(''>='', CGte), (''<='', CLte), (''>'', CGt), (''<'', CLt), (''=='', CEq)]"

fun comparison_query :: "comparison \<Rightarrow> string list \<Rightarrow> f64 \<Rightarrow> 'n query" where
  "comparison_query CGte = QGte"
| "comparison_query CLte = QLte"
| "comparison_query CGt = QGt"
| "comparison_query CLt = QLt"
| "comparison_query CEq = QGt"

text \<open>The body of the loop over the operators, once the operator is found at \<open>pos\<close>.\<close>

definition parse_operator :: "'n number_api \<Rightarrow> string \<Rightarrow> string \<Rightarrow> comparison \<Rightarrow> nat \<Rightarrow> 'n query outcome" where
  "parse_operator num input op v pos =
     (let l = trim (take pos input); r = trim (drop (pos + length op) input) in
      if l = []
      then Err (parse_error (''Missing left-hand side of '' @ [CHR 39] @ op @ [CHR 39] @ '' comparison'') pos input)
      else if r = []
      then Err (parse_error (''Missing right-hand side of '' @ [CHR 39] @ op @ [CHR 39] @ '' comparison'')
                  (pos + length op) input)
      else and_then (parse_path l) (\<lambda>path.
        if v = CEq then outcome_map (QEq path) (parse_value num r)
        else (case parse_number r of
                Ok n \<Rightarrow> Ok (comparison_query v path n)
              | Err _ \<Rightarrow> Err (parse_error
                    (''Expected numeric value for '' @ [CHR 39] @ op @ [CHR 39] @ '' comparison, got ''
                       @ [CHR 39] @ r @ [CHR 39]) (pos + length op) r)
              | Panic \<Rightarrow> Panic)))"

definition unparsable :: "string \<Rightarrow> 'n query outcome" where
  "unparsable input =
     and_then (if 40 < length input then outcome_map (\<lambda>s. s @ ''...'') (str_slice input 0 40) else Ok input)
       (\<lambda>ctx. Err (parse_error (''Unable to parse query: '' @ [CHR 39] @ input @ [CHR 39]) 0 ctx))"

fun parse_comparison :: "'n number_api \<Rightarrow> (string \<times> comparison) list \<Rightarrow> string \<Rightarrow> 'n query outcome" where
  "parse_comparison num [] input = unparsable input"
| "parse_comparison num ((op, v) # ops) input =
     (case find_balanced input op of
        Some pos \<Rightarrow> parse_operator num input op v pos
      | None \<Rightarrow> parse_comparison num ops input)"

definition parse_search :: "string \<Rightarrow> 'n query outcome" where
  "parse_search input =
     (case strip_suffix '')'' (drop 7 input) of
        None \<Rightarrow> Err (parse_error (''Unclosed search(...) expression '' @ [CHR 0xE2, CHR 0x80, CHR 0x94]
                        @ '' missing closing '' @ [CHR 39] @ '')'' @ [CHR 39]) (length input - 1) input)
      | Some inner \<Rightarrow>
          (let t = trim_matches (CHR 39) (trim_matches (CHR 34) (trim inner)) in
           if t = []
           then and_then (str_slice input 0 (min 20 (length input)))
                  (\<lambda>ctx. Err (parse_error ''Empty search term in search(...)'' 7 ctx))
           else Ok (QSearch t)))"

lemma length_trim_by: "length (trim_by p s) \<le> length s"
  unfolding trim_by_def by (metis length_dropWhile_le length_rev le_trans)

lemma find_from_bound:
  "find_from needle i depth s = Some pos \<Longrightarrow>
   i \<le> pos \<and> pos - i + length needle \<le> length s \<and> starts_with needle (drop (pos - i) s)"
proof (induction needle i depth s rule: find_from.induct)
  case (1 needle i depth)
  then show ?case by simp
next
  case (2 needle i depth c cs)
  let ?d = "if c = CHR ''('' then depth + 1 else if c = CHR '')'' then depth - 1 else depth"
  consider (hit) "?d = 0" "starts_with needle (c # cs)" | (miss) "\<not> (?d = 0 \<and> starts_with needle (c # cs))" by blast
  then show ?case
  proof cases
    case hit
    have "length needle \<le> length (c # cs)"
      using hit(2) by (metis length_take min.cobounded1 starts_with_def)
    with hit 2(2) show ?thesis by (simp add: Let_def)
  next
    case miss
    then have "find_from needle (Suc i) ?d cs = Some pos" using 2(2) by (simp only: find_from.simps Let_def if_False)
    then have "Suc i \<le> pos \<and> pos - Suc i + length needle \<le> length cs \<and> starts_with needle (drop (pos - Suc i) cs)"
      using 2(1) [OF refl miss] by blast
    moreover from this have "drop (pos - i) (c # cs) = drop (pos - Suc i) cs" by (simp add: Suc_diff_Suc drop_Cons')
    ultimately show ?thesis by auto
  qed
qed

lemma find_balanced_bound:
  "find_balanced s needle = Some pos \<Longrightarrow> pos + length needle \<le> length s \<and> starts_with needle (drop pos s)"
  using find_from_bound [of needle 0 0 s pos] by (simp add: find_balanced_def)

text \<open>\<open>Query::parse\<close>.\<close>

function parse_query :: "'n number_api \<Rightarrow> string \<Rightarrow> 'n query outcome" where
  "parse_query num raw =
     (let input = trim raw in
      if input = [] then Err (parse_error ''Empty query string'' 0 [])
      else if input = ''*'' \<or> input = ''$'' then Ok QAll
      else if starts_with ''search('' input then parse_search input
      else case find_balanced input '' and '' of
          Some pos \<Rightarrow>
            (let l = take pos input; r = drop (pos + 5) input in
             if trim l = []
             then Err (parse_error (''Missing left-hand side of '' @ [CHR 39] @ ''and'' @ [CHR 39] @ '' expression'') pos input)
             else if trim r = []
             then Err (parse_error (''Missing right-hand side of '' @ [CHR 39] @ ''and'' @ [CHR 39] @ '' expression'')
                        (pos + 5) input)
             else and_then (parse_query num l) (\<lambda>a. and_then (parse_query num r) (\<lambda>b. Ok (QAnd a b))))
        | None \<Rightarrow>
      (case find_balanced input '' or '' of
          Some pos \<Rightarrow>
            (let l = take pos input; r = drop (pos + 4) input in
             if trim l = []
             then Err (parse_error (''Missing left-hand side of '' @ [CHR 39] @ ''or'' @ [CHR 39] @ '' expression'') pos input)
             else if trim r = []
             then Err (parse_error (''Missing right-hand side of '' @ [CHR 39] @ ''or'' @ [CHR 39] @ '' expression'')
                        (pos + 4) input)
             else and_then (parse_query num l) (\<lambda>a. and_then (parse_query num r) (\<lambda>b. Ok (QOr a b))))
        | None \<Rightarrow> parse_comparison num comparisons input))"
  by pat_completeness auto
termination
proof (relation "measure (length \<circ> snd)", goal_cases)
  case 1
  then show ?case by simp
next
  case (2 num raw input pos l r)
  then have "pos < length input"
    using find_balanced_bound [of input "'' and ''" pos] find_balanced_bound [of input "'' or ''" pos] by auto
  with 2 length_trim_by [of is_whitespace raw] show ?case by simp
next
  case (3 num raw input pos l r)
  then have "pos < length input"
    using find_balanced_bound [of input "'' and ''" pos] find_balanced_bound [of input "'' or ''" pos] by auto
  with 3 length_trim_by [of is_whitespace raw] show ?case by simp
next
  case (4 num raw input pos l r)
  then have "pos < length input"
    using find_balanced_bound [of input "'' and ''" pos] find_balanced_bound [of input "'' or ''" pos] by auto
  with 4 length_trim_by [of is_whitespace raw] show ?case by simp
next
  case (5 num raw input pos l r)
  then have "pos < length input"
    using find_balanced_bound [of input "'' and ''" pos] find_balanced_bound [of input "'' or ''" pos] by auto
  with 5 length_trim_by [of is_whitespace raw] show ?case by simp
qed

declare parse_query.simps [simp del]

subsection \<open>Evaluation\<close>

fun resolve_path :: "'n json \<Rightarrow> string list \<Rightarrow> 'n json option" where
  "resolve_path v [] = Some v"
| "resolve_path v (seg # path) =
     (case v of
        JObj m \<Rightarrow> (case map_of m seg of None \<Rightarrow> None | Some w \<Rightarrow> resolve_path w path)
      | _ \<Rightarrow> None)"

definition resolve_number :: "'n number_api \<Rightarrow> 'n json \<Rightarrow> string list \<Rightarrow> f64 option" where
  "resolve_number num v path =
     (case resolve_path v path of Some (JNum n) \<Rightarrow> num_as_f64 num n | _ \<Rightarrow> None)"

definition number_test :: "'n number_api \<Rightarrow> 'n document \<Rightarrow> string list \<Rightarrow> (f64 \<Rightarrow> bool) \<Rightarrow> bool" where
  "number_test num doc path p = (case resolve_number num (doc_data doc) path of None \<Rightarrow> False | Some v \<Rightarrow> p v)"

fun matches :: "'n number_api \<Rightarrow> inverted_index \<Rightarrow> 'n document \<Rightarrow> 'n query \<Rightarrow> bool" where
  "matches num ix doc QAll = True"
| "matches num ix doc (QEq path value) = (resolve_path (doc_data doc) path = Some value)"
| "matches num ix doc (QGt path value) = number_test num doc path (\<lambda>v. f64_less value v)"
| "matches num ix doc (QLt path value) = number_test num doc path (\<lambda>v. f64_less v value)"
| "matches num ix doc (QGte path value) = number_test num doc path (\<lambda>v. f64_le value v)"
| "matches num ix doc (QLte path value) = number_test num doc path (\<lambda>v. f64_le v value)"
| "matches num ix doc (QSearch t) = (doc_id doc \<in> search ix t)"
| "matches num ix doc (QAnd a b) = (matches num ix doc a \<and> matches num ix doc b)"
| "matches num ix doc (QOr a b) = (matches num ix doc a \<or> matches num ix doc b)"

definition execute :: "'n number_api \<Rightarrow> inverted_index \<Rightarrow> 'n document list \<Rightarrow> 'n query \<Rightarrow> 'n query_result" where
  "execute num ix docs q =
     (let matched = filter (\<lambda>d. matches num ix d q) docs in \<lparr>documents = matched, count = length matched\<rparr>)"

subsection \<open>Lemmas on the scanner\<close>

lemma trim_id:
  assumes "s \<noteq> []" "\<not> p (hd s)" "\<not> p (last s)"
  shows "trim_by p s = s"
proof -
  have "dropWhile p s = s" using assms(1,2) by (cases s) auto
  moreover have "dropWhile p (rev s) = rev s" using assms(1,3) by (cases s rule: rev_cases) auto
  ultimately show ?thesis by (simp add: trim_by_def)
qed

lemma trim_ends:
  assumes "trim_by p s = s" "s \<noteq> []"
  shows "\<not> p (hd s) \<and> \<not> p (last s)"
proof -
  let ?t = "dropWhile p s"
  have l: "length (dropWhile p (rev ?t)) = length s" using assms(1) unfolding trim_by_def by (metis length_rev)
  have "length ?t = length s"
    using l length_dropWhile_le [of p "rev ?t"] length_dropWhile_le [of p s] by simp
  then have t: "?t = s" by (metis append_eq_append_conv append_Nil takeWhile_dropWhile_id length_append add_cancel_right_left)
  then have "dropWhile p (rev s) = rev s"
    using l by (metis append_Nil append_eq_append_conv length_rev takeWhile_dropWhile_id length_append add_cancel_right_left)
  with t assms(2) show ?thesis by (metis hd_dropWhile hd_rev rev_is_Nil_conv)
qed

lemma set_trim_by: "set (trim_by p s) \<subseteq> set s"
proof -
  have "set (dropWhile p t) \<subseteq> set t" for t by (induction t) auto
  then show ?thesis unfolding trim_by_def by (metis set_rev subset_trans)
qed

lemma is_ascii_set: "is_ascii s \<longleftrightarrow> (\<forall>c \<in> set s. (of_char c :: nat) < 128)"
  by (simp add: is_ascii_def list_all_iff)

lemma is_ascii_mono: "is_ascii s \<Longrightarrow> set t \<subseteq> set s \<Longrightarrow> is_ascii t"
  by (auto simp: is_ascii_set)

lemma starts_with_append: "starts_with p (p @ s)"
  by (simp add: starts_with_def)

lemma starts_with_set: "starts_with p s \<Longrightarrow> set p \<subseteq> set s"
  by (metis starts_with_def set_take_subset)

lemma starts_with_Cons [simp]: "starts_with (c # p) (d # s) \<longleftrightarrow> c = d \<and> starts_with p s"
  by (auto simp: starts_with_def)

lemma starts_with_Nil [simp]: "starts_with [] s" "\<not> starts_with (c # p) []"
  by (auto simp: starts_with_def)

definition no_parens :: "string \<Rightarrow> bool" where
  "no_parens s \<longleftrightarrow> CHR ''('' \<notin> set s \<and> CHR '')'' \<notin> set s"

lemma find_from_skip:
  assumes "no_parens s" "c \<notin> set s"
  shows "find_from (c # needle) i 0 (s @ rest) = find_from (c # needle) (i + length s) 0 rest"
  using assms by (induction s arbitrary: i) (auto simp: no_parens_def)

lemma find_from_none:
  assumes "no_parens s" "c \<notin> set s"
  shows "find_from (c # needle) i 0 s = None"
  using find_from_skip [OF assms, of needle i "[]"] by simp

lemma find_from_None_iff:
  "no_parens s \<Longrightarrow> find_from needle i 0 s = None \<longleftrightarrow> (\<forall>k < length s. \<not> starts_with needle (drop k s))"
proof (induction s arbitrary: i)
  case Nil
  then show ?case by simp
next
  case (Cons c s)
  from Cons.prems have c: "c \<noteq> CHR ''(''" "c \<noteq> CHR '')''" "no_parens s" by (auto simp: no_parens_def)
  have "(\<forall>k < length (c # s). \<not> starts_with needle (drop k (c # s))) \<longleftrightarrow>
      \<not> starts_with needle (c # s) \<and> (\<forall>k < length s. \<not> starts_with needle (drop k s))"
    by (auto simp: less_Suc_eq_0_disj)
  with Cons.IH [OF c(3), of "Suc i"] c show ?case by simp
qed

subsection \<open>Totality\<close>

lemma outcome_map_eq_Panic [simp]: "outcome_map f r = Panic \<longleftrightarrow> r = Panic"
  by (cases r) auto

lemma and_then_eq_Panic: "and_then m f = Panic \<longleftrightarrow> m = Panic \<or> (\<exists>x. m = Ok x \<and> f x = Panic)"
  by (cases m) auto

definition no_quotes :: "string \<Rightarrow> bool" where
  "no_quotes s \<longleftrightarrow> CHR 34 \<notin> set s \<and> CHR 39 \<notin> set s"

lemma parse_path_not_Panic: "parse_path s \<noteq> Panic"
  by (simp add: parse_path_def Let_def)

lemma parse_value_not_Panic:
  assumes "no_quotes s"
  shows "parse_value num s \<noteq> Panic"
proof -
  have "\<not> starts_with [q] (trim s)" if "q \<notin> set s" for q
    using that set_trim_by [of is_whitespace s] starts_with_set [of "[q]" "trim s"] by auto
  with assms have "\<not> quoted_by (CHR 34) (trim s)" "\<not> quoted_by (CHR 39) (trim s)"
    by (simp_all add: quoted_by_def no_quotes_def)
  then show ?thesis by (simp add: parse_value_def Let_def split: option.splits)
qed

lemma parse_number_not_Panic: "parse_number s \<noteq> Panic"
  by (simp add: parse_number_def)

lemma parse_comparison_not_Panic:
  assumes "is_ascii s" "no_quotes s"
  shows "parse_comparison num ops s \<noteq> Panic"
proof (induction ops)
  case Nil
  show ?case using assms by (simp add: unparsable_def and_then_eq_Panic str_slice_ascii)
next
  case (Cons p ops)
  have "set (trim (drop n s)) \<subseteq> set s" for n
    using set_trim_by set_drop_subset by (metis subset_trans)
  then have "no_quotes (trim (drop n s))" for n using assms(2) by (auto simp: no_quotes_def)
  then have "parse_operator num s op v pos \<noteq> Panic" for op v pos
    by (simp add: parse_operator_def Let_def and_then_eq_Panic parse_path_not_Panic parse_value_not_Panic
        parse_number_not_Panic split: outcome.splits)
  with Cons show ?case by (cases p) (auto split: option.splits)
qed

lemma parse_search_not_Panic: "is_ascii s \<Longrightarrow> parse_search s \<noteq> Panic"
  by (simp add: parse_search_def Let_def and_then_eq_Panic str_slice_ascii split: option.splits)

lemma parse_query_not_Panic:
  "is_ascii raw \<Longrightarrow> no_quotes raw \<Longrightarrow> parse_query num raw \<noteq> Panic"
proof (induction num raw rule: parse_query.induct)
  case (1 num raw)
  have sub: "set (trim raw) \<subseteq> set raw" by (rule set_trim_by)
  have good: "is_ascii t \<and> no_quotes t" if "set t \<subseteq> set (trim raw)" for t
    using that sub 1(5,6) is_ascii_mono [of raw t] by (auto simp: no_quotes_def)
  have part: "is_ascii (take n (trim raw)) \<and> no_quotes (take n (trim raw))"
      "is_ascii (drop n (trim raw)) \<and> no_quotes (drop n (trim raw))" for n
    by (rule good, rule set_take_subset, rule good, rule set_drop_subset)
  show ?case
    using 1(1-4) [OF refl] part good [OF order_refl]
    by (subst parse_query.simps)
       (auto simp: Let_def and_then_eq_Panic parse_search_not_Panic parse_comparison_not_Panic split: option.splits)
qed

subsection \<open>Combinations of atoms\<close>

text \<open>
  An atom is a query without white space or parentheses, such as \<open>age>3\<close>; \<open>join\<close> puts a
  separator between strings and \<open>nest\<close> combines queries to the right.
\<close>

definition atom_text :: "string \<Rightarrow> bool" where
  "atom_text s \<longleftrightarrow>
     s \<noteq> [] \<and> no_parens s \<and> (\<forall>c \<in> set s. \<not> is_whitespace c) \<and> s \<noteq> ''and'' \<and> s \<noteq> ''or''"

fun join :: "string \<Rightarrow> string list \<Rightarrow> string" where
  "join sep [] = []"
| "join sep [x] = x"
| "join sep (x # y # ys) = x @ sep @ join sep (y # ys)"

fun nest :: "('q \<Rightarrow> 'q \<Rightarrow> 'q) \<Rightarrow> 'q list \<Rightarrow> 'q" where
  "nest f [] = undefined"
| "nest f [q] = q"
| "nest f (q # r # rs) = f q (nest f (r # rs))"

lemma space_is_whitespace [simp]: "is_whitespace CHR '' ''"
  by (simp add: is_whitespace_def)

lemma atom_text_D:
  assumes "atom_text a"
  shows "a \<noteq> []" "no_parens a" "CHR '' '' \<notin> set a" "\<not> is_whitespace (hd a)" "\<not> is_whitespace (last a)"
  using assms by (auto simp: atom_text_def)

text \<open>After an atom, the scan for a spaced word stands at the blank that follows it.\<close>

lemma find_from_atom:
  "atom_text a \<Longrightarrow> find_from (CHR '' '' # w) i 0 (a @ rest) = find_from (CHR '' '' # w) (i + length a) 0 rest"
  by (rule find_from_skip) (simp_all add: atom_text_D)

lemma starts_with_atom:
  "atom_text a \<Longrightarrow> CHR '' '' \<notin> set w \<Longrightarrow> w \<noteq> a \<Longrightarrow> rest = [] \<or> hd rest = CHR '' '' \<Longrightarrow>
   \<not> starts_with (w @ [CHR '' '']) (a @ rest)"
proof
  assume a: "atom_text a" and w: "CHR '' '' \<notin> set w" "w \<noteq> a" and r: "rest = [] \<or> hd rest = CHR '' ''"
    and s: "starts_with (w @ [CHR '' '']) (a @ rest)"
  from s obtain u where u: "a @ rest = w @ CHR '' '' # u"
    unfolding starts_with_def by (metis append.assoc append_Cons append_Nil append_take_drop_id)
  have na: "CHR '' '' \<notin> set a" using a by (rule atom_text_D)
  have "takeWhile (\<lambda>c. c \<noteq> CHR '' '') (w @ CHR '' '' # u) = w"
    using w(1) by (auto simp: takeWhile_append takeWhile_eq_all_conv)
  moreover have "takeWhile (\<lambda>c. c \<noteq> CHR '' '') (a @ rest) = a"
    using na r by (cases rest) (auto simp: takeWhile_append takeWhile_eq_all_conv)
  ultimately show False using u w(2) by simp
qed

lemma join_sep_rest: "CHR '' '' = hd sep \<Longrightarrow> sep \<noteq> [] \<Longrightarrow> as \<noteq> [] \<Longrightarrow>
   \<exists>rest. join sep as = hd as @ rest \<and> (rest = [] \<or> hd rest = CHR '' '')"
  by (cases "(sep, as)" rule: join.cases) auto

lemma atom_not_word:
  assumes "atom_text a" "rest = [] \<or> hd rest = CHR '' ''"
  shows "\<not> starts_with ''and '' (a @ rest)" "\<not> starts_with ''or '' (a @ rest)"
  using starts_with_atom [OF assms(1) _ _ assms(2), of "''and''"]
    starts_with_atom [OF assms(1) _ _ assms(2), of "''or''"] assms(1) by (auto simp: atom_text_def)

text \<open>No \<open>and\<close> in atoms joined by \<open>or\<close>.\<close>

lemma find_and_join_or:
  assumes "list_all atom_text as" "as \<noteq> []" "rest = [] \<or> hd rest = CHR '' ''"
  shows "find_from '' and '' i 0 (join '' or '' as @ rest) =
    find_from '' and '' (i + length (join '' or '' as)) 0 rest"
  using assms
proof (induction "'' or ''" as arbitrary: i rule: join.induct)
  case 1
  then show ?case by simp
next
  case (2 a)
  then show ?case by (simp add: find_from_atom)
next
  case (3 a b as)
  obtain r' where r': "join '' or '' (b # as) @ rest = b @ r'" "r' = [] \<or> hd r' = CHR '' ''"
  proof -
    obtain r0 where "join '' or '' (b # as) = b @ r0" "r0 = [] \<or> hd r0 = CHR '' ''"
      using join_sep_rest [of "'' or ''" "b # as"] by auto
    with 3(4) that [of "r0 @ rest"] show thesis by (cases r0) auto
  qed
  have "\<not> starts_with ''and '' (join '' or '' (b # as) @ rest)"
    unfolding r'(1) using 3(2) r'(2) by (intro atom_not_word) auto
  moreover have "find_from '' and '' (i + length a) 0 ('' or '' @ join '' or '' (b # as) @ rest) =
      find_from '' and '' (Suc (Suc (Suc (Suc (i + length a))))) 0 (join '' or '' (b # as) @ rest)"
    using calculation by simp
  ultimately show ?case using 3 by (simp add: find_from_atom add.assoc)
qed

lemma join_ends:
  "list_all (\<lambda>a. a \<noteq> [] \<and> \<not> p (hd a) \<and> \<not> p (last a)) as \<Longrightarrow> as \<noteq> [] \<Longrightarrow>
   join sep as \<noteq> [] \<and> \<not> p (hd (join sep as)) \<and> \<not> p (last (join sep as))"
  by (induction sep as rule: join.induct) auto

lemma set_join: "set (join sep as) \<subseteq> set sep \<union> (\<Union>a \<in> set as. set a)"
  by (induction sep as rule: join.induct) auto

lemma no_parens_not_search: "no_parens s \<Longrightarrow> \<not> starts_with ''search('' s"
  by (auto simp: no_parens_def dest!: starts_with_set)

lemma long_not_star: "2 \<le> length s \<Longrightarrow> s \<noteq> ''*'' \<and> s \<noteq> ''$''"
  by auto

lemma parse_query_and:
  assumes "trim l = l" "trim r = r" "l \<noteq> []" "r \<noteq> []" "no_parens (l @ r)"
    and "find_balanced (l @ '' and '' @ r) '' and '' = Some (length l)"
  shows "parse_query num (l @ '' and '' @ r) =
    and_then (parse_query num l) (\<lambda>a. and_then (parse_query num r) (\<lambda>b. Ok (QAnd a b)))"
proof -
  let ?s = "l @ '' and '' @ r"
  have ends: "\<not> is_whitespace (hd l)" "\<not> is_whitespace (last r)"
    using trim_ends [OF assms(1,3)] trim_ends [OF assms(2,4)] by simp_all
  have "trim ?s = ?s" using ends assms(3,4) by (intro trim_id) auto
  moreover have "\<not> starts_with ''search('' ?s"
    using assms(5) by (intro no_parens_not_search) (simp add: no_parens_def)
  ultimately show ?thesis
    using assms long_not_star [of ?s]
    by (subst parse_query.simps) (simp add: Let_def)
qed

lemma parse_query_or:
  assumes "trim l = l" "trim r = r" "l \<noteq> []" "r \<noteq> []" "no_parens (l @ r)"
    and "find_balanced (l @ '' or '' @ r) '' and '' = None"
    and "find_balanced (l @ '' or '' @ r) '' or '' = Some (length l)"
  shows "parse_query num (l @ '' or '' @ r) =
    and_then (parse_query num l) (\<lambda>a. and_then (parse_query num r) (\<lambda>b. Ok (QOr a b)))"
proof -
  let ?s = "l @ '' or '' @ r"
  have ends: "\<not> is_whitespace (hd l)" "\<not> is_whitespace (last r)"
    using trim_ends [OF assms(1,3)] trim_ends [OF assms(2,4)] by simp_all
  have "trim ?s = ?s" using ends assms(3,4) by (intro trim_id) auto
  moreover have "\<not> starts_with ''search('' ?s"
    using assms(5) by (intro no_parens_not_search) (simp add: no_parens_def)
  ultimately show ?thesis
    using assms long_not_star [of ?s]
    by (subst parse_query.simps) (simp add: Let_def)
qed

lemma trim_join:
  assumes "list_all atom_text as" "as \<noteq> []"
  shows "trim (join sep as) = join sep as" "join sep as \<noteq> []"
proof -
  have "list_all (\<lambda>a. a \<noteq> [] \<and> \<not> is_whitespace (hd a) \<and> \<not> is_whitespace (last a)) as"
    using assms(1) by (auto simp: list_all_iff atom_text_D)
  from join_ends [OF this assms(2), of sep] show "trim (join sep as) = join sep as" "join sep as \<noteq> []"
    by (auto intro: trim_id)
qed

lemma no_parens_join: "no_parens sep \<Longrightarrow> list_all no_parens as \<Longrightarrow> no_parens (join sep as)"
  using set_join [of sep as] by (auto simp: no_parens_def list_all_iff)

lemma atoms_no_parens: "list_all atom_text as \<Longrightarrow> list_all no_parens as"
  by (auto simp: list_all_iff atom_text_D)

lemma or_group:
  assumes "list_all atom_text as" "as \<noteq> []"
  shows "join '' or '' as \<noteq> [] \<and> trim (join '' or '' as) = join '' or '' as \<and> no_parens (join '' or '' as)"
  using trim_join [OF assms] no_parens_join [OF _ atoms_no_parens [OF assms(1)]] by (simp add: no_parens_def)

lemma parse_query_ors:
  "list_all atom_text as \<Longrightarrow> as \<noteq> [] \<Longrightarrow> list_all (\<lambda>a. parse_query num a = Ok (f a)) as \<Longrightarrow>
   parse_query num (join '' or '' as) = Ok (nest QOr (map f as))"
proof (induction "'' or ''" as rule: join.induct)
  case (3 a b as)
  let ?r = "join '' or '' (b # as)"
  have r: "trim ?r = ?r" "?r \<noteq> []" "no_parens ?r"
    using 3(2) trim_join [of "b # as" "'' or ''"] no_parens_join [of "'' or ''" "b # as"] atoms_no_parens [of "b # as"]
    by (simp_all add: no_parens_def)
  have a: "trim a = a" "a \<noteq> []" "no_parens a"
    using 3(2) by (auto intro!: trim_id dest: atom_text_D)
  have "find_balanced (a @ '' or '' @ ?r) '' and '' = None"
    using find_and_join_or [of "a # b # as" "[]" 0] 3(2) by (simp add: find_balanced_def)
  moreover have "find_balanced (a @ '' or '' @ ?r) '' or '' = Some (length a)"
    using 3(2) by (simp add: find_balanced_def find_from_atom)
  ultimately have "parse_query num (a @ '' or '' @ ?r) =
      and_then (parse_query num a) (\<lambda>x. and_then (parse_query num ?r) (\<lambda>y. Ok (QOr x y)))"
    using a r by (intro parse_query_or) (simp_all add: no_parens_def)
  with 3 show ?case by simp
qed simp_all

lemma parse_query_ands:
  "list_all (\<lambda>as. as \<noteq> [] \<and> list_all atom_text as \<and> list_all (\<lambda>a. parse_query num a = Ok (f a)) as) ass \<Longrightarrow> ass \<noteq> [] \<Longrightarrow>
   parse_query num (join '' and '' (map (join '' or '') ass)) = Ok (nest QAnd (map (nest QOr \<circ> map f) ass))"
proof (induction ass rule: induct_list012)
  case (2 as)
  then show ?case by (simp add: parse_query_ors)
next
  case (3 as bs ass)
  let ?l = "join '' or '' as"
  let ?r = "join '' and '' (map (join '' or '') (bs # ass))"
  have all: "list_all (\<lambda>x. x \<noteq> [] \<and> trim x = x \<and> no_parens x) (map (join '' or '') (as # bs # ass))"
    using 3(3) or_group by (fastforce simp: list_all_iff)
  have l: "trim ?l = ?l" "?l \<noteq> []" "no_parens ?l" using all by simp_all
  have "list_all (\<lambda>a. a \<noteq> [] \<and> \<not> is_whitespace (hd a) \<and> \<not> is_whitespace (last a)) (map (join '' or '') (bs # ass))"
    using all by (auto simp: list_all_iff dest: trim_ends)
  from join_ends [OF this, of "'' and ''"] have r: "trim ?r = ?r" "?r \<noteq> []" by (auto intro: trim_id)
  have "no_parens ?r" using all by (intro no_parens_join) (auto simp: list_all_iff no_parens_def [of "'' and ''"])
  moreover have "find_balanced (?l @ '' and '' @ ?r) '' and '' = Some (length ?l)"
    using find_and_join_or [of as "'' and '' @ ?r" 0] 3(3) by (simp add: find_balanced_def)
  ultimately have "parse_query num (?l @ '' and '' @ ?r) =
      and_then (parse_query num ?l) (\<lambda>x. and_then (parse_query num ?r) (\<lambda>y. Ok (QAnd x y)))"
    using l r by (intro parse_query_and) (simp_all add: no_parens_def)
  moreover have "parse_query num ?l = Ok (nest QOr (map f as))" using 3(3) by (intro parse_query_ors) simp_all
  ultimately show ?case using 3 by simp
qed simp

subsection \<open>Comparisons\<close>

text \<open>A path or a literal without white space, parentheses or comparison signs.\<close>

definition operand_text :: "string \<Rightarrow> bool" where
  "operand_text s \<longleftrightarrow> s \<noteq> [] \<and> no_parens s \<and> (\<forall>c \<in> set s. \<not> is_whitespace c) \<and> set s \<inter> set ''<>='' = {}"

lemma operand_text_D:
  assumes "operand_text s"
  shows "s \<noteq> []" "no_parens s" "CHR '' '' \<notin> set s" "CHR ''<'' \<notin> set s" "CHR ''>'' \<notin> set s" "CHR ''='' \<notin> set s"
    and "trim s = s"
  using assms by (auto simp: operand_text_def intro!: trim_id)

lemma find_from_operand:
  assumes "operand_text s" "c \<in> set '' <>=''"
  shows "find_from (c # w) i 0 (s @ rest) = find_from (c # w) (i + length s) 0 rest"
    and "find_from (c # w) i 0 s = None"
  using assms by (auto intro: find_from_skip find_from_none simp: operand_text_D)

definition comparison_text :: "string \<Rightarrow> string \<Rightarrow> string \<Rightarrow> string" where
  "comparison_text p op r = p @ '' '' @ op @ '' '' @ r"

lemma find_in_comparison:
  assumes "operand_text p" "operand_text r" "(op, v) \<in> set comparisons"
  shows "find_balanced (comparison_text p op r) '' and '' = None"
    and "find_balanced (comparison_text p op r) '' or '' = None"
    and "parse_comparison num comparisons (comparison_text p op r) =
      parse_operator num (comparison_text p op r) op v (Suc (length p))"
proof -
  have long: "\<not> starts_with (w @ [CHR '' '']) r" for w
    using operand_text_D(3) [OF assms(2)] starts_with_set [of "w @ [CHR '' '']" r] by auto
  have w: "\<not> starts_with ''and '' r" "\<not> starts_with ''or '' r"
    using long [of "''and''"] long [of "''or''"] by simp_all
  from assms(3) have op: "(op, v) \<in> {(''>='', CGte), (''<='', CLte), (''>'', CGt), (''<'', CLt), (''=='', CEq)}"
    by (simp add: comparisons_def)
  show "find_balanced (comparison_text p op r) '' and '' = None"
    "find_balanced (comparison_text p op r) '' or '' = None"
    using op w by (auto simp: find_balanced_def comparison_text_def find_from_operand [OF assms(1)]
        find_from_operand [OF assms(2)])
  show "parse_comparison num comparisons (comparison_text p op r) =
      parse_operator num (comparison_text p op r) op v (Suc (length p))"
    using op by (auto simp: find_balanced_def comparison_text_def comparisons_def find_from_operand [OF assms(1)]
        find_from_operand [OF assms(2)])
qed

lemma parse_comparison_text:
  assumes "operand_text p" "operand_text r" "(op, v) \<in> set comparisons"
  shows "parse_query num (comparison_text p op r) =
    parse_operator num (comparison_text p op r) op v (Suc (length p))"
proof -
  let ?s = "comparison_text p op r"
  have op: "no_parens op" using assms(3) by (auto simp: comparisons_def no_parens_def)
  have "trim ?s = ?s"
    using assms(1,2) by (intro trim_id) (auto simp: comparison_text_def operand_text_def)
  moreover have "\<not> starts_with ''search('' ?s"
    using operand_text_D(2) [OF assms(1)] operand_text_D(2) [OF assms(2)] op
    by (intro no_parens_not_search) (simp add: comparison_text_def no_parens_def)
  moreover have "2 \<le> length ?s" using assms(1) by (cases p) (auto simp: comparison_text_def operand_text_def)
  ultimately show ?thesis
    using find_in_comparison [OF assms] long_not_star [of ?s]
    by (subst parse_query.simps) (auto simp: Let_def)
qed

lemma split_by_plain: "CHR ''.'' \<notin> set x \<Longrightarrow> split_by ((=) CHR ''.'') x = [x]"
  by (induction x) auto

lemma split_by_dot: "CHR ''.'' \<notin> set x \<Longrightarrow> split_by ((=) CHR ''.'') (x @ CHR ''.'' # y) = x # split_by ((=) CHR ''.'') y"
  by (induction x) auto

lemma split_by_join:
  "segs \<noteq> [] \<Longrightarrow> list_all (\<lambda>x. CHR ''.'' \<notin> set x) segs \<Longrightarrow> split_by ((=) CHR ''.'') (join ''.'' segs) = segs"
  by (induction "''.''" segs rule: join.induct) (auto simp: split_by_plain split_by_dot)

text \<open>The segments of a path as the parser sees them: non-empty names without dots, no \<open>$\<close> first.\<close>

definition path_ok :: "string list \<Rightarrow> bool" where
  "path_ok segs \<longleftrightarrow> segs \<noteq> [] \<and> list_all (\<lambda>x. operand_text x \<and> CHR ''.'' \<notin> set x) segs \<and> hd (hd segs) \<noteq> CHR ''$''"

lemma path_text:
  assumes "path_ok segs"
  shows "operand_text (join ''.'' segs)" "parse_path (join ''.'' segs) = Ok segs"
proof -
  let ?p = "join ''.'' segs"
  have ne: "segs \<noteq> []" and all: "list_all operand_text segs" "list_all (\<lambda>x. CHR ''.'' \<notin> set x) segs"
    using assms by (simp_all add: path_ok_def list_all_iff)
  have hd_p: "?p \<noteq> [] \<and> hd ?p = hd (hd segs)"
    using ne all(1) by (cases "(''.'', segs)" rule: join.cases) (auto simp: operand_text_D)
  have "set ?p \<subseteq> {CHR ''.''} \<union> (\<Union>x \<in> set segs. set x)" using set_join [of "''.''" segs] by simp
  then show op: "operand_text ?p"
    using hd_p all(1) by (fastforce simp: operand_text_def no_parens_def list_all_iff is_whitespace_def)
  have "hd (hd segs) \<in> set (hd segs)" "CHR ''.'' \<notin> set (hd segs)"
    using ne all by (auto simp: list_all_iff operand_text_D)
  then have "hd ?p \<noteq> CHR ''.''" "hd ?p \<noteq> CHR ''$''"
    using hd_p assms by (auto simp: path_ok_def)
  then have "strip_prefix ''.'' ?p = None" "strip_prefix ''$'' ?p = None"
    using hd_p by (cases ?p; simp add: strip_prefix_def)+
  then show "parse_path ?p = Ok segs"
    using hd_p split_by_join [OF ne all(2)] by (simp add: parse_path_def Let_def operand_text_D(7) [OF op])
qed

lemma parse_operator_text:
  assumes "operand_text p" "operand_text r" "parse_path p = Ok segs"
  shows "parse_operator num (comparison_text p op r) op v (Suc (length p)) =
    (if v = CEq then outcome_map (QEq segs) (parse_value num r)
     else (case parse_number r of
             Ok n \<Rightarrow> Ok (comparison_query v segs n)
           | Err _ \<Rightarrow> Err (parse_error
               (''Expected numeric value for '' @ [CHR 39] @ op @ [CHR 39] @ '' comparison, got ''
                  @ [CHR 39] @ r @ [CHR 39]) (Suc (length p) + length op) r)
           | Panic \<Rightarrow> Panic))"
proof -
  have "take (Suc (length p)) (comparison_text p op r) = p @ '' ''" by (simp add: comparison_text_def)
  moreover have "trim (p @ '' '') = p"
  proof -
    have "trim (p @ '' '') = trim p"
      using assms(1) by (cases p) (auto simp: trim_by_def operand_text_def)
    then show ?thesis using assms(1) by (simp add: operand_text_D)
  qed
  moreover have "drop (Suc (length p) + length op) (comparison_text p op r) = '' '' @ r" by (simp add: comparison_text_def)
  moreover have "trim ('' '' @ r) = r" using operand_text_D(7) [OF assms(2)] by (simp add: trim_by_def)
  ultimately show ?thesis using assms operand_text_D(1) by (simp add: parse_operator_def Let_def)
qed

subsection \<open>Properties\<close>

text \<open>A number type for the witnesses: numbers as their \<open>f64\<close> value.\<close>

definition toy_num :: "f64 number_api" where
  "toy_num = \<lparr>num_of_i64 = (\<lambda>i. round_f64 (of_int i)), num_of_f64 = Some, num_as_f64 = Some\<rparr>"

text \<open>
  C35: The parser is total: on ASCII input without quotation marks it returns a query or an error
  and never panics.
\<close>

theorem parse_never_panics:
  assumes "is_ascii raw" and "no_quotes raw"
  shows "(\<exists>q. parse_query num raw = Ok q) \<or> (\<exists>e. parse_query num raw = Err e)"
  using parse_query_not_Panic [OF assms, of num] by (cases "parse_query num raw") auto

theorem parse_never_panics_witness:
  "(\<exists>q. parse_query toy_num ''(a'' = Ok q) \<or> (\<exists>e. parse_query toy_num ''(a'' = Err e)"
  by (rule parse_never_panics) (simp_all add: is_ascii_def no_quotes_def)

text \<open>
  A comparison with a lone quotation mark on its right, such as \<open>name == "\<close>, makes the
  parser panic (\<open>s[1..s.len() - 1]\<close> on a string of length one).
\<close>

theorem parse_lone_quote_panics:
  assumes "path_ok segs" and "q = CHR 34 \<or> q = CHR 39"
  shows "parse_query num (comparison_text (join ''.'' segs) ''=='' [q]) = Panic"
proof -
  have "operand_text [q]" using assms(2) by (auto simp: operand_text_def no_parens_def is_whitespace_def)
  moreover have "(''=='', CEq) \<in> set comparisons" by (simp add: comparisons_def)
  moreover have "parse_value num [q] = Panic"
    using assms(2) by (auto simp: parse_value_def quoted_by_def ends_with_def str_slice_def trim_by_def is_whitespace_def)
  ultimately show ?thesis
    using path_text [OF assms(1)] by (simp add: parse_comparison_text parse_operator_text)
qed

theorem parse_lone_quote_panics_witness:
  "parse_query toy_num (''name == '' @ [CHR 34]) = Panic"
  using parse_lone_quote_panics [of "[''name'']" "CHR 34" toy_num]
  by (simp add: path_ok_def operand_text_def no_parens_def is_whitespace_def comparison_text_def)

text \<open>
  Ordering comparisons read back what they were written from: a path, an operator and the
  text of a number give the comparison of that path with that number.
\<close>

theorem parse_ordering_roundtrip:
  assumes "path_ok segs" "(op, v) \<in> set comparisons" "v \<noteq> CEq" "operand_text r" "parse_f64 r = Some x"
  shows "parse_query num (comparison_text (join ''.'' segs) op r) = Ok (comparison_query v segs x)"
  using path_text [OF assms(1)] assms(2-5) operand_text_D(7) [OF assms(4)]
  by (simp add: parse_comparison_text [OF _ _ assms(2)] parse_operator_text parse_number_def)

theorem parse_ordering_roundtrip_witness:
  "parse_query toy_num ''user.age >= 25'' = Ok (QGte [''user'', ''age''] (FFin 25))"
proof -
  have "parse_f64 ''25'' = Some (FFin 25)" by code_simp
  from parse_ordering_roundtrip [OF _ _ _ _ this, of "[''user'', ''age'']" "''>=''" CGte toy_num] show ?thesis
    by (simp add: path_ok_def operand_text_def no_parens_def is_whitespace_def comparison_text_def comparisons_def)
qed

text \<open>
  Equality with a quoted string reads back the path and the string between the quotation
  marks, also when that string looks like a number or a keyword.
\<close>

theorem parse_string_equality_roundtrip:
  assumes "path_ok segs" "s = [] \<or> operand_text s" "is_ascii s"
  shows "parse_query num (comparison_text (join ''.'' segs) ''=='' ([CHR 34] @ s @ [CHR 34])) = Ok (QEq segs (JStr s))"
proof -
  let ?r = "[CHR 34] @ s @ [CHR 34]"
  have r: "operand_text ?r"
    using assms(2) by (auto simp: operand_text_def no_parens_def is_whitespace_def)
  have "str_slice ?r 1 (length ?r - 1) = Ok s"
    using assms(3) by (subst str_slice_ascii) (simp_all add: is_ascii_def)
  then have "parse_value num ?r = Ok (JStr s)"
    using operand_text_D(7) [OF r] by (simp add: parse_value_def quoted_by_def ends_with_def)
  moreover have "(''=='', CEq) \<in> set comparisons" by (simp add: comparisons_def)
  ultimately show ?thesis
    using path_text [OF assms(1)] r by (simp add: parse_comparison_text parse_operator_text)
qed

theorem parse_string_equality_roundtrip_witness:
  "parse_query toy_num (''zip == '' @ [CHR 34] @ ''007'' @ [CHR 34]) = Ok (QEq [''zip''] (JStr ''007''))"
  using parse_string_equality_roundtrip [of "[''zip'']" "''007''" toy_num]
  by (simp add: path_ok_def operand_text_def no_parens_def is_whitespace_def comparison_text_def is_ascii_def)

text \<open>
  Precedence and associativity. Groups of atoms joined by \<open>or\<close>, themselves joined by
  \<open>and\<close>, parse to the conjunction of the disjunctions, both nested to the right: \<open>and\<close> binds
  looser than \<open>or\<close>.
\<close>

theorem parse_and_of_ors:
  assumes "ass \<noteq> []"
    and "list_all (\<lambda>as. as \<noteq> [] \<and> list_all (\<lambda>a. atom_text a \<and> parse_query num a = Ok (f a)) as) ass"
  shows "parse_query num (join '' and '' (map (join '' or '') ass)) = Ok (nest QAnd (map (nest QOr \<circ> map f) ass))"
  using assms by (intro parse_query_ands) (auto simp: list_all_iff)

theorem parse_and_of_ors_witness:
  "parse_query toy_num ''* or $ and *'' = Ok (QAnd (QOr QAll QAll) QAll)"
proof -
  have "parse_query toy_num ''*'' = Ok QAll" "parse_query toy_num ''$'' = Ok QAll"
    by (simp_all add: parse_query.simps trim_by_def is_whitespace_def)
  then show ?thesis
    using parse_and_of_ors [of "[[''*'', ''$''], [''*'']]" toy_num "\<lambda>a. QAll"]
    by (simp add: atom_text_def no_parens_def is_whitespace_def)
qed

text \<open>
  Everything between \<open>search(\<close> and the last parenthesis is the search term, so two searches
  combined with \<open>and\<close> are one search for a mangled term.
\<close>

theorem parse_search_takes_all:
  assumes "trim_matches (CHR 39) (trim_matches (CHR 34) (trim t)) \<noteq> []"
  shows "parse_query num (''search('' @ t @ '')'') =
    Ok (QSearch (trim_matches (CHR 39) (trim_matches (CHR 34) (trim t))))"
proof -
  let ?s = "''search('' @ t @ '')''"
  have "trim ?s = ?s" by (intro trim_id) (simp_all add: is_whitespace_def)
  moreover have "strip_suffix '')'' (drop 7 ?s) = Some t"
    by (simp add: strip_suffix_def ends_with_def)
  ultimately show ?thesis
    using assms by (subst parse_query.simps) (simp add: parse_search_def Let_def)
qed

theorem parse_search_takes_all_witness:
  "parse_query toy_num (''search('' @ ([CHR 34] @ ''a'' @ [CHR 34] @ '') and search('' @ [CHR 34] @ ''b'' @ [CHR 34]) @ '')'') =
     Ok (QSearch (''a'' @ [CHR 34] @ '') and search('' @ [CHR 34] @ ''b''))"
  by (subst parse_search_takes_all) (simp_all add: trim_by_def is_whitespace_def)

end
