(* ===== verification/QueryShape.thy ===== *)
theory QueryShape
  imports Query
begin

text \<open>
  The queries a text can denote: what \<open>Query::parse\<close> (\<open>src/src/query.rs\<close>) gives is a conjunction of
  disjunctions of comparisons and searches, with paths, values and terms of a certain form. No
  text denotes a conjunction below a disjunction.
\<close>

fun scalar :: "'n json \<Rightarrow> bool" where
  "scalar JNull = True"
| "scalar (JBool b) = True"
| "scalar (JNum n) = True"
| "scalar (JStr s) = True"
| "scalar _ = False"

fun disjunctive :: "'n query \<Rightarrow> bool" where
  "disjunctive (QAnd a b) = False"
| "disjunctive (QOr a b) = (disjunctive a \<and> disjunctive b)"
| "disjunctive (QEq path v) = (path \<noteq> [] \<and> scalar v)"
| "disjunctive (QGt path n) = (path \<noteq> [])"
| "disjunctive (QLt path n) = (path \<noteq> [])"
| "disjunctive (QGte path n) = (path \<noteq> [])"
| "disjunctive (QLte path n) = (path \<noteq> [])"
| "disjunctive (QSearch t) = (t \<noteq> [])"
| "disjunctive QAll = True"

fun well_formed :: "'n query \<Rightarrow> bool" where
  "well_formed (QAnd a b) = (well_formed a \<and> well_formed b)"
| "well_formed q = disjunctive q"

lemma disjunctive_well_formed: "disjunctive q \<Longrightarrow> well_formed q"
  by (cases q) auto

subsection \<open>The scanner on parts of a text\<close>

definition paren_step :: "char \<Rightarrow> int \<Rightarrow> int" where
  "paren_step c d = (if c = CHR ''('' then d + 1 else if c = CHR '')'' then d - 1 else d)"

lemma find_from_Cons:
  "find_from needle i d (c # cs) =
     (if paren_step c d = 0 \<and> starts_with needle (c # cs) then Some i else find_from needle (Suc i) (paren_step c d) cs)"
  by (simp add: paren_step_def Let_def)

declare find_from.simps(2) [simp del]

lemma find_from_shift: "find_from needle i d s = None \<Longrightarrow> find_from needle j d s = None"
  by (induction s arbitrary: i j d) (auto simp: find_from_Cons split: if_splits)

lemma starts_with_extend: "starts_with p s \<Longrightarrow> starts_with p (s @ t)"
  by (auto simp: starts_with_def) (metis append_Nil2 append_take_drop_id diff_is_0_eq length_take min.cobounded2 nat_le_linear take_all take_append)

lemma find_from_prefix: "find_from needle i d (s @ t) = None \<Longrightarrow> find_from needle i d s = None"
proof (induction s arbitrary: i d)
  case (Cons c s)
  then show ?case using starts_with_extend [of needle "c # s" t] by (auto simp: find_from_Cons split: if_splits)
qed simp

lemma find_from_suffix: "find_from needle i d (s @ t) = None \<Longrightarrow> find_from needle j (fold paren_step s d) t = None"
proof (induction s arbitrary: i d)
  case Nil
  then show ?case by (auto intro: find_from_shift)
next
  case (Cons c s)
  then show ?case by (auto simp: find_from_Cons split: if_splits)
qed

lemma balance_at_hit:
  "find_from needle i d s = Some pos \<Longrightarrow> needle \<noteq> [] \<Longrightarrow> no_parens needle \<Longrightarrow> fold paren_step (take (pos - i) s) d = 0"
proof (induction s arbitrary: i d)
  case (Cons c s)
  show ?case
  proof (cases "paren_step c d = 0 \<and> starts_with needle (c # s)")
    case True
    then have "c \<in> set needle" using Cons.prems(2) by (cases needle) auto
    then have "paren_step c d = d" using Cons.prems(3) by (auto simp: paren_step_def no_parens_def)
    with True Cons.prems(1) show ?thesis by (simp add: find_from_Cons)
  next
    case False
    then have hit: "find_from needle (Suc i) (paren_step c d) s = Some pos" using Cons.prems(1) by (simp add: find_from_Cons split: if_splits)
    from find_from_bound [OF this] have "Suc i \<le> pos" by blast
    then have "pos - i = Suc (pos - Suc i)" by arith
    with Cons.IH [OF hit Cons.prems(2,3)] show ?thesis by simp
  qed
qed simp

lemma balance_no_parens: "no_parens s \<Longrightarrow> fold paren_step s d = d"
  by (induction s arbitrary: d) (auto simp: paren_step_def no_parens_def)

lemma trim_parts:
  obtains u v where "s = u @ trim_by p s @ v" "\<And>c. c \<in> set u \<Longrightarrow> p c" "\<And>c. c \<in> set v \<Longrightarrow> p c"
proof
  let ?t = "dropWhile p s"
  have "?t = trim_by p s @ rev (takeWhile p (rev ?t))"
    unfolding trim_by_def by (metis rev_append rev_rev_ident takeWhile_dropWhile_id)
  then show "s = takeWhile p s @ trim_by p s @ rev (takeWhile p (rev ?t))" by (metis takeWhile_dropWhile_id)
  show "\<And>c. c \<in> set (takeWhile p s) \<Longrightarrow> p c" "\<And>c. c \<in> set (rev (takeWhile p (rev ?t))) \<Longrightarrow> p c"
    by (auto dest: set_takeWhileD)
qed

lemma find_balanced_trim:
  assumes "find_balanced s needle = None"
  shows "find_balanced (trim s) needle = None"
proof -
  obtain u v where parts: "s = u @ trim s @ v" "\<And>c. c \<in> set u \<Longrightarrow> is_whitespace c" by (rule trim_parts [of s is_whitespace]) auto
  have "\<not> is_whitespace CHR ''(''" "\<not> is_whitespace CHR '')''" by code_simp+
  then have "no_parens u" using parts(2) by (auto simp: no_parens_def)
  moreover have "find_from needle 0 0 (u @ (trim s @ v)) = None" using assms parts(1) by (simp add: find_balanced_def)
  ultimately have "find_from needle 0 0 (trim s @ v) = None" using find_from_suffix balance_no_parens by metis
  then show ?thesis by (auto simp: find_balanced_def intro: find_from_prefix)
qed

text \<open>Both sides of an \<open>or\<close> in a text without \<open>and\<close> have no \<open>and\<close>.\<close>

lemma sides_without_and:
  assumes "find_balanced s '' and '' = None" "find_balanced s '' or '' = Some pos"
  shows "find_balanced (trim (take pos s)) '' and '' = None" "find_balanced (trim (drop (pos + 4) s)) '' and '' = None"
proof -
  have "take 4 (drop pos s) = '' or ''"
    using find_balanced_bound [OF assms(2)] by (simp add: starts_with_def eval_nat_numeral)
  then have s: "s = take pos s @ drop pos s" "drop pos s = '' or '' @ drop (pos + 4) s"
    using append_take_drop_id [of 4 "drop pos s"] by (simp_all add: add.commute)
  have none: "find_from '' and '' 0 0 (take pos s @ ('' or '' @ drop (pos + 4) s)) = None"
    using assms(1) s by (simp add: find_balanced_def)
  then show "find_balanced (trim (take pos s)) '' and '' = None"
    by (intro find_balanced_trim) (auto simp: find_balanced_def intro: find_from_prefix)
  have "fold paren_step (take pos s) 0 = 0"
    using balance_at_hit [of "'' or ''" 0 0 s pos] assms(2) by (simp add: find_balanced_def no_parens_def)
  with find_from_suffix [OF none] have "find_from '' and '' 0 0 ('' or '' @ drop (pos + 4) s) = None" by metis
  moreover have "fold paren_step '' or '' 0 = 0" by (simp add: paren_step_def)
  ultimately have "find_from '' and '' 0 0 (drop (pos + 4) s) = None" using find_from_suffix by metis
  then show "find_balanced (trim (drop (pos + 4) s)) '' and '' = None"
    by (intro find_balanced_trim) (simp add: find_balanced_def)
qed

subsection \<open>The shape of parsed queries\<close>

lemma parse_path_not_Nil: "parse_path s = Ok path \<Longrightarrow> path \<noteq> []"
  by (auto simp: parse_path_def Let_def split: if_splits)

lemma parse_value_scalar: "parse_value num s = Ok v \<Longrightarrow> scalar v"
  by (auto simp: parse_value_def Let_def elim!: outcome_map_OkE split: if_splits option.splits)

lemma parse_comparison_shape: "parse_comparison num ops s = Ok q \<Longrightarrow> disjunctive q"
proof (induction ops)
  case Nil
  then show ?case by (auto simp: unparsable_def elim!: and_then_OkE)
next
  case (Cons p ops)
  have "disjunctive q" if "parse_operator num s op v pos = Ok q" for op v pos
    using that
    by (cases v; cases "parse_number (trim (drop (pos + length op) s))")
       (auto simp: parse_operator_def Let_def
        dest: parse_path_not_Nil parse_value_scalar elim!: and_then_OkE outcome_map_OkE split: if_splits outcome.splits)
  with Cons show ?case by (cases p) (auto split: option.splits)
qed

lemma parse_search_shape: "parse_search s = Ok q \<Longrightarrow> disjunctive q"
  by (auto simp: parse_search_def Let_def elim!: and_then_OkE split: option.splits if_splits)

text \<open>
  C36: Every text denotes a conjunction of disjunctions. A query that \<open>parse\<close> gives has no \<open>and\<close>
  below an \<open>or\<close>, its paths and search terms are not empty, and the values it compares with are
  scalars; \<open>(a and b) or c\<close> has no text.
\<close>

theorem parsed_query_well_formed:
  assumes "parse_query num raw = Ok q"
  shows "well_formed q \<and> (find_balanced (trim raw) '' and '' = None \<longrightarrow> disjunctive q)"
  using assms
proof (induction num raw arbitrary: q rule: parse_query.induct)
  case (1 num raw)
  let ?s = "trim raw"
  consider (leaf) "disjunctive q"
    | (conj) pos a b where "find_balanced ?s '' and '' = Some pos" "q = QAnd a b"
        "parse_query num (take pos ?s) = Ok a" "parse_query num (drop (pos + 5) ?s) = Ok b"
        "?s \<noteq> []" "\<not> (?s = ''*'' \<or> ?s = ''$'')" "\<not> starts_with ''search('' ?s" "trim (take pos ?s) \<noteq> []" "trim (drop (pos + 5) ?s) \<noteq> []"
    | (disj) pos a b where "find_balanced ?s '' and '' = None" "find_balanced ?s '' or '' = Some pos" "q = QOr a b"
        "parse_query num (take pos ?s) = Ok a" "parse_query num (drop (pos + 4) ?s) = Ok b"
        "?s \<noteq> []" "\<not> (?s = ''*'' \<or> ?s = ''$'')" "\<not> starts_with ''search('' ?s" "trim (take pos ?s) \<noteq> []" "trim (drop (pos + 4) ?s) \<noteq> []"
    using 1(5) by (subst (asm) parse_query.simps)
      (auto simp: Let_def dest: parse_search_shape parse_comparison_shape elim!: and_then_OkE split: if_splits option.splits)
  then show ?case
  proof cases
    case leaf
    then show ?thesis by (simp add: disjunctive_well_formed)
  next
    case conj
    from 1(3) [OF refl conj(5,6,7,1) refl refl conj(8,9) conj(3)] 1(4) [OF refl conj(5,6,7,1) refl refl conj(8,9,3,4)] conj(1,2)
    show ?thesis by simp
  next
    case disj
    from 1(1) [OF refl disj(6,7,8,1,2) refl refl disj(9,10) disj(4)] 1(2) [OF refl disj(6,7,8,1,2) refl refl disj(9,10,4,5)]
      sides_without_and [OF disj(1,2)] disj(3)
    show ?thesis by simp
  qed
qed

theorem parsed_query_well_formed_witness:
  "well_formed (QAnd (QOr (QEq [''a''] (JStr ''x'')) (QSearch ''y'')) (QGt [''b''] (FFin 2)) :: f64 query)"
proof -
  have "parse_query toy_num ''a==x or search(y) and b>2'' = Ok (QAnd (QOr (QEq [''a''] (JStr ''x'')) (QSearch ''y'')) (QGt [''b''] (FFin 2)))"
    by code_simp
  from parsed_query_well_formed [OF this] show ?thesis ..
qed

end
