(* ===== verification/Storage.thy ===== *)
theory Storage
  imports Prelude
begin

text \<open>
  The page file of \<open>src/src/storage.rs\<close>: a header in page 0, pages of 4096 bytes, a list of free
  pages threaded through their first four bytes. A \<open>storage\<close> is the file and the header the
  handle caches. \<open>storage_ok\<close> relates the two, \<open>free_chain\<close> says which pages the free list
  holds.
\<close>

subsection \<open>Header\<close>

definition PAGE_SIZE :: nat where
  "PAGE_SIZE = 4096"

definition MAGIC :: bytes where
  "MAGIC = ''CDB1''"

definition VERSION :: nat where
  "VERSION = 1"

record header =
  magic :: bytes
  version :: nat
  page_size :: nat
  num_pages :: nat
  free_list_head :: nat
  doc_count :: nat

definition header_new :: header where
  "header_new = \<lparr>magic = MAGIC, version = VERSION, page_size = PAGE_SIZE, num_pages = 1,
     free_list_head = 0, doc_count = 0\<rparr>"

definition header_encode :: "header \<Rightarrow> bytes" where
  "header_encode h =
     set_len (magic h @ le_bytes 2 (version h) @ le_bytes 2 (page_size h) @ le_bytes 4 (num_pages h)
       @ le_bytes 4 (free_list_head h) @ le_bytes 4 (doc_count h)) PAGE_SIZE"

definition header_decode :: "bytes \<Rightarrow> header outcome" where
  "header_decode bs =
     (if length bs < 64 then Err (Corrupt ''Header too short'')
      else and_then (ok_or (read_exact 4 bs) unexpected_eof) (\<lambda>(mg, r).
        if mg \<noteq> MAGIC then Err (Corrupt ''Invalid magic'')
        else and_then (ok_or (read_le 2 r) unexpected_eof) (\<lambda>(v, r).
          and_then (ok_or (read_le 2 r) unexpected_eof) (\<lambda>(ps, r).
          and_then (ok_or (read_le 4 r) unexpected_eof) (\<lambda>(np, r).
          and_then (ok_or (read_le 4 r) unexpected_eof) (\<lambda>(fl, r).
          and_then (ok_or (read_le 4 r) unexpected_eof) (\<lambda>(dc, r).
            Ok \<lparr>magic = mg, version = v, page_size = ps, num_pages = np, free_list_head = fl,
                doc_count = dc\<rparr>)))))))"

subsection \<open>Pages\<close>

record storage =
  st_file :: bytes
  st_header :: header

definition storage_open :: "bytes \<Rightarrow> storage outcome" where
  "storage_open f =
     (if f = [] then Ok \<lparr>st_file = header_encode header_new, st_header = header_new\<rparr>
      else and_then (ok_or (read_exact PAGE_SIZE f) unexpected_eof) (\<lambda>(buf, _).
        and_then (header_decode buf) (\<lambda>h. Ok \<lparr>st_file = f, st_header = h\<rparr>)))"

definition sync_header :: "storage \<Rightarrow> storage" where
  "sync_header st = st\<lparr>st_file := write_at (st_file st) 0 (header_encode (st_header st))\<rparr>"

definition allocate_page :: "storage \<Rightarrow> (storage \<times> nat) outcome" where
  "allocate_page st =
     (let h = st_header st in
      if free_list_head h \<noteq> 0 then
        (let page_id = free_list_head h; offset = page_id * PAGE_SIZE in
         and_then (ok_or (read_le 4 (drop offset (st_file st))) unexpected_eof) (\<lambda>(nxt, _).
           Ok (sync_header (st\<lparr>st_header := h\<lparr>free_list_head := nxt\<rparr>\<rparr>), page_id)))
      else
        (let page_id = num_pages h;
             st1 = sync_header (st\<lparr>st_header := h\<lparr>num_pages := u32_add page_id 1\<rparr>\<rparr>)
         in Ok (st1\<lparr>st_file := write_at (st_file st1) (page_id * PAGE_SIZE)
                     (replicate PAGE_SIZE (char_of (0 :: nat)))\<rparr>, page_id)))"

definition read_page :: "storage \<Rightarrow> nat \<Rightarrow> bytes outcome" where
  "read_page st page_id =
     and_then (ok_or (read_exact PAGE_SIZE (drop (page_id * PAGE_SIZE) (st_file st))) unexpected_eof)
       (\<lambda>(buf, _). Ok buf)"

definition write_page :: "storage \<Rightarrow> nat \<Rightarrow> bytes \<Rightarrow> storage outcome" where
  "write_page st page_id data =
     (if length data \<noteq> PAGE_SIZE then Panic
      else Ok (st\<lparr>st_file := write_at (st_file st) (page_id * PAGE_SIZE) data\<rparr>))"

definition free_page :: "storage \<Rightarrow> nat \<Rightarrow> storage" where
  "free_page st page_id =
     (let h = st_header st;
          f = write_at (st_file st) (page_id * PAGE_SIZE) (le_bytes 4 (free_list_head h))
      in sync_header (st\<lparr>st_file := f, st_header := h\<lparr>free_list_head := page_id\<rparr>\<rparr>))"

text \<open>The \<open>i32\<close> delta is an integer; \<open>(-delta) as u32\<close> of the least \<open>i32\<close> is \<open>2 ^ 31\<close>.\<close>

definition increment_doc_count :: "storage \<Rightarrow> int \<Rightarrow> storage" where
  "increment_doc_count st delta =
     (let h = st_header st;
          c = (if 0 \<le> delta then u32_saturating_add (doc_count h) (nat delta)
               else u32_saturating_sub (doc_count h) (nat (- delta)))
      in sync_header (st\<lparr>st_header := h\<lparr>doc_count := c\<rparr>\<rparr>))"

subsection \<open>Invariant\<close>

definition header_ok :: "header \<Rightarrow> bool" where
  "header_ok h \<longleftrightarrow> magic h = MAGIC \<and> version h < 2 ^ 16 \<and> page_size h < 2 ^ 16 \<and>
     0 < num_pages h \<and> num_pages h < 2 ^ 32 \<and> free_list_head h < 2 ^ 32 \<and> doc_count h < 2 ^ 32"

definition storage_ok :: "storage \<Rightarrow> bool" where
  "storage_ok st \<longleftrightarrow> header_ok (st_header st) \<and>
     num_pages (st_header st) * PAGE_SIZE \<le> length (st_file st) \<and>
     take PAGE_SIZE (st_file st) = header_encode (st_header st)"

definition page_bytes :: "storage \<Rightarrow> nat \<Rightarrow> bytes" where
  "page_bytes st i = take PAGE_SIZE (drop (i * PAGE_SIZE) (st_file st))"

text \<open>The pages of the free list, from its head to the terminating 0.\<close>

fun free_chain :: "storage \<Rightarrow> nat \<Rightarrow> nat list \<Rightarrow> bool" where
  "free_chain st p0 [] \<longleftrightarrow> p0 = 0"
| "free_chain st p0 (p # ps) \<longleftrightarrow> p0 = p \<and> 0 < p \<and> p < num_pages (st_header st) \<and> p \<notin> set ps \<and>
     free_chain st (le_value (take 4 (page_bytes st p))) ps"

lemma PAGE_SIZE_pos [simp]: "0 < PAGE_SIZE" "PAGE_SIZE \<noteq> 0"
  by (simp_all add: PAGE_SIZE_def)

lemma length_set_len [simp]: "length (set_len f n) = n"
  by (simp add: set_len_def)

lemma length_header_encode [simp]: "length (header_encode h) = PAGE_SIZE"
  by (simp add: header_encode_def)

lemma header_encode_prefix:
  "length (magic h) = 4 \<Longrightarrow> \<exists>pad. header_encode h = magic h @ le_bytes 2 (version h) @ le_bytes 2 (page_size h)
     @ le_bytes 4 (num_pages h) @ le_bytes 4 (free_list_head h) @ le_bytes 4 (doc_count h) @ pad"
  by (rule exI [of _ "replicate (PAGE_SIZE - 20) (char_of (0 :: nat))"]) (simp add: header_encode_def set_len_def PAGE_SIZE_def)

lemma header_decode_encode:
  assumes "header_ok h"
  shows "header_decode (header_encode h) = Ok h"
proof -
  have m: "length (magic h) = 4" using assms by (simp add: header_ok_def MAGIC_def)
  then obtain pad where pad: "header_encode h = magic h @ le_bytes 2 (version h) @ le_bytes 2 (page_size h)
     @ le_bytes 4 (num_pages h) @ le_bytes 4 (free_list_head h) @ le_bytes 4 (doc_count h) @ pad"
    using header_encode_prefix by blast
  have "\<not> length (header_encode h) < 64" by (simp add: PAGE_SIZE_def)
  then show ?thesis using assms m
    unfolding header_decode_def by (simp add: pad header_ok_def codec_simps)
qed

lemma storage_open_ok:
  assumes "storage_ok st"
  shows "storage_open (st_file st) = Ok st"
proof -
  have len: "PAGE_SIZE \<le> length (st_file st)"
  proof -
    have "1 * PAGE_SIZE \<le> num_pages (st_header st) * PAGE_SIZE"
      using assms by (intro mult_le_mono1) (simp add: storage_ok_def header_ok_def)
    moreover have "num_pages (st_header st) * PAGE_SIZE \<le> length (st_file st)"
      using assms by (simp add: storage_ok_def)
    ultimately show ?thesis by linarith
  qed
  then have "st_file st \<noteq> []" by (auto simp: PAGE_SIZE_def)
  with len assms show ?thesis
    by (simp add: storage_open_def read_exact_def storage_ok_def header_decode_encode)
qed


subsection \<open>What the operations leave alone\<close>

definition in_file :: "storage \<Rightarrow> nat \<Rightarrow> bool" where
  "in_file st i \<longleftrightarrow> (i + 1) * PAGE_SIZE \<le> length (st_file st)"

lemma in_file_pages: "storage_ok st \<Longrightarrow> i < num_pages (st_header st) \<Longrightarrow> in_file st i"
proof -
  assume "storage_ok st" "i < num_pages (st_header st)"
  then have "(i + 1) * PAGE_SIZE \<le> num_pages (st_header st) * PAGE_SIZE"
    by (intro mult_le_mono1) simp
  with \<open>storage_ok st\<close> show ?thesis by (simp add: in_file_def storage_ok_def)
qed

lemma storage_ok_page0: "storage_ok st \<Longrightarrow> in_file st 0"
  by (simp add: in_file_pages storage_ok_def header_ok_def)

lemma read_page_in_file: "in_file st i \<Longrightarrow> read_page st i = Ok (page_bytes st i)"
  by (simp add: read_page_def read_exact_def in_file_def page_bytes_def algebra_simps)

lemma page_order: "i < j \<Longrightarrow> i * PAGE_SIZE + PAGE_SIZE \<le> j * PAGE_SIZE"
proof -
  assume "i < j"
  then have "Suc i * PAGE_SIZE \<le> j * PAGE_SIZE" by (intro mult_le_mono1) simp
  then show ?thesis by simp
qed

lemma page_write_other:
  assumes "i \<noteq> j" "in_file st j" "i * PAGE_SIZE \<le> length (st_file st)" "length d \<le> PAGE_SIZE"
  shows "page_bytes (st\<lparr>st_file := write_at (st_file st) (i * PAGE_SIZE) d\<rparr>) j = page_bytes st j"
proof (cases "i < j")
  case True
  with assms page_order [of i j] have "i * PAGE_SIZE + length d \<le> j * PAGE_SIZE" by linarith
  with assms(3) show ?thesis by (simp add: page_bytes_def drop_write_at_after)
next
  case False
  with assms page_order [of j i] have "j * PAGE_SIZE + PAGE_SIZE \<le> i * PAGE_SIZE" by simp
  with assms(2) show ?thesis by (simp add: page_bytes_def in_file_def slice_write_at_before algebra_simps)
qed

lemma page_write_same: "length d = PAGE_SIZE \<Longrightarrow>
    page_bytes (st\<lparr>st_file := write_at (st_file st) (i * PAGE_SIZE) d\<rparr>) i = d"
  using slice_write_at_same [of d "i * PAGE_SIZE" "st_file st"] by (simp add: page_bytes_def)

lemma page_prefix_write: "length d = 4 \<Longrightarrow>
    take 4 (page_bytes (st\<lparr>st_file := write_at (st_file st) (i * PAGE_SIZE) d\<rparr>) i) = d"
  using slice_write_at_same [of d "i * PAGE_SIZE" "st_file st"] by (simp add: page_bytes_def PAGE_SIZE_def)

lemma st_header_sync [simp]: "st_header (sync_header st) = st_header st"
  by (simp add: sync_header_def)

lemma length_sync [simp]: "length (st_file (sync_header st)) = max (length (st_file st)) PAGE_SIZE"
  by (simp add: sync_header_def)

lemma page_sync [simp]: "0 < i \<Longrightarrow> page_bytes (sync_header st) i = page_bytes st i"
proof -
  assume "0 < i"
  then have "0 + length (header_encode (st_header st)) \<le> i * PAGE_SIZE" using page_order [of 0 i] by simp
  then have "drop (i * PAGE_SIZE) (write_at (st_file st) 0 (header_encode (st_header st))) = drop (i * PAGE_SIZE) (st_file st)"
    by (rule drop_write_at_after) simp
  then show ?thesis by (simp add: sync_header_def page_bytes_def)
qed

lemma sync_header_page0: "take PAGE_SIZE (st_file (sync_header st)) = header_encode (st_header st)"
  using slice_write_at_same [of "header_encode (st_header st)" 0 "st_file st"] by (simp add: sync_header_def)

lemma storage_ok_sync:
  "header_ok (st_header st) \<Longrightarrow> num_pages (st_header st) * PAGE_SIZE \<le> length (st_file st) \<Longrightarrow>
   storage_ok (sync_header st)"
  by (auto simp: storage_ok_def sync_header_page0)

lemma write_page_header [frame_simps]: "write_page st i d = Ok st' \<Longrightarrow> st_header st' = st_header st"
  by (auto simp: write_page_def split: if_splits)

lemma storage_ok_write_page:
  assumes "storage_ok st" "0 < i" "write_page st i d = Ok st'"
  shows "storage_ok st'"
proof -
  have st': "st' = st\<lparr>st_file := write_at (st_file st) (i * PAGE_SIZE) d\<rparr>"
    using assms(3) by (auto simp: write_page_def split: if_splits)
  have "PAGE_SIZE \<le> i * PAGE_SIZE" using assms(2) page_order [of 0 i] by simp
  moreover have "PAGE_SIZE \<le> length (st_file st)"
    using storage_ok_page0 [OF assms(1)] by (simp add: in_file_def)
  ultimately have "take PAGE_SIZE (st_file st') = take PAGE_SIZE (st_file st)"
    by (simp add: st' take_write_at_before)
  with assms(1) show ?thesis by (auto simp: storage_ok_def st')
qed

lemma storage_ok_free_page:
  assumes "storage_ok st" "0 < i" "i < 2 ^ 32"
  shows "storage_ok (free_page st i)"
  using assms unfolding free_page_def Let_def
  by (intro storage_ok_sync) (auto simp: storage_ok_def header_ok_def)

lemma storage_ok_doc_count:
  assumes "storage_ok st"
  shows "storage_ok (increment_doc_count st d)"
  using assms unfolding increment_doc_count_def Let_def
  by (intro storage_ok_sync)
     (auto simp: storage_ok_def header_ok_def u32_saturating_add_def u32_saturating_sub_def min_def)

lemma free_page_header: "st_header (free_page st i) = (st_header st)\<lparr>free_list_head := i\<rparr>"
  by (simp add: free_page_def Let_def)

lemma free_page_next: "0 < i \<Longrightarrow> free_list_head (st_header st) < 2 ^ 32 \<Longrightarrow>
    le_value (take 4 (page_bytes (free_page st i) i)) = free_list_head (st_header st)"
proof -
  assume i: "0 < i" "free_list_head (st_header st) < 2 ^ 32"
  let ?d = "le_bytes 4 (free_list_head (st_header st))"
  have "take 4 (page_bytes (free_page st i) i) =
      take 4 (page_bytes (st\<lparr>st_file := write_at (st_file st) (i * PAGE_SIZE) ?d\<rparr>) i)"
    using i by (simp add: free_page_def Let_def page_bytes_def [of "_\<lparr>st_header := _\<rparr>"] flip: page_bytes_def)
       (simp add: page_bytes_def)
  also have "\<dots> = ?d" by (rule page_prefix_write) simp
  finally show ?thesis using i by (simp add: codec_simps)
qed

lemma free_page_other:
  assumes "0 < i" "0 < j" "i \<noteq> j" "in_file st i" "in_file st j"
  shows "page_bytes (free_page st i) j = page_bytes st j"
proof -
  have "page_bytes (free_page st i) j =
      page_bytes (st\<lparr>st_file := write_at (st_file st) (i * PAGE_SIZE) (le_bytes 4 (free_list_head (st_header st)))\<rparr>) j"
    using assms by (simp add: free_page_def Let_def) (simp add: page_bytes_def)
  also have "\<dots> = page_bytes st j"
    using assms by (intro page_write_other) (auto simp: in_file_def PAGE_SIZE_def)
  finally show ?thesis .
qed

lemma free_chain_cong:
  "(\<And>p. p \<in> set ps \<Longrightarrow> page_bytes st' p = page_bytes st p) \<Longrightarrow>
   num_pages (st_header st') = num_pages (st_header st) \<Longrightarrow> free_chain st' h ps = free_chain st h ps"
  by (induction ps arbitrary: h) auto

lemma free_chain_range: "free_chain st h ps \<Longrightarrow> p \<in> set ps \<Longrightarrow> 0 < p \<and> p < num_pages (st_header st)"
  by (induction ps arbitrary: h) auto


subsection \<open>Allocation\<close>

lemma allocate_fresh:
  assumes "storage_ok st" "free_list_head (st_header st) = 0" "num_pages (st_header st) + 1 < 2 ^ 32"
    and "allocate_page st = Ok (st', p)"
  shows "p = num_pages (st_header st)" "storage_ok st'"
    "st_header st' = (st_header st)\<lparr>num_pages := num_pages (st_header st) + 1\<rparr>"
    "page_bytes st' p = replicate PAGE_SIZE (char_of (0 :: nat))"
    "\<And>j. 0 < j \<Longrightarrow> j < num_pages (st_header st) \<Longrightarrow> page_bytes st' j = page_bytes st j"
proof -
  let ?h = "st_header st" and ?z = "replicate PAGE_SIZE (char_of (0 :: nat)) :: bytes"
  define st1 where "st1 = sync_header (st\<lparr>st_header := ?h\<lparr>num_pages := num_pages ?h + 1\<rparr>\<rparr>)"
  have st': "st' = st1\<lparr>st_file := write_at (st_file st1) (num_pages ?h * PAGE_SIZE) ?z\<rparr>" and p: "p = num_pages ?h"
    using assms by (auto simp: allocate_page_def Let_def st1_def)
  have len: "num_pages ?h * PAGE_SIZE \<le> length (st_file st)" "0 < num_pages ?h"
    using assms(1) by (auto simp: storage_ok_def header_ok_def)
  show "p = num_pages ?h" by (rule p)
  have h1: "st_header st1 = ?h\<lparr>num_pages := num_pages ?h + 1\<rparr>" by (simp add: st1_def)
  show hd: "st_header st' = ?h\<lparr>num_pages := num_pages ?h + 1\<rparr>" by (simp add: st' st1_def)
  show "page_bytes st' p = ?z" unfolding st' p by (rule page_write_same) simp
  have "take PAGE_SIZE (st_file st') = take PAGE_SIZE (st_file st1)"
    using len page_order [of 0 "num_pages ?h"] by (simp add: st' take_write_at_before st1_def)
  then have "take PAGE_SIZE (st_file st') = header_encode (st_header st')"
    by (simp add: st1_def sync_header_page0 hd)
  then show "storage_ok st'"
    using assms(1,3) len by (simp add: storage_ok_def h1 header_ok_def st')
  show "page_bytes st' j = page_bytes st j" if "0 < j" "j < num_pages ?h" for j
  proof -
    have "in_file st j" using assms(1) that by (simp add: in_file_pages)
    then have "page_bytes st' j = page_bytes st1 j"
      unfolding st' using len that by (intro page_write_other) (auto simp: in_file_def st1_def)
    also have "\<dots> = page_bytes st j" using that by (simp add: st1_def) (simp add: page_bytes_def)
    finally show ?thesis .
  qed
qed

lemma allocate_reuse:
  assumes "storage_ok st" "free_chain st (free_list_head (st_header st)) (q # qs)"
  shows "\<exists>st'. allocate_page st = Ok (st', q) \<and> storage_ok st' \<and>
    st_header st' = (st_header st)\<lparr>free_list_head := le_value (take 4 (page_bytes st q))\<rparr> \<and>
    (\<forall>j. 0 < j \<longrightarrow> page_bytes st' j = page_bytes st j)"
proof -
  let ?h = "st_header st"
  have q: "free_list_head ?h = q" "0 < q" "q < num_pages ?h" using assms(2) by auto
  have inf: "in_file st q" using assms(1) q by (simp add: in_file_pages)
  then have slen: "4 \<le> length (drop (q * PAGE_SIZE) (st_file st))" by (auto simp: in_file_def PAGE_SIZE_def)
  define nxt where "nxt = le_value (take 4 (page_bytes st q))"
  have "take 4 (page_bytes st q) = take 4 (drop (q * PAGE_SIZE) (st_file st))"
    by (simp add: page_bytes_def PAGE_SIZE_def)
  then have rd: "read_le 4 (drop (q * PAGE_SIZE) (st_file st)) =
      Some (nxt, drop 4 (drop (q * PAGE_SIZE) (st_file st)))"
    using slen by (simp add: read_le_def read_exact_def nxt_def)
  have "nxt < 256 ^ length (take 4 (page_bytes st q))" unfolding nxt_def by (rule le_value_less)
  also have "\<dots> \<le> 256 ^ 4" by (intro power_increasing) simp_all
  finally have "nxt < 2 ^ 32" by simp
  define st1 where "st1 = st\<lparr>st_header := ?h\<lparr>free_list_head := nxt\<rparr>\<rparr>"
  have "allocate_page st = Ok (sync_header st1, q)"
    using q rd by (simp add: allocate_page_def Let_def st1_def)
  moreover have "storage_ok (sync_header st1)"
    using assms(1) \<open>nxt < 2 ^ 32\<close> by (intro storage_ok_sync) (auto simp: st1_def storage_ok_def header_ok_def)
  moreover have "page_bytes (sync_header st1) j = page_bytes st j" if "0 < j" for j
    using that by (simp add: st1_def) (simp add: page_bytes_def)
  ultimately show ?thesis by (auto simp: st1_def nxt_def)
qed

subsection \<open>Properties\<close>

text \<open>
  The header survives its encoding, and a reopened file gives back the handle: whenever the
  cached header and the file agree, \<open>open\<close> on the file returns exactly the same storage.
\<close>

theorem storage_reopen:
  assumes "storage_ok st"
  shows "header_decode (header_encode (st_header st)) = Ok (st_header st) \<and> storage_open (st_file st) = Ok st"
  using assms storage_open_ok header_decode_encode by (auto simp: storage_ok_def)

lemma storage_ok_new: "storage_ok \<lparr>st_file = header_encode header_new, st_header = header_new\<rparr>"
  by (simp add: storage_ok_def header_ok_def header_new_def VERSION_def) (simp add: PAGE_SIZE_def)

theorem storage_reopen_witness:
  "storage_open (header_encode header_new) = Ok \<lparr>st_file = header_encode header_new, st_header = header_new\<rparr>"
  using storage_reopen [OF storage_ok_new] by simp

text \<open>
  Pages are independent cells. Writing page \<open>i\<close> of a well-formed storage keeps it
  well-formed, reading page \<open>i\<close> returns the bytes written, and every other page of the file
  reads as before.
\<close>

theorem page_read_after_write:
  assumes "storage_ok st" "0 < i" "i \<le> num_pages (st_header st)" "length d = PAGE_SIZE"
  shows "\<exists>st'. write_page st i d = Ok st' \<and> storage_ok st' \<and> read_page st' i = Ok d \<and>
    (\<forall>j < num_pages (st_header st). j \<noteq> i \<longrightarrow> read_page st' j = read_page st j)"
proof -
  define st' where "st' = st\<lparr>st_file := write_at (st_file st) (i * PAGE_SIZE) d\<rparr>"
  have w: "write_page st i d = Ok st'" using assms(4) by (simp add: write_page_def st'_def)
  have "num_pages (st_header st) * PAGE_SIZE \<le> length (st_file st)" using assms(1) by (simp add: storage_ok_def)
  with assms(3) have pos: "i * PAGE_SIZE \<le> length (st_file st)" by (rule le_trans [OF mult_le_mono1])
  have "in_file st' i" using assms(4) by (simp add: in_file_def st'_def)
  then have "read_page st' i = Ok d"
    using assms(4) by (simp add: read_page_in_file) (simp add: st'_def page_write_same)
  moreover have "read_page st' j = read_page st j" if "j < num_pages (st_header st)" "j \<noteq> i" for j
  proof -
    have "in_file st j" using assms(1) that by (simp add: in_file_pages)
    moreover from this have "in_file st' j" by (simp add: in_file_def st'_def)
    ultimately show ?thesis
      using that pos assms(4) by (simp add: read_page_in_file) (simp add: st'_def page_write_other)
  qed
  ultimately show ?thesis using w storage_ok_write_page [OF assms(1,2) w] by blast
qed

theorem page_read_after_write_witness:
  "\<exists>st'. write_page \<lparr>st_file = header_encode header_new, st_header = header_new\<rparr> 1 (replicate 4096 CHR ''x'') = Ok st'
     \<and> read_page st' 1 = Ok (replicate 4096 CHR ''x'')"
  using page_read_after_write [OF storage_ok_new, of 1 "replicate 4096 CHR ''x''"]
  by (auto simp: header_new_def PAGE_SIZE_def)

text \<open>Which page comes next.\<close>

lemma allocate_next:
  assumes "storage_ok st" "free_chain st (free_list_head (st_header st)) ps" "allocate_page st = Ok (st', p)"
  shows "p = (case ps of [] \<Rightarrow> num_pages (st_header st) | q # qs \<Rightarrow> q)"
proof (cases ps)
  case Nil
  with assms(2,3) show ?thesis by (simp add: allocate_page_def Let_def)
next
  case (Cons q qs)
  with assms allocate_reuse [of st q qs] show ?thesis by auto
qed

text \<open>
  C23: Allocation. With the free list \<open>ps\<close> the next page is the head of the list, which leaves it
  while the number of pages stays, or, when the list is empty, a zeroed page at the end of the
  file, which gets one page longer. Nothing else of the header changes, the storage stays
  well-formed (the header is in the file), no other page changes, and the page is not handed out
  again by the next allocation. The number of pages must not be at the limit of its 32 bits.
\<close>

theorem allocate_page_correct:
  assumes "storage_ok st" "free_chain st (free_list_head (st_header st)) ps"
    and "num_pages (st_header st) + 1 < 2 ^ 32"
  shows "\<exists>st' p. allocate_page st = Ok (st', p) \<and> storage_ok st' \<and>
    (case ps of
       [] \<Rightarrow> p = num_pages (st_header st) \<and> page_bytes st' p = replicate PAGE_SIZE (char_of (0 :: nat))
         \<and> st_header st' = (st_header st)\<lparr>num_pages := num_pages (st_header st) + 1\<rparr>
         \<and> free_chain st' (free_list_head (st_header st')) []
     | q # qs \<Rightarrow> p = q \<and> (\<exists>h. st_header st' = (st_header st)\<lparr>free_list_head := h\<rparr>)
         \<and> free_chain st' (free_list_head (st_header st')) qs) \<and>
    (\<forall>j. 0 < j \<and> j < num_pages (st_header st) \<and> j \<noteq> p \<longrightarrow> page_bytes st' j = page_bytes st j) \<and>
    p < num_pages (st_header st') \<and>
    (\<forall>st2 p2. allocate_page st' = Ok (st2, p2) \<longrightarrow> p2 \<noteq> p)"
proof (cases ps)
  case Nil
  with assms(2) have h0: "free_list_head (st_header st) = 0" by simp
  then obtain st' p where a: "allocate_page st = Ok (st', p)" by (simp add: allocate_page_def Let_def)
  note fresh = allocate_fresh [OF assms(1) h0 assms(3) a]
  have "p2 \<noteq> p" if "allocate_page st' = Ok (st2, p2)" for st2 p2
    using allocate_next [OF fresh(2) _ that, of "[]"] fresh(1,3) h0 by simp
  with fresh a h0 Nil show ?thesis by auto
next
  case (Cons q qs)
  with assms obtain st' where st': "allocate_page st = Ok (st', q)" "storage_ok st'"
      "st_header st' = (st_header st)\<lparr>free_list_head := le_value (take 4 (page_bytes st q))\<rparr>"
      "\<forall>j. 0 < j \<longrightarrow> page_bytes st' j = page_bytes st j"
    using allocate_reuse [of st q qs] by blast
  have "free_chain st (le_value (take 4 (page_bytes st q))) qs" using assms(2) Cons by simp
  then have chain: "free_chain st' (free_list_head (st_header st')) qs"
    using st'(3,4) free_chain_cong [of qs st' st] free_chain_range by fastforce
  have q: "q < num_pages (st_header st')" "q \<notin> set qs"
    using assms(2) Cons st'(3) by auto
  have "p2 \<noteq> q" if "allocate_page st' = Ok (st2, p2)" for st2 p2
    using allocate_next [OF st'(2) chain that] q by (auto split: list.splits)
  with st' q(1) chain Cons show ?thesis by auto
qed

theorem allocate_page_correct_witness:
  "\<exists>st' p. allocate_page \<lparr>st_file = header_encode header_new, st_header = header_new\<rparr> = Ok (st', p)
     \<and> p = 1 \<and> storage_ok st' \<and> num_pages (st_header st') = 2 \<and> (\<forall>st2 p2. allocate_page st' = Ok (st2, p2) \<longrightarrow> p2 \<noteq> 1)"
  using allocate_page_correct [OF storage_ok_new, of "[]"] by (auto simp: header_new_def)

lemma free_page_chain:
  assumes "storage_ok st" "free_chain st (free_list_head (st_header st)) ps"
    and "0 < i" "i < num_pages (st_header st)" "i \<notin> set ps"
  shows "storage_ok (free_page st i)"
    and "free_chain (free_page st i) (free_list_head (st_header (free_page st i))) (i # ps)"
proof -
  have i32: "i < 2 ^ 32" and h32: "free_list_head (st_header st) < 2 ^ 32"
    using assms by (auto simp: storage_ok_def header_ok_def)
  show "storage_ok (free_page st i)" using assms(1,3) i32 by (rule storage_ok_free_page)
  have "page_bytes (free_page st i) p = page_bytes st p" if "p \<in> set ps" for p
    using that assms free_chain_range [OF assms(2) that]
    by (intro free_page_other) (auto intro: in_file_pages)
  then have "free_chain (free_page st i) (free_list_head (st_header st)) ps"
    using assms(2) free_chain_cong [of ps "free_page st i" st] by (simp add: free_page_header)
  with assms h32 show "free_chain (free_page st i) (free_list_head (st_header (free_page st i))) (i # ps)"
    by (simp add: free_page_header free_page_next)
qed

lemma allocate_self_loop:
  assumes "storage_ok s" "free_list_head (st_header s) = i" "0 < i" "in_file s i"
    and "le_value (take 4 (page_bytes s i)) = i"
  shows "\<exists>st'. allocate_page s = Ok (st', i) \<and> storage_ok st' \<and> st_header st' = st_header s \<and>
      page_bytes st' i = page_bytes s i \<and> in_file st' i"
proof -
  have "4 \<le> length (drop (i * PAGE_SIZE) (st_file s))" using assms(4) by (auto simp: in_file_def PAGE_SIZE_def)
  moreover have "take 4 (page_bytes s i) = take 4 (drop (i * PAGE_SIZE) (st_file s))"
    by (simp add: page_bytes_def PAGE_SIZE_def)
  ultimately have al: "allocate_page s = Ok (sync_header (s\<lparr>st_header := st_header s\<lparr>free_list_head := i\<rparr>\<rparr>), i)"
    using assms by (simp add: allocate_page_def Let_def read_le_def read_exact_def)
  have same: "s\<lparr>st_header := st_header s\<lparr>free_list_head := i\<rparr>\<rparr> = s" using assms(2) by simp
  have "allocate_page s = Ok (sync_header s, i)" using al unfolding same .
  moreover have "storage_ok (sync_header s)"
    using assms(1) by (intro storage_ok_sync) (auto simp: storage_ok_def)
  ultimately show ?thesis using assms(3,4) by (auto simp: in_file_def)
qed

text \<open>
  A freed page goes to the head of the free list, and the next allocation returns it and
  leaves the list as it was before.
\<close>

theorem free_then_allocate:
  assumes "storage_ok st" "free_chain st (free_list_head (st_header st)) ps"
    and "0 < i" "i < num_pages (st_header st)" "i \<notin> set ps"
  shows "free_chain (free_page st i) (free_list_head (st_header (free_page st i))) (i # ps) \<and>
    (\<exists>st'. allocate_page (free_page st i) = Ok (st', i) \<and> storage_ok st' \<and> st_header st' = st_header st)"
proof -
  note chain = free_page_chain [OF assms]
  have "free_list_head (st_header st) < 2 ^ 32" using assms by (auto simp: storage_ok_def header_ok_def)
  with allocate_reuse [OF chain] obtain st' where "allocate_page (free_page st i) = Ok (st', i)" "storage_ok st'"
      "st_header st' = (st_header (free_page st i))\<lparr>free_list_head := free_list_head (st_header st)\<rparr>"
    using assms(3) by (auto simp: free_page_next)
  then show ?thesis using chain(2) by (auto simp: free_page_header)
qed

lemma two_page_storage:
  "\<exists>st. allocate_page \<lparr>st_file = header_encode header_new, st_header = header_new\<rparr> = Ok (st, 1) \<and> storage_ok st
     \<and> num_pages (st_header st) = 2 \<and> free_list_head (st_header st) = 0"
proof -
  obtain st p where a: "allocate_page \<lparr>st_file = header_encode header_new, st_header = header_new\<rparr> = Ok (st, p)"
    by (simp add: allocate_page_def Let_def header_new_def)
  from allocate_fresh [OF storage_ok_new _ _ a] a show ?thesis by (auto simp: header_new_def)
qed

theorem free_then_allocate_witness:
  "\<exists>st st'. storage_ok st \<and> allocate_page (free_page st 1) = Ok (st', 1) \<and> st_header st' = st_header st"
proof -
  obtain st where st: "storage_ok st" "num_pages (st_header st) = 2" "free_list_head (st_header st) = 0"
    using two_page_storage by auto
  from free_then_allocate [OF st(1), of "[]" 1] st show ?thesis by auto
qed

text \<open>
  Nothing guards against freeing a page twice: the page then links to itself, and two
  allocations in a row return the same page to two users.
\<close>

theorem double_free_allocates_twice:
  assumes "storage_ok st" "0 < i" "i < num_pages (st_header st)"
  shows "\<exists>st1 st2. allocate_page (free_page (free_page st i) i) = Ok (st1, i) \<and> allocate_page st1 = Ok (st2, i)"
proof -
  let ?f2 = "free_page (free_page st i) i"
  have i32: "i < 2 ^ 32" using assms by (auto simp: storage_ok_def header_ok_def)
  have ok2: "storage_ok ?f2" using assms i32 by (simp add: storage_ok_free_page)
  have inf: "in_file ?f2 i" by (rule in_file_pages [OF ok2]) (use assms in \<open>simp add: free_page_header\<close>)
  have nxt: "le_value (take 4 (page_bytes ?f2 i)) = i" using assms(2) i32 by (simp add: free_page_next free_page_header)
  have hd2: "free_list_head (st_header ?f2) = i" by (simp add: free_page_header)
  from allocate_self_loop [OF ok2 hd2 assms(2) inf nxt] obtain st1 where st1:
      "allocate_page ?f2 = Ok (st1, i)" "storage_ok st1" "st_header st1 = st_header ?f2"
      "page_bytes st1 i = page_bytes ?f2 i" "in_file st1 i" by blast
  with allocate_self_loop [of st1 i] hd2 nxt assms(2) show ?thesis by (metis)
qed

theorem double_free_allocates_twice_witness:
  "\<exists>st st1 st2. storage_ok st \<and> allocate_page (free_page (free_page st 1) 1) = Ok (st1, 1) \<and> allocate_page st1 = Ok (st2, 1)"
proof -
  obtain st where st: "storage_ok st" "num_pages (st_header st) = 2" using two_page_storage by auto
  from double_free_allocates_twice [OF st(1), of 1] st show ?thesis by auto
qed

end
