(* ===== verification/Wal.thy ===== *)
theory Wal
  imports Document
begin

text \<open>
  The write-ahead log of \<open>src/src/wal.rs\<close>. The file is a byte string: a six-byte header, then
  frames. The low-level operations (\<open>append_record\<close>, \<open>commit_record\<close>, \<open>reset\<close>, the iterator
  \<open>wal_next\<close>) work on the bytes; the transaction interface (\<open>wal_begin\<close>, \<open>wal_commit\<close>,
  \<open>wal_abort\<close>, \<open>replay\<close>) on a file with its counter. The checksum function of \<open>crc32fast\<close>
  and the JSON coding of \<open>WalEntry\<close> are arguments. The log is refined to a list of frames:
  \<open>log_bytes fs\<close> is the file that holds \<open>fs\<close>.
\<close>

subsection \<open>Data\<close>

datatype wal_op = OpInsert | OpUpdate | OpDelete | OpTxEntry

fun op_byte :: "wal_op \<Rightarrow> nat" where
  "op_byte OpInsert = 1"
| "op_byte OpUpdate = 2"
| "op_byte OpDelete = 3"
| "op_byte OpTxEntry = 4"

record wal_record =
  rec_op :: wal_op
  rec_id :: string
  rec_payload :: bytes

datatype 'n wal_entry =
    EBegin nat
  | EInsert nat string "'n json"
  | EUpdate nat string string "'n json"
  | EDelete nat string string
  | ECommit nat
  | EAbort nat

definition WAL_MAGIC :: bytes where
  "WAL_MAGIC = ''CWL1''"

definition WAL_VERSION :: nat where
  "WAL_VERSION = 1"

definition wal_header :: bytes where
  "wal_header = WAL_MAGIC @ le_bytes 2 WAL_VERSION"

lemma length_wal_header [simp]: "length wal_header = 6"
  by (simp add: wal_header_def WAL_MAGIC_def)

text \<open>\<open>Wal::open\<close> on the bytes of the file, the empty string for a file it creates.\<close>

definition wal_open :: "bytes \<Rightarrow> bytes outcome" where
  "wal_open file =
     (if file = [] then Ok wal_header
      else case read_exact 4 file of
          None \<Rightarrow> Err unexpected_eof
        | Some (magic, rest) \<Rightarrow>
            if magic \<noteq> WAL_MAGIC then Err (WalError ''Invalid WAL magic'')
            else case read_le 2 rest of
                None \<Rightarrow> Err unexpected_eof
              | Some (version, _) \<Rightarrow>
                  if version \<noteq> WAL_VERSION
                  then Err (WalError (''Unsupported WAL version '' @ nat_to_string version))
                  else Ok file)"

subsection \<open>Frames\<close>

record wal_frame =
  fr_op :: nat
  fr_id :: bytes
  fr_payload :: bytes
  fr_crc :: nat
  fr_flag :: nat

definition frame_bytes :: "wal_frame \<Rightarrow> bytes" where
  "frame_bytes f =
     char_of (fr_op f) # le_bytes 4 (as_u32 (length (fr_id f))) @ fr_id f
       @ le_bytes 4 (as_u32 (length (fr_payload f))) @ fr_payload f
       @ le_bytes 4 (fr_crc f) @ [char_of (fr_flag f)]"

definition new_frame :: "(bytes \<Rightarrow> nat) \<Rightarrow> wal_op \<Rightarrow> string \<Rightarrow> bytes \<Rightarrow> wal_frame" where
  "new_frame crc op ident payload =
     \<lparr>fr_op = op_byte op, fr_id = ident, fr_payload = payload, fr_crc = crc payload, fr_flag = 0\<rparr>"

text \<open>\<open>append_record\<close>: the new file and the offset of the record.\<close>

definition append_record :: "(bytes \<Rightarrow> nat) \<Rightarrow> bytes \<Rightarrow> wal_op \<Rightarrow> string \<Rightarrow> bytes \<Rightarrow> bytes \<times> nat" where
  "append_record crc file op ident payload =
     (file @ frame_bytes (new_frame crc op ident payload), length file)"

text \<open>\<open>commit_record\<close>: skip to the commit flag of the record at \<open>offset\<close> and set it.\<close>

definition commit_record :: "bytes \<Rightarrow> nat \<Rightarrow> bytes outcome" where
  "commit_record file offset =
     (case read_exact 1 (drop offset file) of
        None \<Rightarrow> Err unexpected_eof
      | Some (op, r1) \<Rightarrow>
          (case read_le 4 r1 of
             None \<Rightarrow> Err unexpected_eof
           | Some (id_len, r2) \<Rightarrow>
               (let p2 = offset + 5 + id_len in
                case read_le 4 (drop p2 file) of
                  None \<Rightarrow> Err unexpected_eof
                | Some (payload_len, r3) \<Rightarrow>
                    Ok (write_at file (p2 + 4 + payload_len + 4) [char_of (1 :: nat)]))))"

definition wal_reset :: "bytes \<Rightarrow> bytes" where
  "wal_reset file = set_len file 6"

text \<open>
  The reads after the operation byte, which \<open>replay\<close> and the iterator share: id, payload,
  checksum and commit flag, or the end of the file too early.
\<close>

definition read_body :: "bytes \<Rightarrow> ((bytes \<times> bytes \<times> nat \<times> nat) \<times> bytes) option" where
  "read_body r0 =
     (case read_le 4 r0 of
        None \<Rightarrow> None
      | Some (id_len, r1) \<Rightarrow>
     (case read_exact id_len r1 of
        None \<Rightarrow> None
      | Some (id_buf, r2) \<Rightarrow>
     (case read_le 4 r2 of
        None \<Rightarrow> None
      | Some (payload_len, r3) \<Rightarrow>
     (case read_exact payload_len r3 of
        None \<Rightarrow> None
      | Some (payload, r4) \<Rightarrow>
     (case read_le 4 r4 of
        None \<Rightarrow> None
      | Some (checksum, r5) \<Rightarrow>
     (case read_le 1 r5 of
        None \<Rightarrow> None
      | Some (flag, r6) \<Rightarrow> Some ((id_buf, payload, checksum, flag), r6)))))))"

lemma read_body_length: "read_body r = Some (x, r') \<Longrightarrow> length r' < length r"
  by (auto simp: read_body_def split: option.splits prod.splits
      dest!: read_le_length read_exact_length)

text \<open>\<open>WalIter::next\<close>: skip uncommitted records and transaction entries.\<close>

function wal_next :: "bytes \<Rightarrow> (wal_record outcome \<times> bytes) option" where
  "wal_next [] = None"
| "wal_next (b # r) =
     (case read_body r of
        None \<Rightarrow> Some (Err unexpected_eof, [])
      | Some ((ident, payload, checksum, flag), r') \<Rightarrow>
          (let op = (of_char b :: nat) in
           if flag = 0 then wal_next r'
           else if op = 1 then Some (Ok \<lparr>rec_op = OpInsert, rec_id = ident, rec_payload = payload\<rparr>, r')
           else if op = 2 then Some (Ok \<lparr>rec_op = OpUpdate, rec_id = ident, rec_payload = payload\<rparr>, r')
           else if op = 3 then Some (Ok \<lparr>rec_op = OpDelete, rec_id = ident, rec_payload = payload\<rparr>, r')
           else if op = 4 then wal_next r'
           else Some (Err (WalError ''Unknown op''), r')))"
  by pat_completeness auto
termination
  by (relation "measure length") (auto dest!: read_body_length)

declare wal_next.simps [simp del]

lemma wal_next_length: "wal_next bs = Some (x, r) \<Longrightarrow> length r < length bs"
proof (induction bs rule: measure_induct_rule [where f = length])
  case (less bs)
  show ?case
  proof (cases bs)
    case Nil
    with less.prems show ?thesis by (simp add: wal_next.simps)
  next
    case bs: (Cons b r0)
    show ?thesis
    proof (cases "read_body r0")
      case None
      with less.prems bs show ?thesis by (simp add: wal_next.simps)
    next
      case (Some y)
      obtain i p c fl r' where y: "y = ((i, p, c, fl), r')" by (metis prod.collapse)
      have "length r' < length r0" using Some y by (auto dest: read_body_length)
      then show ?thesis
        using less.prems less.IH [of r'] Some y bs
        by (auto simp: wal_next.simps Let_def split: if_splits)
    qed
  qed
qed

text \<open>
  The consumer \<open>for record in iter { let record = record?; ... }\<close>: the first error ends it.
\<close>

function wal_fold :: "('s \<Rightarrow> wal_record \<Rightarrow> 's outcome) \<Rightarrow> bytes \<Rightarrow> 's \<Rightarrow> 's outcome" where
  "wal_fold f bs s =
     (case wal_next bs of
        None \<Rightarrow> Ok s
      | Some (Ok rec, r) \<Rightarrow> and_then (f s rec) (wal_fold f r)
      | Some (Err e, r) \<Rightarrow> Err e
      | Some (Panic, r) \<Rightarrow> Panic)"
  by pat_completeness auto
termination
  by (relation "measure (\<lambda>(f, bs, s). length bs)") (auto dest: wal_next_length)

declare wal_fold.simps [simp del]

definition iter_committed :: "bytes \<Rightarrow> bytes" where
  "iter_committed file = drop 6 file"

definition committed_records :: "bytes \<Rightarrow> wal_record list outcome" where
  "committed_records bs = wal_fold (\<lambda>acc rec. Ok (acc @ [rec])) bs []"


subsection \<open>Replay of transactions\<close>

text \<open>
  One entry of \<open>replay\<close>: the current transaction, the entries pending in it, and the state the
  callback works on.
\<close>

fun replay_entry ::
  "('s \<Rightarrow> 'n wal_entry \<Rightarrow> 's outcome) \<Rightarrow> nat option \<times> 'n wal_entry list \<times> 's \<Rightarrow> 'n wal_entry
     \<Rightarrow> (nat option \<times> 'n wal_entry list \<times> 's) outcome" where
  "replay_entry f (cur, pending, s) (EBegin t) = Ok (Some t, [], s)"
| "replay_entry f (cur, pending, s) (ECommit t) =
     (if cur = Some t then outcome_map (\<lambda>s'. (None, [], s')) (foldM f pending s) else Ok (None, [], s))"
| "replay_entry f (cur, pending, s) (EAbort t) = Ok (None, [], s)"
| "replay_entry f (cur, pending, s) e =
     (if cur \<noteq> None then Ok (cur, pending @ [e], s) else outcome_map (\<lambda>s'. (cur, pending, s')) (f s e))"

function replay_loop ::
  "(bytes \<Rightarrow> 'n wal_entry option) \<Rightarrow> ('s \<Rightarrow> 'n wal_entry \<Rightarrow> 's outcome) \<Rightarrow> bytes
     \<Rightarrow> nat option \<times> 'n wal_entry list \<times> 's \<Rightarrow> (nat option \<times> 'n wal_entry list \<times> 's) outcome" where
  "replay_loop dec f [] st = Ok st"
| "replay_loop dec f (b # r) st =
     (case read_body r of
        None \<Rightarrow> Err unexpected_eof
      | Some ((ident, payload, checksum, flag), r') \<Rightarrow>
          (if (of_char b :: nat) = op_byte OpTxEntry
           then (case dec payload of
                   None \<Rightarrow> replay_loop dec f r' st
                 | Some e \<Rightarrow> and_then (replay_entry f st e) (replay_loop dec f r'))
           else replay_loop dec f r' st))"
  by pat_completeness auto
termination
  by (relation "measure (\<lambda>(dec, f, bs, st). length bs)") (auto dest!: read_body_length)

declare replay_loop.simps [simp del]

definition replay ::
  "(bytes \<Rightarrow> 'n wal_entry option) \<Rightarrow> ('s \<Rightarrow> 'n wal_entry \<Rightarrow> 's outcome) \<Rightarrow> bytes \<Rightarrow> 's \<Rightarrow> 's outcome" where
  "replay dec f file s = outcome_map (\<lambda>(cur, pending, s'). s') (replay_loop dec f (drop 6 file) (None, [], s))"

record wal =
  wal_bytes :: bytes
  tx_counter :: nat

definition wal_append :: "(bytes \<Rightarrow> nat) \<Rightarrow> ('n wal_entry \<Rightarrow> bytes) \<Rightarrow> wal \<Rightarrow> 'n wal_entry \<Rightarrow> wal" where
  "wal_append crc enc w e = w\<lparr>wal_bytes := fst (append_record crc (wal_bytes w) OpTxEntry ''tx'' (enc e))\<rparr>"

definition wal_begin :: "(bytes \<Rightarrow> nat) \<Rightarrow> ('n wal_entry \<Rightarrow> bytes) \<Rightarrow> wal \<Rightarrow> wal \<times> nat" where
  "wal_begin crc enc w =
     (let w' = w\<lparr>tx_counter := u64_add (tx_counter w) 1\<rparr>; t = tx_counter w'
      in (wal_append crc enc w' (EBegin t), t))"

definition wal_commit :: "(bytes \<Rightarrow> nat) \<Rightarrow> ('n wal_entry \<Rightarrow> bytes) \<Rightarrow> wal \<Rightarrow> nat \<Rightarrow> wal" where
  "wal_commit crc enc w t = wal_append crc enc w (ECommit t)"

definition wal_abort :: "(bytes \<Rightarrow> nat) \<Rightarrow> ('n wal_entry \<Rightarrow> bytes) \<Rightarrow> wal \<Rightarrow> nat \<Rightarrow> wal" where
  "wal_abort crc enc w t = wal_append crc enc w (EAbort t)"

definition wal_truncate :: "wal \<Rightarrow> wal" where
  "wal_truncate w = w\<lparr>wal_bytes := wal_reset (wal_bytes w)\<rparr>"

subsection \<open>The log as a list of frames\<close>

definition wf_frame :: "wal_frame \<Rightarrow> bool" where
  "wf_frame f \<longleftrightarrow> fr_op f \<in> {1, 2, 3, 4} \<and> length (fr_id f) < 2 ^ 32 \<and> length (fr_payload f) < 2 ^ 32 \<and>
     fr_crc f < 2 ^ 32 \<and> fr_flag f < 256"

definition log_bytes :: "wal_frame list \<Rightarrow> bytes" where
  "log_bytes fs = wal_header @ concat (map frame_bytes fs)"

definition frame_record :: "wal_frame \<Rightarrow> wal_record list" where
  "frame_record f =
     (if fr_flag f = 0 then []
      else if fr_op f = 1 then [\<lparr>rec_op = OpInsert, rec_id = fr_id f, rec_payload = fr_payload f\<rparr>]
      else if fr_op f = 2 then [\<lparr>rec_op = OpUpdate, rec_id = fr_id f, rec_payload = fr_payload f\<rparr>]
      else if fr_op f = 3 then [\<lparr>rec_op = OpDelete, rec_id = fr_id f, rec_payload = fr_payload f\<rparr>]
      else [])"

lemma length_frame_bytes: "length (frame_bytes f) = 14 + length (fr_id f) + length (fr_payload f)"
  by (simp add: frame_bytes_def)

lemma read_body_frame [codec_simps]:
  assumes "wf_frame f"
  shows "read_body (tl (frame_bytes f) @ rest) = Some ((fr_id f, fr_payload f, fr_crc f, fr_flag f), rest)"
  using assms by (simp add: frame_bytes_def read_body_def wf_frame_def codec_simps)

lemma frame_bytes_Cons: "frame_bytes f = char_of (fr_op f) # tl (frame_bytes f)"
  by (simp add: frame_bytes_def)

lemma read_body_extend: "read_body bs = Some (x, r) \<Longrightarrow> read_body (bs @ ys) = Some (x, r @ ys)"
  by (clarsimp simp: read_body_def read_le_extend read_exact_extend split: option.split_asm)

lemma read_body_torn:
  assumes "wf_frame f" "k < length (tl (frame_bytes f))"
  shows "read_body (take k (tl (frame_bytes f))) = None"
proof (rule ccontr)
  assume "\<not> ?thesis"
  then obtain x r where x: "read_body (take k (tl (frame_bytes f))) = Some (x, r)" by auto
  from read_body_extend [OF x, of "drop k (tl (frame_bytes f))"]
  have "read_body (tl (frame_bytes f) @ []) = Some (x, r @ drop k (tl (frame_bytes f)))" by simp
  with read_body_frame [OF assms(1), of "[]"] have "drop k (tl (frame_bytes f)) = []" by simp
  with assms(2) show False by simp
qed


subsection \<open>Reading the log back\<close>

lemma wal_next_frame:
  assumes "wf_frame f"
  shows "wal_next (frame_bytes f @ rest) =
    (case frame_record f of [] \<Rightarrow> wal_next rest | rec # _ \<Rightarrow> Some (Ok rec, rest))"
proof -
  have "wal_next (frame_bytes f @ rest) = wal_next (char_of (fr_op f) # (tl (frame_bytes f) @ rest))"
    by (subst frame_bytes_Cons) simp
  then show ?thesis using assms
    by (auto simp: wal_next.simps(2) read_body_frame frame_record_def wf_frame_def Let_def)
qed

lemma wal_fold_frame:
  assumes "wf_frame f"
  shows "wal_fold g (frame_bytes f @ rest) s = and_then (foldM g (frame_record f) s) (wal_fold g rest)"
proof (cases "frame_record f")
  case Nil
  with assms have "wal_next (frame_bytes f @ rest) = wal_next rest" by (simp add: wal_next_frame)
  with Nil show ?thesis by (simp add: wal_fold.simps [of g "frame_bytes f @ rest"] wal_fold.simps [of g rest])
next
  case (Cons rec recs)
  then have "recs = []" by (auto simp: frame_record_def split: if_splits)
  with Cons assms show ?thesis
    by (cases "g s rec") (simp_all add: wal_fold.simps [of g "frame_bytes f @ rest"] wal_next_frame)
qed

lemma wal_fold_Nil [simp]: "wal_fold g [] s = Ok s"
  by (simp add: wal_fold.simps wal_next.simps)

lemma wal_fold_frames:
  "list_all wf_frame fs \<Longrightarrow>
   wal_fold g (concat (map frame_bytes fs) @ rest) s = and_then (foldM g (concat (map frame_record fs)) s) (wal_fold g rest)"
proof (induction fs arbitrary: s)
  case Nil
  then show ?case by simp
next
  case (Cons f fs)
  then show ?case
    by (cases "foldM g (frame_record f) s") (simp_all add: wal_fold_frame foldM_append)
qed

lemma foldM_collect: "foldM (\<lambda>acc rec. Ok (acc @ [rec])) xs acc = Ok (acc @ xs)"
  by (induction xs arbitrary: acc) auto

lemma wal_fold_collect:
  "wal_fold (\<lambda>acc rec. Ok (acc @ [rec])) bs acc = outcome_map ((@) acc) (committed_records bs)"
proof (induction bs arbitrary: acc rule: measure_induct_rule [where f = length])
  case (less bs)
  show ?case
  proof (cases "wal_next bs")
    case None
    then show ?thesis by (simp add: committed_records_def wal_fold.simps [of _ bs])
  next
    case (Some p)
    obtain res r where p: "p = (res, r)" by (cases p)
    have r: "length r < length bs" using Some p by (simp add: wal_next_length)
    show ?thesis
    proof (cases res)
      case (Ok rec)
      with Some p r show ?thesis
        using less.IH [OF r, of "acc @ [rec]"] less.IH [OF r, of "[rec]"]
        by (cases "committed_records r") (simp_all add: committed_records_def wal_fold.simps [of _ bs])
    qed (use Some p in \<open>simp_all add: committed_records_def wal_fold.simps [of _ bs]\<close>)
  qed
qed

lemma wal_next_torn:
  assumes "wf_frame f" "0 < k" "k < length (frame_bytes f)"
  shows "wal_next (take k (frame_bytes f)) = Some (Err unexpected_eof, [])"
proof -
  obtain j where k: "k = Suc j" using assms(2) gr0_implies_Suc by blast
  have "take k (frame_bytes f) = char_of (fr_op f) # take j (tl (frame_bytes f))"
    by (subst frame_bytes_Cons) (simp add: k)
  moreover have "j < length (tl (frame_bytes f))" using assms(3) k by simp
  ultimately show ?thesis using assms(1) by (simp add: wal_next.simps(2) read_body_torn)
qed

interpretation wlog: framed_strict frame_bytes wf_frame frame_record committed_records 1
proof unfold_locales
  show "committed_records [] = Ok []" by (simp add: committed_records_def)
next
  fix f rest
  assume "wf_frame f"
  then have "committed_records (frame_bytes f @ rest) =
      and_then (foldM (\<lambda>acc rec. Ok (acc @ [rec])) (frame_record f) []) (wal_fold (\<lambda>acc rec. Ok (acc @ [rec])) rest)"
    unfolding committed_records_def by (rule wal_fold_frame)
  then show "committed_records (frame_bytes f @ rest) = outcome_map ((@) (frame_record f)) (committed_records rest)"
    by (simp add: foldM_collect wal_fold_collect)
next
  fix f k
  assume "wf_frame f" "1 \<le> k" "k < length (frame_bytes f)"
  then show "committed_records (take k (frame_bytes f)) = Err unexpected_eof"
    by (simp add: committed_records_def wal_fold.simps [of _ "take k (frame_bytes f)"] wal_next_torn)
qed

lemma iter_log [simp]: "iter_committed (log_bytes fs) = concat (map frame_bytes fs)"
  by (simp add: iter_committed_def log_bytes_def)

lemma wal_open_log [simp]: "wal_open (log_bytes fs) = Ok (log_bytes fs)"
proof -
  have "log_bytes fs = WAL_MAGIC @ le_bytes 2 WAL_VERSION @ concat (map frame_bytes fs)"
    by (simp add: log_bytes_def wal_header_def)
  moreover have "WAL_MAGIC \<noteq> []" "length WAL_MAGIC = 4" "WAL_VERSION < 2 ^ 16"
    by (simp_all add: WAL_MAGIC_def WAL_VERSION_def)
  ultimately show ?thesis by (simp add: wal_open_def codec_simps)
qed

lemma append_record_log:
  "append_record crc (log_bytes fs) op ident payload =
     (log_bytes (fs @ [new_frame crc op ident payload]), length (log_bytes fs))"
  by (simp add: append_record_def log_bytes_def)

lemma commit_record_log:
  assumes "wf_frame f"
  shows "commit_record (log_bytes (fs @ f # gs)) (length (log_bytes fs)) = Ok (log_bytes (fs @ f\<lparr>fr_flag := 1\<rparr> # gs))"
proof -
  define tail where "tail = concat (map frame_bytes gs)"
  define pre where "pre = log_bytes fs"
  define head where "head = char_of (fr_op f) # le_bytes 4 (as_u32 (length (fr_id f))) @ fr_id f"
  define mid where "mid = le_bytes 4 (as_u32 (length (fr_payload f))) @ fr_payload f @ le_bytes 4 (fr_crc f)"
  have f1: "log_bytes (fs @ f # gs) = pre @ head @ mid @ [char_of (fr_flag f)] @ tail"
    and f2: "log_bytes (fs @ f\<lparr>fr_flag := 1\<rparr> # gs) = pre @ head @ mid @ [char_of (1 :: nat)] @ tail"
    by (simp_all add: log_bytes_def frame_bytes_def head_def mid_def pre_def tail_def)
  have len: "length head = 5 + length (fr_id f)" "length mid = 8 + length (fr_payload f)"
    by (simp_all add: head_def mid_def)
  have r1: "read_exact 1 (drop (length pre) (log_bytes (fs @ f # gs))) =
      Some ([char_of (fr_op f)], tl head @ mid @ [char_of (fr_flag f)] @ tail)"
    by (simp add: f1 head_def read_exact_def)
  have r2: "read_le 4 (tl head @ mid @ [char_of (fr_flag f)] @ tail) =
      Some (length (fr_id f), fr_id f @ mid @ [char_of (fr_flag f)] @ tail)"
    using assms by (simp add: head_def wf_frame_def codec_simps)
  have "drop (length pre + 5 + length (fr_id f)) (log_bytes (fs @ f # gs)) = mid @ [char_of (fr_flag f)] @ tail"
    by (simp add: f1 len drop_append)
  then have r3: "read_le 4 (drop (length pre + 5 + length (fr_id f)) (log_bytes (fs @ f # gs))) =
      Some (length (fr_payload f), fr_payload f @ le_bytes 4 (fr_crc f) @ [char_of (fr_flag f)] @ tail)"
    using assms by (simp add: mid_def wf_frame_def codec_simps)
  have w: "write_at ((pre @ head @ mid) @ [char_of (fr_flag f)] @ tail)
      (length pre + 5 + length (fr_id f) + 4 + length (fr_payload f) + 4) [char_of (1 :: nat)] =
      (pre @ head @ mid) @ [char_of (1 :: nat)] @ tail"
    by (rule write_at_mid) (simp_all add: len)
  show ?thesis
    using r1 r2 r3 w unfolding pre_def [symmetric]
    by (simp add: commit_record_def Let_def f1 f2 del: One_nat_def)
qed


subsection \<open>Replay on lists of entries\<close>

definition tx_frame :: "(bytes \<Rightarrow> nat) \<Rightarrow> ('n wal_entry \<Rightarrow> bytes) \<Rightarrow> 'n wal_entry \<Rightarrow> wal_frame" where
  "tx_frame crc enc e = new_frame crc OpTxEntry ''tx'' (enc e)"

text \<open>The coding of the entries \<open>es\<close> is invertible and fits the 32-bit length fields.\<close>

definition entries_coded ::
  "(bytes \<Rightarrow> nat) \<Rightarrow> ('n wal_entry \<Rightarrow> bytes) \<Rightarrow> (bytes \<Rightarrow> 'n wal_entry option) \<Rightarrow> 'n wal_entry list \<Rightarrow> bool" where
  "entries_coded crc enc dec es \<longleftrightarrow>
     list_all (\<lambda>e. dec (enc e) = Some e \<and> length (enc e) < 2 ^ 32 \<and> crc (enc e) < 2 ^ 32) es"

lemma wf_tx_frame: "length (enc e) < 2 ^ 32 \<Longrightarrow> crc (enc e) < 2 ^ 32 \<Longrightarrow> wf_frame (tx_frame crc enc e)"
  by (simp add: tx_frame_def new_frame_def wf_frame_def)

lemma replay_loop_frame:
  assumes "wf_frame (tx_frame crc enc e)" "dec (enc e) = Some e"
  shows "replay_loop dec f (frame_bytes (tx_frame crc enc e) @ rest) st =
    and_then (replay_entry f st e) (replay_loop dec f rest)"
proof -
  have "replay_loop dec f (frame_bytes (tx_frame crc enc e) @ rest) st =
      replay_loop dec f (char_of (fr_op (tx_frame crc enc e)) # (tl (frame_bytes (tx_frame crc enc e)) @ rest)) st"
    by (subst frame_bytes_Cons) simp
  then show ?thesis using assms
    by (simp add: replay_loop.simps(2) read_body_frame) (simp add: tx_frame_def new_frame_def)
qed

lemma replay_loop_entries:
  "entries_coded crc enc dec es \<Longrightarrow>
   replay_loop dec f (concat (map (frame_bytes \<circ> tx_frame crc enc) es)) st = foldM (replay_entry f) es st"
proof (induction es arbitrary: st)
  case Nil
  then show ?case by (simp add: replay_loop.simps)
next
  case (Cons e es)
  then have "wf_frame (tx_frame crc enc e)" "dec (enc e) = Some e" "entries_coded crc enc dec es"
    by (simp_all add: entries_coded_def wf_tx_frame)
  with Cons.IH show ?case by (cases "replay_entry f st e") (simp_all add: replay_loop_frame)
qed

lemma replay_log:
  assumes "entries_coded crc enc dec es"
  shows "replay dec f (log_bytes (map (tx_frame crc enc) es)) s =
    outcome_map (\<lambda>(cur, pending, s'). s') (foldM (replay_entry f) es (None, [], s))"
  using replay_loop_entries [OF assms, of f "(None, [], s)"]
  by (simp add: replay_def log_bytes_def)

text \<open>
  A serial history: transactions one after the other, each committed or aborted, and writes
  outside any transaction. \<open>unit_effect\<close> is what of it should reach the database.
\<close>

fun is_write :: "'n wal_entry \<Rightarrow> bool" where
  "is_write (EInsert t c d) = True"
| "is_write (EUpdate t c i d) = True"
| "is_write (EDelete t c i) = True"
| "is_write _ = False"

datatype 'n tx_unit =
    TxCommitted nat "'n wal_entry list"
  | TxAborted nat "'n wal_entry list"
  | TxBare "'n wal_entry"

fun unit_entries :: "'n tx_unit \<Rightarrow> 'n wal_entry list" where
  "unit_entries (TxCommitted t ws) = EBegin t # ws @ [ECommit t]"
| "unit_entries (TxAborted t ws) = EBegin t # ws @ [EAbort t]"
| "unit_entries (TxBare w) = [w]"

fun unit_writes :: "'n tx_unit \<Rightarrow> 'n wal_entry list" where
  "unit_writes (TxCommitted t ws) = ws"
| "unit_writes (TxAborted t ws) = ws"
| "unit_writes (TxBare w) = [w]"

fun unit_effect :: "'n tx_unit \<Rightarrow> 'n wal_entry list" where
  "unit_effect (TxCommitted t ws) = ws"
| "unit_effect (TxAborted t ws) = []"
| "unit_effect (TxBare w) = [w]"

lemma replay_entry_pending: "is_write w \<Longrightarrow> replay_entry f (Some t, pending, s) w = Ok (Some t, pending @ [w], s)"
  by (cases w) auto

lemma replay_pending:
  "list_all is_write ws \<Longrightarrow> foldM (replay_entry f) ws (Some t, pending, s) = Ok (Some t, pending @ ws, s)"
  by (induction ws arbitrary: pending) (auto simp: replay_entry_pending)

lemma replay_unit:
  assumes "list_all is_write (unit_writes u)"
  shows "foldM (replay_entry f) (unit_entries u) (None, [], s) =
    outcome_map (\<lambda>s'. (None, [], s')) (foldM f (unit_effect u) s)"
proof (cases u)
  case (TxCommitted t ws)
  with assms show ?thesis by (cases "foldM f ws s") (simp_all add: foldM_append replay_pending)
next
  case (TxAborted t ws)
  with assms show ?thesis by (simp add: foldM_append replay_pending)
next
  case (TxBare w)
  with assms show ?thesis by (cases w; cases "f s w") auto
qed

lemma replay_units:
  "list_all (\<lambda>u. list_all is_write (unit_writes u)) us \<Longrightarrow>
   foldM (replay_entry f) (concat (map unit_entries us)) (None, [], s) =
     outcome_map (\<lambda>s'. (None, [], s')) (foldM f (concat (map unit_effect us)) s)"
proof (induction us arbitrary: s)
  case Nil
  then show ?case by simp
next
  case (Cons u us)
  then show ?case by (cases "foldM f (unit_effect u) s") (simp_all add: foldM_append replay_unit)
qed

subsection \<open>Properties\<close>

text \<open>
  C28: Visibility of a write in the log. Take a log of whole records and a record that is not a
  transaction entry and whose id, payload and checksum fit their 32-bit fields. After
  \<open>append_record\<close> alone recovery reads exactly the records committed before; \<open>commit_record\<close> at the
  returned offset succeeds, and then recovery reads them followed by the new record.
\<close>

theorem wal_append_then_commit:
  assumes "list_all wf_frame fs" and "op \<noteq> OpTxEntry"
    and "length ident < 2 ^ 32" and "length payload < 2 ^ 32" and "crc payload < 2 ^ 32"
    and "append_record crc (log_bytes fs) op ident payload = (appended, offset)"
  shows "committed_records (iter_committed appended) = Ok (concat (map frame_record fs))
    \<and> (\<exists>committed. commit_record appended offset = Ok committed
        \<and> committed_records (iter_committed committed) =
            Ok (concat (map frame_record fs) @ [\<lparr>rec_op = op, rec_id = ident, rec_payload = payload\<rparr>]))"
proof -
  let ?f = "new_frame crc op ident payload"
  have wf: "wf_frame ?f" "wf_frame (?f\<lparr>fr_flag := 1\<rparr>)"
    using assms by (cases op; simp add: new_frame_def wf_frame_def)+
  have recs: "frame_record ?f = []"
    "frame_record (?f\<lparr>fr_flag := 1\<rparr>) = [\<lparr>rec_op = op, rec_id = ident, rec_payload = payload\<rparr>]"
    using assms(2) by (cases op; simp add: new_frame_def frame_record_def)+
  have ap: "appended = log_bytes (fs @ [?f])" "offset = length (log_bytes fs)"
    using assms(6) by (auto simp: append_record_log)
  have "commit_record appended offset = Ok (log_bytes (fs @ [?f\<lparr>fr_flag := 1\<rparr>]))"
    unfolding ap using commit_record_log [OF wf(1), of fs "[]"] by simp
  moreover have "committed_records (concat (map frame_bytes (fs @ [g]))) =
      Ok (concat (map frame_record (fs @ [g])))" if "wf_frame g" for g
    using that assms(1) by (intro wlog.read_frames) simp
  ultimately show ?thesis using wf recs by (simp add: ap)
qed

theorem wal_append_then_commit_witness:
  "\<exists>committed. commit_record (fst (append_record length (log_bytes []) OpInsert ''d'' ''{}'')) 6 = Ok committed
     \<and> committed_records (iter_committed committed) =
         Ok [\<lparr>rec_op = OpInsert, rec_id = ''d'', rec_payload = ''{}''\<rparr>]"
proof -
  have "append_record length (log_bytes []) OpInsert ''d'' ''{}'' =
      (fst (append_record length (log_bytes []) OpInsert ''d'' ''{}''), 6)"
    by (simp add: append_record_def log_bytes_def)
  from wal_append_then_commit [OF _ _ _ _ _ this] show ?thesis by simp
qed

text \<open>
  A crash in the middle of \<open>append_record\<close>. Whatever was logged before, a file that ends in
  a proper, non-empty prefix of a record makes the iteration fail with an unexpected end of
  file, so the records before it cannot be recovered either.
\<close>

theorem wal_torn_record_fails:
  assumes "list_all wf_frame fs" "wf_frame f" "0 < k" "k < length (frame_bytes f)"
  shows "committed_records (iter_committed (log_bytes fs @ take k (frame_bytes f))) = Err unexpected_eof"
proof -
  have "iter_committed (log_bytes fs @ take k (frame_bytes f)) = concat (map frame_bytes fs) @ take k (frame_bytes f)"
    by (simp add: iter_committed_def log_bytes_def)
  with assms show ?thesis using wlog.read_torn_tail [of fs f k] by simp
qed

theorem wal_torn_record_fails_witness:
  "committed_records (iter_committed (log_bytes [] @ take 3 (frame_bytes (new_frame length OpInsert ''d'' ''{}'')))) =
     Err unexpected_eof"
  by (rule wal_torn_record_fails) (simp_all add: wf_frame_def new_frame_def length_frame_bytes)

text \<open>
  The checksums stored in the log are never compared: changing the checksum of every record
  changes nothing in what recovery reads.
\<close>

theorem wal_checksum_not_verified:
  assumes "list_all wf_frame fs" and "\<And>f. g f < 2 ^ 32"
  shows "committed_records (iter_committed (log_bytes (map (\<lambda>f. f\<lparr>fr_crc := g f\<rparr>) fs))) =
    committed_records (iter_committed (log_bytes fs))"
proof -
  let ?fs = "map (\<lambda>f. f\<lparr>fr_crc := g f\<rparr>) fs"
  have "list_all wf_frame ?fs" using assms by (simp add: list_all_length wf_frame_def)
  then have "committed_records (concat (map frame_bytes ?fs)) = Ok (concat (map frame_record ?fs))"
    by (rule wlog.read_frames)
  moreover have "frame_record \<circ> (\<lambda>f. f\<lparr>fr_crc := g f\<rparr>) = frame_record" by (simp add: fun_eq_iff frame_record_def)
  ultimately show ?thesis using wlog.read_frames [OF assms(1)] by simp
qed

theorem wal_checksum_not_verified_witness:
  "committed_records (iter_committed (log_bytes (map (\<lambda>f. f\<lparr>fr_crc := 7\<rparr>) [new_frame length OpDelete ''d'' []]))) =
   committed_records (iter_committed (log_bytes [new_frame length OpDelete ''d'' []]))"
  by (rule wal_checksum_not_verified) (simp_all add: wf_frame_def new_frame_def)

text \<open>
  C26: Replay of a serial log. Transactions that ended before the next one began, writes outside
  transactions, and a last transaction that never ended: the callback sees exactly the writes of
  the committed transactions and the bare writes, in order, and its first error is the result.
\<close>

theorem replay_serial_log:
  assumes "list_all (\<lambda>u. list_all is_write (unit_writes u)) us" "list_all is_write unfinished"
    and "entries_coded crc enc dec (concat (map unit_entries us) @ EBegin t # unfinished)"
  shows "replay dec f (log_bytes (map (tx_frame crc enc) (concat (map unit_entries us) @ EBegin t # unfinished))) s =
    foldM f (concat (map unit_effect us)) s"
proof -
  have "foldM (replay_entry f) (concat (map unit_entries us) @ EBegin t # unfinished) (None, [], s) =
      outcome_map (\<lambda>s'. (Some t, unfinished, s')) (foldM f (concat (map unit_effect us)) s)"
    using assms(1,2)
    by (cases "foldM f (concat (map unit_effect us)) s") (simp_all add: foldM_append replay_units replay_pending)
  then show ?thesis
    unfolding replay_log [OF assms(3)] by (cases "foldM f (concat (map unit_effect us)) s") simp_all
qed

definition toy_entry_code :: "unit wal_entry \<Rightarrow> bytes" where
  "toy_entry_code e =
     (case e of EBegin t \<Rightarrow> ''b'' | ECommit t \<Rightarrow> ''c'' | EAbort t \<Rightarrow> ''a'' | EDelete t c i \<Rightarrow> i | _ \<Rightarrow> ''?'')"

definition toy_entry_decode :: "bytes \<Rightarrow> unit wal_entry option" where
  "toy_entry_decode bs =
     (if bs = ''b'' then Some (EBegin 1) else if bs = ''c'' then Some (ECommit 1)
      else if bs = ''a'' then Some (EAbort 1) else Some (EDelete 1 ''coll'' bs))"

theorem replay_serial_log_witness:
  "replay toy_entry_decode (\<lambda>s e. Ok (s @ [e]))
     (log_bytes (map (tx_frame length toy_entry_code)
        [EBegin 1, EDelete 1 ''coll'' ''x'', ECommit 1, EBegin 1, EDelete 1 ''coll'' ''y'', EAbort 1,
         EBegin 1, EDelete 1 ''coll'' ''z''])) [] =
   Ok [EDelete 1 ''coll'' ''x'']"
  using replay_serial_log [of "[TxCommitted 1 [EDelete 1 ''coll'' ''x''], TxAborted 1 [EDelete 1 ''coll'' ''y'']]"
      "[EDelete 1 ''coll'' ''z'']" length toy_entry_code toy_entry_decode 1 "\<lambda>s e. Ok (s @ [e])" "[]"]
  by (simp add: entries_coded_def toy_entry_code_def toy_entry_decode_def)

text \<open>
  Interleaved transactions are lost. When a second transaction begins before the first one
  commits, replay applies nothing of either, although the log holds the commit of both.
\<close>

theorem replay_interleaved_loses_writes:
  assumes "t1 \<noteq> t2" "is_write w1" "is_write w2"
    and "entries_coded crc enc dec [EBegin t1, w1, EBegin t2, w2, ECommit t1, ECommit t2]"
  shows "replay dec f (log_bytes (map (tx_frame crc enc) [EBegin t1, w1, EBegin t2, w2, ECommit t1, ECommit t2])) s = Ok s"
  unfolding replay_log [OF assms(4)] using assms(1-3) by (simp add: replay_entry_pending)

definition toy_entry_decode2 :: "bytes \<Rightarrow> unit wal_entry option" where
  "toy_entry_decode2 bs =
     map_of [(''b1'', EBegin 1), (''c1'', ECommit 1), (''b2'', EBegin 2), (''c2'', ECommit 2),
             (''x'', EDelete 1 ''coll'' ''x''), (''y'', EDelete 2 ''coll'' ''y'')] bs"

definition toy_entry_code2 :: "unit wal_entry \<Rightarrow> bytes" where
  "toy_entry_code2 e =
     (case e of EBegin t \<Rightarrow> if t = 1 then ''b1'' else ''b2'' | ECommit t \<Rightarrow> if t = 1 then ''c1'' else ''c2''
      | EDelete t c i \<Rightarrow> i | _ \<Rightarrow> ''?'')"

theorem replay_interleaved_loses_writes_witness:
  "replay toy_entry_decode2 (\<lambda>s e. Ok (s @ [e]))
     (log_bytes (map (tx_frame length toy_entry_code2)
        [EBegin 1, EDelete 1 ''coll'' ''x'', EBegin 2, EDelete 2 ''coll'' ''y'', ECommit 1, ECommit 2])) [] = Ok []"
  by (rule replay_interleaved_loses_writes)
     (simp_all add: entries_coded_def toy_entry_code2_def toy_entry_decode2_def)

end
