(* ===== verification/Replication.thy ===== *)
theory Replication
  imports Wal
begin

text \<open>
  The replication log, the change feed and the follower of \<open>src/src/replication.rs\<close>. The log
  file is a six-byte header and length-prefixed records; the JSON coding of a record is a pair
  of arguments \<open>enc\<close> and \<open>dec\<close>, the clock an argument of the call that reads it, and the
  channels of the subscribers are numbered: \<open>connected c\<close> is what \<open>send\<close> on channel \<open>c\<close>
  answers, and \<open>publish\<close> returns the messages sent.
\<close>

definition REPL_MAGIC :: bytes where
  "REPL_MAGIC = ''CRL1''"

definition REPL_VERSION :: nat where
  "REPL_VERSION = 1"

record change_record =
  sequence :: nat
  chg_op :: wal_op
  chg_doc_id :: string
  chg_payload :: bytes
  timestamp :: int

record repl_log =
  rl_file :: bytes
  next_sequence :: nat

definition repl_header :: bytes where
  "repl_header = REPL_MAGIC @ le_bytes 2 REPL_VERSION"

text \<open>\<open>compute_next_sequence\<close>: unreadable records are skipped, a short last record is an error.\<close>

function max_sequence :: "(bytes \<Rightarrow> change_record option) \<Rightarrow> bytes \<Rightarrow> nat \<Rightarrow> nat outcome" where
  "max_sequence dec bs m =
     (case read_le 4 bs of
        None \<Rightarrow> Ok m
      | Some (len, r) \<Rightarrow>
          (case read_exact len r of
             None \<Rightarrow> Err unexpected_eof
           | Some (buf, r') \<Rightarrow>
               max_sequence dec r' (case dec buf of None \<Rightarrow> m | Some rec \<Rightarrow> max m (sequence rec))))"
  by pat_completeness auto
termination
  by (relation "measure (\<lambda>(dec, bs, m). length bs)") (auto dest!: read_le_length read_exact_length)

declare max_sequence.simps [simp del]

definition compute_next_sequence :: "(bytes \<Rightarrow> change_record option) \<Rightarrow> bytes \<Rightarrow> nat outcome" where
  "compute_next_sequence dec f = outcome_map (\<lambda>m. u64_add m 1) (max_sequence dec (drop 6 f) 0)"

definition repl_open :: "(bytes \<Rightarrow> change_record option) \<Rightarrow> bytes \<Rightarrow> repl_log outcome" where
  "repl_open dec f =
     (if f = [] then Ok \<lparr>rl_file = repl_header, next_sequence = 1\<rparr>
      else and_then (ok_or (read_exact 4 f) unexpected_eof) (\<lambda>(mg, r).
        if mg \<noteq> REPL_MAGIC then Err (Corrupt ''Invalid replication log magic'')
        else and_then (ok_or (read_le 2 r) unexpected_eof) (\<lambda>(v, _).
          if v \<noteq> REPL_VERSION
          then Err (Corrupt (''Unsupported replication log version '' @ nat_to_string v))
          else and_then (compute_next_sequence dec f) (\<lambda>n. Ok \<lparr>rl_file = f, next_sequence = n\<rparr>))))"

definition repl_frame :: "(change_record \<Rightarrow> bytes) \<Rightarrow> change_record \<Rightarrow> bytes" where
  "repl_frame enc rec = le_bytes 4 (as_u32 (length (enc rec))) @ enc rec"

definition repl_append ::
  "(change_record \<Rightarrow> bytes) \<Rightarrow> int \<Rightarrow> repl_log \<Rightarrow> wal_op \<Rightarrow> string \<Rightarrow> bytes \<Rightarrow> repl_log \<times> nat" where
  "repl_append enc now l op ident payload =
     (let s = next_sequence l;
          rec = \<lparr>sequence = s, chg_op = op, chg_doc_id = ident, chg_payload = payload, timestamp = now\<rparr>
      in (\<lparr>rl_file = rl_file l @ repl_frame enc rec, next_sequence = u64_add s 1\<rparr>, s))"

definition repl_reset :: "repl_log \<Rightarrow> repl_log" where
  "repl_reset l = \<lparr>rl_file = set_len (rl_file l) 6, next_sequence = 1\<rparr>"

text \<open>\<open>ChangeIter::next\<close>.\<close>

function change_next ::
  "(bytes \<Rightarrow> change_record option) \<Rightarrow> nat \<Rightarrow> bytes \<Rightarrow> (change_record outcome \<times> bytes) option" where
  "change_next dec start bs =
     (case read_le 4 bs of
        None \<Rightarrow> None
      | Some (len, r) \<Rightarrow>
          (case read_exact len r of
             None \<Rightarrow> Some (Err unexpected_eof, [])
           | Some (buf, r') \<Rightarrow>
               (case dec buf of
                  None \<Rightarrow> Some (Err Serialization, r')
                | Some rec \<Rightarrow> if start \<le> sequence rec then Some (Ok rec, r') else change_next dec start r')))"
  by pat_completeness auto
termination
  by (relation "measure (\<lambda>(dec, start, bs). length bs)") (auto dest!: read_le_length read_exact_length)

declare change_next.simps [simp del]

lemma change_next_length: "change_next dec start bs = Some (x, r) \<Longrightarrow> x = Ok rec \<Longrightarrow> length r < length bs"
proof (induction bs rule: measure_induct_rule [where f = length])
  case (less bs)
  show ?case
  proof (cases "read_le 4 bs")
    case None
    with less.prems show ?thesis by (simp add: change_next.simps [of dec start bs])
  next
    case len: (Some y)
    obtain n r1 where y: "y = (n, r1)" by (cases y)
    have l1: "length r1 < length bs" using len y by (auto dest: read_le_length)
    show ?thesis
    proof (cases "read_exact n r1")
      case None
      with less.prems len y show ?thesis by (simp add: change_next.simps [of dec start bs])
    next
      case (Some z)
      obtain buf r2 where z: "z = (buf, r2)" by (cases z)
      have "length r2 \<le> length r1" using Some z by (auto dest: read_exact_length)
      with l1 have l2: "length r2 < length bs" by simp
      with less.prems less.IH [OF l2] len y Some z show ?thesis
        by (auto simp: change_next.simps [of dec start bs] split: option.splits if_splits)
    qed
  qed
qed

text \<open>
  \<open>for record in log.iter_from(start)? { let record = record?; ... }\<close>, the body a state change
  that cannot fail: the state reached and, when the iteration stopped on an error, the error.
\<close>

function change_fold ::
  "(bytes \<Rightarrow> change_record option) \<Rightarrow> nat \<Rightarrow> ('s \<Rightarrow> change_record \<Rightarrow> 's) \<Rightarrow> bytes \<Rightarrow> 's \<Rightarrow> 's \<times> error option" where
  "change_fold dec start f bs s =
     (case change_next dec start bs of
        None \<Rightarrow> (s, None)
      | Some (Ok rec, r) \<Rightarrow> change_fold dec start f r (f s rec)
      | Some (Err e, r) \<Rightarrow> (s, Some e)
      | Some (Panic, r) \<Rightarrow> (s, None))"
  by pat_completeness auto
termination
  by (relation "measure (\<lambda>(dec, start, f, bs, s). length bs)") (auto dest: change_next_length)

declare change_fold.simps [simp del]

definition changes_from :: "(bytes \<Rightarrow> change_record option) \<Rightarrow> nat \<Rightarrow> bytes \<Rightarrow> change_record list outcome" where
  "changes_from dec start bs =
     (case change_fold dec start (\<lambda>acc rec. acc @ [rec]) bs [] of (recs, None) \<Rightarrow> Ok recs | (_, Some e) \<Rightarrow> Err e)"

subsection \<open>Change feed\<close>

record change_feed =
  feed_log :: repl_log
  subscribers :: "nat list"

definition feed_open :: "(bytes \<Rightarrow> change_record option) \<Rightarrow> bytes \<Rightarrow> change_feed outcome" where
  "feed_open dec f = outcome_map (\<lambda>l. \<lparr>feed_log = l, subscribers = []\<rparr>) (repl_open dec f)"

text \<open>\<open>publish\<close> reads the clock twice, once for the log and once for the subscribers.\<close>

definition publish ::
  "(change_record \<Rightarrow> bytes) \<Rightarrow> (nat \<Rightarrow> bool) \<Rightarrow> int \<Rightarrow> int \<Rightarrow> change_feed \<Rightarrow> wal_op \<Rightarrow> string \<Rightarrow> bytes
     \<Rightarrow> change_feed \<times> nat \<times> (nat \<times> change_record) list" where
  "publish enc connected now1 now2 feed op ident payload =
     (let (l, s) = repl_append enc now1 (feed_log feed) op ident payload;
          rec = \<lparr>sequence = s, chg_op = op, chg_doc_id = ident, chg_payload = payload, timestamp = now2\<rparr>;
          alive = filter connected (subscribers feed)
      in (\<lparr>feed_log = l, subscribers = alive\<rparr>, s, map (\<lambda>c. (c, rec)) alive))"

definition subscribe :: "change_feed \<Rightarrow> nat \<Rightarrow> change_feed" where
  "subscribe feed c = feed\<lparr>subscribers := subscribers feed @ [c]\<rparr>"

definition changes_since :: "(bytes \<Rightarrow> change_record option) \<Rightarrow> change_feed \<Rightarrow> nat \<Rightarrow> change_record list outcome" where
  "changes_since dec feed start = changes_from dec start (drop 6 (rl_file (feed_log feed)))"

definition feed_next_sequence :: "change_feed \<Rightarrow> nat" where
  "feed_next_sequence feed = next_sequence (feed_log feed)"

definition feed_reset :: "change_feed \<Rightarrow> change_feed" where
  "feed_reset feed = feed\<lparr>feed_log := repl_reset (feed_log feed)\<rparr>"

subsection \<open>Follower\<close>

text \<open>
  A follower keeps only the last sequence number it has seen. \<open>poll\<close> opens the log (which
  creates its header when the file is empty), and returns the file, the new follower and the
  changes. When the iteration fails the sequence number has already advanced.
\<close>

record follower =
  last_sequence :: nat

definition follower_new :: follower where
  "follower_new = \<lparr>last_sequence = 0\<rparr>"

definition poll ::
  "(bytes \<Rightarrow> change_record option) \<Rightarrow> bytes \<Rightarrow> follower \<Rightarrow> bytes \<times> follower \<times> change_record list outcome" where
  "poll dec f fo =
     (case repl_open dec f of
        Err e \<Rightarrow> (f, fo, Err e)
      | Panic \<Rightarrow> (f, fo, Panic)
      | Ok l \<Rightarrow>
          (case change_fold dec (u64_add (last_sequence fo) 1)
                  (\<lambda>(fo, acc) rec. (fo\<lparr>last_sequence := sequence rec\<rparr>, acc @ [rec]))
                  (drop 6 (rl_file l)) (fo, []) of
             ((fo', acc), None) \<Rightarrow> (rl_file l, fo', Ok acc)
           | ((fo', acc), Some e) \<Rightarrow> (rl_file l, fo', Err e)))"

subsection \<open>The log as a list of records\<close>

definition repl_bytes :: "(change_record \<Rightarrow> bytes) \<Rightarrow> change_record list \<Rightarrow> bytes" where
  "repl_bytes enc recs = repl_header @ concat (map (repl_frame enc) recs)"

definition coded :: "(change_record \<Rightarrow> bytes) \<Rightarrow> (bytes \<Rightarrow> change_record option) \<Rightarrow> change_record \<Rightarrow> bool" where
  "coded enc dec rec \<longleftrightarrow> dec (enc rec) = Some rec \<and> length (enc rec) < 2 ^ 32"

lemma length_repl_header [simp]: "length repl_header = 6"
  by (simp add: repl_header_def REPL_MAGIC_def)

lemma drop_repl_bytes [simp]: "drop 6 (repl_bytes enc recs) = concat (map (repl_frame enc) recs)"
  by (simp add: repl_bytes_def)

lemma length_repl_frame: "length (repl_frame enc rec) = 4 + length (enc rec)"
  by (simp add: repl_frame_def)

lemma read_repl_frame [codec_simps]:
  assumes "coded enc dec rec"
  shows "read_le 4 (repl_frame enc rec @ rest) = Some (length (enc rec), enc rec @ rest)"
  using assms by (simp add: repl_frame_def coded_def codec_simps)

lemma coded_dec [codec_simps]: "coded enc dec rec \<Longrightarrow> dec (enc rec) = Some rec"
  by (simp add: coded_def)

lemma max_sequence_frames:
  "list_all (coded enc dec) recs \<Longrightarrow>
   max_sequence dec (concat (map (repl_frame enc) recs)) m = Ok (foldl (\<lambda>m rec. max m (sequence rec)) m recs)"
proof (induction recs arbitrary: m)
  case Nil
  then show ?case by (simp add: max_sequence.simps read_le_short)
next
  case (Cons rec recs)
  then show ?case
    by (subst max_sequence.simps) (simp add: codec_simps read_repl_frame [of enc dec rec])
qed

lemma change_next_frame:
  assumes "coded enc dec rec"
  shows "change_next dec start (repl_frame enc rec @ rest) =
    (if start \<le> sequence rec then Some (Ok rec, rest) else change_next dec start rest)"
  using assms by (subst change_next.simps) (simp add: codec_simps read_repl_frame [of enc dec rec])

lemma change_fold_frame:
  assumes "coded enc dec rec"
  shows "change_fold dec start f (repl_frame enc rec @ rest) s =
    change_fold dec start f rest (if start \<le> sequence rec then f s rec else s)"
  using assms
  by (simp add: change_fold.simps [of dec start f "repl_frame enc rec @ rest"] change_next_frame
      change_fold.simps [of dec start f rest s])

lemma change_fold_frames_append:
  "list_all (coded enc dec) recs \<Longrightarrow>
   change_fold dec start f (concat (map (repl_frame enc) recs) @ rest) s =
     change_fold dec start f rest (foldl f s (filter (\<lambda>rec. start \<le> sequence rec) recs))"
proof (induction recs arbitrary: s)
  case Nil
  then show ?case by simp
next
  case (Cons rec recs)
  then show ?case by (simp add: change_fold_frame)
qed

lemma change_fold_nil [simp]: "change_fold dec start f [] s = (s, None)"
  by (simp add: change_fold.simps change_next.simps read_le_short)

lemma change_fold_frames:
  "list_all (coded enc dec) recs \<Longrightarrow>
   change_fold dec start f (concat (map (repl_frame enc) recs)) s =
     (foldl f s (filter (\<lambda>rec. start \<le> sequence rec) recs), None)"
  using change_fold_frames_append [of enc dec recs start f "[]"] by simp

lemma foldl_collect: "foldl (\<lambda>acc x. acc @ [x]) acc xs = acc @ xs"
  by (induction xs arbitrary: acc) auto

lemma foldl_follow:
  "foldl (\<lambda>(fo, acc) rec. (fo\<lparr>last_sequence := sequence rec\<rparr>, acc @ [rec])) (fo, acc) recs =
     (if recs = [] then fo else fo\<lparr>last_sequence := sequence (last recs)\<rparr>, acc @ recs)"
  by (induction recs arbitrary: fo acc) auto

text \<open>What the iterator returns after a record: a torn record at the end is an error.\<close>

lemma change_fold_acc:
  "change_fold dec start (\<lambda>acc rec. acc @ [rec]) bs acc =
     apfst ((@) acc) (change_fold dec start (\<lambda>acc rec. acc @ [rec]) bs [])"
proof (induction bs arbitrary: acc rule: measure_induct_rule [where f = length])
  case (less bs)
  show ?case
  proof (cases "change_next dec start bs")
    case None
    then show ?thesis by (simp add: change_fold.simps [of dec start _ bs])
  next
    case (Some z)
    show ?thesis
    proof (cases "\<exists>rec r. z = (Ok rec, r)")
      case True
      then obtain rec r where z: "z = (Ok rec, r)" by blast
      have "length r < length bs" using Some z by (auto dest: change_next_length)
      from less [OF this, of "acc @ [rec]"] less [OF this, of "[rec]"] Some z show ?thesis
        by (simp add: change_fold.simps [of dec start _ bs] apfst_def map_prod_def split: prod.splits)
    next
      case False
      with Some show ?thesis
        by (cases z; cases "fst z") (simp_all add: change_fold.simps [of dec start _ bs])
    qed
  qed
qed

lemma changes_from_frame:
  assumes "coded enc dec rec"
  shows "changes_from dec start (repl_frame enc rec @ rest) =
    outcome_map ((@) (if start \<le> sequence rec then [rec] else [])) (changes_from dec start rest)"
  using assms change_fold_acc [of dec start rest "[rec]"]
  by (auto simp: changes_from_def change_fold_frame split: prod.splits option.splits)

lemma torn_repl_frame:
  assumes "coded enc dec rec" "4 \<le> k" "k < length (repl_frame enc rec)"
  shows "read_le 4 (take k (repl_frame enc rec)) = Some (length (enc rec), take (k - 4) (enc rec))"
    and "read_exact (length (enc rec)) (take (k - 4) (enc rec)) = None"
  using assms
  by (simp_all add: repl_frame_def coded_def codec_simps read_exact_short)

lemma changes_from_torn:
  assumes "coded enc dec rec" "4 \<le> k" "k < length (repl_frame enc rec)"
  shows "changes_from dec start (take k (repl_frame enc rec)) = Err unexpected_eof"
  using torn_repl_frame [OF assms]
  by (simp add: changes_from_def change_fold.simps change_next.simps)

interpretation rlog: framed_strict "repl_frame enc" "coded enc dec"
    "\<lambda>rec. if start \<le> sequence rec then [rec] else []" "changes_from dec start" 4
  for enc dec start
  by unfold_locales
     (simp_all add: changes_from_frame changes_from_torn, simp add: changes_from_def)

subsection \<open>Histories\<close>

text \<open>
  A history is the list of changes published, each with the time the log read. \<open>published\<close> is
  the log after them, \<open>history\<close> their records.
\<close>

type_synonym change = "int \<times> wal_op \<times> string \<times> bytes"

definition published :: "(change_record \<Rightarrow> bytes) \<Rightarrow> change list \<Rightarrow> repl_log \<Rightarrow> repl_log" where
  "published enc cs l = foldl (\<lambda>l (now, op, ident, payload). fst (repl_append enc now l op ident payload)) l cs"

fun history :: "nat \<Rightarrow> change list \<Rightarrow> change_record list" where
  "history n [] = []"
| "history n ((now, op, ident, payload) # cs) =
     \<lparr>sequence = n, chg_op = op, chg_doc_id = ident, chg_payload = payload, timestamp = now\<rparr> # history (Suc n) cs"

lemma length_history [simp]: "length (history n cs) = length cs"
  by (induction n cs rule: history.induct) auto

lemma sequences_history: "map sequence (history n cs) = [n..<n + length cs]"
  by (induction n cs rule: history.induct) (simp_all add: upt_conv_Cons del: upt_Suc)

lemma history_append: "history n (cs @ ds) = history n cs @ history (n + length cs) ds"
  by (induction n cs rule: history.induct) auto

lemma published_history:
  "rl_file l = repl_bytes enc recs \<Longrightarrow> next_sequence l + length cs < 2 ^ 64 \<Longrightarrow>
   published enc cs l = \<lparr>rl_file = repl_bytes enc (recs @ history (next_sequence l) cs),
     next_sequence = next_sequence l + length cs\<rparr>"
proof (induction cs arbitrary: l recs)
  case Nil
  then show ?case by (simp add: published_def)
next
  case (Cons c cs)
  obtain now op ident payload where c: "c = (now, op, ident, payload)" by (metis prod_cases4)
  let ?rec = "\<lparr>sequence = next_sequence l, chg_op = op, chg_doc_id = ident, chg_payload = payload, timestamp = now\<rparr>"
  have l': "fst (repl_append enc now l op ident payload) =
      \<lparr>rl_file = repl_bytes enc (recs @ [?rec]), next_sequence = Suc (next_sequence l)\<rparr>"
    using Cons.prems by (simp add: repl_append_def Let_def repl_bytes_def)
  have "published enc (c # cs) l = published enc cs (fst (repl_append enc now l op ident payload))"
    by (simp add: published_def c)
  also have "\<dots> = \<lparr>rl_file = repl_bytes enc ((recs @ [?rec]) @ history (Suc (next_sequence l)) cs),
      next_sequence = Suc (next_sequence l) + length cs\<rparr>"
    unfolding l' using Cons.prems by (subst Cons.IH [of _ "recs @ [?rec]"]) simp_all
  finally show ?case by (simp add: c)
qed

lemma filter_history:
  "k \<le> length cs \<Longrightarrow> filter (\<lambda>rec. n + k \<le> sequence rec) (history n cs) = drop k (history n cs)"
proof (induction cs arbitrary: n k)
  case Nil
  then show ?case by simp
next
  case (Cons c cs)
  obtain now op ident payload where c: "c = (now, op, ident, payload)" by (metis prod_cases4)
  have all: "filter (\<lambda>rec. n \<le> sequence rec) (history (Suc n) cs) = history (Suc n) cs"
  proof (rule filter_True, rule ballI)
    fix rec
    assume "rec \<in> set (history (Suc n) cs)"
    then have "sequence rec \<in> set (map sequence (history (Suc n) cs))" by simp
    then show "n \<le> sequence rec" unfolding sequences_history by auto
  qed
  show ?case
  proof (cases k)
    case 0
    with c all show ?thesis by simp
  next
    case (Suc k')
    with Cons.prems Cons.IH [of k' "Suc n"] c show ?thesis by simp
  qed
qed

lemma max_history: "foldl (\<lambda>m rec. max m (sequence rec)) m (history (Suc m) cs) = m + length cs"
proof (induction cs arbitrary: m)
  case Nil
  then show ?case by simp
next
  case (Cons c cs)
  obtain now op ident payload where "c = (now, op, ident, payload)" by (metis prod_cases4)
  with Cons [of "Suc m"] show ?case by simp
qed

lemma repl_open_bytes:
  assumes "list_all (coded enc dec) (history 1 cs)" "Suc (length cs) < 2 ^ 64"
  shows "repl_open dec (repl_bytes enc (history 1 cs)) =
    Ok \<lparr>rl_file = repl_bytes enc (history 1 cs), next_sequence = Suc (length cs)\<rparr>"
proof -
  let ?f = "repl_bytes enc (history 1 cs)"
  have f: "?f = REPL_MAGIC @ le_bytes 2 REPL_VERSION @ concat (map (repl_frame enc) (history 1 cs))"
    by (simp add: repl_bytes_def repl_header_def)
  have "?f \<noteq> []" unfolding f by (simp add: REPL_MAGIC_def)
  moreover have "read_exact 4 ?f = Some (REPL_MAGIC, le_bytes 2 REPL_VERSION @ concat (map (repl_frame enc) (history 1 cs)))"
    unfolding f by (rule read_exact_append) (simp add: REPL_MAGIC_def)
  moreover have "compute_next_sequence dec ?f = Ok (Suc (length cs))"
    using max_sequence_frames [OF assms(1), of 0] max_history [of 0 cs] assms(2)
    by (simp add: compute_next_sequence_def)
  ultimately show ?thesis by (simp add: repl_open_def read_u16 REPL_VERSION_def)
qed

lemma poll_history:
  assumes "list_all (coded enc dec) (history 1 cs)" "Suc (length cs) < 2 ^ 64" "Suc j < 2 ^ 64"
  shows "poll dec (repl_bytes enc (history 1 cs)) \<lparr>last_sequence = j\<rparr> =
    (let seen = filter (\<lambda>rec. Suc j \<le> sequence rec) (history 1 cs) in
     (repl_bytes enc (history 1 cs),
      \<lparr>last_sequence = (if seen = [] then j else sequence (last seen))\<rparr>, Ok seen))"
  unfolding poll_def repl_open_bytes [OF assms(1,2)]
  using assms(3) by (simp add: change_fold_frames [OF assms(1), simplified] foldl_follow Let_def)

subsection \<open>Properties\<close>

text \<open>
  C24: A follower sees every change exactly once. After any history published into a fresh log, a
  follower that has seen the first \<open>k\<close> changes gets the others, in order, and a second poll
  returns none; polling does not change the file.
\<close>

theorem follower_exactly_once:
  assumes "repl_open dec [] = Ok l0" and "list_all (coded enc dec) (history 1 cs)"
    and "Suc (length cs) < 2 ^ 64" and "k \<le> length cs"
  shows "let f = rl_file (published enc cs l0)
    in poll dec f \<lparr>last_sequence = k\<rparr> = (f, \<lparr>last_sequence = length cs\<rparr>, Ok (drop k (history 1 cs)))
       \<and> poll dec f \<lparr>last_sequence = length cs\<rparr> = (f, \<lparr>last_sequence = length cs\<rparr>, Ok [])"
proof -
  have l0: "l0 = \<lparr>rl_file = repl_header, next_sequence = 1\<rparr>"
    using assms(1) by (simp add: repl_open_def)
  have f: "rl_file (published enc cs l0) = repl_bytes enc (history 1 cs)"
    using published_history [of l0 enc "[]" cs] assms(3) by (simp add: l0 repl_bytes_def)
  have last: "sequence (last (drop k (history (Suc 0) cs))) = length cs" if "k < length cs" for k
  proof -
    have "map sequence (drop k (history (Suc 0) cs)) = [Suc k..<Suc (length cs)]"
      unfolding drop_map [symmetric] sequences_history by (simp add: drop_upt del: upt_Suc)
    with that show ?thesis
      by (metis last_map last_upt length_drop length_history diff_Suc_1 less_Suc_eq_0_disj
          zero_less_diff length_greater_0_conv Suc_less_eq)
  qed
  have "poll dec (repl_bytes enc (history 1 cs)) \<lparr>last_sequence = j\<rparr> =
      (repl_bytes enc (history 1 cs), \<lparr>last_sequence = length cs\<rparr>, Ok (drop j (history 1 cs)))"
    if "j \<le> length cs" for j
    unfolding poll_history [OF assms(2,3) order_le_less_trans [OF Suc_le_mono [THEN iffD2, OF that] assms(3)]]
    using that filter_history [of j cs 1] last [of j] by (cases "j = length cs") simp_all
  from this [OF assms(4)] this [OF order_refl] show ?thesis by (simp add: f)
qed

definition toy_change_code :: "change_record \<Rightarrow> bytes" where
  "toy_change_code rec = [char_of (sequence rec)]"

definition toy_change_decode :: "bytes \<Rightarrow> change_record option" where
  "toy_change_decode bs =
     (case bs of [c] \<Rightarrow> Some \<lparr>sequence = of_char c, chg_op = OpInsert, chg_doc_id = ''d'', chg_payload = [], timestamp = 0\<rparr>
      | _ \<Rightarrow> None)"

theorem follower_exactly_once_witness:
  "let f = rl_file (published toy_change_code [(0, OpInsert, ''d'', []), (0, OpInsert, ''d'', [])]
                      \<lparr>rl_file = repl_header, next_sequence = 1\<rparr>)
   in poll toy_change_decode f \<lparr>last_sequence = 1\<rparr> =
        (f, \<lparr>last_sequence = 2\<rparr>,
         Ok [\<lparr>sequence = 2, chg_op = OpInsert, chg_doc_id = ''d'', chg_payload = [], timestamp = 0\<rparr>])"
  using follower_exactly_once [of toy_change_decode "\<lparr>rl_file = repl_header, next_sequence = 1\<rparr>"
      toy_change_code "[(0, OpInsert, ''d'', []), (0, OpInsert, ''d'', [])]" 1]
  by (simp add: repl_open_def coded_def toy_change_code_def toy_change_decode_def Let_def flip: numeral_2_eq_2)

text \<open>
  Sequence numbers after a reset. \<open>reset\<close> (which \<open>Engine::compact\<close> calls) restarts them at
  1, so a follower that has seen \<open>k\<close> changes gets an empty, successful answer for the next \<open>k\<close>
  changes published after it, and never sees them.
\<close>

theorem follower_misses_changes_after_reset:
  assumes "repl_open dec [] = Ok l0" and "list_all (coded enc dec) (history 1 ds)"
    and "Suc (length cs) < 2 ^ 64" and "length ds \<le> length cs"
  shows "let f = rl_file (published enc ds (repl_reset (published enc cs l0)))
    in poll dec f \<lparr>last_sequence = length cs\<rparr> = (f, \<lparr>last_sequence = length cs\<rparr>, Ok [])
       \<and> changes_from dec 1 (drop 6 f) = Ok (history 1 ds)"
proof -
  have l0: "l0 = \<lparr>rl_file = repl_header, next_sequence = 1\<rparr>"
    using assms(1) by (simp add: repl_open_def)
  have "rl_file (published enc cs l0) = repl_header @ concat (map (repl_frame enc) (history 1 cs))"
    using published_history [of l0 enc "[]" cs] assms(3) by (simp add: l0 repl_bytes_def)
  then have "repl_reset (published enc cs l0) = \<lparr>rl_file = repl_bytes enc [], next_sequence = 1\<rparr>"
    by (simp add: repl_reset_def set_len_def repl_bytes_def)
  then have f: "rl_file (published enc ds (repl_reset (published enc cs l0))) = repl_bytes enc (history 1 ds)"
    using assms(3,4) published_history [of "repl_reset (published enc cs l0)" enc "[]" ds] by simp
  have none: "filter (\<lambda>rec. Suc (length cs) \<le> sequence rec) (history 1 ds) = []"
  proof (rule filter_False, rule ballI)
    fix rec
    assume "rec \<in> set (history 1 ds)"
    then have "sequence rec \<in> set (map sequence (history 1 ds))" by simp
    then have "sequence rec \<le> length ds" unfolding sequences_history by auto
    with assms(4) show "\<not> Suc (length cs) \<le> sequence rec" by simp
  qed
  have "filter (\<lambda>rec. 1 \<le> sequence rec) (history 1 ds) = history 1 ds"
    using filter_history [of 0 ds 1] by simp
  moreover have "concat (map (\<lambda>rec. if p rec then [rec] else []) recs) = filter p recs"
    for p :: "change_record \<Rightarrow> bool" and recs by (induction recs) auto
  ultimately have "changes_from dec 1 (concat (map (repl_frame enc) (history 1 ds))) = Ok (history 1 ds)"
    using rlog.read_frames [OF assms(2), of 1] by simp
  moreover have "Suc (length ds) < 2 ^ 64" using assms(3,4) by simp
  ultimately show ?thesis
    using poll_history [OF assms(2) _ assms(3)] none by (simp add: f)
qed

theorem follower_misses_changes_after_reset_witness:
  "let f = rl_file (published toy_change_code [(0, OpInsert, ''d'', [])]
                      (repl_reset (published toy_change_code [(0, OpInsert, ''d'', [])]
                         \<lparr>rl_file = repl_header, next_sequence = 1\<rparr>)))
   in poll toy_change_decode f \<lparr>last_sequence = 1\<rparr> = (f, \<lparr>last_sequence = 1\<rparr>, Ok [])"
  using follower_misses_changes_after_reset [of toy_change_decode "\<lparr>rl_file = repl_header, next_sequence = 1\<rparr>"
      toy_change_code "[(0, OpInsert, ''d'', [])]" "[(0, OpInsert, ''d'', [])]"]
  by (simp add: repl_open_def coded_def toy_change_code_def toy_change_decode_def Let_def)

text \<open>
  Publishing a change logs it under the next sequence number and sends the same change, with
  the time read after the write, once to every subscriber that is still connected, in the order
  of subscription; the others are dropped.
\<close>

theorem publish_logs_and_notifies:
  "publish enc connected t1 t2 feed op ident payload =
     (let s = next_sequence (feed_log feed); cs = filter connected (subscribers feed) in
      (\<lparr>feed_log = published enc [(t1, op, ident, payload)] (feed_log feed), subscribers = cs\<rparr>, s,
       map (\<lambda>c. (c, (hd (history s [(t1, op, ident, payload)]))\<lparr>timestamp := t2\<rparr>)) cs))"
  by (simp add: publish_def repl_append_def published_def Let_def)

end
