(* ===== verification/Engine.thy ===== *)
theory Engine
  imports Query Storage Replication
begin

text \<open>
  The engine of \<open>src/src/engine.rs\<close>: write-ahead log, page file, documents, inverted index and
  change feed. An engine is the contents of its three files together with what the handles and
  the process keep in memory; \<open>engine_files\<close> is what a later \<open>open\<close> finds. The JSON codings,
  the checksum and the allocator are a record of arguments (\<open>codec\<close>), what a call reads from
  its environment (fresh UUID, clock, connected receivers) a record \<open>call_env\<close>. The optional
  Tantivy index, a feature that is off by default, is in the theory \<open>Tantivy\<close>.
\<close>

record 'n codec =
  cd_crc :: "bytes \<Rightarrow> nat"
  enc_doc :: "'n document \<Rightarrow> bytes"
  dec_doc :: "bytes \<Rightarrow> 'n document option"
  enc_docs :: "(string, 'n document) hashmap \<Rightarrow> bytes"
  dec_docs :: "bytes \<Rightarrow> (string, 'n document) hashmap option"
  enc_change :: "change_record \<Rightarrow> bytes"
  dec_change :: "bytes \<Rightarrow> change_record option"
  can_alloc :: "nat \<Rightarrow> bool"

record call_env =
  ce_uuid :: string
  ce_time1 :: int
  ce_time2 :: int
  ce_connected :: "nat \<Rightarrow> bool"

record db_files =
  main_file :: bytes
  wal_file :: bytes
  repl_file :: bytes

record 'n engine =
  eng_wal :: bytes
  eng_storage :: storage
  eng_docs :: "(string, 'n document) hashmap"
  eng_index :: inverted_index
  eng_feed :: "change_feed option"

subsection \<open>Opening\<close>

text \<open>One committed record of the log, in the recovery loop of \<open>open\<close>.\<close>

definition recover_put ::
  "'n document \<Rightarrow> (string, 'n document) hashmap \<times> inverted_index \<Rightarrow> (string, 'n document) hashmap \<times> inverted_index" where
  "recover_put doc = (\<lambda>(docs, ix).
     let ix1 = (case hm_get docs (doc_id doc) of
                  Some old \<Rightarrow> remove_document (doc_id doc) (doc_data old) ix
                | None \<Rightarrow> ix)
     in (hm_insert (doc_id doc) doc docs, index_document (doc_id doc) (doc_data doc) ix1))"

definition recover_step ::
  "'n codec \<Rightarrow> (string, 'n document) hashmap \<times> inverted_index \<Rightarrow> wal_record
     \<Rightarrow> ((string, 'n document) hashmap \<times> inverted_index) outcome" where
  "recover_step c st rec =
     (case rec_op rec of
        OpDelete \<Rightarrow>
          (case hm_get (fst st) (rec_id rec) of
             Some old \<Rightarrow> Ok (hm_remove (rec_id rec) (fst st), remove_document (rec_id rec) (doc_data old) (snd st))
           | None \<Rightarrow> Ok st)
      | OpTxEntry \<Rightarrow> Ok st
      | _ \<Rightarrow> (case dec_doc c (rec_payload rec) of
               None \<Rightarrow> Err Serialization
             | Some doc \<Rightarrow> Ok (recover_put doc st)))"

text \<open>
  Loading the compacted documents from the page file. \<open>Vec::with_capacity(len)\<close> ends the
  process when the allocation fails, a \<open>Panic\<close> here.
\<close>

definition read_pages :: "storage \<Rightarrow> nat \<Rightarrow> bytes" where
  "read_pages st n =
     concat (map (\<lambda>i. case read_page st (as_u32 i) of Ok page \<Rightarrow> page | _ \<Rightarrow> []) [1..<Suc n])"

definition load_main ::
  "'n codec \<Rightarrow> storage \<Rightarrow> inverted_index \<Rightarrow> ((string, 'n document) hashmap \<times> inverted_index) outcome" where
  "load_main c st ix =
     (case read_page st (num_pages (st_header st) - 1) of
        Ok tp \<Rightarrow>
          (let len = le_value (take 8 tp) in
           if len = 0 then Ok ([], ix)
           else if \<not> can_alloc c len then Panic
           else case dec_docs c (take len (read_pages st (div_ceil len PAGE_SIZE))) of
               None \<Rightarrow> Ok ([], ix)
             | Some loaded \<Rightarrow>
                 Ok (fold (\<lambda>(i, doc) (docs, ix). (hm_insert i doc docs, index_document i (doc_data doc) ix))
                       loaded ([], ix)))
      | _ \<Rightarrow> Ok ([], ix))"

text \<open>\<open>feed_enabled\<close> is \<open>repl_path.parent().exists()\<close>, false for a bare file name.\<close>

definition engine_open :: "'n codec \<Rightarrow> bool \<Rightarrow> db_files \<Rightarrow> 'n engine outcome" where
  "engine_open c feed_enabled files =
     and_then (wal_open (wal_file files)) (\<lambda>w.
     and_then (storage_open (main_file files)) (\<lambda>st.
     and_then (wal_fold (recover_step c) (iter_committed w) ([], Map.empty)) (\<lambda>(docs, ix).
     and_then (if docs = [] \<and> 1 < num_pages (st_header st) then load_main c st ix else Ok (docs, ix)) (\<lambda>(docs, ix).
     and_then (if feed_enabled then outcome_map Some (feed_open (dec_change c) (repl_file files)) else Ok None) (\<lambda>feed.
       Ok \<lparr>eng_wal = w, eng_storage = st, eng_docs = docs, eng_index = ix, eng_feed = feed\<rparr>)))))"

text \<open>The files of a running engine; \<open>repl0\<close> is the change log when the feed is disabled.\<close>

definition engine_files :: "bytes \<Rightarrow> 'n engine \<Rightarrow> db_files" where
  "engine_files repl0 e =
     \<lparr>main_file = st_file (eng_storage e), wal_file = eng_wal e,
      repl_file = (case eng_feed e of None \<Rightarrow> repl0 | Some feed \<Rightarrow> rl_file (feed_log feed))\<rparr>"

subsection \<open>Changes\<close>

text \<open>Append a record to the log and set its commit flag.\<close>

definition log_write :: "'n codec \<Rightarrow> 'n engine \<Rightarrow> wal_op \<Rightarrow> string \<Rightarrow> bytes \<Rightarrow> 'n engine \<times> unit outcome" where
  "log_write c e op ident payload =
     (let (w, offset) = append_record (cd_crc c) (eng_wal e) op ident payload in
      case commit_record w offset of
        Ok w' \<Rightarrow> (e\<lparr>eng_wal := w'\<rparr>, Ok ())
      | Err x \<Rightarrow> (e\<lparr>eng_wal := w\<rparr>, Err x)
      | Panic \<Rightarrow> (e\<lparr>eng_wal := w\<rparr>, Panic))"

definition feed_publish ::
  "'n codec \<Rightarrow> call_env \<Rightarrow> 'n engine \<Rightarrow> wal_op \<Rightarrow> string \<Rightarrow> bytes \<Rightarrow> 'n engine \<times> (nat \<times> change_record) list" where
  "feed_publish c env e op ident payload =
     (case eng_feed e of
        None \<Rightarrow> (e, [])
      | Some feed \<Rightarrow>
          (let (feed', s, sent) =
                 publish (enc_change c) (ce_connected env) (ce_time1 env) (ce_time2 env) feed op ident payload
           in (e\<lparr>eng_feed := Some feed'\<rparr>, sent)))"

type_synonym ('n, 'r) result = "'n engine \<times> 'r outcome \<times> (nat \<times> change_record) list"

text \<open>Every change returns the new engine, the result and the messages sent to subscribers.\<close>

definition engine_insert :: "'n codec \<Rightarrow> call_env \<Rightarrow> 'n engine \<Rightarrow> 'n document \<Rightarrow> ('n, string) result" where
  "engine_insert c env e doc0 =
     (let doc = (if doc_id doc0 = [] then document_new (ce_uuid env) (doc_data doc0) else doc0);
          payload = enc_doc c doc;
          (e1, r) = log_write c e OpInsert (doc_id doc) payload in
      case r of
        Err x \<Rightarrow> (e1, Err x, [])
      | Panic \<Rightarrow> (e1, Panic, [])
      | Ok _ \<Rightarrow>
          (let e2 = e1\<lparr>eng_index := index_document (doc_id doc) (doc_data doc) (eng_index e1),
                       eng_docs := hm_insert (doc_id doc) doc (eng_docs e1),
                       eng_storage := increment_doc_count (eng_storage e1) 1\<rparr>;
               (e3, sent) = feed_publish c env e2 OpInsert (doc_id doc) payload
           in (e3, Ok (doc_id doc), sent)))"

definition engine_update ::
  "'n codec \<Rightarrow> call_env \<Rightarrow> 'n engine \<Rightarrow> string \<Rightarrow> 'n json \<Rightarrow> ('n, unit) result" where
  "engine_update c env e i data =
     (case hm_get (eng_docs e) i of
        None \<Rightarrow> (e, Err (NotFound i), [])
      | Some old \<Rightarrow>
          (let doc = old\<lparr>doc_data := data\<rparr>;
               payload = enc_doc c doc;
               (e1, r) = log_write c e OpUpdate i payload in
           case r of
             Err x \<Rightarrow> (e1, Err x, [])
           | Panic \<Rightarrow> (e1, Panic, [])
           | Ok _ \<Rightarrow>
               (let e2 = e1\<lparr>eng_index := index_document i (doc_data doc) (remove_document i (doc_data old) (eng_index e1)),
                            eng_docs := hm_insert i doc (eng_docs e1)\<rparr>;
                    (e3, sent) = feed_publish c env e2 OpUpdate i payload
                in (e3, Ok (), sent))))"

definition engine_delete :: "'n codec \<Rightarrow> call_env \<Rightarrow> 'n engine \<Rightarrow> string \<Rightarrow> ('n, unit) result" where
  "engine_delete c env e i =
     (case hm_get (eng_docs e) i of
        None \<Rightarrow> (e, Err (NotFound i), [])
      | Some old \<Rightarrow>
          (let e0 = e\<lparr>eng_docs := hm_remove i (eng_docs e)\<rparr>;
               (e1, r) = log_write c e0 OpDelete i [] in
           case r of
             Err x \<Rightarrow> (e1, Err x, [])
           | Panic \<Rightarrow> (e1, Panic, [])
           | Ok _ \<Rightarrow>
               (let e2 = e1\<lparr>eng_index := remove_document i (doc_data old) (eng_index e1),
                            eng_storage := increment_doc_count (eng_storage e1) (- 1)\<rparr>;
                    (e3, sent) = feed_publish c env e2 OpDelete i []
                in (e3, Ok (), sent))))"

subsection \<open>Reading\<close>

definition engine_get :: "'n engine \<Rightarrow> string \<Rightarrow> 'n document option" where
  "engine_get e i = hm_get (eng_docs e) i"

definition engine_query :: "'n number_api \<Rightarrow> 'n engine \<Rightarrow> 'n query \<Rightarrow> 'n query_result" where
  "engine_query num e q = execute num (eng_index e) (hm_values (eng_docs e)) q"

text \<open>\<open>search\<close> returns the documents in the order of a hash set: a set of documents here.\<close>

definition engine_search :: "'n engine \<Rightarrow> string \<Rightarrow> 'n document set" where
  "engine_search e t = {d. \<exists>i \<in> search (eng_index e) t. hm_get (eng_docs e) i = Some d}"

definition engine_dump :: "('n document list \<Rightarrow> string) \<Rightarrow> 'n engine \<Rightarrow> string" where
  "engine_dump to_pretty e = to_pretty (hm_values (eng_docs e))"

definition engine_doc_count :: "'n engine \<Rightarrow> nat" where
  "engine_doc_count e = length (eng_docs e)"

subsection \<open>Compaction\<close>

text \<open>
  \<open>while num_pages < n { allocate_page()? }\<close>: \<open>None\<close> is a loop that does not end (a cyclic free
  list). A page taken from the free list does not raise the number of pages.
\<close>

partial_function (option) allocate_until :: "nat \<Rightarrow> storage \<Rightarrow> (storage \<times> unit outcome) option" where
  "allocate_until n st =
     (if num_pages (st_header st) < n
      then case allocate_page st of
             Ok (st', _) \<Rightarrow> allocate_until n st'
           | Err x \<Rightarrow> Some (st, Err x)
           | Panic \<Rightarrow> Some (st, Panic)
      else Some (st, Ok ()))"

declare allocate_until.simps [code]

fun chunks :: "nat \<Rightarrow> 'a list \<Rightarrow> 'a list list" where
  "chunks n xs = (if xs = [] \<or> n = 0 then [] else take n xs # chunks n (drop n xs))"

declare chunks.simps [simp del]

definition pad_page :: "bytes \<Rightarrow> bytes" where
  "pad_page bs = bs @ replicate (PAGE_SIZE - length bs) (char_of (0 :: nat))"

fun write_pages :: "nat \<Rightarrow> bytes list \<Rightarrow> storage \<Rightarrow> storage outcome" where
  "write_pages i [] st = Ok st"
| "write_pages i (p # ps) st = and_then (write_page st (as_u32 i) p) (write_pages (Suc i) ps)"

definition compact_pages :: "storage \<Rightarrow> bytes \<Rightarrow> storage outcome" where
  "compact_pages st payload =
     and_then (write_pages 1 (map pad_page (chunks PAGE_SIZE payload)) st) (\<lambda>st1.
       write_page st1 (as_u32 (div_ceil (length payload) PAGE_SIZE + 1)) (pad_page (le_bytes 8 (length payload))))"

definition engine_compact :: "'n codec \<Rightarrow> 'n engine \<Rightarrow> ('n engine \<times> unit outcome) option" where
  "engine_compact c e =
     (let payload = enc_docs c (eng_docs e); pages_needed = div_ceil (length payload) PAGE_SIZE in
      case allocate_until (pages_needed + 1) (eng_storage e) of
        None \<Rightarrow> None
      | Some (st, Err x) \<Rightarrow> Some (e\<lparr>eng_storage := st\<rparr>, Err x)
      | Some (st, Panic) \<Rightarrow> Some (e\<lparr>eng_storage := st\<rparr>, Panic)
      | Some (st, Ok _) \<Rightarrow>
          (case compact_pages st payload of
             Ok st' \<Rightarrow> Some (e\<lparr>eng_storage := st', eng_wal := wal_reset (eng_wal e),
                              eng_feed := map_option feed_reset (eng_feed e)\<rparr>, Ok ())
           | Err x \<Rightarrow> Some (e\<lparr>eng_storage := st\<rparr>, Err x)
           | Panic \<Rightarrow> Some (e\<lparr>eng_storage := st\<rparr>, Panic)))"

subsection \<open>Histories of an engine\<close>

datatype 'n change_op = CInsert "'n document" | CUpdate string "'n json" | CDelete string

text \<open>The document \<open>insert\<close> stores, and the engine after a change, whatever its result.\<close>

definition stored_doc :: "call_env \<Rightarrow> 'n document \<Rightarrow> 'n document" where
  "stored_doc env doc = (if doc_id doc = [] then document_new (ce_uuid env) (doc_data doc) else doc)"

fun apply_op :: "'n codec \<Rightarrow> call_env \<Rightarrow> 'n engine \<Rightarrow> 'n change_op \<Rightarrow> 'n engine" where
  "apply_op c env e (CInsert doc) = fst (engine_insert c env e doc)"
| "apply_op c env e (CUpdate i data) = fst (engine_update c env e i data)"
| "apply_op c env e (CDelete i) = fst (engine_delete c env e i)"

text \<open>The abstract database: a map from ids to documents.\<close>

definition eng_abs :: "'n engine \<Rightarrow> string \<rightharpoonup> 'n document" where
  "eng_abs e = hm_get (eng_docs e)"

fun abs_op :: "call_env \<Rightarrow> (string \<rightharpoonup> 'n document) \<Rightarrow> 'n change_op \<Rightarrow> string \<rightharpoonup> 'n document" where
  "abs_op env m (CInsert doc) = m(doc_id (stored_doc env doc) \<mapsto> stored_doc env doc)"
| "abs_op env m (CUpdate i data) = (case m i of None \<Rightarrow> m | Some old \<Rightarrow> m(i \<mapsto> old\<lparr>doc_data := data\<rparr>))"
| "abs_op env m (CDelete i) = m(i := None)"

text \<open>What a change needs of its environment: its payload and its change record code and fit.\<close>

definition payload_ok :: "'n codec \<Rightarrow> call_env \<Rightarrow> 'n engine \<Rightarrow> wal_op \<Rightarrow> string \<Rightarrow> bytes \<Rightarrow> bool" where
  "payload_ok c env e op i payload \<longleftrightarrow>
     length i < 2 ^ 32 \<and> length payload < 2 ^ 32 \<and> cd_crc c payload < 2 ^ 32 \<and>
     (case eng_feed e of
        None \<Rightarrow> True
      | Some feed \<Rightarrow> Suc (next_sequence (feed_log feed)) < 2 ^ 64 \<and>
          coded (enc_change c) (dec_change c)
            \<lparr>sequence = next_sequence (feed_log feed), chg_op = op, chg_doc_id = i, chg_payload = payload,
             timestamp = ce_time1 env\<rparr>)"

definition doc_coded :: "'n codec \<Rightarrow> 'n document \<Rightarrow> bool" where
  "doc_coded c doc \<longleftrightarrow> dec_doc c (enc_doc c doc) = Some doc"

fun op_ok :: "'n codec \<Rightarrow> call_env \<Rightarrow> 'n engine \<Rightarrow> 'n change_op \<Rightarrow> bool" where
  "op_ok c env e (CInsert doc0) =
     (let doc = stored_doc env doc0 in
      hm_get (eng_docs e) (doc_id doc) = None \<and> Suc (length (eng_docs e)) < 2 ^ 32 \<and> doc_coded c doc \<and>
      payload_ok c env e OpInsert (doc_id doc) (enc_doc c doc))"
| "op_ok c env e (CUpdate i data) =
     (case hm_get (eng_docs e) i of
        None \<Rightarrow> True
      | Some old \<Rightarrow> doc_coded c (old\<lparr>doc_data := data\<rparr>) \<and>
          payload_ok c env e OpUpdate i (enc_doc c (old\<lparr>doc_data := data\<rparr>)))"
| "op_ok c env e (CDelete i) = (hm_get (eng_docs e) i = None \<or> payload_ok c env e OpDelete i [])"

text \<open>
  The engines that can arise: opened on no files, changed, and opened again, at any time and
  in any number of rounds, on what the files then hold.
\<close>

inductive db_run :: "'n codec \<Rightarrow> bool \<Rightarrow> 'n engine \<Rightarrow> bool" for c enabled where
  db_fresh: "engine_open c enabled \<lparr>main_file = [], wal_file = [], repl_file = []\<rparr> = Ok e \<Longrightarrow> db_run c enabled e"
| db_change: "db_run c enabled e \<Longrightarrow> op_ok c env e op \<Longrightarrow> db_run c enabled (apply_op c env e op)"
| db_reopen: "db_run c enabled e \<Longrightarrow> engine_open c enabled (engine_files [] e) = Ok e' \<Longrightarrow> db_run c enabled e'"

subsection \<open>Invariants\<close>

text \<open>Documents are stored under their id, and the index holds their postings.\<close>

definition docs_ok :: "(string, 'n document) hashmap \<Rightarrow> inverted_index \<Rightarrow> bool" where
  "docs_ok docs ix \<longleftrightarrow> hm_ok docs \<and> (\<forall>i d. hm_get docs i = Some d \<longrightarrow> doc_id d = i) \<and>
     postings ix (map_option (json_tokens \<circ> doc_data) \<circ> hm_get docs)"

text \<open>The log holds exactly the history of the documents.\<close>

definition logged :: "'n codec \<Rightarrow> wal_frame list \<Rightarrow> 'n engine \<Rightarrow> bool" where
  "logged c fs e \<longleftrightarrow> eng_wal e = log_bytes fs \<and> list_all wf_frame fs \<and>
     foldM (recover_step c) (concat (map frame_record fs)) ([], Map.empty) = Ok (eng_docs e, eng_index e)"

definition feed_ok :: "'n codec \<Rightarrow> change_feed option \<Rightarrow> bool" where
  "feed_ok c feed \<longleftrightarrow>
     (case feed of
        None \<Rightarrow> True
      | Some feed \<Rightarrow> \<exists>cs. feed_log feed =
            \<lparr>rl_file = repl_bytes (enc_change c) (history 1 cs), next_sequence = Suc (length cs)\<rparr> \<and>
          list_all (coded (enc_change c) (dec_change c)) (history 1 cs) \<and> Suc (length cs) < 2 ^ 64)"

definition store_ok :: "'n engine \<Rightarrow> bool" where
  "store_ok e \<longleftrightarrow> storage_ok (eng_storage e) \<and> num_pages (st_header (eng_storage e)) = 1 \<and>
     free_list_head (st_header (eng_storage e)) = 0 \<and> doc_count (st_header (eng_storage e)) = length (eng_docs e)"

definition engine_ok :: "'n codec \<Rightarrow> bool \<Rightarrow> 'n engine \<Rightarrow> bool" where
  "engine_ok c enabled e \<longleftrightarrow> docs_ok (eng_docs e) (eng_index e) \<and> (\<exists>fs. logged c fs e) \<and>
     feed_ok c (eng_feed e) \<and> store_ok e \<and> (eng_feed e \<noteq> None) = enabled"

lemmas engine_parts = engine_ok_def store_ok_def

lemma docs_ok_empty: "docs_ok [] Map.empty"
  by (simp add: docs_ok_def hm_simps postings_def)

lemma docs_ok_insert:
  assumes "docs_ok docs ix" "hm_get docs (doc_id doc) = None"
  shows "docs_ok (hm_insert (doc_id doc) doc docs) (index_document (doc_id doc) (doc_data doc) ix)"
proof -
  let ?m = "map_option (json_tokens \<circ> doc_data) \<circ> hm_get docs"
  have "postings (index_document (doc_id doc) (doc_data doc) ix) (?m(doc_id doc \<mapsto> json_tokens (doc_data doc)))"
    using assms by (intro fti.rel_add) (simp_all add: docs_ok_def)
  moreover have "map_option (json_tokens \<circ> doc_data) \<circ> hm_get (hm_insert (doc_id doc) doc docs) =
      ?m(doc_id doc \<mapsto> json_tokens (doc_data doc))" by (simp add: fun_eq_iff hm_simps)
  ultimately show ?thesis using assms by (auto simp: docs_ok_def hm_simps)
qed

lemma docs_ok_update:
  assumes "docs_ok docs ix" "hm_get docs i = Some old" "doc_id doc = i"
  shows "docs_ok (hm_insert i doc docs) (index_document i (doc_data doc) (remove_document i (doc_data old) ix))"
proof -
  let ?m = "map_option (json_tokens \<circ> doc_data) \<circ> hm_get docs"
  have "postings (index_document i (doc_data doc) (remove_document i (doc_data old) ix)) (?m(i \<mapsto> json_tokens (doc_data doc)))"
    using assms by (intro fti.rel_replace) (simp_all add: docs_ok_def)
  moreover have "map_option (json_tokens \<circ> doc_data) \<circ> hm_get (hm_insert i doc docs) =
      ?m(i \<mapsto> json_tokens (doc_data doc))" by (simp add: fun_eq_iff hm_simps)
  ultimately show ?thesis using assms by (auto simp: docs_ok_def hm_simps)
qed

lemma docs_ok_delete:
  assumes "docs_ok docs ix" "hm_get docs i = Some old"
  shows "docs_ok (hm_remove i docs) (remove_document i (doc_data old) ix)"
proof -
  let ?m = "map_option (json_tokens \<circ> doc_data) \<circ> hm_get docs"
  have "postings (remove_document i (doc_data old) ix) (?m(i := None))"
    using assms by (intro fti.rel_del) (simp_all add: docs_ok_def)
  moreover have "map_option (json_tokens \<circ> doc_data) \<circ> hm_get (hm_remove i docs) = ?m(i := None)"
    by (simp add: fun_eq_iff hm_simps)
  ultimately show ?thesis using assms by (auto simp: docs_ok_def hm_simps)
qed

subsection \<open>What a change does to the files\<close>

lemma log_write_frames:
  assumes "eng_wal e = log_bytes fs" "length i < 2 ^ 32" "length payload < 2 ^ 32" "cd_crc c payload < 2 ^ 32"
  shows "log_write c e op i payload =
    (e\<lparr>eng_wal := log_bytes (fs @ [(new_frame (cd_crc c) op i payload)\<lparr>fr_flag := 1\<rparr>])\<rparr>, Ok ())"
proof -
  have "wf_frame (new_frame (cd_crc c) op i payload)"
    using assms by (cases op) (simp_all add: new_frame_def wf_frame_def)
  from commit_record_log [OF this, of fs "[]"] show ?thesis
    by (simp add: log_write_def assms(1) append_record_log)
qed

lemma logged_append:
  assumes "logged c fs e" "op \<noteq> OpTxEntry" "length i < 2 ^ 32" "length payload < 2 ^ 32" "cd_crc c payload < 2 ^ 32"
    and "recover_step c (eng_docs e, eng_index e) \<lparr>rec_op = op, rec_id = i, rec_payload = payload\<rparr> = Ok (docs, ix)"
    and "eng_docs e' = docs" "eng_index e' = ix"
    and "eng_wal e' = log_bytes (fs @ [(new_frame (cd_crc c) op i payload)\<lparr>fr_flag := 1\<rparr>])"
  shows "logged c (fs @ [(new_frame (cd_crc c) op i payload)\<lparr>fr_flag := 1\<rparr>]) e'"
proof -
  let ?f = "(new_frame (cd_crc c) op i payload)\<lparr>fr_flag := 1\<rparr>"
  have "wf_frame ?f" "frame_record ?f = [\<lparr>rec_op = op, rec_id = i, rec_payload = payload\<rparr>]"
    using assms(2-5) by (cases op; simp add: new_frame_def wf_frame_def frame_record_def)+
  with assms show ?thesis by (simp add: logged_def foldM_append)
qed

lemma feed_publish_keeps [frame_simps]:
  "eng_wal (fst (feed_publish c env e op i payload)) = eng_wal e"
  "eng_storage (fst (feed_publish c env e op i payload)) = eng_storage e"
  "eng_docs (fst (feed_publish c env e op i payload)) = eng_docs e"
  "eng_index (fst (feed_publish c env e op i payload)) = eng_index e"
  "(eng_feed (fst (feed_publish c env e op i payload)) = None) = (eng_feed e = None)"
  by (auto simp: feed_publish_def split: option.splits prod.splits)

lemma feed_publish_ok:
  assumes "feed_ok c (eng_feed e)" "payload_ok c env e op i payload"
  shows "feed_ok c (eng_feed (fst (feed_publish c env e op i payload)))"
proof (cases "eng_feed e")
  case None
  then show ?thesis by (simp add: feed_publish_def feed_ok_def)
next
  case (Some feed)
  with assms(1) obtain cs where cs: "feed_log feed =
      \<lparr>rl_file = repl_bytes (enc_change c) (history 1 cs), next_sequence = Suc (length cs)\<rparr>"
      "list_all (coded (enc_change c) (dec_change c)) (history 1 cs)" "Suc (length cs) < 2 ^ 64"
    by (auto simp: feed_ok_def)
  let ?cs = "cs @ [(ce_time1 env, op, i, payload)]"
  have "feed_log (the (eng_feed (fst (feed_publish c env e op i payload)))) =
      \<lparr>rl_file = repl_bytes (enc_change c) (history 1 ?cs), next_sequence = Suc (length ?cs)\<rparr>"
    using assms(2) cs by (simp add: feed_publish_def Some publish_def repl_append_def Let_def history_append
        repl_bytes_def payload_ok_def)
  moreover have "list_all (coded (enc_change c) (dec_change c)) (history 1 ?cs)" "Suc (length ?cs) < 2 ^ 64"
    using assms(2) cs by (simp_all add: history_append payload_ok_def Some)
  ultimately have "\<exists>cs. feed_log (the (eng_feed (fst (feed_publish c env e op i payload)))) =
      \<lparr>rl_file = repl_bytes (enc_change c) (history 1 cs), next_sequence = Suc (length cs)\<rparr> \<and>
      list_all (coded (enc_change c) (dec_change c)) (history 1 cs) \<and> Suc (length cs) < 2 ^ 64" by blast
  then show ?thesis
    by (cases "eng_feed (fst (feed_publish c env e op i payload))") (simp_all add: feed_ok_def)
qed

lemma payload_ok_cong: "eng_feed e' = eng_feed e \<Longrightarrow> payload_ok c env e' op i payload = payload_ok c env e op i payload"
  by (simp add: payload_ok_def)

subsection \<open>Every change keeps the invariant\<close>

lemma doc_count_header:
  "num_pages (st_header (increment_doc_count st d)) = num_pages (st_header st)"
  "free_list_head (st_header (increment_doc_count st d)) = free_list_head (st_header st)"
  "doc_count (st_header (increment_doc_count st 1)) = min (doc_count (st_header st) + 1) (2 ^ 32 - 1)"
  "doc_count (st_header (increment_doc_count st (- 1))) = doc_count (st_header st) - 1"
  by (simp_all add: increment_doc_count_def Let_def u32_saturating_add_def u32_saturating_sub_def)

lemma insert_ok:
  assumes ok: "engine_ok c en e" and op: "op_ok c env e (CInsert doc0)"
  shows "fst (snd (engine_insert c env e doc0)) = Ok (doc_id (stored_doc env doc0))"
    and "eng_docs (fst (engine_insert c env e doc0)) = hm_insert (doc_id (stored_doc env doc0)) (stored_doc env doc0) (eng_docs e)"
    and "engine_ok c en (fst (engine_insert c env e doc0))"
proof -
  let ?doc = "stored_doc env doc0"
  let ?p = "enc_doc c ?doc"
  let ?f = "(new_frame (cd_crc c) OpInsert (doc_id ?doc) ?p)\<lparr>fr_flag := 1\<rparr>"
  from ok obtain fs where fs: "logged c fs e" by (auto simp: engine_ok_def)
  from op have new: "hm_get (eng_docs e) (doc_id ?doc) = None" "Suc (length (eng_docs e)) < 2 ^ 32"
    and coded: "doc_coded c ?doc" and pay: "payload_ok c env e OpInsert (doc_id ?doc) ?p"
    by (simp_all add: Let_def)
  have len: "length (doc_id ?doc) < 2 ^ 32" "length ?p < 2 ^ 32" "cd_crc c ?p < 2 ^ 32"
    using pay by (simp_all add: payload_ok_def)
  define e2 where "e2 = e\<lparr>eng_wal := log_bytes (fs @ [?f]),
     eng_index := index_document (doc_id ?doc) (doc_data ?doc) (eng_index e),
     eng_docs := hm_insert (doc_id ?doc) ?doc (eng_docs e),
     eng_storage := increment_doc_count (eng_storage e) 1\<rparr>"
  have feed2: "eng_feed e2 = eng_feed e" by (simp add: e2_def)
  define e3 where "e3 = fst (feed_publish c env e2 OpInsert (doc_id ?doc) ?p)"
  have "log_write c e OpInsert (doc_id ?doc) ?p = (e\<lparr>eng_wal := log_bytes (fs @ [?f])\<rparr>, Ok ())"
    using fs len by (intro log_write_frames) (simp_all add: logged_def)
  then have eq: "engine_insert c env e doc0 =
      (e3, Ok (doc_id ?doc), snd (feed_publish c env e2 OpInsert (doc_id ?doc) ?p))"
    unfolding engine_insert_def stored_doc_def [symmetric]
    by (simp add: Let_def e3_def e2_def case_prod_beta)
  then show "fst (snd (engine_insert c env e doc0)) = Ok (doc_id ?doc)" by simp
  show "eng_docs (fst (engine_insert c env e doc0)) = hm_insert (doc_id ?doc) ?doc (eng_docs e)"
    unfolding eq by (simp add: e3_def frame_simps) (simp add: e2_def)
  have "recover_step c (eng_docs e, eng_index e) \<lparr>rec_op = OpInsert, rec_id = doc_id ?doc, rec_payload = ?p\<rparr> =
      Ok (hm_insert (doc_id ?doc) ?doc (eng_docs e), index_document (doc_id ?doc) (doc_data ?doc) (eng_index e))"
    using new coded by (simp add: recover_step_def recover_put_def doc_coded_def)
  then have "logged c (fs @ [?f]) e3"
    by (rule logged_append [OF fs _ len, rotated]) (simp_all add: e3_def frame_simps e2_def)
  moreover have "docs_ok (eng_docs e3) (eng_index e3)"
    using ok new by (simp add: e3_def frame_simps) (simp add: e2_def docs_ok_insert engine_ok_def)
  moreover have "feed_ok c (eng_feed e3)"
    unfolding e3_def using ok pay
    by (intro feed_publish_ok) (simp_all add: engine_ok_def payload_ok_cong [OF feed2] feed2)
  moreover have "store_ok e3"
    using ok new by (auto simp: e3_def frame_simps e2_def engine_parts storage_ok_doc_count doc_count_header
        hm_length_insert hm_get_None_iff)
  moreover have "(eng_feed e3 \<noteq> None) = en"
    using ok by (simp add: e3_def frame_simps) (simp add: e2_def engine_ok_def)
  ultimately show "engine_ok c en (fst (engine_insert c env e doc0))" unfolding eq by (auto simp: engine_ok_def)
qed

lemma update_ok:
  assumes ok: "engine_ok c en e" and op: "op_ok c env e (CUpdate i data)" and old: "hm_get (eng_docs e) i = Some old"
  shows "fst (snd (engine_update c env e i data)) = Ok ()"
    and "eng_docs (fst (engine_update c env e i data)) = hm_insert i (old\<lparr>doc_data := data\<rparr>) (eng_docs e)"
    and "engine_ok c en (fst (engine_update c env e i data))"
proof -
  let ?doc = "old\<lparr>doc_data := data\<rparr>"
  let ?p = "enc_doc c ?doc"
  let ?f = "(new_frame (cd_crc c) OpUpdate i ?p)\<lparr>fr_flag := 1\<rparr>"
  from ok obtain fs where fs: "logged c fs e" by (auto simp: engine_ok_def)
  have i: "doc_id old = i" using ok old by (auto simp: engine_ok_def docs_ok_def)
  from op old have coded: "doc_coded c ?doc" and pay: "payload_ok c env e OpUpdate i ?p" by simp_all
  have len: "length i < 2 ^ 32" "length ?p < 2 ^ 32" "cd_crc c ?p < 2 ^ 32"
    using pay by (simp_all add: payload_ok_def)
  define e2 where "e2 = e\<lparr>eng_wal := log_bytes (fs @ [?f]),
     eng_index := index_document i (doc_data ?doc) (remove_document i (doc_data old) (eng_index e)),
     eng_docs := hm_insert i ?doc (eng_docs e)\<rparr>"
  have feed2: "eng_feed e2 = eng_feed e" by (simp add: e2_def)
  define e3 where "e3 = fst (feed_publish c env e2 OpUpdate i ?p)"
  have "log_write c e OpUpdate i ?p = (e\<lparr>eng_wal := log_bytes (fs @ [?f])\<rparr>, Ok ())"
    using fs len by (intro log_write_frames) (simp_all add: logged_def)
  then have eq: "engine_update c env e i data = (e3, Ok (), snd (feed_publish c env e2 OpUpdate i ?p))"
    by (simp add: engine_update_def old Let_def e3_def e2_def case_prod_beta)
  then show "fst (snd (engine_update c env e i data)) = Ok ()" by simp
  show "eng_docs (fst (engine_update c env e i data)) = hm_insert i ?doc (eng_docs e)"
    unfolding eq by (simp add: e3_def frame_simps) (simp add: e2_def)
  have "recover_step c (eng_docs e, eng_index e) \<lparr>rec_op = OpUpdate, rec_id = i, rec_payload = ?p\<rparr> =
      Ok (hm_insert i ?doc (eng_docs e), index_document i (doc_data ?doc) (remove_document i (doc_data old) (eng_index e)))"
    using old coded i by (simp add: recover_step_def recover_put_def doc_coded_def)
  then have "logged c (fs @ [?f]) e3"
    by (rule logged_append [OF fs _ len, rotated]) (simp_all add: e3_def frame_simps e2_def)
  moreover have "docs_ok (eng_docs e3) (eng_index e3)"
    using ok old i docs_ok_update [of "eng_docs e" "eng_index e" i old ?doc]
    by (simp add: e3_def frame_simps) (simp add: e2_def engine_ok_def)
  moreover have "feed_ok c (eng_feed e3)"
    unfolding e3_def using ok pay
    by (intro feed_publish_ok) (simp_all add: engine_ok_def payload_ok_cong [OF feed2] feed2)
  moreover have "store_ok e3"
    using ok hm_get_mem [OF old] by (auto simp: e3_def frame_simps e2_def engine_parts hm_length_insert)
  moreover have "(eng_feed e3 \<noteq> None) = en"
    using ok by (simp add: e3_def frame_simps) (simp add: e2_def engine_ok_def)
  ultimately show "engine_ok c en (fst (engine_update c env e i data))" unfolding eq by (auto simp: engine_ok_def)
qed

lemma delete_ok:
  assumes ok: "engine_ok c en e" and op: "op_ok c env e (CDelete i)" and old: "hm_get (eng_docs e) i = Some old"
  shows "fst (snd (engine_delete c env e i)) = Ok ()"
    and "eng_docs (fst (engine_delete c env e i)) = hm_remove i (eng_docs e)"
    and "engine_ok c en (fst (engine_delete c env e i))"
proof -
  let ?f = "(new_frame (cd_crc c) OpDelete i [])\<lparr>fr_flag := 1\<rparr>"
  from ok obtain fs where fs: "logged c fs e" by (auto simp: engine_ok_def)
  from op old have pay: "payload_ok c env e OpDelete i []" by simp
  have len: "length i < 2 ^ 32" "length ([] :: bytes) < 2 ^ 32" "cd_crc c [] < 2 ^ 32"
    using pay by (simp_all add: payload_ok_def)
  define e2 where "e2 = e\<lparr>eng_docs := hm_remove i (eng_docs e), eng_wal := log_bytes (fs @ [?f]),
     eng_index := remove_document i (doc_data old) (eng_index e),
     eng_storage := increment_doc_count (eng_storage e) (- 1)\<rparr>"
  have feed2: "eng_feed e2 = eng_feed e" by (simp add: e2_def)
  define e3 where "e3 = fst (feed_publish c env e2 OpDelete i [])"
  have "log_write c (e\<lparr>eng_docs := hm_remove i (eng_docs e)\<rparr>) OpDelete i [] =
      (e\<lparr>eng_docs := hm_remove i (eng_docs e), eng_wal := log_bytes (fs @ [?f])\<rparr>, Ok ())"
    using fs len by (intro log_write_frames) (simp_all add: logged_def)
  then have eq: "engine_delete c env e i = (e3, Ok (), snd (feed_publish c env e2 OpDelete i []))"
    by (simp add: engine_delete_def old Let_def e3_def e2_def case_prod_beta)
  then show "fst (snd (engine_delete c env e i)) = Ok ()" by simp
  show "eng_docs (fst (engine_delete c env e i)) = hm_remove i (eng_docs e)"
    unfolding eq by (simp add: e3_def frame_simps) (simp add: e2_def)
  have "recover_step c (eng_docs e, eng_index e) \<lparr>rec_op = OpDelete, rec_id = i, rec_payload = []\<rparr> =
      Ok (hm_remove i (eng_docs e), remove_document i (doc_data old) (eng_index e))"
    using old by (simp add: recover_step_def)
  then have "logged c (fs @ [?f]) e3"
    by (rule logged_append [OF fs _ len, rotated]) (simp_all add: e3_def frame_simps e2_def)
  moreover have "docs_ok (eng_docs e3) (eng_index e3)"
    using ok old docs_ok_delete [of "eng_docs e" "eng_index e" i old]
    by (simp add: e3_def frame_simps) (simp add: e2_def engine_ok_def)
  moreover have "feed_ok c (eng_feed e3)"
    unfolding e3_def using ok pay
    by (intro feed_publish_ok) (simp_all add: engine_ok_def payload_ok_cong [OF feed2] feed2)
  moreover have "store_ok e3"
    using ok hm_length_remove [of "eng_docs e" i old] old
    by (auto simp: e3_def frame_simps e2_def engine_parts docs_ok_def storage_ok_doc_count doc_count_header)
  moreover have "(eng_feed e3 \<noteq> None) = en"
    using ok by (simp add: e3_def frame_simps) (simp add: e2_def engine_ok_def)
  ultimately show "engine_ok c en (fst (engine_delete c env e i))" unfolding eq by (auto simp: engine_ok_def)
qed

lemma missing_doc:
  "hm_get (eng_docs e) i = None \<Longrightarrow> engine_update c env e i data = (e, Err (NotFound i), [])"
  "hm_get (eng_docs e) i = None \<Longrightarrow> engine_delete c env e i = (e, Err (NotFound i), [])"
  by (simp_all add: engine_update_def engine_delete_def)

lemma apply_op_ok:
  assumes "engine_ok c en e" "op_ok c env e op"
  shows "engine_ok c en (apply_op c env e op) \<and> eng_abs (apply_op c env e op) = abs_op env (eng_abs e) op"
proof (cases op)
  case (CInsert doc)
  with assms show ?thesis
    using insert_ok [of c en e env doc] by (simp add: eng_abs_def hm_simps fun_upd_def)
next
  case (CUpdate i data)
  with assms show ?thesis
    using update_ok [of c en e env i data] missing_doc(1) [of e i c env data]
    by (cases "hm_get (eng_docs e) i") (simp_all add: eng_abs_def hm_simps fun_upd_def)
next
  case (CDelete i)
  with assms show ?thesis
    using delete_ok [of c en e env i] missing_doc(2) [of e i c env]
    by (cases "hm_get (eng_docs e) i") (auto simp: eng_abs_def hm_simps fun_upd_def)
qed

subsection \<open>Opening again\<close>

definition without_subscribers :: "'n engine \<Rightarrow> 'n engine" where
  "without_subscribers e = e\<lparr>eng_feed := map_option (\<lambda>f. f\<lparr>subscribers := []\<rparr>) (eng_feed e)\<rparr>"

lemma feed_open_ok:
  assumes "feed_ok c (Some feed)"
  shows "feed_open (dec_change c) (rl_file (feed_log feed)) = Ok (feed\<lparr>subscribers := []\<rparr>)"
proof -
  obtain cs where cs: "feed_log feed =
      \<lparr>rl_file = repl_bytes (enc_change c) (history 1 cs), next_sequence = Suc (length cs)\<rparr>"
      "list_all (coded (enc_change c) (dec_change c)) (history 1 cs)" "Suc (length cs) < 2 ^ 64"
    using assms by (auto simp: feed_ok_def)
  from repl_open_bytes [OF cs(2,3)] show ?thesis
    by (cases feed) (simp add: feed_open_def cs(1) del: One_nat_def, use cs(1) in simp)
qed

lemma open_frames:
  assumes "list_all wf_frame fs" "storage_ok st" "num_pages (st_header st) = 1" "feed_ok c feed" "(feed \<noteq> None) = en"
    and "foldM (recover_step c) (concat (map frame_record fs)) ([], Map.empty) = Ok (docs, ix)"
  shows "engine_open c en \<lparr>main_file = st_file st, wal_file = log_bytes fs,
      repl_file = (case feed of None \<Rightarrow> [] | Some f \<Rightarrow> rl_file (feed_log f))\<rparr> =
    Ok \<lparr>eng_wal = log_bytes fs, eng_storage = st, eng_docs = docs, eng_index = ix,
        eng_feed = map_option (\<lambda>f. f\<lparr>subscribers := []\<rparr>) feed\<rparr>"
proof -
  have "wal_fold (recover_step c) (concat (map frame_bytes fs)) ([], Map.empty) = Ok (docs, ix)"
    using wal_fold_frames [OF assms(1), of "recover_step c" "[]" "([], Map.empty)"] assms(6) by simp
  moreover have "(if en then outcome_map Some (feed_open (dec_change c) (case feed of None \<Rightarrow> [] | Some f \<Rightarrow> rl_file (feed_log f)))
        else Ok None) = Ok (map_option (\<lambda>f. f\<lparr>subscribers := []\<rparr>) feed)"
    using assms(4,5) by (cases feed) (auto simp: feed_open_ok)
  ultimately show ?thesis
    using assms(1-3) by (simp add: engine_open_def storage_open_ok split: if_splits)
qed

lemma reopen_ok:
  assumes "engine_ok c en e"
  shows "engine_open c en (engine_files [] e) = Ok (without_subscribers e)"
proof -
  obtain fs where fs: "logged c fs e" using assms by (auto simp: engine_ok_def)
  have "engine_files [] e = \<lparr>main_file = st_file (eng_storage e), wal_file = log_bytes fs,
      repl_file = (case eng_feed e of None \<Rightarrow> [] | Some f \<Rightarrow> rl_file (feed_log f))\<rparr>"
    using fs by (simp add: engine_files_def logged_def)
  then show ?thesis
    using assms fs open_frames [of fs "eng_storage e" c "eng_feed e" en "eng_docs e" "eng_index e"]
    by (simp add: engine_parts logged_def without_subscribers_def)
qed

lemma without_subscribers_ok: "engine_ok c en e \<Longrightarrow> engine_ok c en (without_subscribers e)"
  by (cases "eng_feed e") (auto simp: without_subscribers_def engine_parts logged_def feed_ok_def)

lemma open_fresh:
  "engine_open c en \<lparr>main_file = [], wal_file = [], repl_file = []\<rparr> =
    Ok \<lparr>eng_wal = log_bytes [], eng_storage = \<lparr>st_file = header_encode header_new, st_header = header_new\<rparr>,
      eng_docs = [], eng_index = Map.empty,
      eng_feed = (if en then Some \<lparr>feed_log = \<lparr>rl_file = repl_header, next_sequence = 1\<rparr>, subscribers = []\<rparr> else None)\<rparr>"
proof -
  have "wal_fold (recover_step c) (iter_committed wal_header) ([], Map.empty) = Ok ([], Map.empty)"
    by (simp add: iter_committed_def)
  then show ?thesis
    by (simp add: engine_open_def wal_open_def storage_open_def feed_open_def repl_open_def log_bytes_def header_new_def)
qed

lemma fresh_ok:
  assumes "engine_open c en \<lparr>main_file = [], wal_file = [], repl_file = []\<rparr> = Ok e"
  shows "engine_ok c en e \<and> eng_docs e = []"
proof -
  note e = assms [unfolded open_fresh outcome.inject, symmetric]
  have "feed_ok c (Some \<lparr>feed_log = \<lparr>rl_file = repl_header, next_sequence = 1\<rparr>, subscribers = []\<rparr>)"
    unfolding feed_ok_def option.case by (rule exI [of _ "[]"]) (simp add: repl_bytes_def)
  moreover have "logged c [] e" by (simp add: logged_def e)
  ultimately show ?thesis
    using storage_ok_new docs_ok_empty by (auto simp: engine_parts e feed_ok_def header_new_def)
qed

lemma db_run_ok: "db_run c en e \<Longrightarrow> engine_ok c en e"
proof (induction rule: db_run.induct)
  case (db_fresh e)
  then show ?case by (simp add: fresh_ok)
next
  case (db_change e env op)
  then show ?case by (simp add: apply_op_ok)
next
  case (db_reopen e e')
  then have "e' = without_subscribers e" by (simp add: reopen_ok)
  with db_reopen show ?case by (simp add: without_subscribers_ok)
qed

interpretation dstore: doc_store "db_run c en" "op_ok c" "apply_op c" eng_abs abs_op for c en
  by unfold_locales (auto intro: db_change dest: db_run_ok apply_op_ok)

subsection \<open>Lemmas on compaction\<close>

lemma chunks_Nil [simp]: "chunks n [] = []"
  by (simp add: chunks.simps)

lemma chunks_Cons: "0 < n \<Longrightarrow> xs \<noteq> [] \<Longrightarrow> chunks n xs = take n xs # chunks n (drop n xs)"
  by (simp add: chunks.simps [of n xs])

lemma concat_chunks: "0 < n \<Longrightarrow> concat (chunks n xs) = xs"
proof (induction n xs rule: chunks.induct)
  case (1 n xs)
  then show ?case by (cases "xs = []") (simp_all add: chunks_Cons)
qed

lemma chunks_bound: "c \<in> set (chunks n xs) \<Longrightarrow> length c \<le> n \<and> c \<noteq> []"
proof (induction n xs rule: chunks.induct)
  case (1 n xs)
  show ?case
  proof (cases "xs = [] \<or> n = 0")
    case True
    with 1(2) show ?thesis by (simp add: chunks.simps [of n xs] split: if_splits)
  next
    case False
    with 1(2) consider "c = take n xs" | "c \<in> set (chunks n (drop n xs))" by (auto simp: chunks_Cons)
    then show ?thesis using False 1(1) by cases auto
  qed
qed

lemma div_ceil_step:
  assumes "0 < n" "0 < a"
  shows "div_ceil a n = Suc (div_ceil (a - n) n)"
proof -
  have step: "(x + n) div n = Suc (x div n)" for x using assms(1) by (simp add: div_add_self2)
  show ?thesis
  proof (cases "n \<le> a")
    case True
    with assms(1) have "a + n - 1 = (a - n + n - 1) + n" by linarith
    then show ?thesis unfolding div_ceil_def using step [of "a - n + n - 1"] by metis
  next
    case False
    with assms have "a + n - 1 = (a - 1) + n" "(a - 1) div n = 0" "(a - n + n - 1) div n = 0" by simp_all
    then show ?thesis unfolding div_ceil_def using step [of "a - 1"] by metis
  qed
qed

lemma length_chunks: "0 < n \<Longrightarrow> length (chunks n xs) = div_ceil (length xs) n"
proof (induction n xs rule: chunks.induct)
  case (1 n xs)
  show ?case
  proof (cases "xs = []")
    case True
    with 1(2) show ?thesis by (simp add: div_ceil_def)
  next
    case False
    with 1 show ?thesis by (simp add: chunks_Cons div_ceil_step)
  qed
qed

lemma last_chunk: "0 < n \<Longrightarrow> xs \<noteq> [] \<Longrightarrow>
    length (last (chunks n xs)) = (if length xs mod n = 0 then n else length xs mod n)"
proof (induction n xs rule: chunks.induct)
  case (1 n xs)
  show ?case
  proof (cases "length xs \<le> n")
    case True
    with 1(2,3) show ?thesis by (cases "length xs = n") (auto simp: chunks_Cons)
  next
    case False
    then have "drop n xs \<noteq> []" by simp
    with 1 False have "length (last (chunks n (drop n xs))) = (if length xs mod n = 0 then n else length xs mod n)"
      by (simp add: le_mod_geq)
    moreover have "chunks n (drop n xs) \<noteq> []" using 1(2) False by (simp add: chunks_Cons)
    ultimately show ?thesis using 1(2,3) by (simp add: chunks_Cons)
  qed
qed

lemma length_pad_page: "length p \<le> PAGE_SIZE \<Longrightarrow> length (pad_page p) = PAGE_SIZE"
  by (simp add: pad_page_def)

lemma allocate_until_fresh:
  "storage_ok st \<Longrightarrow> free_list_head (st_header st) = 0 \<Longrightarrow> n < 2 ^ 32 \<Longrightarrow>
   \<exists>st'. allocate_until n st = Some (st', Ok ()) \<and> storage_ok st' \<and>
     num_pages (st_header st') = max (num_pages (st_header st)) n"
proof (induction "n - num_pages (st_header st)" arbitrary: st)
  case 0
  then show ?case by (simp add: allocate_until.simps)
next
  case (Suc k)
  then have less: "num_pages (st_header st) < n" by simp
  obtain st1 q where a: "allocate_page st = Ok (st1, q)" using Suc.prems by (simp add: allocate_page_def Let_def)
  have pages: "num_pages (st_header st) + 1 < 2 ^ 32" using less Suc.prems(3) by simp
  note st1 = allocate_fresh [OF Suc.prems(1,2) pages a]
  have "\<exists>st'. allocate_until n st1 = Some (st', Ok ()) \<and> storage_ok st' \<and>
     num_pages (st_header st') = max (num_pages (st_header st1)) n"
    using Suc.hyps(2) st1 Suc.prems by (intro Suc.hyps(1)) simp_all
  with a less st1(3) show ?case by (subst allocate_until.simps) (auto simp: max_def)
qed

lemma write_pages_ok:
  "storage_ok st \<Longrightarrow> 0 < i \<Longrightarrow> i + length ps \<le> num_pages (st_header st) \<Longrightarrow> list_all (\<lambda>p. length p = PAGE_SIZE) ps \<Longrightarrow>
   \<exists>st'. write_pages i ps st = Ok st' \<and> storage_ok st' \<and> st_header st' = st_header st \<and>
     (\<forall>j < num_pages (st_header st). page_bytes st' j = (if i \<le> j \<and> j < i + length ps then ps ! (j - i) else page_bytes st j))"
proof (induction i ps st rule: write_pages.induct)
  case (1 i st)
  then show ?case by auto
next
  case (2 i p ps st)
  define st1 where "st1 = st\<lparr>st_file := write_at (st_file st) (i * PAGE_SIZE) p\<rparr>"
  have np: "num_pages (st_header st) < 2 ^ 32" using 2(2) by (simp add: storage_ok_def header_ok_def)
  have w: "write_page st (as_u32 i) p = Ok st1"
    using 2(4,5) np by (simp add: write_page_def st1_def)
  have ok1: "storage_ok st1" using storage_ok_write_page [OF 2(2,3), of p st1] w 2(4) np by simp
  have inf: "in_file st i" using 2(2,4) by (intro in_file_pages) simp_all
  have other: "page_bytes st1 j = page_bytes st j" if "j < num_pages (st_header st)" "j \<noteq> i" for j
    unfolding st1_def using that 2(2,5) inf
    by (intro page_write_other) (auto intro: in_file_pages, simp add: in_file_def)
  have same: "page_bytes st1 i = p" unfolding st1_def using 2(5) by (intro page_write_same) simp
  obtain st' where st': "write_pages (Suc i) ps st1 = Ok st'" "storage_ok st'" "st_header st' = st_header st1"
     "\<forall>j < num_pages (st_header st1). page_bytes st' j =
        (if Suc i \<le> j \<and> j < Suc i + length ps then ps ! (j - Suc i) else page_bytes st1 j)"
    using 2(1) [OF w ok1] 2(4,5) by (auto simp: st1_def)
  have "page_bytes st' j = (if i \<le> j \<and> j < i + length (p # ps) then (p # ps) ! (j - i) else page_bytes st j)"
    if "j < num_pages (st_header st)" for j
    using that st'(4) other [of j] same by (cases "j = i") (auto simp: st1_def nth_Cons' Suc_diff_le)
  with st' w show ?case by (auto simp: st1_def)
qed

lemma le_value_lower: "(\<And>b. b \<in> set bs \<Longrightarrow> m \<le> of_char b) \<Longrightarrow> bs \<noteq> [] \<Longrightarrow> m * 256 ^ (length bs - 1) \<le> le_value bs"
proof (induction bs)
  case Nil
  then show ?case by simp
next
  case (Cons b bs)
  show ?case
  proof (cases bs)
    case Nil
    with Cons.prems show ?thesis by simp
  next
    case (Cons b' bs')
    with Cons.IH Cons.prems have "m * 256 ^ (length bs - 1) \<le> le_value bs" by simp
    then have le: "256 * (m * 256 ^ (length bs - 1)) \<le> 256 * le_value bs" by (rule mult_le_mono2)
    have "m * 256 ^ (length (b # bs) - 1) = 256 * (m * 256 ^ (length bs - 1))"
      using Cons by (simp add: ac_simps)
    also note le
    also have "256 * le_value bs \<le> le_value (b # bs)" by simp
    finally show ?thesis .
  qed
qed

lemma compact_pages_ok:
  assumes ok: "storage_ok st" and k: "div_ceil (length payload) PAGE_SIZE < num_pages (st_header st)"
  shows "\<exists>st'. compact_pages st payload = Ok st' \<and> storage_ok st' \<and> st_header st' = st_header st \<and>
    (\<forall>j < div_ceil (length payload) PAGE_SIZE. page_bytes st' (Suc j) = pad_page (chunks PAGE_SIZE payload ! j)) \<and>
    page_bytes st' (div_ceil (length payload) PAGE_SIZE + 1) = pad_page (le_bytes 8 (length payload))"
proof -
  let ?k = "div_ceil (length payload) PAGE_SIZE" and ?ps = "map pad_page (chunks PAGE_SIZE payload)"
  let ?t = "pad_page (le_bytes 8 (length payload))"
  have len: "length ?ps = ?k" by (simp add: length_chunks)
  have "list_all (\<lambda>p. length p = PAGE_SIZE) ?ps"
    using chunks_bound by (force simp: list_all_iff length_pad_page)
  then obtain st1 where st1: "write_pages 1 ?ps st = Ok st1" "storage_ok st1" "st_header st1 = st_header st"
     "\<forall>j < num_pages (st_header st). page_bytes st1 j = (if 1 \<le> j \<and> j < 1 + ?k then ?ps ! (j - 1) else page_bytes st j)"
    using write_pages_ok [OF ok, of 1 ?ps] k unfolding len by auto
  define st2 where "st2 = st1\<lparr>st_file := write_at (st_file st1) ((?k + 1) * PAGE_SIZE) ?t\<rparr>"
  have lt: "length ?t = PAGE_SIZE" by (rule length_pad_page) (simp add: PAGE_SIZE_def)
  have np: "num_pages (st_header st) < 2 ^ 32" using ok by (simp add: storage_ok_def header_ok_def)
  have w: "write_page st1 (as_u32 (?k + 1)) ?t = Ok st2"
    using lt np k by (simp add: write_page_def st2_def)
  have ok2: "storage_ok st2" using storage_ok_write_page [OF st1(2) _ w] np k by simp
  have "(?k + 1) * PAGE_SIZE \<le> num_pages (st_header st1) * PAGE_SIZE" using k st1(3) by (intro mult_le_mono1) simp
  then have pos: "(?k + 1) * PAGE_SIZE \<le> length (st_file st1)" using st1(2) by (auto simp: storage_ok_def)
  have "page_bytes st2 (Suc j) = pad_page (chunks PAGE_SIZE payload ! j)" if "j < ?k" for j
  proof -
    have "page_bytes st2 (Suc j) = page_bytes st1 (Suc j)"
      unfolding st2_def using that pos lt k st1(2,3) by (intro page_write_other) (auto intro: in_file_pages)
    with that k st1(4) len show ?thesis by simp
  qed
  moreover have "page_bytes st2 (?k + 1) = ?t" unfolding st2_def using lt by (rule page_write_same)
  moreover have "compact_pages st payload = Ok st2" using st1(1) w by (simp add: compact_pages_def)
  ultimately show ?thesis using ok2 st1(3) by (auto simp: st2_def)
qed

lemma compact_ok:
  assumes "engine_ok c en e" "div_ceil (length (enc_docs c (eng_docs e))) PAGE_SIZE + 2 < 2 ^ 32"
  shows "\<exists>st'. engine_compact c e = Some (e\<lparr>eng_storage := st', eng_wal := log_bytes [],
      eng_feed := map_option feed_reset (eng_feed e)\<rparr>, Ok ()) \<and> storage_ok st' \<and>
    num_pages (st_header st') = div_ceil (length (enc_docs c (eng_docs e))) PAGE_SIZE + 1 \<and>
    (\<forall>j < div_ceil (length (enc_docs c (eng_docs e))) PAGE_SIZE.
       page_bytes st' (Suc j) = pad_page (chunks PAGE_SIZE (enc_docs c (eng_docs e)) ! j))"
proof -
  let ?p = "enc_docs c (eng_docs e)"
  let ?k = "div_ceil (length ?p) PAGE_SIZE"
  have st: "storage_ok (eng_storage e)" "free_list_head (st_header (eng_storage e)) = 0"
      "num_pages (st_header (eng_storage e)) = 1"
    using assms(1) by (simp_all add: engine_parts)
  obtain st1 where st1: "allocate_until (?k + 1) (eng_storage e) = Some (st1, Ok ())" "storage_ok st1"
      "num_pages (st_header st1) = ?k + 1"
    using allocate_until_fresh [OF st(1,2), of "?k + 1"] assms(2) st(3) by auto
  obtain st2 where st2: "compact_pages st1 ?p = Ok st2" "storage_ok st2" "st_header st2 = st_header st1"
      "\<forall>j < ?k. page_bytes st2 (Suc j) = pad_page (chunks PAGE_SIZE ?p ! j)"
    using compact_pages_ok [OF st1(2), of ?p] st1(3) by auto
  have "wal_reset (eng_wal e) = log_bytes []"
    using assms(1) by (auto simp: engine_ok_def logged_def wal_reset_def set_len_def log_bytes_def)
  then show ?thesis using st1 st2 by (intro exI [of _ st2]) (simp add: engine_compact_def Let_def)
qed

lemma open_loads_main:
  assumes "storage_ok st" "1 < num_pages (st_header st)"
  shows "engine_open c en \<lparr>main_file = st_file st, wal_file = log_bytes [], repl_file = rf\<rparr> =
    and_then (load_main c st Map.empty) (\<lambda>(docs, ix).
      and_then (if en then outcome_map Some (feed_open (dec_change c) rf) else Ok None) (\<lambda>feed.
        Ok \<lparr>eng_wal = log_bytes [], eng_storage = st, eng_docs = docs, eng_index = ix, eng_feed = feed\<rparr>))"
  using assms by (simp add: engine_open_def storage_open_ok)

lemma read_pages_chunks:
  assumes "storage_ok st" "n = div_ceil (length payload) PAGE_SIZE" "n < num_pages (st_header st)"
    and "\<forall>j < n. page_bytes st (Suc j) = pad_page (chunks PAGE_SIZE payload ! j)"
  shows "read_pages st n = concat (map pad_page (chunks PAGE_SIZE payload))"
proof -
  have np: "num_pages (st_header st) < 2 ^ 32" using assms(1) by (simp add: storage_ok_def header_ok_def)
  have "(case read_page st (as_u32 (Suc j)) of Ok page \<Rightarrow> page | _ \<Rightarrow> []) = pad_page (chunks PAGE_SIZE payload ! j)"
    if "j < n" for j
    using that assms np by (simp add: read_page_in_file in_file_pages)
  then have "map (\<lambda>i. case read_page st (as_u32 i) of Ok page \<Rightarrow> page | _ \<Rightarrow> []) (map Suc [0..<n]) =
      map pad_page (map (\<lambda>j. chunks PAGE_SIZE payload ! j) [0..<n])" by simp
  moreover have "map (\<lambda>j. chunks PAGE_SIZE payload ! j) [0..<n] = chunks PAGE_SIZE payload"
    using map_nth [of "chunks PAGE_SIZE payload"] assms(2) by (simp add: length_chunks)
  moreover have "map Suc [0..<n] = [1..<Suc n]" by (simp add: map_Suc_upt)
  ultimately show ?thesis unfolding read_pages_def by metis
qed

lemma take_padded_chunks: "\<exists>z. concat (map pad_page (chunks PAGE_SIZE payload)) = payload @ z"
proof -
  have "\<exists>z. concat (map pad_page (chunks n xs)) = xs @ z" if "n = PAGE_SIZE" for n and xs :: bytes
    using that
  proof (induction n xs rule: chunks.induct)
    case (1 n xs)
    show ?case
    proof (cases "length xs \<le> n")
      case True
      with 1(2) show ?thesis by (cases "xs = []") (auto simp: chunks_Cons pad_page_def)
    next
      case False
      then have "xs \<noteq> []" by auto
      with 1 obtain z where z: "concat (map pad_page (chunks n (drop n xs))) = drop n xs @ z" by auto
      have "pad_page (take n xs) = take n xs" using 1(2) False by (simp add: pad_page_def)
      moreover have "chunks n xs = take n xs # chunks n (drop n xs)"
        using chunks_Cons [of n xs] 1(2) \<open>xs \<noteq> []\<close> by simp
      ultimately have "concat (map pad_page (chunks n xs)) = take n xs @ drop n xs @ z" using z by simp
      then show ?thesis by (metis append.assoc append_take_drop_id)
    qed
  qed
  then show ?thesis by blast
qed

subsection \<open>Queries against the documents\<close>

text \<open>The meaning of a query for a document, without the index.\<close>

fun satisfies :: "'n number_api \<Rightarrow> 'n document \<Rightarrow> 'n query \<Rightarrow> bool" where
  "satisfies num doc (QSearch t) = (tokenize t \<noteq> [] \<and> set (tokenize t) \<subseteq> json_tokens (doc_data doc))"
| "satisfies num doc (QAnd a b) = (satisfies num doc a \<and> satisfies num doc b)"
| "satisfies num doc (QOr a b) = (satisfies num doc a \<or> satisfies num doc b)"
| "satisfies num doc q = matches num Map.empty doc q"

lemma search_docs:
  assumes "docs_ok docs ix"
  shows "i \<in> search ix t \<longleftrightarrow>
    (\<exists>d. hm_get docs i = Some d \<and> tokenize t \<noteq> [] \<and> set (tokenize t) \<subseteq> json_tokens (doc_data d))"
  using assms fti.rel_find [of ix "map_option (json_tokens \<circ> doc_data) \<circ> hm_get docs" t]
  by (auto simp: docs_ok_def)

lemma matches_docs:
  assumes "docs_ok docs ix" "hm_get docs i = Some d"
  shows "matches num ix d q = satisfies num d q"
proof -
  have "doc_id d = i" using assms by (simp add: docs_ok_def)
  then show ?thesis
    using assms by (induction q) (auto simp: search_docs)
qed

lemma distinct_values:
  assumes "docs_ok docs ix"
  shows "distinct (hm_values docs)"
proof -
  have eq: "map doc_id (hm_values docs) = map fst docs"
    using assms by (auto simp: docs_ok_def hm_ok_def)
  have "distinct (map doc_id (hm_values docs))" unfolding eq using assms by (simp add: docs_ok_def hm_ok_def)
  then show ?thesis unfolding distinct_map [of doc_id] by blast
qed

lemma engine_query_ok:
  assumes "engine_ok c en e"
  shows "set (documents (engine_query num e q)) = {d \<in> ran (eng_abs e). satisfies num d q}
    \<and> distinct (documents (engine_query num e q))
    \<and> count (engine_query num e q) = card {d \<in> ran (eng_abs e). satisfies num d q}
    \<and> engine_search e t = {d \<in> ran (eng_abs e). satisfies num d (QSearch t)}"
proof -
  have ok: "docs_ok (eng_docs e) (eng_index e)" using assms by (simp add: engine_ok_def)
  then have hm: "hm_ok (eng_docs e)" by (simp add: docs_ok_def)
  have vals: "set (hm_values (eng_docs e)) = ran (eng_abs e)"
    using hm_value_iff [OF hm] by (auto simp: ran_def eng_abs_def simp del: set_map)
  have docs: "documents (engine_query num e q) = filter (\<lambda>d. satisfies num d q) (hm_values (eng_docs e))"
    unfolding engine_query_def execute_def Let_def
    using matches_docs [OF ok] hm_value_iff [OF hm] by (auto intro!: filter_cong simp del: set_map)
  have cnt: "count (engine_query num e q) = length (documents (engine_query num e q))"
    by (simp add: engine_query_def execute_def Let_def)
  have "set (documents (engine_query num e q)) = {d \<in> ran (eng_abs e). satisfies num d q}"
    unfolding docs by (auto simp: vals simp del: set_map)
  moreover have dist: "distinct (documents (engine_query num e q))"
    unfolding docs using distinct_values [OF ok] by simp
  moreover have "engine_search e t = {d \<in> ran (eng_abs e). satisfies num d (QSearch t)}"
    using search_docs [OF ok] by (auto simp: engine_search_def eng_abs_def ran_def)
  ultimately show ?thesis using cnt distinct_card [OF dist] by metis
qed

subsection \<open>Properties\<close>

text \<open>
  C1: The engine implements a map from ids to documents. In every engine that can arise, insert
  (of a new id), update and delete have the effect of the map operations, return the id, or
  \<open>NotFound\<close> for a missing document and then change nothing.
\<close>

theorem engine_implements_map:
  assumes "db_run c en e"
  shows "(\<forall>doc. op_ok c env e (CInsert doc) \<longrightarrow>
      fst (snd (engine_insert c env e doc)) = Ok (doc_id (stored_doc env doc))) \<and>
    (\<forall>i data. op_ok c env e (CUpdate i data) \<longrightarrow>
      (if eng_abs e i = None then engine_update c env e i data = (e, Err (NotFound i), [])
       else fst (snd (engine_update c env e i data)) = Ok ())) \<and>
    (\<forall>i. op_ok c env e (CDelete i) \<longrightarrow>
      (if eng_abs e i = None then engine_delete c env e i = (e, Err (NotFound i), [])
       else fst (snd (engine_delete c env e i)) = Ok ())) \<and>
    (\<forall>op. op_ok c env e op \<longrightarrow> eng_abs (apply_op c env e op) = abs_op env (eng_abs e) op)"
proof -
  note ok = db_run_ok [OF assms]
  have "(if eng_abs e i = None then engine_update c env e i data = (e, Err (NotFound i), [])
       else fst (snd (engine_update c env e i data)) = Ok ())" if "op_ok c env e (CUpdate i data)" for i data
    using update_ok(1) [OF ok that] missing_doc(1) [of e i c env data] by (auto simp: eng_abs_def)
  moreover have "(if eng_abs e i = None then engine_delete c env e i = (e, Err (NotFound i), [])
       else fst (snd (engine_delete c env e i)) = Ok ())" if "op_ok c env e (CDelete i)" for i
    using delete_ok(1) [OF ok that] missing_doc(2) [of e i c env] by (auto simp: eng_abs_def)
  ultimately show ?thesis using insert_ok(1) [OF ok] apply_op_ok [OF ok] by blast
qed

text \<open>A concrete coding for witnesses: one document per payload byte string.\<close>

definition toy_doc :: "unit document" where
  "toy_doc = \<lparr>doc_id = ''k'', doc_data = JStr ''hi'', doc_meta = []\<rparr>"

definition toy_codec :: "unit codec" where
  "toy_codec = \<lparr>cd_crc = length, enc_doc = (\<lambda>d. doc_id d), dec_doc = (\<lambda>bs. Some (toy_doc\<lparr>doc_id := bs\<rparr>)),
     enc_docs = (\<lambda>ds. ''{'' @ concat (map fst ds) @ ''......}''), dec_docs = (\<lambda>bs. None),
     enc_change = (\<lambda>rec. chg_doc_id rec), dec_change = (\<lambda>bs. None), can_alloc = (\<lambda>n. n < 2 ^ 40)\<rparr>"

definition toy_numbers :: "unit number_api" where
  "toy_numbers = \<lparr>num_of_i64 = (\<lambda>i. ()), num_of_f64 = (\<lambda>x. Some ()), num_as_f64 = (\<lambda>u. None)\<rparr>"

definition toy_env :: call_env where
  "toy_env = \<lparr>ce_uuid = ''u'', ce_time1 = 0, ce_time2 = 0, ce_connected = (\<lambda>_. True)\<rparr>"

definition toy_engine :: "unit engine" where
  "toy_engine = \<lparr>eng_wal = log_bytes [], eng_storage = \<lparr>st_file = header_encode header_new, st_header = header_new\<rparr>,
     eng_docs = [], eng_index = Map.empty, eng_feed = None\<rparr>"

lemma toy_open: "engine_open toy_codec False \<lparr>main_file = [], wal_file = [], repl_file = []\<rparr> = Ok toy_engine"
  by (simp add: open_fresh toy_engine_def)

lemma toy_run: "db_run toy_codec False toy_engine"
  by (rule db_fresh) (rule toy_open)

lemma toy_insert: "op_ok toy_codec toy_env toy_engine (CInsert toy_doc)"
  by (simp add: toy_engine_def toy_doc_def toy_codec_def stored_doc_def doc_coded_def payload_ok_def)

theorem engine_implements_map_witness:
  "fst (snd (engine_insert toy_codec toy_env toy_engine toy_doc)) = Ok ''k''
   \<and> fst (snd (engine_delete toy_codec toy_env toy_engine ''k'')) = Err (NotFound ''k'')"
  using engine_implements_map [OF toy_run, of toy_env] toy_insert
  by (auto simp: stored_doc_def toy_doc_def eng_abs_def toy_engine_def)





text \<open>
  C21: Queries. In an engine that came from a fresh directory by opens, inserts of ids not in use,
  updates and deletions that code and fit (no compaction and no insert over an id in use, which
  leaves stale index entries: \<open>insert_existing_id_leaves_stale_index\<close>), a query returns each stored
  document that satisfies it once and no other, full-text conditions included, and their number;
  \<open>search\<close> returns exactly the documents that contain all words of the term.
\<close>

theorem query_finds_satisfying_documents:
  assumes "db_run c en e"
  shows "set (documents (engine_query num e q)) = {d \<in> ran (eng_abs e). satisfies num d q}
    \<and> distinct (documents (engine_query num e q))
    \<and> count (engine_query num e q) = card {d \<in> ran (eng_abs e). satisfies num d q}
    \<and> engine_search e t = {d \<in> ran (eng_abs e). satisfies num d (QSearch t)}"
  by (rule engine_query_ok [OF db_run_ok [OF assms]])

theorem query_finds_satisfying_documents_witness:
  "set (documents (engine_query toy_numbers (apply_op toy_codec toy_env toy_engine (CInsert toy_doc)) (QSearch ''hi''))) = {toy_doc}"
proof -
  have "eng_abs (apply_op toy_codec toy_env toy_engine (CInsert toy_doc)) = [''k'' \<mapsto> toy_doc]"
    using apply_op_ok [OF db_run_ok [OF toy_run] toy_insert] by (simp add: eng_abs_def toy_engine_def stored_doc_def toy_doc_def fun_upd_def)
  moreover have "satisfies toy_numbers toy_doc (QSearch ''hi'')"
    by (simp add: toy_doc_def tokenize_def to_lowercase_def lower_char_def is_alphanumeric_def)
  ultimately show ?thesis
    using query_finds_satisfying_documents [OF db_change [OF toy_run toy_insert], of toy_numbers "QSearch ''hi''" "[]"] by auto
qed

text \<open>A replication log that ends in a part of a record: its length is missing, or its bytes are, or nothing is.\<close>

lemma max_sequence_tail:
  assumes "list_all (coded enc dec) recs"
  shows "max_sequence dec (concat (map (repl_frame enc) recs) @ tail) m =
    max_sequence dec tail (foldl (\<lambda>m rec. max m (sequence rec)) m recs)"
  using assms
proof (induction recs arbitrary: m)
  case (Cons rec recs)
  then show ?case
    by (subst max_sequence.simps) (simp add: codec_simps read_repl_frame [of enc dec rec])
qed simp

lemma max_sequence_torn:
  assumes "coded enc dec rec"
  shows "max_sequence dec (take k (repl_frame enc rec)) m =
    (if 4 \<le> k \<and> k < length (repl_frame enc rec) then Err unexpected_eof
     else if k < 4 then Ok m else Ok (max m (sequence rec)))"
proof -
  consider "k < 4" | "4 \<le> k" "k < length (repl_frame enc rec)" | "4 \<le> k" "length (repl_frame enc rec) \<le> k" by linarith
  then show ?thesis
  proof cases
    case 1
    then have "read_le 4 (take k (repl_frame enc rec)) = None" by (simp add: read_le_short)
    with 1 show ?thesis by (subst max_sequence.simps) simp
  next
    case 2
    from torn_repl_frame [OF assms 2] 2 show ?thesis by (subst max_sequence.simps) simp
  next
    case 3
    with max_sequence_tail [of enc dec "[rec]" "[]" m] assms show ?thesis
      by (simp add: max_sequence.simps [of dec "[]"] read_le_short)
  qed
qed

lemma feed_open_torn:
  assumes "feed_ok c (Some feed)" "coded (enc_change c) (dec_change c) rec" "frame = repl_frame (enc_change c) rec"
  shows "if 4 \<le> k \<and> k < length frame
    then feed_open (dec_change c) (rl_file (feed_log feed) @ take k frame) = Err unexpected_eof
    else \<exists>feed'. feed_open (dec_change c) (rl_file (feed_log feed) @ take k frame) = Ok feed'"
proof -
  obtain cs where cs: "rl_file (feed_log feed) = repl_bytes (enc_change c) (history 1 cs)"
    "list_all (coded (enc_change c) (dec_change c)) (history 1 cs)" using assms(1) by (auto simp: feed_ok_def)
  let ?f = "repl_bytes (enc_change c) (history 1 cs) @ take k frame"
  have f: "?f = REPL_MAGIC @ le_bytes 2 REPL_VERSION @ (concat (map (repl_frame (enc_change c)) (history 1 cs)) @ take k frame)"
    by (simp add: repl_bytes_def repl_header_def)
  have "repl_bytes (enc_change c) (history 1 cs) \<noteq> []" by (simp add: repl_bytes_def repl_header_def REPL_MAGIC_def)
  moreover have "read_exact 4 ?f = Some (REPL_MAGIC, le_bytes 2 REPL_VERSION @ (concat (map (repl_frame (enc_change c)) (history 1 cs)) @ take k frame))"
    unfolding f by (rule read_exact_append) (simp add: REPL_MAGIC_def)
  moreover have "compute_next_sequence (dec_change c) ?f =
      outcome_map (\<lambda>m. u64_add m 1) (max_sequence (dec_change c) (take k frame) (foldl (\<lambda>m rec. max m (sequence rec)) 0 (history 1 cs)))"
  proof -
    have "drop 6 ?f = concat (map (repl_frame (enc_change c)) (history 1 cs)) @ take k frame" by (simp add: repl_bytes_def)
    then show ?thesis by (simp add: compute_next_sequence_def max_sequence_tail [OF cs(2)] del: drop_append One_nat_def)
  qed
  ultimately have "feed_open (dec_change c) ?f = outcome_map (\<lambda>n. \<lparr>feed_log = \<lparr>rl_file = ?f, next_sequence = n\<rparr>, subscribers = []\<rparr>)
      (outcome_map (\<lambda>m. u64_add m 1) (max_sequence (dec_change c) (take k frame) (foldl (\<lambda>m rec. max m (sequence rec)) 0 (history 1 cs))))"
    by (simp add: feed_open_def repl_open_def read_u16 REPL_VERSION_def) (cases "max_sequence (dec_change c) (take k frame) (foldl (\<lambda>m rec. max m (sequence rec)) 0 (history 1 cs))"; simp)
  then show ?thesis unfolding cs(1) assms(3) by (simp add: max_sequence_torn [OF assms(2)])
qed

lemma open_any_feed:
  assumes "list_all wf_frame fs" "storage_ok st" "num_pages (st_header st) = 1"
    and "foldM (recover_step c) (concat (map frame_record fs)) ([], Map.empty) = Ok (docs, ix)"
  shows "engine_open c True \<lparr>main_file = st_file st, wal_file = log_bytes fs, repl_file = r\<rparr> =
    and_then (feed_open (dec_change c) r) (\<lambda>feed. Ok \<lparr>eng_wal = log_bytes fs, eng_storage = st, eng_docs = docs, eng_index = ix, eng_feed = Some feed\<rparr>)"
proof -
  have "wal_fold (recover_step c) (concat (map frame_bytes fs)) ([], Map.empty) = Ok (docs, ix)"
    using wal_fold_frames [OF assms(1), of "recover_step c" "[]" "([], Map.empty)"] assms(4) by simp
  then show ?thesis
    using assms(1-3) by (cases "feed_open (dec_change c) r") (simp_all add: engine_open_def storage_open_ok split: if_splits)
qed

text \<open>
  C17: An insert and a crash. Take an engine that arises by opens and by inserts of new ids, updates and
  deletions that fit, without compaction, and an insert of a new id that fits. On the files left by a
  crash after the record is appended and before its commit flag is set, \<open>open\<close> gives the documents and
  the index before the insert. On those left by a crash right after the flag is set, or after the
  document count is written, it gives the documents after the insert. The change is then published:
  when the crash leaves only a part of its record in the replication log, \<open>open\<close> fails if the part
  holds the length of the record (four bytes) and not all of the record, and gives the documents after
  the insert otherwise. A crash that cuts a write to the log or to the header short is not covered
  (the log is then unopenable, see \<open>torn_log_unopenable\<close>).
\<close>

theorem insert_crash_atomic:
  assumes run: "db_run c en e" and op: "op_ok c env e (CInsert doc0)"
    and app: "append_record (cd_crc c) (eng_wal e) OpInsert (doc_id (stored_doc env doc0)) (enc_doc c (stored_doc env doc0)) = (w1, off)"
  shows "(\<exists>e1. engine_open c en (engine_files [] (e\<lparr>eng_wal := w1\<rparr>)) = Ok e1 \<and>
      eng_docs e1 = eng_docs e \<and> eng_index e1 = eng_index e) \<and>
    (\<exists>w2. commit_record w1 off = Ok w2 \<and>
      (let after = (\<lambda>e2. eng_docs e2 = eng_docs (apply_op c env e (CInsert doc0)) \<and> eng_abs e2 = abs_op env (eng_abs e) (CInsert doc0));
           counted = increment_doc_count (eng_storage e) 1 in
       (\<exists>e2. engine_open c en (engine_files [] (e\<lparr>eng_wal := w2\<rparr>)) = Ok e2 \<and> after e2) \<and>
       (\<exists>e2. engine_open c en (engine_files [] (e\<lparr>eng_wal := w2, eng_storage := counted\<rparr>)) = Ok e2 \<and> after e2) \<and>
       (case eng_feed e of
          None \<Rightarrow> True
        | Some feed \<Rightarrow>
            (let frame = repl_frame (enc_change c)
                   \<lparr>sequence = next_sequence (feed_log feed), chg_op = OpInsert, chg_doc_id = doc_id (stored_doc env doc0),
                    chg_payload = enc_doc c (stored_doc env doc0), timestamp = ce_time1 env\<rparr>
             in \<forall>k. let r = engine_open c en ((engine_files [] (e\<lparr>eng_wal := w2, eng_storage := counted\<rparr>))
                         \<lparr>repl_file := rl_file (feed_log feed) @ take k frame\<rparr>) in
                  if 4 \<le> k \<and> k < length frame then r = Err unexpected_eof else \<exists>e2. r = Ok e2 \<and> after e2))))"
proof -
  let ?doc = "stored_doc env doc0"
  let ?f = "new_frame (cd_crc c) OpInsert (doc_id ?doc) (enc_doc c ?doc)"
  let ?after = "\<lambda>e2. eng_docs e2 = eng_docs (apply_op c env e (CInsert doc0)) \<and> eng_abs e2 = abs_op env (eng_abs e) (CInsert doc0)"
  let ?counted = "increment_doc_count (eng_storage e) 1"
  note ok = db_run_ok [OF run]
  obtain fs where fs: "logged c fs e" using ok by (auto simp: engine_ok_def)
  have wf: "wf_frame ?f" "wf_frame (?f\<lparr>fr_flag := 1\<rparr>)"
    using op by (simp_all add: Let_def payload_ok_def new_frame_def wf_frame_def)
  have w1: "w1 = log_bytes (fs @ [?f])" "off = length (log_bytes fs)"
    using app fs by (simp_all add: logged_def append_record_log)
  let ?w2 = "log_bytes (fs @ [?f\<lparr>fr_flag := 1\<rparr>])"
  have w2: "commit_record w1 off = Ok ?w2"
    unfolding w1 using commit_record_log [OF wf(1), of fs "[]"] by simp
  have recs: "frame_record ?f = []"
    "frame_record (?f\<lparr>fr_flag := 1\<rparr>) = [\<lparr>rec_op = OpInsert, rec_id = doc_id ?doc, rec_payload = enc_doc c ?doc\<rparr>]"
    by (simp_all add: new_frame_def frame_record_def)
  have stores: "storage_ok st" "num_pages (st_header st) = 1" if "st = eng_storage e \<or> st = ?counted" for st
    using ok that storage_ok_doc_count [of "eng_storage e" 1] by (auto simp: engine_parts doc_count_header)
  have open_log: "engine_open c en (engine_files [] (e\<lparr>eng_wal := log_bytes gs, eng_storage := st\<rparr>)) =
      Ok \<lparr>eng_wal = log_bytes gs, eng_storage = st, eng_docs = docs, eng_index = ix,
          eng_feed = map_option (\<lambda>f. f\<lparr>subscribers := []\<rparr>) (eng_feed e)\<rparr>"
    if "list_all wf_frame gs" "foldM (recover_step c) (concat (map frame_record gs)) ([], Map.empty) = Ok (docs, ix)"
      "st = eng_storage e \<or> st = ?counted" for gs docs ix st
    using open_frames [OF that(1) stores [OF that(3)] _ _ that(2), of "eng_feed e" en] ok
    by (simp add: engine_files_def engine_parts)
  have step: "recover_step c (eng_docs e, eng_index e) \<lparr>rec_op = OpInsert, rec_id = doc_id ?doc, rec_payload = enc_doc c ?doc\<rparr> =
      Ok (hm_insert (doc_id ?doc) ?doc (eng_docs e), index_document (doc_id ?doc) (doc_data ?doc) (eng_index e))"
    using op by (simp add: Let_def recover_step_def recover_put_def doc_coded_def)
  have 1: "foldM (recover_step c) (concat (map frame_record (fs @ [?f]))) ([], Map.empty) = Ok (eng_docs e, eng_index e)"
    using fs by (simp add: logged_def recs)
  have 2: "foldM (recover_step c) (concat (map frame_record (fs @ [?f\<lparr>fr_flag := 1\<rparr>]))) ([], Map.empty) =
      Ok (hm_insert (doc_id ?doc) ?doc (eng_docs e), index_document (doc_id ?doc) (doc_data ?doc) (eng_index e))"
    using fs step by (simp add: logged_def recs foldM_append del: One_nat_def)
  have frames: "list_all wf_frame (fs @ [?f])" "list_all wf_frame (fs @ [?f\<lparr>fr_flag := 1\<rparr>])"
    using fs wf by (simp_all add: logged_def)
  have "eng_docs (apply_op c env e (CInsert doc0)) = hm_insert (doc_id ?doc) ?doc (eng_docs e)"
    using insert_ok(2) [OF ok op] by simp
  then have after: "?after e2" if "eng_docs e2 = hm_insert (doc_id ?doc) ?doc (eng_docs e)" for e2
    using that by (simp add: eng_abs_def hm_simps fun_upd_def del: apply_op.simps)
  have before: "\<exists>e1. engine_open c en (engine_files [] (e\<lparr>eng_wal := w1\<rparr>)) = Ok e1 \<and>
      eng_docs e1 = eng_docs e \<and> eng_index e1 = eng_index e"
    using open_log [OF frames(1) 1, of "eng_storage e"] unfolding w1(1) by simp
  have flagged: "\<exists>e2. engine_open c en (engine_files [] (e\<lparr>eng_wal := ?w2\<rparr>)) = Ok e2 \<and> ?after e2"
  proof -
    have "\<exists>e2. engine_open c en (engine_files [] (e\<lparr>eng_wal := ?w2\<rparr>)) = Ok e2 \<and> eng_docs e2 = hm_insert (doc_id ?doc) ?doc (eng_docs e)"
      using open_log [OF frames(2) 2, of "eng_storage e"] by simp
    with after show ?thesis by blast
  qed
  have counted: "\<exists>e2. engine_open c en (engine_files [] (e\<lparr>eng_wal := ?w2, eng_storage := ?counted\<rparr>)) = Ok e2 \<and> ?after e2"
  proof -
    have "\<exists>e2. engine_open c en (engine_files [] (e\<lparr>eng_wal := ?w2, eng_storage := ?counted\<rparr>)) = Ok e2 \<and>
        eng_docs e2 = hm_insert (doc_id ?doc) ?doc (eng_docs e)"
      using open_log [OF frames(2) 2, of ?counted] by simp
    with after show ?thesis by blast
  qed
  have published: "if 4 \<le> k \<and> k < length frame then r = Err unexpected_eof else \<exists>e2. r = Ok e2 \<and> ?after e2"
    if feed: "eng_feed e = Some feed"
      and frame: "frame = repl_frame (enc_change c)
            \<lparr>sequence = next_sequence (feed_log feed), chg_op = OpInsert, chg_doc_id = doc_id ?doc, chg_payload = enc_doc c ?doc,
             timestamp = ce_time1 env\<rparr>"
      and r: "r = engine_open c en ((engine_files [] (e\<lparr>eng_wal := ?w2, eng_storage := ?counted\<rparr>))
                \<lparr>repl_file := rl_file (feed_log feed) @ take k frame\<rparr>)" for feed frame k r
  proof -
    have "en" "feed_ok c (Some feed)" using ok feed by (auto simp: engine_parts)
    moreover have "coded (enc_change c) (dec_change c)
        \<lparr>sequence = next_sequence (feed_log feed), chg_op = OpInsert, chg_doc_id = doc_id ?doc, chg_payload = enc_doc c ?doc,
         timestamp = ce_time1 env\<rparr>" using op feed by (simp add: Let_def payload_ok_def)
    ultimately have torn: "if 4 \<le> k \<and> k < length frame
      then feed_open (dec_change c) (rl_file (feed_log feed) @ take k frame) = Err unexpected_eof
      else \<exists>feed'. feed_open (dec_change c) (rl_file (feed_log feed) @ take k frame) = Ok feed'"
      using feed_open_torn [OF _ _ frame] by blast
    have "r = and_then (feed_open (dec_change c) (rl_file (feed_log feed) @ take k frame))
        (\<lambda>feed. Ok \<lparr>eng_wal = ?w2, eng_storage = ?counted, eng_docs = hm_insert (doc_id ?doc) ?doc (eng_docs e),
           eng_index = index_document (doc_id ?doc) (doc_data ?doc) (eng_index e), eng_feed = Some feed\<rparr>)"
      unfolding r using open_any_feed [OF frames(2) stores 2, of ?counted] \<open>en\<close> by (simp add: engine_files_def)
    then have part: "4 \<le> k \<and> k < length frame \<Longrightarrow> r = Err unexpected_eof"
      and whole: "\<not> (4 \<le> k \<and> k < length frame) \<Longrightarrow> \<exists>e2. r = Ok e2 \<and> eng_docs e2 = hm_insert (doc_id ?doc) ?doc (eng_docs e)"
      using torn by auto
    show ?thesis
    proof (cases "4 \<le> k \<and> k < length frame")
      case True
      from part [OF this] True show ?thesis by (simp only: if_True simp_thms)
    next
      case False
      from whole [OF this] after have "\<exists>e2. r = Ok e2 \<and> ?after e2" by blast
      with False show ?thesis by (simp only: if_False simp_thms)
    qed
  qed
  show ?thesis
    unfolding Let_def
  proof (intro conjI exI [of _ ?w2] before w2 flagged counted, goal_cases)
    case 1
    show ?case
    proof (cases "eng_feed e")
      case (Some feed)
      show ?thesis unfolding Some option.case by (rule allI) (rule published [OF Some refl refl])
    qed simp
  qed
qed

theorem insert_crash_atomic_witness:
  "\<exists>w2 e2. commit_record (fst (append_record length (log_bytes []) OpInsert ''k'' ''k'')) 6 = Ok w2 \<and>
     engine_open toy_codec False (engine_files [] (toy_engine\<lparr>eng_wal := w2\<rparr>)) = Ok e2 \<and>
     eng_docs e2 = eng_docs (apply_op toy_codec toy_env toy_engine (CInsert toy_doc))"
proof -
  have "append_record (cd_crc toy_codec) (eng_wal toy_engine) OpInsert (doc_id (stored_doc toy_env toy_doc))
      (enc_doc toy_codec (stored_doc toy_env toy_doc)) = (fst (append_record length (log_bytes []) OpInsert ''k'' ''k''), 6)"
    by (simp add: append_record_def toy_codec_def toy_engine_def toy_doc_def stored_doc_def log_bytes_def)
  from insert_crash_atomic [OF toy_run toy_insert this] show ?thesis unfolding Let_def by blast
qed

lemma wal_open_append: "wal_open (log_bytes fs @ x) = Ok (log_bytes fs @ x)"
proof -
  have "log_bytes fs @ x = WAL_MAGIC @ le_bytes 2 WAL_VERSION @ (concat (map frame_bytes fs) @ x)"
    by (simp add: log_bytes_def wal_header_def)
  moreover have "WAL_MAGIC \<noteq> []" "length WAL_MAGIC = 4" "WAL_VERSION < 2 ^ 16"
    by (simp_all add: WAL_MAGIC_def WAL_VERSION_def)
  ultimately show ?thesis by (simp add: wal_open_def codec_simps)
qed

lemma wal_fold_torn:
  assumes "wf_frame f" "0 < k" "k < length (frame_bytes f)"
  shows "wal_fold g (take k (frame_bytes f)) s = Err unexpected_eof"
  using wal_next_torn [OF assms] by (simp add: wal_fold.simps)

text \<open>
  A crash inside the write of a log record makes the database unopenable. When the log ends
  in a proper, non-empty part of a record, \<open>open\<close> fails, although every record before it is
  intact.
\<close>

theorem torn_log_unopenable:
  assumes "db_run c en e" "length i < 2 ^ 32" "length payload < 2 ^ 32" "cd_crc c payload < 2 ^ 32"
    and "0 < k" "k < length (frame_bytes (new_frame (cd_crc c) op i payload))"
  shows "engine_open c en (engine_files []
      (e\<lparr>eng_wal := eng_wal e @ take k (frame_bytes (new_frame (cd_crc c) op i payload))\<rparr>)) = Err unexpected_eof"
proof -
  let ?x = "take k (frame_bytes (new_frame (cd_crc c) op i payload))"
  have ok: "engine_ok c en e" by (rule db_run_ok [OF assms(1)])
  obtain fs where fs: "logged c fs e" using ok by (auto simp: engine_ok_def)
  have "wf_frame (new_frame (cd_crc c) op i payload)"
    using assms by (cases op) (simp_all add: new_frame_def wf_frame_def)
  then have "wal_fold (recover_step c) (concat (map frame_bytes fs) @ ?x) ([], Map.empty) = Err unexpected_eof"
    using fs assms(5,6) by (simp add: logged_def wal_fold_frames wal_fold_torn)
  moreover have "iter_committed (log_bytes fs @ ?x) = concat (map frame_bytes fs) @ ?x"
    by (simp add: iter_committed_def log_bytes_def)
  ultimately show ?thesis
    using ok fs by (simp add: engine_open_def engine_files_def logged_def wal_open_append storage_open_ok engine_parts)
qed

theorem torn_log_unopenable_witness:
  "engine_open toy_codec False (engine_files []
     (toy_engine\<lparr>eng_wal := eng_wal toy_engine @ take 5 (frame_bytes (new_frame (cd_crc toy_codec) OpInsert ''k'' ''k''))\<rparr>)) =
   Err unexpected_eof"
  by (rule torn_log_unopenable [OF toy_run]) (simp_all add: toy_codec_def length_frame_bytes new_frame_def)

lemma postings_add_more:
  assumes "postings ix m" "m d = Some ts"
  shows "postings (posting_add d us ix) (m(d \<mapsto> ts \<union> us))"
proof -
  have "{e. \<exists>vs. (m(d \<mapsto> ts \<union> us)) e = Some vs \<and> t \<in> vs} =
      (if t \<in> us then insert d {e. \<exists>vs. m e = Some vs \<and> t \<in> vs} else {e. \<exists>vs. m e = Some vs \<and> t \<in> vs})"
    for t using assms(2) by auto
  with assms(1) show ?thesis by (auto simp: postings_def posting_add_def Let_def)
qed

text \<open>
  Inserting over an id that is in use. The document is replaced, but the words of the old one
  stay in the index: the id is found for every term whose words occur in the old or the new
  data, until a restart rebuilds the index from the log and it is found for the new data only.
  The document count of the page file is one too high.
\<close>

theorem insert_existing_id_leaves_stale_index:
  assumes "db_run c en e" "doc_id doc \<noteq> []" "eng_abs e (doc_id doc) = Some old" "Suc (length (eng_docs e)) < 2 ^ 32"
    and "doc_coded c doc" "payload_ok c env e OpInsert (doc_id doc) (enc_doc c doc)"
    and "e' = fst (engine_insert c env e doc)"
  shows "eng_abs e' = (eng_abs e)(doc_id doc \<mapsto> doc) \<and>
    (doc_id doc \<in> search (eng_index e') t \<longleftrightarrow>
       tokenize t \<noteq> [] \<and> set (tokenize t) \<subseteq> json_tokens (doc_data old) \<union> json_tokens (doc_data doc)) \<and>
    doc_count (st_header (eng_storage e')) = Suc (length (eng_docs e')) \<and>
    (\<exists>e2. engine_open c en (engine_files [] e') = Ok e2 \<and> eng_docs e2 = eng_docs e' \<and>
      (doc_id doc \<in> search (eng_index e2) t \<longleftrightarrow>
         tokenize t \<noteq> [] \<and> set (tokenize t) \<subseteq> json_tokens (doc_data doc)))"
proof -
  let ?i = "doc_id doc" and ?p = "enc_doc c doc"
  let ?f = "(new_frame (cd_crc c) OpInsert ?i ?p)\<lparr>fr_flag := 1\<rparr>"
  have ok: "engine_ok c en e" by (rule db_run_ok [OF assms(1)])
  have dok: "docs_ok (eng_docs e) (eng_index e)" using ok by (simp add: engine_ok_def)
  obtain fs where fs: "logged c fs e" using ok by (auto simp: engine_ok_def)
  have len: "length ?i < 2 ^ 32" "length ?p < 2 ^ 32" "cd_crc c ?p < 2 ^ 32"
    using assms(6) by (simp_all add: payload_ok_def)
  have old: "hm_get (eng_docs e) ?i = Some old" using assms(3) by (simp add: eng_abs_def)
  define e2 where "e2 = e\<lparr>eng_wal := log_bytes (fs @ [?f]), eng_index := index_document ?i (doc_data doc) (eng_index e),
     eng_docs := hm_insert ?i doc (eng_docs e), eng_storage := increment_doc_count (eng_storage e) 1\<rparr>"
  have feed2: "eng_feed e2 = eng_feed e" by (simp add: e2_def)
  have "log_write c e OpInsert ?i ?p = (e\<lparr>eng_wal := log_bytes (fs @ [?f])\<rparr>, Ok ())"
    using fs len by (intro log_write_frames) (simp_all add: logged_def)
  then have e': "e' = fst (feed_publish c env e2 OpInsert ?i ?p)"
    using assms(2,7) by (simp add: engine_insert_def Let_def e2_def case_prod_beta)
  have docs': "eng_docs e' = hm_insert ?i doc (eng_docs e)" "eng_index e' = index_document ?i (doc_data doc) (eng_index e)"
    "eng_wal e' = log_bytes (fs @ [?f])" "eng_storage e' = increment_doc_count (eng_storage e) 1"
    unfolding e' by (simp_all add: frame_simps) (simp_all add: e2_def)
  have feed': "feed_ok c (eng_feed e')"
    unfolding e' using ok assms(6)
    by (intro feed_publish_ok) (simp_all add: engine_ok_def payload_ok_cong [OF feed2] feed2)
  have en: "(eng_feed e' \<noteq> None) = en" using ok by (simp only: e' frame_simps feed2 engine_ok_def)
  have abs: "eng_abs e' = (eng_abs e)(?i \<mapsto> doc)" by (simp add: eng_abs_def docs' hm_simps fun_upd_def)
  let ?m = "map_option (json_tokens \<circ> doc_data) \<circ> hm_get (eng_docs e)"
  have "postings (eng_index e') (?m(?i \<mapsto> json_tokens (doc_data old) \<union> json_tokens (doc_data doc)))"
    unfolding docs' index_document_posting using dok old by (intro postings_add_more) (simp_all add: docs_ok_def)
  from fti.rel_find [OF this, of t] have stale: "?i \<in> search (eng_index e') t \<longleftrightarrow>
      tokenize t \<noteq> [] \<and> set (tokenize t) \<subseteq> json_tokens (doc_data old) \<union> json_tokens (doc_data doc)" by auto
  have cnt: "doc_count (st_header (eng_storage e')) = Suc (length (eng_docs e'))"
    using ok assms(4) hm_get_mem [OF old] by (simp add: docs' doc_count_header engine_parts hm_length_insert)
  define ix2 where "ix2 = index_document ?i (doc_data doc) (remove_document ?i (doc_data old) (eng_index e))"
  have "recover_step c (eng_docs e, eng_index e) \<lparr>rec_op = OpInsert, rec_id = ?i, rec_payload = ?p\<rparr> =
      Ok (hm_insert ?i doc (eng_docs e), ix2)"
    using old assms(5) by (simp add: recover_step_def recover_put_def doc_coded_def ix2_def)
  then have "logged c (fs @ [?f]) (e'\<lparr>eng_index := ix2\<rparr>)"
    by (rule logged_append [OF fs _ len, rotated]) (simp_all add: docs')
  then have frames: "list_all wf_frame (fs @ [?f])"
    "foldM (recover_step c) (concat (map frame_record (fs @ [?f]))) ([], Map.empty) = Ok (eng_docs e', ix2)"
    by (simp_all add: logged_def)
  have sto: "storage_ok (eng_storage e')" "num_pages (st_header (eng_storage e')) = 1"
    using ok by (simp_all add: docs' engine_parts storage_ok_doc_count doc_count_header)
  have "docs_ok (eng_docs e') ix2" unfolding docs' ix2_def using docs_ok_update [OF dok old refl] by simp
  then have fresh: "?i \<in> search ix2 t \<longleftrightarrow> tokenize t \<noteq> [] \<and> set (tokenize t) \<subseteq> json_tokens (doc_data doc)"
    by (simp add: search_docs docs' hm_simps)
  have "engine_files [] e' = \<lparr>main_file = st_file (eng_storage e'), wal_file = log_bytes (fs @ [?f]),
      repl_file = (case eng_feed e' of None \<Rightarrow> [] | Some f \<Rightarrow> rl_file (feed_log f))\<rparr>"
    by (simp add: engine_files_def docs')
  with open_frames [OF frames(1) sto feed' en frames(2)]
  have "\<exists>e2. engine_open c en (engine_files [] e') = Ok e2 \<and> eng_docs e2 = eng_docs e' \<and> eng_index e2 = ix2" by simp
  with abs stale cnt fresh show ?thesis by auto
qed

theorem insert_existing_id_leaves_stale_index_witness:
  "let e = apply_op toy_codec toy_env toy_engine (CInsert toy_doc)
   in ''k'' \<in> search (eng_index (fst (engine_insert toy_codec toy_env e toy_doc))) ''hi''"
proof -
  let ?e = "apply_op toy_codec toy_env toy_engine (CInsert toy_doc)"
  have run: "db_run toy_codec False ?e" by (rule db_change [OF toy_run toy_insert])
  have docs: "eng_docs ?e = [(''k'', toy_doc)]"
    using insert_ok(2) [OF db_run_ok [OF toy_run] toy_insert] by (simp add: toy_engine_def stored_doc_def toy_doc_def)
  then have abs: "eng_abs ?e (doc_id toy_doc) = Some toy_doc" by (simp add: eng_abs_def toy_doc_def)
  have feed: "eng_feed ?e = None"
    using db_run_ok [OF run] by (simp add: engine_ok_def)
  have "doc_id toy_doc \<noteq> []" "doc_coded toy_codec toy_doc"
    "payload_ok toy_codec toy_env ?e OpInsert (doc_id toy_doc) (enc_doc toy_codec toy_doc)"
    using feed by (simp_all add: toy_doc_def doc_coded_def toy_codec_def payload_ok_def del: apply_op.simps)
  from insert_existing_id_leaves_stale_index [OF run this(1) abs _ this(2,3) refl, of "''hi''"] docs
  show ?thesis
    by (simp add: toy_doc_def tokenize_def to_lowercase_def lower_char_def is_alphanumeric_def Let_def del: apply_op.simps)
qed

text \<open>
  C37: What compaction writes, \<open>open\<close> can read: on a page file with exactly one page more than
  the payload and the header need, writing the pages and the trailer and loading them again gives
  the documents and their index.
\<close>

theorem compact_load_roundtrip:
  assumes "storage_ok st" "payload \<noteq> []" "length payload < 2 ^ 64"
    and "num_pages (st_header st) = div_ceil (length payload) PAGE_SIZE + 2"
    and "can_alloc c (length payload)" "dec_docs c payload = Some docs" "docs_ok docs ix0"
  shows "\<exists>st' ix. compact_pages st payload = Ok st' \<and> storage_ok st' \<and>
    load_main c st' Map.empty = Ok (docs, ix) \<and> docs_ok docs ix"
proof -
  let ?k = "div_ceil (length payload) PAGE_SIZE"
  obtain st' where st': "compact_pages st payload = Ok st'" "storage_ok st'" "st_header st' = st_header st"
      "\<forall>j < ?k. page_bytes st' (Suc j) = pad_page (chunks PAGE_SIZE payload ! j)"
      "page_bytes st' (?k + 1) = pad_page (le_bytes 8 (length payload))"
    using compact_pages_ok [OF assms(1), of payload] assms(4) by auto
  have "read_page st' (?k + 1) = Ok (pad_page (le_bytes 8 (length payload)))"
    using st' assms(4) by (subst read_page_in_file) (simp_all add: in_file_pages)
  moreover have "le_value (take 8 (pad_page (le_bytes 8 (length payload)))) = length payload"
    using assms(3) by (simp add: pad_page_def le_value_u64)
  moreover have "take (length payload) (read_pages st' ?k) = payload"
    using read_pages_chunks [OF st'(2) refl, of payload] st'(3,4) assms(4) take_padded_chunks [of payload] by auto
  ultimately have load: "load_main c st' Map.empty = Ok (fold (\<lambda>(i, doc) (docs, ix).
      (hm_insert i doc docs, index_document i (doc_data doc) ix)) docs ([], Map.empty))"
    using st'(3) assms(2,4,5,6) by (simp add: load_main_def)
  have loaded: "\<exists>ix. fold (\<lambda>(i, doc) (docs, ix). (hm_insert i doc docs, index_document i (doc_data doc) ix)) ds (acc, ix1) = (acc @ ds, ix) \<and>
      docs_ok (acc @ ds) ix"
    if "docs_ok acc ix1" "hm_ok (acc @ ds)" "\<forall>(i, d) \<in> set ds. doc_id d = i" for ds acc ix1
    using that
  proof (induction ds arbitrary: acc ix1)
    case Nil
    then show ?case by simp
  next
    case (Cons p ds)
    obtain i d where p: "p = (i, d)" by (cases p)
    have i: "doc_id d = i" using Cons.prems(3) p by simp
    have new: "i \<notin> fst ` set acc" using Cons.prems(2) p by (auto simp: hm_ok_def)
    have "hm_insert i d acc = acc @ [(i, d)]" using new by (induction acc) auto
    with docs_ok_insert [OF Cons.prems(1), of d] new i
    have "docs_ok (acc @ [(i, d)]) (index_document i (doc_data d) ix1)" by (simp add: hm_get_None_iff)
    from Cons.IH [OF this] Cons.prems p \<open>hm_insert i d acc = acc @ [(i, d)]\<close> show ?case by simp
  qed
  have "\<forall>(i, d) \<in> set docs. doc_id d = i" "hm_ok docs"
    using assms(7) by (auto simp: docs_ok_def hm_ok_def)
  with loaded [of "[]" Map.empty docs] docs_ok_empty obtain ix where
    "fold (\<lambda>(i, doc) (docs, ix). (hm_insert i doc docs, index_document i (doc_data doc) ix)) docs ([], Map.empty) = (docs, ix)"
    "docs_ok docs ix" by auto
  with st'(1,2) load show ?thesis by auto
qed

definition toy_storage :: storage where
  "toy_storage = \<lparr>st_file = header_encode (header_new\<lparr>num_pages := 3\<rparr>) @ replicate (2 * PAGE_SIZE) CHR ''z'',
     st_header = header_new\<lparr>num_pages := 3\<rparr>\<rparr>"

theorem compact_load_roundtrip_witness:
  "\<exists>st' ix. compact_pages toy_storage ''{k}'' = Ok st' \<and>
     load_main (toy_codec\<lparr>dec_docs := \<lambda>_. Some [(''k'', toy_doc)]\<rparr>) st' Map.empty = Ok ([(''k'', toy_doc)], ix)"
proof -
  have "storage_ok toy_storage"
    by (simp add: storage_ok_def header_ok_def toy_storage_def header_new_def VERSION_def) (simp add: PAGE_SIZE_def)
  moreover have "docs_ok [(''k'', toy_doc)] (index_document ''k'' (doc_data toy_doc) Map.empty)"
    using docs_ok_insert [OF docs_ok_empty, of toy_doc] by (simp add: toy_doc_def)
  moreover have "num_pages (st_header toy_storage) = div_ceil (length ''{k}'') PAGE_SIZE + 2"
    by (simp add: toy_storage_def div_ceil_def PAGE_SIZE_def)
  moreover have "can_alloc (toy_codec\<lparr>dec_docs := \<lambda>_. Some [(''k'', toy_doc)]\<rparr>) (length ''{k}'')"
    by (simp add: toy_codec_def)
  moreover have "dec_docs (toy_codec\<lparr>dec_docs := \<lambda>_. Some [(''k'', toy_doc)]\<rparr>) ''{k}'' = Some [(''k'', toy_doc)]"
    by simp
  moreover have "''{k}'' \<noteq> []" "length ''{k}'' < 2 ^ 64" by simp_all
  ultimately show ?thesis using compact_load_roundtrip by blast
qed

text \<open>
  C38: Compaction loses the database. Take an engine that arises by opens and by inserts of new ids,
  updates and deletions that fit, not compacted before, whose documents are coded as printable
  bytes, at least eight of them in the last page of the payload (or a full page): so any database
  with documents whose JSON does not end in the first seven bytes of a page, and no database
  without documents, which is coded as two bytes. Compacting it succeeds, keeps the documents in
  memory and empties the log, but allocates one page too few for the trailer, so the next \<open>open\<close>
  takes the last page of the payload for it: the eight printable bytes at its start are a length of
  at least \<open>2 ^ 61\<close> bytes, and the allocation of a buffer that no allocator can give ends the process.
\<close>

theorem compact_then_open_fails:
  fixes c :: "'n codec"
  assumes "db_run c en e" and "payload = enc_docs c (eng_docs e)"
    and "\<forall>b \<in> set payload. 32 \<le> (of_char b :: nat)"
    and "payload \<noteq> []" "length payload mod PAGE_SIZE = 0 \<or> 8 \<le> length payload mod PAGE_SIZE"
    and "div_ceil (length payload) PAGE_SIZE + 2 < 2 ^ 32" "\<And>n. can_alloc c n \<Longrightarrow> n < 2 ^ 61"
  shows "\<exists>e'. engine_compact c e = Some (e', Ok ()) \<and> eng_docs e' = eng_docs e \<and> eng_wal e' = log_bytes [] \<and>
    engine_open c en (engine_files [] e') = (Panic :: 'n engine outcome)"
proof -
  let ?k = "div_ceil (length payload) PAGE_SIZE"
  have ok: "engine_ok c en e" by (rule db_run_ok [OF assms(1)])
  obtain st' where st': "engine_compact c e = Some (e\<lparr>eng_storage := st', eng_wal := log_bytes [],
        eng_feed := map_option feed_reset (eng_feed e)\<rparr>, Ok ())"
      "storage_ok st'" "num_pages (st_header st') = ?k + 1"
      "\<forall>j < ?k. page_bytes st' (Suc j) = pad_page (chunks PAGE_SIZE payload ! j)"
    using compact_ok [OF ok] assms(2,6) by auto
  have k0: "0 < ?k" using assms(4) by (simp add: div_ceil_pos)
  let ?last = "last (chunks PAGE_SIZE payload)"
  have ne: "chunks PAGE_SIZE payload \<noteq> []" using assms(4) by (simp add: chunks_Cons)
  have "page_bytes st' ?k = pad_page ?last"
    using st'(4) [rule_format, of "?k - 1"] k0 ne by (simp add: last_conv_nth length_chunks)
  then have rd: "read_page st' ?k = Ok (pad_page ?last)"
    using st'(2,3) by (simp add: read_page_in_file in_file_pages)
  have long: "8 \<le> length ?last"
    using last_chunk [OF PAGE_SIZE_pos(1) assms(4)] assms(5) by (auto simp: PAGE_SIZE_def)
  have "set ?last \<subseteq> set payload"
    using concat_chunks [OF PAGE_SIZE_pos(1), of payload] ne by (metis last_in_set UN_upper set_concat)
  then have "\<forall>b \<in> set (take 8 (pad_page ?last)). 32 \<le> (of_char b :: nat)"
    using assms(3) long set_take_subset [of 8 ?last] by (auto simp: pad_page_def)
  moreover have "length (take 8 (pad_page ?last)) = 8" using long by (simp add: pad_page_def)
  ultimately have "32 * 256 ^ (8 - 1) \<le> le_value (take 8 (pad_page ?last))"
    using le_value_lower [of "take 8 (pad_page ?last)" 32] by fastforce
  then have big: "2 ^ 61 \<le> le_value (take 8 (pad_page ?last))" by simp
  then have "\<not> can_alloc c (le_value (take 8 (pad_page ?last)))" using assms(7) by (meson leD)
  moreover have "le_value (take 8 (pad_page ?last)) \<noteq> 0" using big by (intro notI) simp
  ultimately have "load_main c st' Map.empty = Panic" using rd st'(3) by (simp add: load_main_def)
  then have "engine_open c en \<lparr>main_file = st_file st', wal_file = log_bytes [], repl_file = rf\<rparr> = (Panic :: 'n engine outcome)" for rf
    using open_loads_main [OF st'(2), of c en rf] st'(3) k0 by simp
  with st'(1) show ?thesis by (simp add: engine_files_def)
qed

text \<open>Documents with a text as their data, coded as \<open>serde_json\<close> codes them.\<close>

definition in_quotes :: "string \<Rightarrow> string" where
  "in_quotes t = [CHR 34] @ t @ [CHR 34]"

definition json_document :: "unit document \<Rightarrow> string" where
  "json_document d =
     ''{'' @ in_quotes ''id'' @ '':'' @ in_quotes (doc_id d) @ '','' @ in_quotes ''data'' @ '':'' @
     (case doc_data d of JStr t \<Rightarrow> in_quotes t | _ \<Rightarrow> ''null'') @ '','' @ in_quotes ''meta'' @ '':{}}''"

definition json_codec :: "unit codec" where
  "json_codec = toy_codec\<lparr>enc_docs :=
     (\<lambda>ds. ''{'' @ join '','' (map (\<lambda>(i, d). in_quotes i @ '':'' @ json_document d) ds) @ ''}'')\<rparr>"

theorem compact_then_open_fails_witness:
  "\<exists>e e'. db_run json_codec False e \<and> enc_docs json_codec (eng_docs e) =
       ''{'' @ in_quotes ''k'' @ '':{'' @ in_quotes ''id'' @ '':'' @ in_quotes ''k'' @ '','' @ in_quotes ''data'' @ '':'' @
       in_quotes ''hi'' @ '','' @ in_quotes ''meta'' @ '':{}}}'' \<and>
     engine_compact json_codec e = Some (e', Ok ()) \<and> eng_docs e' = eng_docs e \<and>
     engine_open json_codec False (engine_files [] e') = (Panic :: unit engine outcome)"
proof -
  let ?e = "apply_op json_codec toy_env toy_engine (CInsert toy_doc)"
  have "engine_open json_codec False \<lparr>main_file = [], wal_file = [], repl_file = []\<rparr> = Ok toy_engine"
    by (simp add: open_fresh toy_engine_def)
  then have fresh: "db_run json_codec False toy_engine" by (rule db_fresh)
  have op: "op_ok json_codec toy_env toy_engine (CInsert toy_doc)"
    by (simp add: json_codec_def toy_engine_def toy_codec_def toy_doc_def stored_doc_def doc_coded_def payload_ok_def)
  have run: "db_run json_codec False ?e" by (rule db_change [OF fresh op])
  have "eng_docs ?e = [(''k'', toy_doc)]"
    using insert_ok(2) [OF db_run_ok [OF fresh] op]
    by (simp add: stored_doc_def toy_doc_def toy_engine_def)
  then have payload: "enc_docs json_codec (eng_docs ?e) =
       ''{'' @ in_quotes ''k'' @ '':{'' @ in_quotes ''id'' @ '':'' @ in_quotes ''k'' @ '','' @ in_quotes ''data'' @ '':'' @
       in_quotes ''hi'' @ '','' @ in_quotes ''meta'' @ '':{}}}''"
    by (simp add: json_codec_def json_document_def toy_doc_def in_quotes_def)
  have "n < 2 ^ 61" if "can_alloc json_codec n" for n using that by (simp add: json_codec_def toy_codec_def)
  then obtain e' where "engine_compact json_codec ?e = Some (e', Ok ())" "eng_docs e' = eng_docs ?e"
    "engine_open json_codec False (engine_files [] e') = (Panic :: unit engine outcome)"
    using compact_then_open_fails [OF run refl] unfolding payload by (auto simp: in_quotes_def PAGE_SIZE_def div_ceil_def)
  with run payload show ?thesis by blast
qed

text \<open>
  A write after compaction hides what was compacted. \<open>open\<close> looks at the page file only when
  the log gives no document, so after a compaction and one insert it returns the inserted
  document alone.
\<close>

theorem write_after_compact_hides_documents:
  assumes "db_run c en e" "div_ceil (length (enc_docs c (eng_docs e))) PAGE_SIZE + 2 < 2 ^ 32"
    and "engine_compact c e = Some (e1, Ok ())" "op_ok c env e1 (CInsert doc0)"
    and "e2 = apply_op c env e1 (CInsert doc0)" "doc = stored_doc env doc0"
  shows "eng_docs e2 = hm_insert (doc_id doc) doc (eng_docs e) \<and>
    (\<exists>e3. engine_open c en (engine_files [] e2) = Ok e3 \<and> eng_docs e3 = [(doc_id doc, doc)])"
proof -
  let ?p = "enc_doc c doc"
  let ?f = "(new_frame (cd_crc c) OpInsert (doc_id doc) ?p)\<lparr>fr_flag := 1\<rparr>"
  have ok: "engine_ok c en e" by (rule db_run_ok [OF assms(1)])
  obtain st' where st': "e1 = e\<lparr>eng_storage := st', eng_wal := log_bytes [], eng_feed := map_option feed_reset (eng_feed e)\<rparr>"
      "storage_ok st'"
    using compact_ok [OF ok assms(2)] assms(3) by auto
  have "feed_ok c (map_option feed_reset (eng_feed e))"
  proof (cases "eng_feed e")
    case (Some feed)
    have "rl_file (repl_reset (feed_log feed)) = repl_bytes (enc_change c) []"
      using ok Some by (auto simp: engine_ok_def feed_ok_def repl_reset_def set_len_def repl_bytes_def)
    then have "feed_log (feed_reset feed) = \<lparr>rl_file = repl_bytes (enc_change c) (history 1 []), next_sequence = Suc (length ([] :: change list))\<rparr>"
      by (simp add: feed_reset_def) (simp add: repl_reset_def)
    moreover have "list_all (coded (enc_change c) (dec_change c)) (history 1 [])" "Suc (length ([] :: change list)) < 2 ^ 64"
      by simp_all
    ultimately show ?thesis unfolding Some option.map feed_ok_def option.case by blast
  qed (simp add: feed_ok_def)
  then have feed1: "feed_ok c (eng_feed e1)" using st' by simp
  have pay: "payload_ok c env e1 OpInsert (doc_id doc) ?p" and coded: "doc_coded c doc"
    using assms(4,6) by (simp_all add: Let_def)
  then have len: "length (doc_id doc) < 2 ^ 32" "length ?p < 2 ^ 32" "cd_crc c ?p < 2 ^ 32"
    by (simp_all add: payload_ok_def)
  define d where "d = e1\<lparr>eng_wal := log_bytes ([] @ [?f]), eng_index := index_document (doc_id doc) (doc_data doc) (eng_index e1),
     eng_docs := hm_insert (doc_id doc) doc (eng_docs e1), eng_storage := increment_doc_count (eng_storage e1) 1\<rparr>"
  have feedd: "eng_feed d = eng_feed e1" by (simp add: d_def)
  have "log_write c e1 OpInsert (doc_id doc) ?p = (e1\<lparr>eng_wal := log_bytes ([] @ [?f])\<rparr>, Ok ())"
    using len st' by (intro log_write_frames) simp_all
  then have e2: "e2 = fst (feed_publish c env d OpInsert (doc_id doc) ?p)"
    using assms(5) unfolding apply_op.simps engine_insert_def stored_doc_def [symmetric] assms(6) [symmetric]
    by (simp add: Let_def d_def case_prod_beta)
  have parts: "eng_docs e2 = hm_insert (doc_id doc) doc (eng_docs e)" "eng_wal e2 = log_bytes [?f]"
    "eng_storage e2 = increment_doc_count st' 1"
    unfolding e2 by (simp_all add: frame_simps) (simp_all add: d_def st')
  have feed2: "feed_ok c (eng_feed e2)"
    unfolding e2 using feed1 pay
    by (intro feed_publish_ok) (simp_all add: payload_ok_cong [OF feedd] feedd)
  have en: "(eng_feed e2 \<noteq> None) = en" using ok by (simp add: e2 frame_simps feedd st' engine_ok_def)
  have wf: "list_all wf_frame [?f]" using len by (simp add: new_frame_def wf_frame_def)
  have rec: "foldM (recover_step c) (concat (map frame_record [?f])) ([], Map.empty) =
      Ok ([(doc_id doc, doc)], index_document (doc_id doc) (doc_data doc) Map.empty)"
    using coded by (simp add: new_frame_def frame_record_def recover_step_def recover_put_def doc_coded_def)
  have "engine_files [] e2 = \<lparr>main_file = st_file (eng_storage e2), wal_file = log_bytes [?f],
      repl_file = (case eng_feed e2 of None \<Rightarrow> [] | Some f \<Rightarrow> rl_file (feed_log f))\<rparr>"
    by (simp add: engine_files_def parts)
  moreover have "engine_open c en \<lparr>main_file = st_file st, wal_file = log_bytes [?f], repl_file = rf\<rparr> =
      and_then (if en then outcome_map Some (feed_open (dec_change c) rf) else Ok None) (\<lambda>feed.
        Ok \<lparr>eng_wal = log_bytes [?f], eng_storage = st, eng_docs = [(doc_id doc, doc)],
            eng_index = index_document (doc_id doc) (doc_data doc) Map.empty, eng_feed = feed\<rparr>)"
    if "storage_ok st" for st rf
    using wal_fold_frames [OF wf, of "recover_step c" "[]" "([], Map.empty)"] rec that
    by (simp add: engine_open_def storage_open_ok)
  moreover have "storage_ok (eng_storage e2)" using st'(2) by (simp add: parts storage_ok_doc_count)
  moreover have "(if en then outcome_map Some (feed_open (dec_change c) (case eng_feed e2 of None \<Rightarrow> [] | Some f \<Rightarrow> rl_file (feed_log f)))
        else Ok None) = Ok (map_option (\<lambda>f. f\<lparr>subscribers := []\<rparr>) (eng_feed e2))"
    using feed2 en by (cases "eng_feed e2") (auto simp: feed_open_ok)
  ultimately show ?thesis using parts(1) by simp
qed

theorem write_after_compact_hides_documents_witness:
  "\<exists>e1 e3. engine_compact toy_codec (apply_op toy_codec toy_env toy_engine (CInsert toy_doc)) = Some (e1, Ok ()) \<and>
     engine_open toy_codec False (engine_files [] (apply_op toy_codec toy_env e1 (CInsert (toy_doc\<lparr>doc_id := ''j''\<rparr>)))) = Ok e3 \<and>
     map fst (eng_docs e1) = [''k''] \<and> map fst (eng_docs e3) = [''j'']"
proof -
  let ?e = "apply_op toy_codec toy_env toy_engine (CInsert toy_doc)"
  let ?d = "toy_doc\<lparr>doc_id := ''j''\<rparr>"
  have run: "db_run toy_codec False ?e" by (rule db_change [OF toy_run toy_insert])
  have docs: "eng_docs ?e = [(''k'', toy_doc)]"
    using insert_ok(2) [OF db_run_ok [OF toy_run] toy_insert] by (simp add: toy_engine_def stored_doc_def toy_doc_def)
  have size: "div_ceil (length (enc_docs toy_codec (eng_docs ?e))) PAGE_SIZE + 2 < 2 ^ 32"
    unfolding docs by (simp add: toy_codec_def div_ceil_def PAGE_SIZE_def)
  obtain e1 where e1: "engine_compact toy_codec ?e = Some (e1, Ok ())" "eng_docs e1 = [(''k'', toy_doc)]" "eng_feed e1 = None"
    using compact_ok [OF db_run_ok [OF run] size] db_run_ok [OF run] docs
    by (fastforce simp: engine_ok_def simp del: apply_op.simps)
  have st: "stored_doc toy_env ?d = ?d" by (simp add: stored_doc_def)
  have "op_ok toy_codec toy_env e1 (CInsert ?d)"
    using e1(2,3) by (simp add: doc_coded_def toy_codec_def payload_ok_def toy_doc_def stored_doc_def)
  from write_after_compact_hides_documents [OF run size e1(1) this refl refl] e1 show ?thesis
    unfolding st by auto
qed

end
