(* ===== verification/Shard.thy ===== *)
theory Shard
  imports Engine "HOL-Library.Word"
begin

text \<open>
  Sharding (\<open>src/src/shard.rs\<close>): the shard map, the ring of virtual nodes, the router with one
  engine per shard and the allocator. The 64-bit hash of \<open>DefaultHasher\<close>, whose algorithm the
  standard library leaves open, is an argument; folding it to the 32 bits of a ring position is
  the code's. \<open>disk\<close> maps a shard to the files of its engine. \<open>rebalance\<close>, which opens a second
  handle on files that are already open, is in \<open>Rebalance\<close>.
\<close>

subsection \<open>Shard map\<close>

record shard_map =
  virtual_nodes :: nat
  shard_to_node :: "(string \<times> string) list"

definition shard_map_default :: shard_map where
  "shard_map_default = \<lparr>virtual_nodes = 150, shard_to_node = []\<rparr>"

definition shard_map_new :: "nat \<Rightarrow> shard_map" where
  "shard_map_new vn = \<lparr>virtual_nodes = vn, shard_to_node = []\<rparr>"

definition add_shard :: "string \<Rightarrow> string option \<Rightarrow> shard_map \<Rightarrow> shard_map" where
  "add_shard s node m =
     m\<lparr>shard_to_node := bt_insert s (case node of None \<Rightarrow> [] | Some n \<Rightarrow> n) (shard_to_node m)\<rparr>"

definition remove_shard :: "string \<Rightarrow> shard_map \<Rightarrow> shard_map" where
  "remove_shard s m = m\<lparr>shard_to_node := bt_remove s (shard_to_node m)\<rparr>"

definition node_for_shard :: "shard_map \<Rightarrow> string \<Rightarrow> string option" where
  "node_for_shard m s =
     (case map_of (shard_to_node m) s of None \<Rightarrow> None | Some n \<Rightarrow> if n = [] then None else Some n)"

definition shard_ids :: "shard_map \<Rightarrow> string list" where
  "shard_ids m = map fst (shard_to_node m)"

subsection \<open>The ring\<close>

definition hash_key :: "(string \<Rightarrow> 64 word) \<Rightarrow> string \<Rightarrow> 32 word" where
  "hash_key hasher key = (let full = hasher key in ucast (xor (drop_bit 32 full) full))"

type_synonym ring = "(32 word \<times> string) list"

definition vnode_name :: "string \<Rightarrow> nat \<Rightarrow> string" where
  "vnode_name s v = s @ ''#'' @ nat_to_string v"

definition ring_add :: "(string \<Rightarrow> 64 word) \<Rightarrow> nat \<Rightarrow> string \<Rightarrow> ring \<Rightarrow> ring" where
  "ring_add hasher vn s r = fold (\<lambda>v r. bt_insert (hash_key hasher (vnode_name s v)) s r) [0..<vn] r"

definition build_ring :: "(string \<Rightarrow> 64 word) \<Rightarrow> shard_map \<Rightarrow> ring" where
  "build_ring hasher m = fold (ring_add hasher (virtual_nodes m)) (map fst (shard_to_node m)) []"

definition ring_lookup :: "32 word \<Rightarrow> ring \<Rightarrow> string option" where
  "ring_lookup h r =
     (if r = [] then None
      else case bt_ceiling h r of
          Some (_, s) \<Rightarrow> Some s
        | None \<Rightarrow> map_option snd (bt_first r))"

subsection \<open>The router\<close>

record 'n router =
  rt_map :: shard_map
  rt_ring :: ring
  rt_engines :: "(string \<times> 'n engine) list"

definition open_engines ::
  "'n codec \<Rightarrow> bool \<Rightarrow> (string \<Rightarrow> db_files) \<Rightarrow> string list \<Rightarrow> (string \<times> 'n engine) list outcome" where
  "open_engines c en disk shards =
     foldM (\<lambda>engs s. and_then (engine_open c en (disk s)) (\<lambda>e. Ok (bt_insert s e engs))) shards []"

definition router_new ::
  "(string \<Rightarrow> 64 word) \<Rightarrow> 'n codec \<Rightarrow> bool \<Rightarrow> (string \<Rightarrow> db_files) \<Rightarrow> shard_map \<Rightarrow> 'n router outcome" where
  "router_new hasher c en disk m =
     and_then (open_engines c en disk (map fst (shard_to_node m))) (\<lambda>engs.
       Ok \<lparr>rt_map = m, rt_ring = build_ring hasher m, rt_engines = engs\<rparr>)"

definition with_shards ::
  "(string \<Rightarrow> 64 word) \<Rightarrow> 'n codec \<Rightarrow> bool \<Rightarrow> (string \<Rightarrow> db_files) \<Rightarrow> string list \<Rightarrow> 'n router outcome" where
  "with_shards hasher c en disk shards =
     router_new hasher c en disk (fold (\<lambda>s. add_shard s None) shards shard_map_default)"

definition shard_for :: "(string \<Rightarrow> 64 word) \<Rightarrow> 'n router \<Rightarrow> string \<Rightarrow> string option" where
  "shard_for hasher rt i = ring_lookup (hash_key hasher i) (rt_ring rt)"

text \<open>The engine a document id is routed to, with the two errors of every operation.\<close>

definition route :: "(string \<Rightarrow> 64 word) \<Rightarrow> 'n router \<Rightarrow> string \<Rightarrow> (string \<times> 'n engine) outcome" where
  "route hasher rt i =
     and_then (ok_or (shard_for hasher rt i) (ShardError ''no shards available'')) (\<lambda>s.
       ok_or (map_option (Pair s) (map_of (rt_engines rt) s)) (ShardError (''shard '' @ s @ '' not open'')))"

definition with_engine ::
  "(string \<Rightarrow> 64 word) \<Rightarrow> 'n router \<Rightarrow> string \<Rightarrow> ('n engine \<Rightarrow> ('n, 'r) result)
     \<Rightarrow> 'n router \<times> 'r outcome \<times> (nat \<times> change_record) list" where
  "with_engine hasher rt i f =
     (case route hasher rt i of
        Err x \<Rightarrow> (rt, Err x, [])
      | Panic \<Rightarrow> (rt, Panic, [])
      | Ok (s, e) \<Rightarrow>
          (let (e', r, sent) = f e in (rt\<lparr>rt_engines := bt_insert s e' (rt_engines rt)\<rparr>, r, sent)))"

definition router_insert ::
  "(string \<Rightarrow> 64 word) \<Rightarrow> 'n codec \<Rightarrow> call_env \<Rightarrow> 'n router \<Rightarrow> 'n document
     \<Rightarrow> 'n router \<times> string outcome \<times> (nat \<times> change_record) list" where
  "router_insert hasher c env rt doc = with_engine hasher rt (doc_id doc) (\<lambda>e. engine_insert c env e doc)"

definition router_get :: "(string \<Rightarrow> 64 word) \<Rightarrow> 'n router \<Rightarrow> string \<Rightarrow> 'n document option" where
  "router_get hasher rt i =
     (case shard_for hasher rt i of
        None \<Rightarrow> None
      | Some s \<Rightarrow> (case map_of (rt_engines rt) s of None \<Rightarrow> None | Some e \<Rightarrow> engine_get e i))"

definition router_update ::
  "(string \<Rightarrow> 64 word) \<Rightarrow> 'n codec \<Rightarrow> call_env \<Rightarrow> 'n router \<Rightarrow> string \<Rightarrow> 'n json
     \<Rightarrow> 'n router \<times> unit outcome \<times> (nat \<times> change_record) list" where
  "router_update hasher c env rt i data = with_engine hasher rt i (\<lambda>e. engine_update c env e i data)"

definition router_delete ::
  "(string \<Rightarrow> 64 word) \<Rightarrow> 'n codec \<Rightarrow> call_env \<Rightarrow> 'n router \<Rightarrow> string
     \<Rightarrow> 'n router \<times> unit outcome \<times> (nat \<times> change_record) list" where
  "router_delete hasher c env rt i = with_engine hasher rt i (\<lambda>e. engine_delete c env e i)"

definition query_all :: "'n number_api \<Rightarrow> 'n router \<Rightarrow> 'n query \<Rightarrow> 'n query_result" where
  "query_all num rt q =
     (let docs = sort_key doc_id (concat (map (\<lambda>(_, e). documents (engine_query num e q)) (rt_engines rt)))
      in \<lparr>documents = docs, count = length docs\<rparr>)"

definition router_doc_count :: "'n router \<Rightarrow> nat" where
  "router_doc_count rt = sum_list (map (\<lambda>(_, e). engine_doc_count e) (rt_engines rt))"

subsection \<open>Allocation of shards to nodes\<close>

definition shard_name :: "nat \<Rightarrow> string" where
  "shard_name i = (let d = nat_to_string i in ''shard-'' @ replicate (4 - length d) CHR ''0'' @ d)"

definition allocate :: "nat \<Rightarrow> string list \<Rightarrow> shard_map" where
  "allocate num_shards node_ids =
     fold (\<lambda>i. add_shard (shard_name i)
                 (Some (if node_ids = [] then [] else node_ids ! (i mod length node_ids))))
       [0..<num_shards] (shard_map_new 150)"

fun reassign_loop :: "string \<Rightarrow> string list \<Rightarrow> nat \<Rightarrow> (string \<times> string) list \<Rightarrow> (string \<times> string) list" where
  "reassign_loop failed healthy idx [] = []"
| "reassign_loop failed healthy idx ((s, n) # m) =
     (if n = failed then (s, healthy ! (idx mod length healthy)) # reassign_loop failed healthy (idx + 1) m
      else (s, n) # reassign_loop failed healthy idx m)"

definition reassign_failed_node :: "shard_map \<Rightarrow> string \<Rightarrow> string list \<Rightarrow> shard_map" where
  "reassign_failed_node m failed healthy =
     (if healthy = [] then m
      else m\<lparr>shard_to_node := reassign_loop failed healthy 0 (shard_to_node m)\<rparr>)"

subsection \<open>The ring as a function\<close>

lemma ring_add_ok: "bt_ok r \<Longrightarrow> bt_ok (ring_add hasher vn s r)"
proof -
  have "bt_ok r \<Longrightarrow> bt_ok (fold (\<lambda>v r. bt_insert (f v) s r) vs r)" for f :: "nat \<Rightarrow> 32 word" and vs
    by (induction vs arbitrary: r) (simp_all add: hm_simps)
  then show "bt_ok r \<Longrightarrow> ?thesis" by (simp add: ring_add_def)
qed

definition owns :: "(string \<Rightarrow> 64 word) \<Rightarrow> nat \<Rightarrow> 32 word \<Rightarrow> string \<Rightarrow> bool" where
  "owns hasher vn h s \<longleftrightarrow> (\<exists>v < vn. hash_key hasher (vnode_name s v) = h)"

lemma ring_add_get:
  assumes "bt_ok r"
  shows "map_of (ring_add hasher vn s r) h = (if owns hasher vn h s then Some s else map_of r h)"
proof -
  have "bt_ok r \<Longrightarrow> map_of (fold (\<lambda>v r. bt_insert (f v) s r) vs r) h =
      (if \<exists>v \<in> set vs. f v = h then Some s else map_of r h)" for f :: "nat \<Rightarrow> 32 word" and vs
    by (induction vs arbitrary: r) (auto simp: hm_simps)
  from this [of "\<lambda>v. hash_key hasher (vnode_name s v)" "[0..<vn]"] assms show ?thesis
    by (auto simp: ring_add_def owns_def)
qed

definition ring_of :: "(string \<Rightarrow> 64 word) \<Rightarrow> nat \<Rightarrow> string list \<Rightarrow> ring" where
  "ring_of hasher vn ss = fold (ring_add hasher vn) ss []"

lemma build_ring_of: "build_ring hasher m = ring_of hasher (virtual_nodes m) (map fst (shard_to_node m))"
  by (simp add: build_ring_def ring_of_def)

lemma ring_of_snoc [simp]: "ring_of hasher vn (ss @ [s]) = ring_add hasher vn s (ring_of hasher vn ss)"
  by (simp add: ring_of_def)

lemma ring_of_ok: "bt_ok (ring_of hasher vn ss)"
  by (induction ss rule: rev_induct) (simp_all add: ring_add_ok, simp add: ring_of_def hm_simps)

text \<open>The owner of a position is the last shard of the list with a virtual node there.\<close>

lemma ring_of_get: "map_of (ring_of hasher vn ss) h = List.find (owns hasher vn h) (rev ss)"
proof (induction ss rule: rev_induct)
  case Nil
  then show ?case by (simp add: ring_of_def)
next
  case (snoc s ss)
  then show ?case by (simp add: ring_add_get [OF ring_of_ok])
qed

lemma ring_get_mem: "bt_ok r \<Longrightarrow> map_of r h = Some s \<longleftrightarrow> (h, s) \<in> set r"
  by (simp add: bt_ok_distinct)

text \<open>Lookup: the first position at or after the hash, around the ring.\<close>

definition ring_next :: "32 word \<Rightarrow> (32 word \<rightharpoonup> string) \<Rightarrow> 32 word \<Rightarrow> bool" where
  "ring_next h m p \<longleftrightarrow> p \<in> dom m \<and>
     (if \<exists>q \<in> dom m. h \<le> q then h \<le> p \<and> (\<forall>q \<in> dom m. h \<le> q \<longrightarrow> p \<le> q) else \<forall>q \<in> dom m. p \<le> q)"

lemma ring_lookup_next:
  assumes "bt_ok r"
  shows "ring_lookup h r = Some s \<longleftrightarrow> (\<exists>p. ring_next h (map_of r) p \<and> map_of r p = Some s)"
proof (cases "r = []")
  case True
  then show ?thesis by (simp add: ring_lookup_def ring_next_def)
next
  case False
  have dom: "dom (map_of r) = fst ` set r" by (rule dom_map_of_conv_image_fst)
  show ?thesis
  proof (cases "bt_ceiling h r")
    case None
    then have none: "\<not> (\<exists>q \<in> dom (map_of r). h \<le> q)" by (auto simp: dom bt_ceiling_None)
    obtain p0 s0 where f: "bt_first r = Some (p0, s0)" using False by (cases r) (auto simp: bt_first_def)
    then have min: "map_of r p0 = Some s0" "\<forall>q \<in> fst ` set r. p0 \<le> q" using bt_first_Some [OF assms] by auto
    have in0: "p0 \<in> fst ` set r" using min(1) by (rule hm_get_mem)
    have "ring_next h (map_of r) p \<longleftrightarrow> p = p0" for p
      unfolding ring_next_def using none min(2) in0 unfolding dom by (metis antisym)
    with None False f min(1) show ?thesis by (auto simp: ring_lookup_def)
  next
    case (Some q)
    then obtain p0 s0 where q: "bt_ceiling h r = Some (p0, s0)" by (cases q) auto
    then have min: "map_of r p0 = Some s0" "h \<le> p0" "\<forall>q \<in> fst ` set r. h \<le> q \<longrightarrow> p0 \<le> q"
      using bt_ceiling_Some [OF assms] by auto
    have in0: "p0 \<in> fst ` set r" using min(1) by (rule hm_get_mem)
    then have "\<exists>q \<in> dom (map_of r). h \<le> q" using min(2) dom by blast
    then have "ring_next h (map_of r) p \<longleftrightarrow> p = p0" for p
      unfolding ring_next_def using min(2,3) in0 unfolding dom by (metis antisym)
    with False q min(1) show ?thesis by (auto simp: ring_lookup_def)
  qed
qed

text \<open>One more shard, anywhere in the order, takes positions over but moves none between others.\<close>

lemma find_append: "List.find P (xs @ ys) = (case List.find P xs of None \<Rightarrow> List.find P ys | Some x \<Rightarrow> Some x)"
  by (induction xs) auto

lemma find_mem: "List.find P xs = Some x \<Longrightarrow> x \<in> set xs \<and> P x"
  by (induction xs) (auto split: if_splits)

lemma ring_get_extend:
  "map_of (ring_of hasher vn (xs @ s # ys)) p = Some s \<or>
   map_of (ring_of hasher vn (xs @ s # ys)) p = map_of (ring_of hasher vn (xs @ ys)) p"
  unfolding ring_of_get by (auto simp: find_append split: option.splits)

lemma ring_dom_extend: "dom (map_of (ring_of hasher vn (xs @ ys))) \<subseteq> dom (map_of (ring_of hasher vn (xs @ s # ys)))"
  unfolding ring_of_get by (auto simp: find_append dom_def split: option.splits)

lemma ring_next_extend:
  assumes "dom m \<subseteq> dom m'" "ring_next h m' p" "p \<in> dom m"
  shows "ring_next h m p"
proof (cases "\<exists>q \<in> dom m'. h \<le> q")
  case True
  with assms(2) have "h \<le> p" "\<forall>q \<in> dom m'. h \<le> q \<longrightarrow> p \<le> q" by (simp_all add: ring_next_def)
  with assms(1,3) show ?thesis unfolding ring_next_def by (metis subsetD)
next
  case False
  with assms(2) have "\<forall>q \<in> dom m'. p \<le> q" by (simp add: ring_next_def)
  moreover have "\<not> (\<exists>q \<in> dom m. h \<le> q)" using False assms(1) by blast
  ultimately show ?thesis using assms(1,3) by (simp add: ring_next_def subset_eq)
qed

lemma ring_next_unique: "ring_next h m p \<Longrightarrow> ring_next h m q \<Longrightarrow> p = q"
  unfolding ring_next_def by (metis antisym)

lemma ring_lookup_None: "ring_lookup h r = None \<longleftrightarrow> r = []"
  by (cases r) (auto simp: ring_lookup_def bt_first_def split: option.splits)

lemma ring_lookup_extend:
  "ring_lookup h (ring_of hasher vn (xs @ s # ys)) = Some s \<or>
   ring_lookup h (ring_of hasher vn (xs @ s # ys)) = ring_lookup h (ring_of hasher vn (xs @ ys))"
proof (cases "ring_lookup h (ring_of hasher vn (xs @ s # ys))")
  case None
  then have "dom (map_of (ring_of hasher vn (xs @ ys))) = {}"
    using ring_dom_extend [of hasher vn xs ys s] by (simp add: ring_lookup_None)
  with None show ?thesis by (simp add: ring_lookup_None)
next
  case (Some t)
  let ?m = "map_of (ring_of hasher vn (xs @ ys))" and ?m' = "map_of (ring_of hasher vn (xs @ s # ys))"
  from Some obtain p where p: "ring_next h ?m' p" "?m' p = Some t"
    using ring_lookup_next [OF ring_of_ok] by blast
  show ?thesis
  proof (cases "p \<in> dom ?m")
    case True
    have next_p: "ring_next h ?m p" by (rule ring_next_extend [OF ring_dom_extend p(1) True])
    from ring_get_extend [of hasher vn xs s ys p] p(2) have "t = s \<or> ?m p = Some t" by auto
    with next_p Some show ?thesis using ring_lookup_next [OF ring_of_ok, of h hasher vn "xs @ ys" t] by auto
  next
    case False
    then have "?m p = None" by auto
    with ring_get_extend [of hasher vn xs s ys p] p(2) Some show ?thesis by auto
  qed
qed

lemma bt_insert_keys_split:
  "k \<notin> fst ` set m \<Longrightarrow> \<exists>xs ys. map fst m = xs @ ys \<and> map fst (bt_insert k v m) = xs @ k # ys"
proof (induction k v m rule: bt_insert.induct)
  case (1 k v)
  then show ?case by simp
next
  case (2 k v k' v' m)
  show ?case
  proof (cases "k < k'")
    case True
    then show ?thesis by - (rule exI [of _ "[]"], simp)
  next
    case False
    with 2 obtain xs ys where "map fst m = xs @ ys" "map fst (bt_insert k v m) = xs @ k # ys" by auto
    with False 2(2) show ?thesis by (intro exI [of _ "k' # xs"] exI [of _ ys]) auto
  qed
qed

lemma bt_remove_keys_split:
  assumes "bt_ok m" "k \<in> fst ` set m"
  shows "\<exists>xs ys. map fst m = xs @ k # ys \<and> map fst (bt_remove k m) = xs @ ys"
proof -
  obtain v where "(k, v) \<in> set m" using assms(2) by auto
  then obtain as bs where m: "m = as @ (k, v) # bs" by (auto simp: in_set_conv_decomp)
  have "distinct (map fst m)" using assms(1) by (rule bt_ok_distinct)
  then have "filter (\<lambda>p. fst p \<noteq> k) as = as" "filter (\<lambda>p. fst p \<noteq> k) bs = bs"
    by (auto simp: m intro!: filter_True)
  then have "bt_remove k m = as @ bs" by (simp add: bt_remove_def m)
  then show ?thesis using m by (intro exI [of _ "map fst as"] exI [of _ "map fst bs"]) simp
qed

subsection \<open>Names\<close>

lemma digits_value_snoc: "digits_value (ds @ [c]) = 10 * digits_value ds + (of_char c - 48)"
  by (simp add: digits_value_def)

lemma digits_value_nat: "digits_value (nat_to_string n) = n"
proof (induction n rule: nat_to_string.induct)
  case (1 n)
  show ?case
  proof (cases "n < 10")
    case True
    then show ?thesis by (simp add: nat_to_string.simps [of n] digits_value_def)
  next
    case False
    with 1 show ?thesis by (subst nat_to_string.simps) (simp add: digits_value_snoc)
  qed
qed

lemma digits_value_zeros: "digits_value (replicate k CHR ''0'' @ ds) = digits_value ds"
  unfolding digits_value_def by (induction k) simp_all

lemma shard_name_inj: "shard_name i = shard_name j \<Longrightarrow> i = j"
proof -
  assume "shard_name i = shard_name j"
  then have "digits_value (replicate (4 - length (nat_to_string i)) CHR ''0'' @ nat_to_string i) =
      digits_value (replicate (4 - length (nat_to_string j)) CHR ''0'' @ nat_to_string j)"
    by (simp add: shard_name_def Let_def)
  then show ?thesis by (simp add: digits_value_zeros digits_value_nat)
qed

subsection \<open>Properties\<close>

text \<open>
  Routing is total. With at least one shard and one virtual node per shard every document id
  has a shard, it is one of the map, and it depends on the id only through its hash.
\<close>

theorem every_document_has_a_shard:
  assumes "shard_to_node m \<noteq> []" "0 < virtual_nodes m"
  shows "\<exists>s \<in> set (shard_ids m). ring_lookup (hash_key hasher i) (build_ring hasher m) = Some s \<and>
    (\<forall>j. hash_key hasher j = hash_key hasher i \<longrightarrow> ring_lookup (hash_key hasher j) (build_ring hasher m) = Some s)"
proof -
  let ?ss = "map fst (shard_to_node m)" and ?r = "build_ring hasher m"
  obtain s1 where "s1 \<in> set ?ss" using assms(1) by (cases "shard_to_node m") auto
  moreover from assms(2) have "owns hasher (virtual_nodes m) (hash_key hasher (vnode_name s1 0)) s1"
    by (auto simp: owns_def)
  ultimately have "map_of ?r (hash_key hasher (vnode_name s1 0)) \<noteq> None"
    unfolding build_ring_of ring_of_get by (auto simp: find_None_iff)
  then have "ring_lookup (hash_key hasher i) ?r \<noteq> None" by (auto simp: ring_lookup_None)
  then obtain s where s: "ring_lookup (hash_key hasher i) ?r = Some s" by blast
  moreover from s obtain p where "map_of ?r p = Some s"
    unfolding build_ring_of using ring_lookup_next [OF ring_of_ok] by blast
  then have "s \<in> set ?ss" unfolding build_ring_of ring_of_get by (auto dest: find_mem)
  ultimately show ?thesis by (auto simp: shard_ids_def)
qed

theorem every_document_has_a_shard_witness:
  "\<exists>s \<in> {''s0''}. ring_lookup (hash_key (\<lambda>key. of_nat (length key)) ''k'') (build_ring (\<lambda>key. of_nat (length key)) (add_shard ''s0'' None shard_map_default)) = Some s"
  using every_document_has_a_shard [of "add_shard ''s0'' None shard_map_default" "\<lambda>key. of_nat (length key)" "''k''"]
  by (simp add: add_shard_def shard_map_default_def shard_ids_def)

text \<open>
  C25: Consistent hashing. When a shard is added, every document stays on its shard or moves to
  the new one; when a shard is removed, only the documents it held move. This holds for every
  hash function, collisions of virtual nodes included.
\<close>

theorem consistent_hashing:
  assumes "bt_ok (shard_to_node m)"
  shows "(s \<notin> set (shard_ids m) \<longrightarrow>
      ring_lookup h (build_ring hasher (add_shard s node m)) \<in> {Some s, ring_lookup h (build_ring hasher m)}) \<and>
    (s \<in> set (shard_ids m) \<and> ring_lookup h (build_ring hasher m) \<noteq> Some s \<longrightarrow>
      ring_lookup h (build_ring hasher (remove_shard s m)) = ring_lookup h (build_ring hasher m))"
proof (intro conjI impI)
  assume "s \<notin> set (shard_ids m)"
  then obtain xs ys where "map fst (shard_to_node m) = xs @ ys"
    "map fst (bt_insert s (case node of None \<Rightarrow> [] | Some n \<Rightarrow> n) (shard_to_node m)) = xs @ s # ys"
    using bt_insert_keys_split by (metis set_map shard_ids_def)
  then show "ring_lookup h (build_ring hasher (add_shard s node m)) \<in> {Some s, ring_lookup h (build_ring hasher m)}"
    using ring_lookup_extend [of h hasher "virtual_nodes m" xs s ys] by (simp add: build_ring_of add_shard_def)
next
  assume s: "s \<in> set (shard_ids m) \<and> ring_lookup h (build_ring hasher m) \<noteq> Some s"
  then obtain xs ys where "map fst (shard_to_node m) = xs @ s # ys" "map fst (bt_remove s (shard_to_node m)) = xs @ ys"
    using bt_remove_keys_split [OF assms] by (metis set_map shard_ids_def)
  with s show "ring_lookup h (build_ring hasher (remove_shard s m)) = ring_lookup h (build_ring hasher m)"
    using ring_lookup_extend [of h hasher "virtual_nodes m" xs s ys] by (simp add: build_ring_of remove_shard_def)
qed

theorem consistent_hashing_witness:
  "ring_lookup 3 (build_ring (\<lambda>key. of_nat (length key)) (add_shard ''s1'' None (add_shard ''s0'' None shard_map_default)))
     \<in> {Some ''s1'', ring_lookup 3 (build_ring (\<lambda>key. of_nat (length key)) (add_shard ''s0'' None shard_map_default))}"
  using consistent_hashing [of "add_shard ''s0'' None shard_map_default" "''s1''" 3 "\<lambda>key. of_nat (length key)" None]
  by (simp add: add_shard_def shard_map_default_def shard_ids_def bt_ok_def)

text \<open>
  Round-robin allocation. \<open>allocate\<close> makes exactly the asked number of shards, with distinct
  names, and shard \<open>i\<close> goes to node \<open>i\<close> modulo the number of nodes.
\<close>

theorem allocate_round_robin:
  assumes "nodes \<noteq> []"
  shows "length (shard_to_node (allocate n nodes)) = n \<and>
    (\<forall>i < n. map_of (shard_to_node (allocate n nodes)) (shard_name i) = Some (nodes ! (i mod length nodes)))"
proof -
  have "bt_ok (shard_to_node (allocate n nodes)) \<and> length (shard_to_node (allocate n nodes)) = n \<and>
    (\<forall>s. map_of (shard_to_node (allocate n nodes)) s =
      (if \<exists>i < n. s = shard_name i then Some (nodes ! ((THE i. s = shard_name i) mod length nodes)) else None))"
  proof (induction n)
    case 0
    then show ?case by (simp add: allocate_def shard_map_new_def hm_simps)
  next
    case (Suc n)
    let ?m = "shard_to_node (allocate n nodes)"
    have step: "shard_to_node (allocate (Suc n) nodes) = bt_insert (shard_name n) (nodes ! (n mod length nodes)) ?m"
      using assms by (simp add: allocate_def add_shard_def)
    have the: "(THE i. shard_name n = shard_name i) = n" by (rule the_equality) (auto dest: shard_name_inj)
    have "map_of ?m (shard_name n) = None" using Suc.IH by (auto dest: shard_name_inj)
    then have "shard_name n \<notin> fst ` set ?m" by (rule hm_get_None_iff [THEN iffD1])
    then have "length (bt_insert (shard_name n) (nodes ! (n mod length nodes)) ?m) = Suc n"
      using Suc.IH by (simp add: bt_length_insert)
    with Suc.IH the show ?case
      unfolding step by (auto simp: hm_simps less_Suc_eq dest: shard_name_inj)
  qed
  moreover have "(THE j. shard_name i = shard_name j) = i" for i by (rule the_equality) (auto dest: shard_name_inj)
  ultimately show ?thesis by auto
qed

theorem allocate_round_robin_witness:
  "map_of (shard_to_node (allocate 4 [''a'', ''b''])) (shard_name 1) = Some ''b''"
  using allocate_round_robin [of "[''a'', ''b'']" 4] by auto

text \<open>
  Failover. Reassigning the shards of a failed node leaves none on it, gives each a healthy
  node, and changes neither the shards nor the owner of any other shard.
\<close>

theorem reassign_moves_failed_shards:
  assumes "healthy \<noteq> []" "failed \<notin> set healthy"
  shows "map fst (shard_to_node (reassign_failed_node m failed healthy)) = map fst (shard_to_node m) \<and>
    list_all2 (\<lambda>(s, n) (s', n'). n' \<noteq> failed \<and> (if n = failed then n' \<in> set healthy else n' = n))
      (shard_to_node m) (shard_to_node (reassign_failed_node m failed healthy))"
proof -
  have "map fst (reassign_loop failed healthy idx xs) = map fst xs \<and>
    list_all2 (\<lambda>(s, n) (s', n'). n' \<noteq> failed \<and> (if n = failed then n' \<in> set healthy else n' = n))
      xs (reassign_loop failed healthy idx xs)" for idx xs
  proof (induction xs arbitrary: idx)
    case Nil
    then show ?case by simp
  next
    case (Cons p xs)
    obtain s n where p: "p = (s, n)" by (cases p)
    have "healthy ! (idx mod length healthy) \<in> set healthy" using assms(1) by simp
    moreover from this assms(2) have "healthy ! (idx mod length healthy) \<noteq> failed" by auto
    ultimately show ?case using Cons.IH [of idx] Cons.IH [of "idx + 1"] p by auto
  qed
  then show ?thesis using assms(1) by (simp add: reassign_failed_node_def)
qed

theorem reassign_moves_failed_shards_witness:
  "shard_to_node (reassign_failed_node (add_shard ''s1'' (Some ''b'') (add_shard ''s0'' (Some ''a'') shard_map_default)) ''a'' [''b''])
     = [(''s0'', ''b''), (''s1'', ''b'')]"
proof -
  let ?m = "add_shard ''s1'' (Some ''b'') (add_shard ''s0'' (Some ''a'') shard_map_default)"
  have m: "shard_to_node ?m = [(''s0'', ''a''), (''s1'', ''b'')]"
    by (simp add: add_shard_def shard_map_default_def)
  have "map fst (shard_to_node (reassign_failed_node ?m ''a'' [''b''])) = [''s0'', ''s1'']
    \<and> list_all2 (\<lambda>(s, n) (s', n'). n' \<noteq> ''a'' \<and> (if n = ''a'' then n' \<in> set [''b''] else n' = n))
      [(''s0'', ''a''), (''s1'', ''b'')] (shard_to_node (reassign_failed_node ?m ''a'' [''b'']))"
    using reassign_moves_failed_shards [of "[''b'']" "''a''" ?m] unfolding m by simp
  then show ?thesis
    by (auto simp: list_all2_Cons1)
qed

subsection \<open>Routed operations\<close>

lemma route_Ok: "route hasher rt i = Ok (s, e) \<longleftrightarrow> shard_for hasher rt i = Some s \<and> map_of (rt_engines rt) s = Some e"
  by (auto simp: route_def)

lemma with_engine_get:
  assumes "route hasher rt i = Ok (s, e)" "bt_ok (rt_engines rt)" "fst (f e) = e'"
    and "\<And>j. j \<noteq> i \<Longrightarrow> engine_get e' j = engine_get e j"
    and "with_engine hasher rt i f = (rt', r, sent)"
  shows "r = fst (snd (f e))" "router_get hasher rt' i = engine_get e' i"
    "\<And>j. j \<noteq> i \<Longrightarrow> router_get hasher rt' j = router_get hasher rt j"
proof -
  have rt': "rt' = rt\<lparr>rt_engines := bt_insert s e' (rt_engines rt)\<rparr>" "r = fst (snd (f e))"
    using assms(1,3,5) by (auto simp: with_engine_def split: prod.splits)
  show "r = fst (snd (f e))" by (rule rt'(2))
  have sf: "shard_for hasher (rt\<lparr>rt_engines := engs\<rparr>) j = shard_for hasher rt j" for engs j
    by (simp add: shard_for_def)
  show "router_get hasher rt' i = engine_get e' i"
    using assms(1,2) by (simp add: router_get_def rt'(1) sf route_Ok hm_simps)
  show "router_get hasher rt' j = router_get hasher rt j" if "j \<noteq> i" for j
    using assms(1,2,4) that
    by (cases "shard_for hasher rt j") (auto simp: router_get_def rt'(1) sf route_Ok hm_simps)
qed

text \<open>
  The router stores documents by id. In a router whose engines can arise, inserting a
  document with an id, updating and deleting one act on the routed engine, return its result,
  are seen by \<open>get\<close> of that id and by no \<open>get\<close> of another.
\<close>

theorem router_reads_its_writes:
  assumes "bt_ok (rt_engines rt)" "route hasher rt i = Ok (s, e)" "db_run c en e"
  shows "(\<forall>doc rt' r sent. doc_id doc = i \<and> i \<noteq> [] \<and> op_ok c env e (CInsert doc) \<and>
        router_insert hasher c env rt doc = (rt', r, sent) \<longrightarrow>
      r = Ok i \<and> router_get hasher rt' i = Some doc \<and> (\<forall>j. j \<noteq> i \<longrightarrow> router_get hasher rt' j = router_get hasher rt j)) \<and>
    (\<forall>data old rt' r sent. router_get hasher rt i = Some old \<and> op_ok c env e (CUpdate i data) \<and>
        router_update hasher c env rt i data = (rt', r, sent) \<longrightarrow>
      r = Ok () \<and> router_get hasher rt' i = Some (old\<lparr>doc_data := data\<rparr>) \<and>
      (\<forall>j. j \<noteq> i \<longrightarrow> router_get hasher rt' j = router_get hasher rt j)) \<and>
    (\<forall>old rt' r sent. router_get hasher rt i = Some old \<and> op_ok c env e (CDelete i) \<and>
        router_delete hasher c env rt i = (rt', r, sent) \<longrightarrow>
      r = Ok () \<and> router_get hasher rt' i = None \<and> (\<forall>j. j \<noteq> i \<longrightarrow> router_get hasher rt' j = router_get hasher rt j))"
proof -
  note ok = db_run_ok [OF assms(3)]
  have get: "router_get hasher rt i = engine_get e i" using assms(2) by (simp add: router_get_def route_Ok)
  have ins: "r = Ok i \<and> router_get hasher rt' i = Some doc \<and> (\<forall>j. j \<noteq> i \<longrightarrow> router_get hasher rt' j = router_get hasher rt j)"
    if "doc_id doc = i" "i \<noteq> []" "op_ok c env e (CInsert doc)" "router_insert hasher c env rt doc = (rt', r, sent)"
    for doc rt' r sent
  proof -
    have st: "stored_doc env doc = doc" using that by (simp add: stored_doc_def)
    note docs = insert_ok(1,2) [OF ok that(3), unfolded st]
    have get': "engine_get (fst (engine_insert c env e doc)) j = (if j = i then Some doc else engine_get e j)" for j
      using that(1) by (simp add: engine_get_def docs hm_simps)
    from with_engine_get [OF assms(2,1) refl _ that(4) [unfolded router_insert_def that(1)]] get' docs(1) that(1)
    show ?thesis by simp
  qed
  have upd: "r = Ok () \<and> router_get hasher rt' i = Some (old\<lparr>doc_data := data\<rparr>) \<and>
      (\<forall>j. j \<noteq> i \<longrightarrow> router_get hasher rt' j = router_get hasher rt j)"
    if "router_get hasher rt i = Some old" "op_ok c env e (CUpdate i data)" "router_update hasher c env rt i data = (rt', r, sent)"
    for data old rt' r sent
  proof -
    have old: "hm_get (eng_docs e) i = Some old" using that(1) get by (simp add: engine_get_def)
    note docs = update_ok(1,2) [OF ok that(2) old]
    have get': "engine_get (fst (engine_update c env e i data)) j = (if j = i then Some (old\<lparr>doc_data := data\<rparr>) else engine_get e j)" for j
      by (simp add: engine_get_def docs hm_simps)
    from with_engine_get [OF assms(2,1) refl _ that(3) [unfolded router_update_def]] get' docs(1)
    show ?thesis by simp
  qed
  have del: "r = Ok () \<and> router_get hasher rt' i = None \<and> (\<forall>j. j \<noteq> i \<longrightarrow> router_get hasher rt' j = router_get hasher rt j)"
    if "router_get hasher rt i = Some old" "op_ok c env e (CDelete i)" "router_delete hasher c env rt i = (rt', r, sent)"
    for old rt' r sent
  proof -
    have old: "hm_get (eng_docs e) i = Some old" using that(1) get by (simp add: engine_get_def)
    note docs = delete_ok(1,2) [OF ok that(2) old]
    have get': "engine_get (fst (engine_delete c env e i)) j = (if j = i then None else engine_get e j)" for j
      by (simp add: engine_get_def docs hm_simps)
    from with_engine_get [OF assms(2,1) refl _ that(3) [unfolded router_delete_def]] get' docs(1)
    show ?thesis by simp
  qed
  show ?thesis
    by (rule conjI; (rule conjI)?; intro allI impI; elim conjE; (rule ins | rule upd | rule del); assumption)
qed

definition toy_hasher :: "string \<Rightarrow> 64 word" where
  "toy_hasher k = (if k = [] then 1 else 7)"

definition toy_router :: "unit router" where
  "toy_router = \<lparr>rt_map = shard_map_default, rt_ring = [(5, ''a''), (9, ''b'')],
     rt_engines = [(''a'', toy_engine), (''b'', toy_engine)]\<rparr>"

lemma toy_hash: "hash_key toy_hasher [] = 1" "k \<noteq> [] \<Longrightarrow> hash_key toy_hasher k = 7"
proof -
  have "(ucast (xor (drop_bit 32 1) 1 :: 64 word) :: 32 word) = 1"
    "(ucast (xor (drop_bit 32 7) 7 :: 64 word) :: 32 word) = 7" by code_simp+
  then show "hash_key toy_hasher [] = 1" "k \<noteq> [] \<Longrightarrow> hash_key toy_hasher k = 7"
    by (simp_all add: hash_key_def toy_hasher_def)
qed

lemma toy_route: "shard_for toy_hasher toy_router [] = Some ''a''"
  "k \<noteq> [] \<Longrightarrow> shard_for toy_hasher toy_router k = Some ''b''"
proof -
  have less: "(1 :: 32 word) \<le> 5" "\<not> (7 :: 32 word) \<le> 5" "(7 :: 32 word) \<le> 9" by code_simp+
  show "shard_for toy_hasher toy_router [] = Some ''a''" "k \<noteq> [] \<Longrightarrow> shard_for toy_hasher toy_router k = Some ''b''"
    using less by (simp_all add: shard_for_def toy_router_def ring_lookup_def bt_ceiling_def toy_hash)
qed

lemma toy_router_ok: "bt_ok (rt_engines toy_router)"
  by (simp add: toy_router_def bt_ok_def)

theorem router_reads_its_writes_witness:
  "\<exists>rt' sent. router_insert toy_hasher toy_codec toy_env toy_router toy_doc = (rt', Ok ''k'', sent)
     \<and> router_get toy_hasher rt' ''k'' = Some toy_doc"
proof -
  have rt: "route toy_hasher toy_router ''k'' = Ok (''b'', toy_engine)"
    by (simp add: route_Ok toy_route) (simp add: toy_router_def)
  obtain rt' r sent where ins: "router_insert toy_hasher toy_codec toy_env toy_router toy_doc = (rt', r, sent)"
    by (metis prod_cases3)
  have "doc_id toy_doc = ''k''" by (simp add: toy_doc_def)
  with conjunct1 [OF router_reads_its_writes [OF toy_router_ok rt toy_run], rule_format, OF conjI [OF _ conjI [OF _ conjI [OF toy_insert ins]]]]
  have "r = Ok ''k'' \<and> router_get toy_hasher rt' ''k'' = Some toy_doc" by blast
  with ins show ?thesis by blast
qed

text \<open>
  A document without an id is routed by the empty id, but found under its UUID. When the hash
  sends the UUID to another shard, \<open>insert\<close> reports success and \<open>get\<close> of the returned id gives
  nothing.
\<close>

theorem router_insert_without_id_is_lost:
  assumes "bt_ok (rt_engines rt)" "route hasher rt [] = Ok (s, e)" "db_run c en e"
    and "doc_id doc = []" "op_ok c env e (CInsert doc)"
    and "shard_for hasher rt (ce_uuid env) \<noteq> Some s" "router_get hasher rt (ce_uuid env) = None"
  shows "\<exists>rt' sent. router_insert hasher c env rt doc = (rt', Ok (ce_uuid env), sent) \<and>
    router_get hasher rt' (ce_uuid env) = None"
proof -
  have st: "stored_doc env doc = document_new (ce_uuid env) (doc_data doc)" using assms(4) by (simp add: stored_doc_def)
  note r = insert_ok(1) [OF db_run_ok [OF assms(3)] assms(5), unfolded st]
  define rt' where "rt' = rt\<lparr>rt_engines := bt_insert s (fst (engine_insert c env e doc)) (rt_engines rt)\<rparr>"
  have "router_insert hasher c env rt doc = (rt', Ok (ce_uuid env), snd (snd (engine_insert c env e doc)))"
    using assms(2,4) r by (simp add: router_insert_def with_engine_def rt'_def case_prod_beta prod_eq_iff)
  moreover have "shard_for hasher rt' j = shard_for hasher rt j" for j by (simp add: rt'_def shard_for_def)
  then have "router_get hasher rt' (ce_uuid env) = router_get hasher rt (ce_uuid env)"
    using assms(1,6) by (auto simp: router_get_def rt'_def hm_simps split: option.splits)
  ultimately show ?thesis using assms(7) by auto
qed

theorem router_insert_without_id_is_lost_witness:
  "\<exists>rt' sent. router_insert toy_hasher toy_codec toy_env toy_router (toy_doc\<lparr>doc_id := []\<rparr>) = (rt', Ok ''u'', sent)
     \<and> router_get toy_hasher rt' ''u'' = None"
proof -
  have 1: "route toy_hasher toy_router [] = Ok (''a'', toy_engine)"
    by (simp add: route_Ok toy_route) (simp add: toy_router_def)
  have u: "ce_uuid toy_env = ''u''" by (simp add: toy_env_def)
  have 2: "op_ok toy_codec toy_env toy_engine (CInsert (toy_doc\<lparr>doc_id := []\<rparr>))"
    by (simp add: toy_engine_def toy_doc_def toy_codec_def stored_doc_def doc_coded_def payload_ok_def toy_env_def document_new_def)
  have 3: "router_get toy_hasher toy_router ''u'' = None"
    by (simp add: router_get_def toy_route) (simp add: toy_router_def engine_get_def toy_engine_def)
  have "doc_id (toy_doc\<lparr>doc_id := []\<rparr>) = []" "shard_for toy_hasher toy_router ''u'' \<noteq> Some ''a''"
    by (simp_all add: toy_route)
  with router_insert_without_id_is_lost [OF toy_router_ok 1 toy_run _ 2, unfolded u] 3 show ?thesis by simp
qed

end
