(* ===== verification/Raft.thy ===== *)
theory Raft
  imports Shard
begin

text \<open>
  One Raft node (\<open>src/src/raft.rs\<close>). Each method takes both locks of the node for its whole body,
  so it is one step on the node: a function from the node and the message to the new node and the
  reply. The clock is an argument \<open>now\<close> in milliseconds. \<open>raft_step\<close> is the node as a machine
  driven by events.
\<close>

subsection \<open>Data\<close>

datatype cluster_command =
    NoOp
  | AddNode string string
  | RemoveNode string
  | UpdateShardMap shard_map
  | BeginDistTx string "string list"
  | CommitDistTx string
  | AbortDistTx string

record log_entry =
  le_index :: nat
  le_term :: nat
  le_command :: cluster_command

datatype raft_role = RoleFollower | RoleCandidate | RoleLeader

record persistent_state =
  current_term :: nat
  voted_for :: "string option"
  rlog :: "log_entry list"

definition persistent_new :: persistent_state where
  "persistent_new = \<lparr>current_term = 0, voted_for = None, rlog = []\<rparr>"

definition last_index :: "persistent_state \<Rightarrow> nat" where
  "last_index p = length (rlog p)"

definition last_term :: "persistent_state \<Rightarrow> nat" where
  "last_term p = (if rlog p = [] then 0 else le_term (last (rlog p)))"

definition log_entry_at :: "log_entry list \<Rightarrow> nat \<Rightarrow> log_entry option" where
  "log_entry_at l i = (if i = 0 \<or> length l < i then None else Some (l ! (i - 1)))"

definition persistent_append :: "nat \<Rightarrow> cluster_command \<Rightarrow> persistent_state \<Rightarrow> persistent_state \<times> nat" where
  "persistent_append term cmd p =
     (let index = u64_add (length (rlog p)) 1
      in (p\<lparr>rlog := rlog p @ [\<lparr>le_index = index, le_term = term, le_command = cmd\<rparr>]\<rparr>, index))"

record vote_request =
  vq_term :: nat
  vq_candidate :: string
  vq_last_index :: nat
  vq_last_term :: nat

record vote_response =
  vr_term :: nat
  vr_granted :: bool

record append_request =
  aq_term :: nat
  aq_leader :: string
  aq_prev_index :: nat
  aq_prev_term :: nat
  aq_entries :: "log_entry list"
  aq_commit :: nat

record append_response =
  ar_term :: nat
  ar_success :: bool
  ar_match :: nat

record volatile_state =
  commit_index :: nat
  last_applied :: nat
  role :: raft_role
  leader_id :: "string option"
  last_heartbeat :: nat
  votes_received :: "string list"
  next_index :: "(string, nat) hashmap"
  match_index :: "(string, nat) hashmap"
  election_timeout :: nat
  heartbeat_interval :: nat

definition volatile_new :: "nat \<Rightarrow> nat \<Rightarrow> nat \<Rightarrow> volatile_state" where
  "volatile_new timeout interval now =
     \<lparr>commit_index = 0, last_applied = 0, role = RoleFollower, leader_id = None, last_heartbeat = now,
      votes_received = [], next_index = [], match_index = [],
      election_timeout = timeout, heartbeat_interval = interval\<rparr>"

record raft_node =
  node_id :: string
  peers :: "string list"
  persistent :: persistent_state
  volatile :: volatile_state

text \<open>The loops that set \<open>next_index\<close> and \<open>match_index\<close> of every peer.\<close>

definition index_peers :: "string list \<Rightarrow> nat \<Rightarrow> volatile_state \<Rightarrow> volatile_state" where
  "index_peers ps n v =
     v\<lparr>next_index := fold (\<lambda>p. hm_insert p n) ps (next_index v),
       match_index := fold (\<lambda>p. hm_insert p 0) ps (match_index v)\<rparr>"

definition raft_new :: "string \<Rightarrow> string list \<Rightarrow> nat \<Rightarrow> raft_node" where
  "raft_new i ps now =
     \<lparr>node_id = i, peers = ps, persistent = persistent_new,
      volatile = index_peers ps 1 (volatile_new 150 50 now)\<rparr>"

definition is_leader :: "raft_node \<Rightarrow> bool" where
  "is_leader n \<longleftrightarrow> role (volatile n) = RoleLeader"

subsection \<open>Elections\<close>

definition propose :: "raft_node \<Rightarrow> cluster_command \<Rightarrow> raft_node \<times> nat outcome" where
  "propose n cmd =
     (if role (volatile n) \<noteq> RoleLeader then (n, Err (ClusterError ''only leader can propose commands''))
      else (let (p, index) = persistent_append (current_term (persistent n)) cmd (persistent n)
            in (n\<lparr>persistent := p\<rparr>, Ok index)))"

definition start_election :: "nat \<Rightarrow> raft_node \<Rightarrow> raft_node \<times> vote_request" where
  "start_election now n =
     (let p = (persistent n)\<lparr>current_term := u64_add (current_term (persistent n)) 1,
                             voted_for := Some (node_id n)\<rparr>;
          v = (volatile n)\<lparr>role := RoleCandidate, votes_received := [node_id n], last_heartbeat := now\<rparr>
      in (n\<lparr>persistent := p, volatile := v\<rparr>,
          \<lparr>vq_term = current_term p, vq_candidate = node_id n,
           vq_last_index = last_index p, vq_last_term = last_term p\<rparr>))"

text \<open>What every handler does first with a message of a later term.\<close>

definition adopt_term :: "nat \<Rightarrow> persistent_state \<Rightarrow> persistent_state" where
  "adopt_term term p = p\<lparr>current_term := term, voted_for := None\<rparr>"

definition step_down :: "volatile_state \<Rightarrow> volatile_state" where
  "step_down v = v\<lparr>role := RoleFollower, leader_id := None\<rparr>"

definition handle_request_vote :: "nat \<Rightarrow> raft_node \<Rightarrow> vote_request \<Rightarrow> raft_node \<times> vote_response" where
  "handle_request_vote now n req =
     (let newer = current_term (persistent n) < vq_term req;
          p = (if newer then adopt_term (vq_term req) (persistent n) else persistent n);
          v = (if newer then step_down (volatile n) else volatile n)
      in if vq_term req < current_term p
         then (n\<lparr>persistent := p, volatile := v\<rparr>, \<lparr>vr_term = current_term p, vr_granted = False\<rparr>)
         else (let log_ok = last_term p < vq_last_term req
                      \<or> (vq_last_term req = last_term p \<and> last_index p \<le> vq_last_index req);
                   granted = log_ok \<and> (voted_for p = None \<or> voted_for p = Some (vq_candidate req));
                   p' = (if granted then p\<lparr>voted_for := Some (vq_candidate req)\<rparr> else p);
                   v' = (if granted then v\<lparr>last_heartbeat := now\<rparr> else v)
               in (n\<lparr>persistent := p', volatile := v'\<rparr>, \<lparr>vr_term = current_term p', vr_granted = granted\<rparr>)))"

definition record_vote :: "raft_node \<Rightarrow> string \<Rightarrow> vote_response \<Rightarrow> raft_node \<times> bool" where
  "record_vote n voter res =
     (let p = persistent n; v = volatile n in
      if current_term p < vr_term res
      then (n\<lparr>persistent := adopt_term (vr_term res) p, volatile := step_down v\<rparr>, False)
      else if vr_term res < current_term p \<or> role v \<noteq> RoleCandidate then (n, False)
      else (let v1 = (if vr_granted res \<and> voter \<notin> set (votes_received v)
                      then v\<lparr>votes_received := votes_received v @ [voter]\<rparr> else v);
                total_nodes = length (peers n) + 1;
                quorum = total_nodes div 2 + 1;
                won = quorum \<le> length (votes_received v1);
                v2 = (if won then index_peers (peers n) (u64_add (last_index p) 1)
                                    (v1\<lparr>role := RoleLeader, leader_id := Some (node_id n)\<rparr>) else v1)
            in (n\<lparr>volatile := v2\<rparr>, won)))"

subsection \<open>Log replication\<close>

definition heartbeat_for :: "raft_node \<Rightarrow> string \<Rightarrow> append_request" where
  "heartbeat_for n peer =
     (let p = persistent n; v = volatile n;
          next_idx = (case hm_get (next_index v) peer of None \<Rightarrow> 1 | Some i \<Rightarrow> i);
          prev = next_idx - 1
      in \<lparr>aq_term = current_term p, aq_leader = node_id n, aq_prev_index = prev,
          aq_prev_term = (case log_entry_at (rlog p) prev of None \<Rightarrow> 0 | Some e \<Rightarrow> le_term e),
          aq_entries = [], aq_commit = commit_index v\<rparr>)"

text \<open>One entry of the request: append past the end, replace from a conflicting term on.\<close>

definition append_entry :: "log_entry \<Rightarrow> log_entry list \<Rightarrow> log_entry list" where
  "append_entry e l =
     (if length l < le_index e then l @ [e]
      else case log_entry_at l (le_index e) of
          None \<Rightarrow> l
        | Some existing \<Rightarrow>
            if le_term existing \<noteq> le_term e then take (le_index e - 1) l @ [e] else l)"

definition prev_consistent :: "log_entry list \<Rightarrow> append_request \<Rightarrow> bool" where
  "prev_consistent l req \<longleftrightarrow>
     (let prev = (if aq_prev_index req = 0 then Some \<lparr>le_index = 0, le_term = 0, le_command = NoOp\<rparr>
                  else log_entry_at l (aq_prev_index req))
      in (case prev of None \<Rightarrow> aq_prev_term req | Some e \<Rightarrow> le_term e) = aq_prev_term req)"

definition handle_append_entries :: "nat \<Rightarrow> raft_node \<Rightarrow> append_request \<Rightarrow> raft_node \<times> append_response" where
  "handle_append_entries now n req =
     (let newer = current_term (persistent n) < aq_term req;
          p = (if newer then adopt_term (aq_term req) (persistent n) else persistent n);
          v = (if newer then (volatile n)\<lparr>role := RoleFollower\<rparr> else volatile n)
      in if aq_term req < current_term p
         then (n\<lparr>persistent := p, volatile := v\<rparr>, \<lparr>ar_term = current_term p, ar_success = False, ar_match = 0\<rparr>)
         else (let v1 = v\<lparr>last_heartbeat := now, role := RoleFollower, leader_id := Some (aq_leader req)\<rparr> in
               if \<not> prev_consistent (rlog p) req
               then (n\<lparr>persistent := p, volatile := v1\<rparr>,
                     \<lparr>ar_term = current_term p, ar_success = False, ar_match = 0\<rparr>)
               else (let p' = p\<lparr>rlog := fold append_entry (aq_entries req) (rlog p)\<rparr>;
                         v2 = (if commit_index v1 < aq_commit req
                               then v1\<lparr>commit_index := min (aq_commit req) (last_index p')\<rparr> else v1)
                     in (n\<lparr>persistent := p', volatile := v2\<rparr>,
                         \<lparr>ar_term = current_term p', ar_success = True,
                          ar_match = u64_add (aq_prev_index req) (length (aq_entries req))\<rparr>))))"

text \<open>The match index a majority has reached: the middle of the descending list.\<close>

definition quorum_match :: "nat list \<Rightarrow> nat" where
  "quorum_match ms = rev (sort ms) ! (length ms div 2)"

definition record_append_success :: "raft_node \<Rightarrow> string \<Rightarrow> append_response \<Rightarrow> raft_node" where
  "record_append_success n peer res =
     (let p = persistent n; v = volatile n in
      if current_term p < ar_term res
      then n\<lparr>persistent := adopt_term (ar_term res) p, volatile := step_down v\<rparr>
      else if role v \<noteq> RoleLeader then n
      else (let v1 = v\<lparr>match_index := hm_insert peer (ar_match res) (match_index v),
                      next_index := hm_insert peer (u64_add (ar_match res) 1) (next_index v)\<rparr>
            in if commit_index v1 < ar_match res
               then (let qm = quorum_match (hm_values (match_index v1) @ [last_index p])
                     in if commit_index v1 < qm
                           \<and> (case log_entry_at (rlog p) qm of None \<Rightarrow> 0 | Some e \<Rightarrow> le_term e) = current_term p
                        then n\<lparr>volatile := v1\<lparr>commit_index := qm\<rparr>\<rparr>
                        else n\<lparr>volatile := v1\<rparr>)
               else n\<lparr>volatile := v1\<rparr>))"

definition record_append_failure :: "raft_node \<Rightarrow> string \<Rightarrow> append_response \<Rightarrow> raft_node" where
  "record_append_failure n peer res =
     (let p = persistent n; v = volatile n in
      if current_term p < ar_term res
      then n\<lparr>persistent := adopt_term (ar_term res) p, volatile := step_down v\<rparr>
      else if role v \<noteq> RoleLeader then n
      else (let nxt = (case hm_get (next_index v) peer of None \<Rightarrow> 1 | Some i \<Rightarrow> i)
            in if 1 < nxt then n\<lparr>volatile := v\<lparr>next_index := hm_insert peer (nxt - 1) (next_index v)\<rparr>\<rparr> else n))"

subsection \<open>Membership, timeouts and application\<close>

definition add_peer :: "raft_node \<Rightarrow> string \<Rightarrow> raft_node" where
  "add_peer n peer =
     (if peer \<notin> set (peers n) \<and> peer \<noteq> node_id n
      then n\<lparr>volatile := (volatile n)\<lparr>next_index := hm_insert peer 1 (next_index (volatile n)),
                                    match_index := hm_insert peer 0 (match_index (volatile n))\<rparr>\<rparr>
      else n)"

definition remove_peer :: "raft_node \<Rightarrow> string \<Rightarrow> raft_node" where
  "remove_peer n peer =
     n\<lparr>volatile := (volatile n)\<lparr>next_index := hm_remove peer (next_index (volatile n)),
                              match_index := hm_remove peer (match_index (volatile n))\<rparr>\<rparr>"

definition election_due :: "nat \<Rightarrow> raft_node \<Rightarrow> bool" where
  "election_due now n \<longleftrightarrow> election_timeout (volatile n) < now - last_heartbeat (volatile n)"

function apply_loop :: "log_entry list \<Rightarrow> nat \<Rightarrow> nat \<Rightarrow> cluster_command list" where
  "apply_loop l applied commit =
     (if applied < commit
      then (case log_entry_at l (applied + 1) of None \<Rightarrow> [] | Some e \<Rightarrow> [le_command e]) @ apply_loop l (applied + 1) commit
      else [])"
  by pat_completeness auto
termination by (relation "measure (\<lambda>(l, applied, commit). commit - applied)") auto

declare apply_loop.simps [simp del]

definition apply_committed :: "raft_node \<Rightarrow> raft_node \<times> cluster_command list" where
  "apply_committed n =
     (let v = volatile n in
      (n\<lparr>volatile := v\<lparr>last_applied := max (last_applied v) (commit_index v)\<rparr>\<rparr>,
       apply_loop (rlog (persistent n)) (last_applied v) (commit_index v)))"

definition deserialize_state :: "(bytes \<Rightarrow> persistent_state option) \<Rightarrow> raft_node \<Rightarrow> bytes \<Rightarrow> raft_node \<times> unit outcome" where
  "deserialize_state dec n bs =
     (case dec bs of None \<Rightarrow> (n, Err Serialization) | Some p \<Rightarrow> (n\<lparr>persistent := p\<rparr>, Ok ()))"

subsection \<open>The node as a machine\<close>

datatype raft_event =
    EvPropose cluster_command
  | EvElection nat
  | EvRequestVote nat vote_request
  | EvVote string vote_response
  | EvAppend nat append_request
  | EvAppendSuccess string append_response
  | EvAppendFailure string append_response
  | EvAddPeer string
  | EvRemovePeer string
  | EvApply

fun raft_step :: "raft_node \<Rightarrow> raft_event \<Rightarrow> raft_node" where
  "raft_step n (EvPropose cmd) = fst (propose n cmd)"
| "raft_step n (EvElection now) = fst (start_election now n)"
| "raft_step n (EvRequestVote now req) = fst (handle_request_vote now n req)"
| "raft_step n (EvVote voter res) = fst (record_vote n voter res)"
| "raft_step n (EvAppend now req) = fst (handle_append_entries now n req)"
| "raft_step n (EvAppendSuccess peer res) = record_append_success n peer res"
| "raft_step n (EvAppendFailure peer res) = record_append_failure n peer res"
| "raft_step n (EvAddPeer peer) = add_peer n peer"
| "raft_step n (EvRemovePeer peer) = remove_peer n peer"
| "raft_step n EvApply = fst (apply_committed n)"

subsection \<open>Terms and votes\<close>

text \<open>The term counter has room for another election (a \<open>u64\<close> that would wrap to 0 otherwise).\<close>

fun term_room :: "raft_node \<Rightarrow> raft_event \<Rightarrow> bool" where
  "term_room n (EvElection now) = (current_term (persistent n) + 1 < 2 ^ 64)"
| "term_room n _ = True"

definition raft_wf :: "raft_node \<Rightarrow> bool" where
  "raft_wf n \<longleftrightarrow> distinct (votes_received (volatile n)) \<and>
     (role (volatile n) \<noteq> RoleFollower \<longrightarrow> voted_for (persistent n) = Some (node_id n)) \<and>
     (role (volatile n) = RoleLeader \<longrightarrow>
        (length (peers n) + 1) div 2 + 1 \<le> length (votes_received (volatile n)))"

definition term_le :: "raft_node \<Rightarrow> raft_node \<Rightarrow> bool" where
  "term_le n n' \<longleftrightarrow> node_id n' = node_id n \<and> peers n' = peers n \<and>
     current_term (persistent n) \<le> current_term (persistent n') \<and>
     (current_term (persistent n') = current_term (persistent n) \<longrightarrow>
        voted_for (persistent n) = None \<or> voted_for (persistent n') = voted_for (persistent n))"

lemmas raft_handlers =
  propose_def start_election_def handle_request_vote_def record_vote_def handle_append_entries_def
  record_append_success_def record_append_failure_def add_peer_def remove_peer_def apply_committed_def

lemma index_peers_simps [simp]:
  "role (index_peers ps n v) = role v" "votes_received (index_peers ps n v) = votes_received v"
  "leader_id (index_peers ps n v) = leader_id v" "commit_index (index_peers ps n v) = commit_index v"
  "last_applied (index_peers ps n v) = last_applied v"
  by (simp_all add: index_peers_def)

lemma persistent_append_simps [simp]:
  "current_term (fst (persistent_append t c p)) = current_term p"
  "voted_for (fst (persistent_append t c p)) = voted_for p"
  by (simp_all add: persistent_append_def Let_def)

lemma adopt_term_simps [simp]:
  "current_term (adopt_term t p) = t" "voted_for (adopt_term t p) = None" "rlog (adopt_term t p) = rlog p"
  by (simp_all add: adopt_term_def)

lemma step_down_simps [simp]:
  "role (step_down v) = RoleFollower" "votes_received (step_down v) = votes_received v"
  "commit_index (step_down v) = commit_index v" "last_applied (step_down v) = last_applied v"
  by (simp_all add: step_down_def)

lemma raft_step_wf:
  assumes "raft_wf n" "term_room n ev"
  shows "raft_wf (raft_step n ev)"
  using assms
  by (cases ev) (auto simp: raft_wf_def raft_handlers Let_def case_prod_beta split: option.splits)

lemma raft_step_term_le:
  assumes "raft_wf n" "term_room n ev"
  shows "term_le n (raft_step n ev)"
  using assms
  by (cases ev) (auto simp: raft_wf_def term_le_def raft_handlers Let_def case_prod_beta split: option.splits)

interpretation rmach: monotone_machine raft_step term_room raft_wf term_le
proof unfold_locales
  show "term_le n n" for n by (simp add: term_le_def)
  show "term_le a c" if "term_le a b" "term_le b c" for a b c
    using that unfolding term_le_def by (metis le_antisym order_trans)
qed (simp_all add: raft_step_wf raft_step_term_le)

lemma raft_new_wf: "raft_wf (raft_new i ps now)"
  by (simp add: raft_wf_def raft_new_def volatile_new_def)

subsection \<open>Replication on logs\<close>

text \<open>Entry \<open>k\<close> of a log has index \<open>k + 1\<close>; the entries of a request follow its previous index.\<close>

definition log_indexed :: "log_entry list \<Rightarrow> bool" where
  "log_indexed l \<longleftrightarrow> (\<forall>k < length l. le_index (l ! k) = k + 1)"

definition consecutive :: "nat \<Rightarrow> log_entry list \<Rightarrow> bool" where
  "consecutive i es \<longleftrightarrow> (\<forall>k < length es. le_index (es ! k) = i + k + 1)"

text \<open>Raft's log matching: an index and a term determine the entry.\<close>

definition agree :: "log_entry list \<Rightarrow> log_entry list \<Rightarrow> bool" where
  "agree l es \<longleftrightarrow> (\<forall>e \<in> set l. \<forall>e' \<in> set es. le_index e = le_index e' \<and> le_term e = le_term e' \<longrightarrow> e = e')"

lemma append_entry_next:
  assumes "log_indexed l" "le_index e = i + 1" "i \<le> length l" "agree l [e]"
  shows "log_indexed (append_entry e l)" "take i (append_entry e l) = take i l"
    "i + 1 \<le> length (append_entry e l)" "append_entry e l ! i = e" "set (append_entry e l) \<subseteq> insert e (set l)"
proof -
  have "append_entry e l = (if i = length l \<or> le_term (l ! i) \<noteq> le_term e then take i l @ [e] else l) \<and>
      (i < length l \<and> le_term (l ! i) = le_term e \<longrightarrow> l ! i = e)"
    using assms by (auto simp: append_entry_def log_entry_at_def log_indexed_def agree_def)
  then show "log_indexed (append_entry e l)" "take i (append_entry e l) = take i l"
    "i + 1 \<le> length (append_entry e l)" "append_entry e l ! i = e" "set (append_entry e l) \<subseteq> insert e (set l)"
    using assms by (auto simp: log_indexed_def nth_append less_Suc_eq dest: in_set_takeD split: if_splits)
qed

lemma fold_append_entry:
  "log_indexed l \<Longrightarrow> consecutive i es \<Longrightarrow> i \<le> length l \<Longrightarrow> agree l es \<Longrightarrow>
   log_indexed (fold append_entry es l) \<and> take i (fold append_entry es l) = take i l \<and>
   i + length es \<le> length (fold append_entry es l) \<and> (\<forall>k < length es. fold append_entry es l ! (i + k) = es ! k)"
proof (induction es arbitrary: l i)
  case Nil
  then show ?case by simp
next
  case (Cons e es)
  have e: "le_index e = i + 1" "agree l [e]" using Cons.prems(2,4) by (auto simp: consecutive_def agree_def)
  note l1 = append_entry_next [OF Cons.prems(1) e(1) Cons.prems(3) e(2)]
  have cons: "consecutive (i + 1) es" unfolding consecutive_def
  proof (intro allI impI)
    fix k assume "k < length es"
    then show "le_index (es ! k) = i + 1 + k + 1"
      using Cons.prems(2) [unfolded consecutive_def, rule_format, of "Suc k"] by simp
  qed
  then have "le_index e' \<noteq> le_index e" if "e' \<in> set es" for e'
    using that e(1) by (auto simp: consecutive_def in_set_conv_nth)
  then have "agree (append_entry e l) es"
    using l1(5) Cons.prems(4) unfolding agree_def by (metis insertE list.set_intros(2) subsetD)
  from Cons.IH [OF l1(1) cons l1(3) this] have IH:
    "log_indexed (fold append_entry es (append_entry e l))"
    "take (i + 1) (fold append_entry es (append_entry e l)) = take (i + 1) (append_entry e l)"
    "i + 1 + length es \<le> length (fold append_entry es (append_entry e l))"
    "\<forall>k < length es. fold append_entry es (append_entry e l) ! (i + 1 + k) = es ! k" by auto
  let ?l' = "fold append_entry es (append_entry e l)"
  have "?l' ! i = append_entry e l ! i" using IH(2) by (metis Suc_eq_plus1 lessI nth_take)
  then have "?l' ! i = e" using l1(4) by simp
  then have "?l' ! (i + k) = (e # es) ! k" if "k < length (e # es)" for k
    using that IH(4) [rule_format, of "k - 1"] by (cases k) simp_all
  moreover have "take i ?l' = take i l"
    using arg_cong [OF IH(2), of "take i"] l1(2) by (simp add: min_def)
  ultimately show ?case using IH(1,3) by simp
qed

text \<open>The middle of the descending list is reached by more than half of it.\<close>

lemma quorum_match_majority:
  assumes "ms \<noteq> []"
  shows "length ms < 2 * length (filter (\<lambda>x. quorum_match ms \<le> x) ms)"
proof -
  let ?xs = "rev (sort ms)" and ?k = "length ms div 2"
  have k: "?k < length ?xs" using assms by (cases ms) auto
  have "sorted_wrt (\<ge>) ?xs" by (simp add: sorted_wrt_rev)
  then have "?xs ! ?k \<le> ?xs ! i" if "i \<le> ?k" for i
    using that k by (cases "i = ?k") (auto simp: sorted_wrt_iff_nth_less)
  then have "{..?k} \<subseteq> {i. i < length ?xs \<and> ?xs ! ?k \<le> ?xs ! i}" using k by auto
  from card_mono [OF _ this] have "?k + 1 \<le> length (filter (\<lambda>x. ?xs ! ?k \<le> x) ?xs)"
    by (simp add: length_filter_conv_card)
  moreover have "length (filter P ?xs) = length (filter P ms)" for P
    by (simp add: filter_sort flip: rev_filter)
  ultimately show ?thesis by (simp add: quorum_match_def)
qed

lemma apply_loop_entries:
  "commit \<le> length l \<Longrightarrow> applied \<le> commit \<Longrightarrow>
   apply_loop l applied commit = map le_command (take (commit - applied) (drop applied l))"
proof (induction l applied commit rule: apply_loop.induct)
  case (1 l applied commit)
  show ?case
  proof (cases "applied < commit")
    case True
    with 1 have "apply_loop l (applied + 1) commit = map le_command (take (commit - (applied + 1)) (drop (applied + 1) l))"
      by simp
    moreover have "log_entry_at l (applied + 1) = Some (l ! applied)" using True 1(2) by (simp add: log_entry_at_def)
    moreover have "take (commit - applied) (drop applied l) = l ! applied # take (commit - (applied + 1)) (drop (applied + 1) l)"
      using True 1(2) by (simp add: Cons_nth_drop_Suc [symmetric] take_Cons' del: drop_Suc)
    ultimately show ?thesis using True by (subst apply_loop.simps) simp
  next
    case False
    with 1(3) show ?thesis by (simp add: apply_loop.simps)
  qed
qed

lemma append_accepted:
  assumes "current_term (persistent n) \<le> aq_term req" "prev_consistent (rlog (persistent n)) req"
  shows "rlog (persistent (fst (handle_append_entries now n req))) = fold append_entry (aq_entries req) (rlog (persistent n))"
    and "snd (handle_append_entries now n req) =
      \<lparr>ar_term = aq_term req, ar_success = True, ar_match = u64_add (aq_prev_index req) (length (aq_entries req))\<rparr>"
  using assms
  by (cases "current_term (persistent n) < aq_term req"; simp add: handle_append_entries_def Let_def)+

subsection \<open>Properties\<close>

text \<open>
  Terms and votes of a node. Over any run of proposals, elections and messages, in any order,
  the term never falls, a vote once given in a term is never changed in that term, and a leader
  or candidate has voted for itself and a leader has collected a majority of distinct votes.
\<close>

theorem raft_vote_kept:
  assumes "raft_wf n" "ok_run term_room raft_step n evs"
  shows "let n' = foldl raft_step n evs in
    current_term (persistent n) \<le> current_term (persistent n') \<and>
    (current_term (persistent n') = current_term (persistent n) \<and> voted_for (persistent n) = Some c \<longrightarrow>
       voted_for (persistent n') = Some c) \<and>
    (is_leader n' \<longrightarrow> voted_for (persistent n') = Some (node_id n') \<and> distinct (votes_received (volatile n')) \<and>
       length (peers n') + 1 < 2 * length (votes_received (volatile n')))"
  using rmach.run_inv [OF assms] rmach.run_rank [OF assms]
  by (auto simp: Let_def raft_wf_def term_le_def is_leader_def)

theorem raft_vote_kept_witness:
  "let n = raft_new ''a'' [''b'', ''c''] 0;
       n' = foldl raft_step n [EvElection 200, EvVote ''b'' \<lparr>vr_term = 1, vr_granted = True\<rparr>]
   in is_leader n' \<and> length [''b'', ''c''] + 1 < 2 * length (votes_received (volatile n'))"
proof -
  let ?n = "raft_new ''a'' [''b'', ''c''] 0"
  let ?evs = "[EvElection 200, EvVote ''b'' \<lparr>vr_term = 1, vr_granted = True\<rparr>]"
  have ok: "ok_run term_room raft_step ?n ?evs" by (simp add: raft_new_def persistent_new_def)
  have lead: "is_leader (foldl raft_step ?n ?evs)"
    by (simp add: is_leader_def raft_new_def start_election_def record_vote_def Let_def persistent_new_def volatile_new_def)
  have "peers (foldl raft_step ?n ?evs) = [''b'', ''c'']"
    by (simp add: raft_new_def start_election_def record_vote_def Let_def persistent_new_def volatile_new_def)
  with raft_vote_kept [OF raft_new_wf ok] lead show ?thesis by (simp add: Let_def)
qed

text \<open>
  C20: The commit rule. Recording a successful append moves the commit index only on a leader, only
  forward, only to an entry of the current term, and only when more than half of the tracked
  peers and the leader itself have reached it.
\<close>

theorem commit_needs_quorum:
  assumes "commit_index (volatile (record_append_success n peer res)) \<noteq> commit_index (volatile n)"
    and "0 < current_term (persistent n)" "n' = record_append_success n peer res"
  shows "is_leader n \<and> commit_index (volatile n) < commit_index (volatile n') \<and>
    (\<exists>e. log_entry_at (rlog (persistent n')) (commit_index (volatile n')) = Some e \<and>
       le_term e = current_term (persistent n')) \<and>
    length (match_index (volatile n')) + 1 <
      2 * length (filter (\<lambda>m. commit_index (volatile n') \<le> m)
                    (hm_values (match_index (volatile n')) @ [last_index (persistent n')]))"
proof -
  let ?v1 = "(volatile n)\<lparr>match_index := hm_insert peer (ar_match res) (match_index (volatile n)),
      next_index := hm_insert peer (u64_add (ar_match res) 1) (next_index (volatile n))\<rparr>"
  let ?ms = "hm_values (match_index ?v1) @ [last_index (persistent n)]"
  let ?qm = "quorum_match ?ms"
  have lead: "role (volatile n) = RoleLeader" "\<not> current_term (persistent n) < ar_term res"
    and qm: "commit_index (volatile n) < ?qm"
      "(case log_entry_at (rlog (persistent n)) ?qm of None \<Rightarrow> 0 | Some e \<Rightarrow> le_term e) = current_term (persistent n)"
    and n': "n' = n\<lparr>volatile := ?v1\<lparr>commit_index := ?qm\<rparr>\<rparr>"
    using assms(1,3) by (auto simp: record_append_success_def Let_def split: if_splits)
  have "length ?ms < 2 * length (filter (\<lambda>x. ?qm \<le> x) ?ms)" by (rule quorum_match_majority) simp
  moreover obtain e where "log_entry_at (rlog (persistent n)) ?qm = Some e" "le_term e = current_term (persistent n)"
    using qm(2) assms(2) by (auto split: option.splits)
  ultimately show ?thesis using lead(1) qm(1) by (simp add: n' is_leader_def)
qed

definition toy_leader :: raft_node where
  "toy_leader = \<lparr>node_id = ''a'', peers = [''b''],
     persistent = \<lparr>current_term = 1, voted_for = Some ''a'', rlog = [\<lparr>le_index = 1, le_term = 1, le_command = NoOp\<rparr>]\<rparr>,
     volatile = (volatile_new 150 50 0)\<lparr>role := RoleLeader, match_index := [(''b'', 0)]\<rparr>\<rparr>"

theorem commit_needs_quorum_witness:
  "commit_index (volatile (record_append_success toy_leader ''b'' \<lparr>ar_term = 1, ar_success = True, ar_match = 1\<rparr>)) = 1
   \<and> is_leader toy_leader"
proof -
  let ?n' = "record_append_success toy_leader ''b'' \<lparr>ar_term = 1, ar_success = True, ar_match = 1\<rparr>"
  have c: "commit_index (volatile ?n') = 1" "commit_index (volatile toy_leader) = 0"
    by (simp_all add: record_append_success_def toy_leader_def volatile_new_def Let_def quorum_match_def last_index_def log_entry_at_def)
  then have "commit_index (volatile ?n') \<noteq> commit_index (volatile toy_leader)" by simp
  moreover have "0 < current_term (persistent toy_leader)" by (simp add: toy_leader_def)
  ultimately show ?thesis using commit_needs_quorum [of toy_leader "''b''"] c(1) by blast
qed

text \<open>
  C19: Log matching. When a follower that has the previous entry accepts a request whose entries
  follow it, and entries with equal index and term are equal, then afterwards its log holds the
  entries of the request at their indexes, is unchanged up to the previous entry, is still
  numbered from 1, and the match index in the reply is the index of the last of them.
\<close>

theorem append_entries_matches:
  assumes "log_indexed (rlog (persistent n))" "consecutive (aq_prev_index req) (aq_entries req)"
    and "aq_prev_index req \<le> last_index (persistent n)" "agree (rlog (persistent n)) (aq_entries req)"
    and "aq_prev_index req + length (aq_entries req) < 2 ^ 64"
    and "handle_append_entries now n req = (n', res)" "ar_success res"
  shows "log_indexed (rlog (persistent n')) \<and>
    take (aq_prev_index req) (rlog (persistent n')) = take (aq_prev_index req) (rlog (persistent n)) \<and>
    (\<forall>k < length (aq_entries req). log_entry_at (rlog (persistent n')) (aq_prev_index req + k + 1) = Some (aq_entries req ! k)) \<and>
    ar_match res = aq_prev_index req + length (aq_entries req) \<and> ar_match res \<le> last_index (persistent n') \<and>
    current_term (persistent n') = aq_term req \<and> role (volatile n') = RoleFollower \<and> leader_id (volatile n') = Some (aq_leader req)"
proof -
  let ?l' = "fold append_entry (aq_entries req) (rlog (persistent n))"
  have l': "rlog (persistent n') = ?l'" and r: "ar_match res = aq_prev_index req + length (aq_entries req)"
    and t: "current_term (persistent n') = aq_term req" "role (volatile n') = RoleFollower"
      "leader_id (volatile n') = Some (aq_leader req)"
    using assms(5,6,7) by (auto simp: handle_append_entries_def Let_def split: if_splits)
  have "log_indexed ?l' \<and> take (aq_prev_index req) ?l' = take (aq_prev_index req) (rlog (persistent n)) \<and>
   aq_prev_index req + length (aq_entries req) \<le> length ?l' \<and>
   (\<forall>k < length (aq_entries req). ?l' ! (aq_prev_index req + k) = aq_entries req ! k)"
    using assms(1-4) by (intro fold_append_entry) (simp_all add: last_index_def)
  then show ?thesis by (auto simp: l' r t log_entry_at_def last_index_def)
qed

theorem append_entries_matches_witness:
  "log_entry_at (rlog (persistent (fst (handle_append_entries 0 (raft_new ''b'' [''a''] 0)
      \<lparr>aq_term = 1, aq_leader = ''a'', aq_prev_index = 0, aq_prev_term = 0,
       aq_entries = [\<lparr>le_index = 1, le_term = 1, le_command = NoOp\<rparr>], aq_commit = 0\<rparr>)))) 1 =
   Some \<lparr>le_index = 1, le_term = 1, le_command = NoOp\<rparr>"
proof -
  let ?n = "raft_new ''b'' [''a''] 0"
  let ?req = "\<lparr>aq_term = 1, aq_leader = ''a'', aq_prev_index = 0, aq_prev_term = 0,
       aq_entries = [\<lparr>le_index = 1, le_term = 1, le_command = NoOp\<rparr>], aq_commit = 0\<rparr>"
  have "ar_success (snd (handle_append_entries 0 ?n ?req))"
    by (simp add: handle_append_entries_def Let_def raft_new_def persistent_new_def prev_consistent_def)
  then show ?thesis
    using append_entries_matches [of ?n ?req 0 "fst (handle_append_entries 0 ?n ?req)" "snd (handle_append_entries 0 ?n ?req)"]
    by (simp add: raft_new_def persistent_new_def log_indexed_def consecutive_def agree_def)
qed

text \<open>
  The consistency check accepts a gap. A follower whose log ends before the previous entry of
  the request reports success and the full match index, although its log can hold at most the
  entries it had and those of the request: it acknowledges entries it does not have.
\<close>

theorem append_entries_accepts_gap:
  assumes "last_index (persistent n) < aq_prev_index req" "current_term (persistent n) \<le> aq_term req"
    and "aq_prev_index req + length (aq_entries req) < 2 ^ 64"
    and "handle_append_entries now n req = (n', res)"
  shows "ar_success res \<and> ar_match res = aq_prev_index req + length (aq_entries req) \<and>
    last_index (persistent n') < ar_match res"
proof -
  have bound: "length (fold append_entry es l) \<le> length l + length es" for es l
  proof (induction es arbitrary: l)
    case (Cons e es)
    have "length (append_entry e l) \<le> length l + 1" by (auto simp: append_entry_def split: option.splits)
    with Cons.IH [of "append_entry e l"] show ?case by simp
  qed simp
  have "log_entry_at (rlog (persistent n)) (aq_prev_index req) = None" "aq_prev_index req \<noteq> 0"
    using assms(1) by (auto simp: log_entry_at_def last_index_def)
  then have "prev_consistent (rlog (persistent n)) req" by (simp add: prev_consistent_def)
  from append_accepted [OF assms(2) this, of now] assms(3,4)
  have "ar_success res" "ar_match res = aq_prev_index req + length (aq_entries req)"
    "rlog (persistent n') = fold append_entry (aq_entries req) (rlog (persistent n))" by simp_all
  with assms(1) bound [of "aq_entries req" "rlog (persistent n)"] show ?thesis by (simp add: last_index_def)
qed

theorem append_entries_accepts_gap_witness:
  "ar_match (snd (handle_append_entries 0 (raft_new ''b'' [''a''] 0)
      \<lparr>aq_term = 1, aq_leader = ''a'', aq_prev_index = 5, aq_prev_term = 1, aq_entries = [], aq_commit = 0\<rparr>)) = 5"
proof -
  let ?n = "raft_new ''b'' [''a''] 0"
  let ?req = "\<lparr>aq_term = 1, aq_leader = ''a'', aq_prev_index = 5, aq_prev_term = 1, aq_entries = [], aq_commit = 0\<rparr>"
  show ?thesis
    using append_entries_accepts_gap [of ?n ?req 0 "fst (handle_append_entries 0 ?n ?req)" "snd (handle_append_entries 0 ?n ?req)"]
    by (simp add: raft_new_def persistent_new_def last_index_def)
qed

text \<open>
  The requests the leader builds replicate nothing. Whatever follower receives
  \<open>heartbeat_for\<close> keeps its log, and a reply of success acknowledges no index past the one
  before the next index the leader has for the peer.
\<close>

theorem heartbeats_replicate_nothing:
  "rlog (persistent (fst (handle_append_entries now f (heartbeat_for l peer)))) = rlog (persistent f) \<and>
   ar_match (snd (handle_append_entries now f (heartbeat_for l peer))) \<le>
     (case hm_get (next_index (volatile l)) peer of None \<Rightarrow> 1 | Some i \<Rightarrow> i) - 1"
  by (simp add: handle_append_entries_def heartbeat_for_def Let_def u64_add_def)

text \<open>
  Application. When the commit index is within the log, \<open>apply_committed\<close> returns the commands
  of exactly the entries after the last applied one up to the commit index, in order, and a
  second call returns none.
\<close>

theorem apply_committed_once:
  assumes "commit_index (volatile n) \<le> last_index (persistent n)" "last_applied (volatile n) \<le> commit_index (volatile n)"
    and "apply_committed n = (n', cmds)"
  shows "cmds = map le_command (take (commit_index (volatile n) - last_applied (volatile n))
                                  (drop (last_applied (volatile n)) (rlog (persistent n)))) \<and>
    last_applied (volatile n') = commit_index (volatile n) \<and> persistent n' = persistent n \<and>
    apply_committed n' = (n', [])"
proof -
  have n': "n' = n\<lparr>volatile := (volatile n)\<lparr>last_applied := commit_index (volatile n)\<rparr>\<rparr>"
    "cmds = apply_loop (rlog (persistent n)) (last_applied (volatile n)) (commit_index (volatile n))"
    using assms(2,3) by (auto simp: apply_committed_def Let_def max_def)
  have "apply_loop l i i = []" for l i by (simp add: apply_loop.simps)
  then have "apply_committed n' = (n', [])" by (simp add: apply_committed_def Let_def n'(1))
  moreover have "cmds = map le_command (take (commit_index (volatile n) - last_applied (volatile n))
      (drop (last_applied (volatile n)) (rlog (persistent n))))"
    unfolding n'(2) using assms(1,2) by (intro apply_loop_entries) (simp_all add: last_index_def)
  ultimately show ?thesis by (simp add: n'(1))
qed

theorem apply_committed_once_witness:
  "snd (apply_committed (toy_leader\<lparr>volatile := (volatile toy_leader)\<lparr>commit_index := 1\<rparr>\<rparr>)) = [NoOp]"
proof -
  let ?n = "toy_leader\<lparr>volatile := (volatile toy_leader)\<lparr>commit_index := 1\<rparr>\<rparr>"
  have "commit_index (volatile ?n) \<le> last_index (persistent ?n)" "last_applied (volatile ?n) \<le> commit_index (volatile ?n)"
    by (simp_all add: toy_leader_def volatile_new_def last_index_def)
  from apply_committed_once [OF this prod.collapse [symmetric]] show ?thesis
    by (simp add: toy_leader_def volatile_new_def)
qed

end
