(* ===== verification/RaftElection.thy ===== *)
theory RaftElection
  imports Raft
begin

text \<open>
  Elections in a cluster of nodes that follow the Raft protocol with the handlers of
  \<open>src/src/raft.rs\<close>. The state is the nodes and every vote request and vote reply ever sent; a
  message can be delivered any number of times, at any time, in any order, or never. Between
  messages a node may take any other step of \<open>raft_step\<close>, with append requests and replies of any
  content, and it may crash and start again with the persistent state it had
  (\<open>serialize_state\<close>, \<open>deserialize_state\<close>). The rules use the handlers of the node as they are.
  They deliver a reply to the candidate it was made for, as the voter's. This is what the program's
  \<open>ClusterNode\<close> does not do: its \<open>tick\<close> answers its own vote requests in the name of its peers, and
  its \<open>load\<close> starts with an empty persistent state. What comes of it is a theorem of \<open>Cluster\<close>
  (\<open>ticking_nodes_split_the_cluster\<close>). Quorums are an interface: two of them share a member.
\<close>

record net =
  nodes :: "string \<Rightarrow> raft_node"
  requests :: "vote_request set"
  replies :: "(string \<times> string \<times> vote_response) set"

fun vote_event :: "raft_event \<Rightarrow> bool" where
  "vote_event (EvElection now) = True"
| "vote_event (EvRequestVote now req) = True"
| "vote_event (EvVote voter res) = True"
| "vote_event _ = False"

definition net_init :: "string list \<Rightarrow> net \<Rightarrow> bool" where
  "net_init ms s \<longleftrightarrow> requests s = {} \<and> replies s = {} \<and>
     (\<forall>i \<in> set ms. \<exists>now. nodes s i = raft_new i (filter (\<lambda>j. j \<noteq> i) ms) now)"

text \<open>A reply is kept with the voter and the candidate it goes back to.\<close>

inductive net_step :: "string list \<Rightarrow> net \<Rightarrow> net \<Rightarrow> bool" for ms where
  net_elect: "i \<in> set ms \<Longrightarrow> term_room (nodes s i) (EvElection now) \<Longrightarrow> start_election now (nodes s i) = (n', req) \<Longrightarrow>
    net_step ms s (s\<lparr>nodes := (nodes s)(i := n'), requests := insert req (requests s)\<rparr>)"
| net_vote: "j \<in> set ms \<Longrightarrow> req \<in> requests s \<Longrightarrow> handle_request_vote now (nodes s j) req = (n', res) \<Longrightarrow>
    net_step ms s (s\<lparr>nodes := (nodes s)(j := n'), replies := insert (j, vq_candidate req, res) (replies s)\<rparr>)"
| net_count: "i \<in> set ms \<Longrightarrow> (j, i, res) \<in> replies s \<Longrightarrow> record_vote (nodes s i) j res = (n', won) \<Longrightarrow>
    net_step ms s (s\<lparr>nodes := (nodes s)(i := n')\<rparr>)"
| net_other: "i \<in> set ms \<Longrightarrow> \<not> vote_event ev \<Longrightarrow>
    net_step ms s (s\<lparr>nodes := (nodes s)(i := raft_step (nodes s i) ev)\<rparr>)"
| net_restart: "i \<in> set ms \<Longrightarrow> dec bs = Some (persistent (nodes s i)) \<Longrightarrow>
    deserialize_state dec (raft_new i (filter (\<lambda>j. j \<noteq> i) ms) now) bs = (n', r) \<Longrightarrow>
    net_step ms s (s\<lparr>nodes := (nodes s)(i := n')\<rparr>)"

inductive net_run :: "string list \<Rightarrow> net \<Rightarrow> net \<Rightarrow> bool" for ms where
  net_refl: "net_run ms s s"
| net_trans: "net_run ms s t \<Longrightarrow> net_step ms t u \<Longrightarrow> net_run ms s u"

inductive_cases net_stepE: "net_step ms s t"

subsection \<open>Quorums\<close>

locale quorum_system =
  fixes quorum :: "'a set \<Rightarrow> bool"
  assumes quorum_inter: "quorum A \<Longrightarrow> quorum B \<Longrightarrow> \<exists>x. x \<in> A \<and> x \<in> B"
begin

lemma unique_winner:
  assumes "quorum A" "quorum B" "\<forall>x \<in> A. vote x a" "\<forall>x \<in> B. vote x b"
    and "\<And>x c d. vote x c \<Longrightarrow> vote x d \<Longrightarrow> c = d"
  shows "a = b"
  using quorum_inter [OF assms(1,2)] assms(3-5) by blast

end

definition majority :: "string list \<Rightarrow> string set \<Rightarrow> bool" where
  "majority ms A \<longleftrightarrow> A \<subseteq> set ms \<and> length ms < 2 * card A"

interpretation majorities: quorum_system "majority ms" for ms
proof
  fix A B
  assume m: "majority ms A" "majority ms B"
  show "\<exists>x. x \<in> A \<and> x \<in> B"
  proof (rule ccontr)
    assume "\<not> ?thesis"
    then have "A \<inter> B = {}" by auto
    moreover have "finite A" "finite B" using m by (auto simp: majority_def intro: finite_subset)
    ultimately have "card A + card B = card (A \<union> B)" by (simp add: card_Un_disjoint)
    also have "\<dots> \<le> card (set ms)" using m by (intro card_mono) (auto simp: majority_def)
    also have "\<dots> \<le> length ms" by (rule card_length)
    finally show False using m by (simp add: majority_def)
  qed
qed

subsection \<open>Ballots\<close>

text \<open>\<open>ballot s j t c\<close>: node \<open>j\<close> has voted for \<open>c\<close> in term \<open>t\<close>, as the messages show.\<close>

definition ballot :: "net \<Rightarrow> string \<Rightarrow> nat \<Rightarrow> string \<Rightarrow> bool" where
  "ballot s j t c \<longleftrightarrow>
     (\<exists>res. (j, c, res) \<in> replies s \<and> vr_granted res \<and> vr_term res = t) \<or>
     (j = c \<and> (\<exists>req \<in> requests s. vq_candidate req = c \<and> vq_term req = t))"

definition net_ok :: "string list \<Rightarrow> net \<Rightarrow> bool" where
  "net_ok ms s \<longleftrightarrow>
     (\<forall>i \<in> set ms. raft_wf (nodes s i) \<and> node_id (nodes s i) = i \<and> peers (nodes s i) = filter (\<lambda>j. j \<noteq> i) ms) \<and>
     (\<forall>j t c. ballot s j t c \<longrightarrow> j \<in> set ms \<and> t \<le> current_term (persistent (nodes s j)) \<and>
        (t = current_term (persistent (nodes s j)) \<longrightarrow> voted_for (persistent (nodes s j)) = Some c)) \<and>
     (\<forall>j t c d. ballot s j t c \<and> ballot s j t d \<longrightarrow> c = d) \<and>
     (\<forall>i \<in> set ms. role (volatile (nodes s i)) \<noteq> RoleFollower \<longrightarrow>
        (\<forall>j \<in> set (votes_received (volatile (nodes s i))). ballot s j (current_term (persistent (nodes s i))) i))"

text \<open>What the steps other than elections and votes leave of a node.\<close>

lemma other_step:
  assumes "\<not> vote_event ev"
  shows "current_term (persistent n) \<le> current_term (persistent (raft_step n ev))"
    and "current_term (persistent (raft_step n ev)) = current_term (persistent n) \<Longrightarrow>
      voted_for (persistent (raft_step n ev)) = voted_for (persistent n)"
    and "role (volatile (raft_step n ev)) \<noteq> RoleFollower \<Longrightarrow>
      role (volatile n) \<noteq> RoleFollower \<and> current_term (persistent (raft_step n ev)) = current_term (persistent n) \<and>
      votes_received (volatile (raft_step n ev)) = votes_received (volatile n)"
  using assms
  by (cases ev; auto simp: raft_handlers Let_def case_prod_beta split: option.splits if_splits)+

lemma vote_step:
  assumes "handle_request_vote now n req = (n', res)"
  shows "current_term (persistent n) \<le> current_term (persistent n')"
    and "vr_term res = current_term (persistent n')"
    and "vr_granted res \<Longrightarrow> voted_for (persistent n') = Some (vq_candidate req)"
    and "current_term (persistent n') = current_term (persistent n) \<Longrightarrow> voted_for (persistent n) = Some c \<Longrightarrow>
      voted_for (persistent n') = Some c"
    and "role (volatile n') \<noteq> RoleFollower \<Longrightarrow>
      role (volatile n) \<noteq> RoleFollower \<and> current_term (persistent n') = current_term (persistent n) \<and>
      votes_received (volatile n') = votes_received (volatile n)"
proof -
  let ?p = "persistent n"
  define g where "g \<longleftrightarrow> (last_term ?p < vq_last_term req \<or> vq_last_term req = last_term ?p \<and> last_index ?p \<le> vq_last_index req)"
  have lt: "last_term (adopt_term t p) = last_term p" "last_index (adopt_term t p) = last_index p" for t p
    by (simp_all add: last_term_def last_index_def)
  consider (newer) "current_term ?p < vq_term req" | (same) "current_term ?p = vq_term req" | (older) "vq_term req < current_term ?p"
    by linarith
  then have "current_term ?p \<le> current_term (persistent n') \<and> vr_term res = current_term (persistent n') \<and>
    (vr_granted res \<longrightarrow> voted_for (persistent n') = Some (vq_candidate req)) \<and>
    (current_term (persistent n') = current_term ?p \<and> voted_for ?p = Some c \<longrightarrow> voted_for (persistent n') = Some c) \<and>
    (role (volatile n') \<noteq> RoleFollower \<longrightarrow> role (volatile n) \<noteq> RoleFollower \<and>
      current_term (persistent n') = current_term ?p \<and> votes_received (volatile n') = votes_received (volatile n))" for c
    using assms unfolding handle_request_vote_def Let_def
    by cases (auto simp: lt simp flip: g_def split: if_splits)
  then show "current_term (persistent n) \<le> current_term (persistent n')"
    and "vr_term res = current_term (persistent n')"
    and "vr_granted res \<Longrightarrow> voted_for (persistent n') = Some (vq_candidate req)"
    and "current_term (persistent n') = current_term (persistent n) \<Longrightarrow> voted_for (persistent n) = Some c \<Longrightarrow>
      voted_for (persistent n') = Some c"
    and "role (volatile n') \<noteq> RoleFollower \<Longrightarrow>
      role (volatile n) \<noteq> RoleFollower \<and> current_term (persistent n') = current_term (persistent n) \<and>
      votes_received (volatile n') = votes_received (volatile n)" by blast+
qed

lemma count_step:
  assumes "record_vote n voter res = (n', won)"
  shows "current_term (persistent n) \<le> current_term (persistent n')"
    and "current_term (persistent n') = current_term (persistent n) \<Longrightarrow> voted_for (persistent n') = voted_for (persistent n)"
    and "role (volatile n') \<noteq> RoleFollower \<Longrightarrow>
      role (volatile n) \<noteq> RoleFollower \<and> current_term (persistent n') = current_term (persistent n) \<and>
      (set (votes_received (volatile n')) \<subseteq> set (votes_received (volatile n)) \<or>
       vr_granted res \<and> vr_term res = current_term (persistent n) \<and>
       set (votes_received (volatile n')) = insert voter (set (votes_received (volatile n))))"
  using assms by (auto simp: record_vote_def Let_def split: if_splits)

lemma net_ok_init: "net_init ms s \<Longrightarrow> net_ok ms s"
  by (auto simp: net_init_def net_ok_def ballot_def raft_new_wf) (auto simp: raft_new_def volatile_new_def)

text \<open>One node moves from \<open>nodes s i\<close> to \<open>n'\<close>, and all new ballots are its own of its new term.\<close>

lemma net_ok_update:
  assumes ok: "net_ok ms s" and i: "i \<in> set ms" and nodes': "nodes s' = (nodes s)(i := n')"
    and wf: "raft_wf n'" "node_id n' = node_id (nodes s i)" "peers n' = peers (nodes s i)"
    and later: "current_term (persistent (nodes s i)) \<le> current_term (persistent n')"
    and vote: "\<And>c. current_term (persistent n') = current_term (persistent (nodes s i)) \<Longrightarrow>
      voted_for (persistent (nodes s i)) = Some c \<Longrightarrow> voted_for (persistent n') = Some c"
    and new: "\<And>j t c. ballot s' j t c \<Longrightarrow>
      ballot s j t c \<or> j = i \<and> t = current_term (persistent n') \<and> voted_for (persistent n') = Some c"
    and keep: "\<And>j t c. ballot s j t c \<Longrightarrow> ballot s' j t c"
    and votes: "role (volatile n') \<noteq> RoleFollower \<Longrightarrow>
      \<forall>j \<in> set (votes_received (volatile n')). ballot s' j (current_term (persistent n')) i"
  shows "net_ok ms s'"
proof -
  have old: "j \<in> set ms" "t \<le> current_term (persistent (nodes s j))"
    "t = current_term (persistent (nodes s j)) \<longrightarrow> voted_for (persistent (nodes s j)) = Some c" if "ballot s j t c" for j t c
    using ok that unfolding net_ok_def by blast+
  have uniq: "c = d" if "ballot s j t c" "ballot s j t d" for j t c d
    using ok that unfolding net_ok_def by blast
  have own: "voted_for (persistent n') = Some c" if "ballot s i (current_term (persistent n')) c" for c
    using old [OF that] later vote by (metis le_antisym)
  have "j \<in> set ms \<and> t \<le> current_term (persistent (nodes s' j)) \<and>
      (t = current_term (persistent (nodes s' j)) \<longrightarrow> voted_for (persistent (nodes s' j)) = Some c)"
    if "ballot s' j t c" for j t c
  proof (cases "ballot s j t c")
    case True
    show ?thesis
    proof (cases "j = i")
      case True
      with old [OF \<open>ballot s j t c\<close>] own later i \<open>ballot s j t c\<close> show ?thesis by (auto simp: nodes')
    next
      case False
      with old [OF \<open>ballot s j t c\<close>] show ?thesis by (simp add: nodes')
    qed
  next
    case False
    with new [OF that] i show ?thesis by (simp add: nodes')
  qed
  moreover have "c = d" if "ballot s' j t c" "ballot s' j t d" for j t c d
    using new [OF that(1)] new [OF that(2)] uniq own by (metis option.inject)
  moreover have "\<forall>j \<in> set (votes_received (volatile (nodes s' k))). ballot s' j (current_term (persistent (nodes s' k))) k"
    if "k \<in> set ms" "role (volatile (nodes s' k)) \<noteq> RoleFollower" for k
  proof (cases "k = i")
    case True
    with that votes show ?thesis by (simp add: nodes')
  next
    case False
    with that ok have "\<forall>j \<in> set (votes_received (volatile (nodes s k))). ballot s j (current_term (persistent (nodes s k))) k"
      by (simp add: net_ok_def nodes')
    with False keep show ?thesis by (simp add: nodes')
  qed
  moreover have "raft_wf (nodes s' k) \<and> node_id (nodes s' k) = k \<and> peers (nodes s' k) = filter (\<lambda>j. j \<noteq> k) ms"
    if "k \<in> set ms" for k
    using ok that wf by (cases "k = i") (simp_all add: net_ok_def nodes')
  ultimately show ?thesis unfolding net_ok_def by blast
qed

lemma ballot_keep: "requests s \<subseteq> requests s' \<Longrightarrow> replies s \<subseteq> replies s' \<Longrightarrow> ballot s j t c \<Longrightarrow> ballot s' j t c"
  unfolding ballot_def by blast

lemma ballot_step: "net_step ms s s' \<Longrightarrow> ballot s j t c \<Longrightarrow> ballot s' j t c"
  by (erule net_stepE) (auto intro: ballot_keep [rotated 2])

lemma net_ok_votes:
  assumes "net_ok ms s" "i \<in> set ms" "role (volatile (nodes s i)) \<noteq> RoleFollower" "j \<in> set (votes_received (volatile (nodes s i)))"
  shows "ballot s j (current_term (persistent (nodes s i))) i"
  using assms unfolding net_ok_def by blast

lemma net_ok_step:
  assumes ok: "net_ok ms s" and step: "net_step ms s s'"
  shows "net_ok ms s'"
  using step
proof cases
  case (net_elect i now n' req)
  let ?n = "nodes s i"
  have wf: "raft_wf ?n" "node_id ?n = i" using ok net_elect(2) by (auto simp: net_ok_def)
  have n': "n' = raft_step ?n (EvElection now)" using net_elect(4) by simp
  have e: "current_term (persistent n') = current_term (persistent ?n) + 1" "voted_for (persistent n') = Some i"
    "votes_received (volatile n') = [i]" "vq_term req = current_term (persistent n')" "vq_candidate req = i"
    using net_elect(3,4) wf(2) by (auto simp: start_election_def Let_def)
  have new: "ballot s' j t c \<longleftrightarrow> ballot s j t c \<or> j = i \<and> c = i \<and> t = current_term (persistent n')" for j t c
    using e by (auto simp: net_elect(1) ballot_def)
  have "raft_wf n' \<and> node_id n' = node_id ?n \<and> peers n' = peers ?n"
    using raft_step_wf [OF wf(1) net_elect(3)] raft_step_term_le [OF wf(1) net_elect(3)] by (simp only: n' term_le_def)
  then show ?thesis
  proof (intro net_ok_update [OF ok net_elect(2), of s' n'])
    show "nodes s' = (nodes s)(i := n')" by (simp add: net_elect(1))
  qed (use e new in auto)
next
  case (net_vote j req now n' res)
  let ?n = "nodes s j"
  have wf: "raft_wf ?n" "node_id ?n = j" using ok net_vote(2) by (auto simp: net_ok_def)
  have n': "n' = raft_step ?n (EvRequestVote now req)" using net_vote(4) by simp
  note v = vote_step [OF net_vote(4)]
  have room: "term_room ?n (EvRequestVote now req)" by simp
  have new: "ballot s' i t c \<longleftrightarrow> ballot s i t c \<or>
      i = j \<and> c = vq_candidate req \<and> vr_granted res \<and> t = current_term (persistent n')" for i t c
    using v(2) by (auto simp: net_vote(1) ballot_def)
  show ?thesis
  proof (rule net_ok_update [OF ok net_vote(2), of s' n'])
    show "nodes s' = (nodes s)(j := n')" by (simp add: net_vote(1))
    show "raft_wf n'" "node_id n' = node_id ?n" "peers n' = peers ?n"
      using raft_step_wf [OF wf(1) room] raft_step_term_le [OF wf(1) room] by (simp_all only: n' term_le_def)
    show "\<forall>k \<in> set (votes_received (volatile n')). ballot s' k (current_term (persistent n')) j"
      if "role (volatile n') \<noteq> RoleFollower"
      using v(5) [OF that] net_ok_votes [OF ok net_vote(2)] by (auto simp: new)
  qed (use v new in auto)
next
  case (net_count i j res n' won)
  let ?n = "nodes s i"
  have wf: "raft_wf ?n" "node_id ?n = i" using ok net_count(2) by (auto simp: net_ok_def)
  have n': "n' = raft_step ?n (EvVote j res)" using net_count(4) by simp
  note v = count_step [OF net_count(4)]
  have room: "term_room ?n (EvVote j res)" by simp
  have new: "ballot s' k t c \<longleftrightarrow> ballot s k t c" for k t c by (simp add: net_count(1) ballot_def)
  have reply: "ballot s j (current_term (persistent ?n)) i"
    if "vr_granted res" "vr_term res = current_term (persistent ?n)" using that net_count(3) by (auto simp: ballot_def)
  show ?thesis
  proof (rule net_ok_update [OF ok net_count(2), of s' n'])
    show "nodes s' = (nodes s)(i := n')" by (simp add: net_count(1))
    show "raft_wf n'" "node_id n' = node_id ?n" "peers n' = peers ?n"
      using raft_step_wf [OF wf(1) room] raft_step_term_le [OF wf(1) room] by (simp_all only: n' term_le_def)
    show "\<forall>k \<in> set (votes_received (volatile n')). ballot s' k (current_term (persistent n')) i"
      if "role (volatile n') \<noteq> RoleFollower"
      using v(3) [OF that] net_ok_votes [OF ok net_count(2)] reply by (auto simp: new)
  qed (use v new in auto)
next
  case (net_other i ev)
  let ?n = "nodes s i" and ?n' = "raft_step (nodes s i) ev"
  have wf: "raft_wf ?n" using ok net_other(2) by (auto simp: net_ok_def)
  have room: "term_room ?n ev" using net_other(3) by (cases ev) auto
  note v = other_step [OF net_other(3), of ?n]
  have new: "ballot s' k t c \<longleftrightarrow> ballot s k t c" for k t c by (simp add: net_other(1) ballot_def)
  show ?thesis
  proof (rule net_ok_update [OF ok net_other(2), of s' ?n'])
    show "nodes s' = (nodes s)(i := ?n')" by (simp add: net_other(1))
    show "raft_wf ?n'" "node_id ?n' = node_id ?n" "peers ?n' = peers ?n"
      using raft_step_wf [OF wf room] raft_step_term_le [OF wf room] by (simp_all only: term_le_def)
    show "\<forall>k \<in> set (votes_received (volatile ?n')). ballot s' k (current_term (persistent ?n')) i"
      if "role (volatile ?n') \<noteq> RoleFollower"
      using v(3) [OF that] net_ok_votes [OF ok net_other(2)] by (auto simp: new)
  qed (use v new in auto)
next
  case (net_restart i dec bs now n' r)
  let ?n = "nodes s i"
  have node: "node_id ?n = i" "peers ?n = filter (\<lambda>j. j \<noteq> i) ms" using ok net_restart(2) by (auto simp: net_ok_def)
  have n': "n' = (raft_new i (filter (\<lambda>j. j \<noteq> i) ms) now)\<lparr>persistent := persistent ?n\<rparr>"
    using net_restart(3,4) by (simp add: deserialize_state_def)
  have fields: "persistent n' = persistent ?n" "role (volatile n') = RoleFollower" "votes_received (volatile n') = []"
    "node_id n' = i" "peers n' = filter (\<lambda>j. j \<noteq> i) ms"
    by (simp_all add: n' raft_new_def volatile_new_def)
  have new: "ballot s' k t c \<longleftrightarrow> ballot s k t c" for k t c by (simp add: net_restart(1) ballot_def)
  show ?thesis
  proof (rule net_ok_update [OF ok net_restart(2), of s' n'])
    show "nodes s' = (nodes s)(i := n')" by (simp add: net_restart(1))
    show "raft_wf n'" by (simp add: raft_wf_def fields)
  qed (simp_all add: fields new node)
qed

lemma net_ok_run: "net_run ms s s' \<Longrightarrow> net_ok ms s \<Longrightarrow> net_ok ms s'"
  by (induction rule: net_run.induct) (auto intro: net_ok_step)

lemma ballot_run: "net_run ms s s' \<Longrightarrow> ballot s j t c \<Longrightarrow> ballot s' j t c"
  by (induction rule: net_run.induct) (auto intro: ballot_step)

lemma leader_majority:
  assumes "distinct ms" "net_ok ms s" "i \<in> set ms" "is_leader (nodes s i)"
  shows "majority ms (set (votes_received (volatile (nodes s i))))"
    and "\<forall>j \<in> set (votes_received (volatile (nodes s i))). ballot s j (current_term (persistent (nodes s i))) i"
proof -
  let ?v = "volatile (nodes s i)"
  have lead: "role ?v = RoleLeader" using assms(4) by (simp add: is_leader_def)
  then show all: "\<forall>j \<in> set (votes_received ?v). ballot s j (current_term (persistent (nodes s i))) i"
    using net_ok_votes [OF assms(2,3)] by simp
  have node: "raft_wf (nodes s i)" "peers (nodes s i) = filter (\<lambda>j. j \<noteq> i) ms"
    using assms(2,3) by (auto simp: net_ok_def)
  have "length (filter (\<lambda>j. j \<noteq> i) ms) = card (set ms - {i})"
    using assms(1) distinct_card [of "filter (\<lambda>j. j \<noteq> i) ms"] by (simp add: set_diff_eq)
  then have "length (filter (\<lambda>j. j \<noteq> i) ms) + 1 = length ms"
    using assms(1,3) by (simp add: distinct_card)
       (metis One_nat_def Suc_pred length_pos_if_in_set)
  then have "length ms div 2 + 1 \<le> length (votes_received ?v)"
    using node lead by (simp add: raft_wf_def)
  moreover have "length (votes_received ?v) = card (set (votes_received ?v))"
    using node(1) by (simp add: raft_wf_def distinct_card)
  moreover have "set (votes_received ?v) \<subseteq> set ms" using all assms(2) by (auto simp: net_ok_def)
  ultimately show "majority ms (set (votes_received ?v))" by (simp add: majority_def)
qed

text \<open>A cluster of two in which the first node is elected by both.\<close>

definition toy_net :: net where
  "toy_net = \<lparr>nodes = (\<lambda>i. raft_new i (filter (\<lambda>j. j \<noteq> i) [''a'', ''b'']) 0), requests = {}, replies = {}\<rparr>"

definition toy_elected :: net where
  "toy_elected =
     (let (a1, req) = start_election 1 (nodes toy_net ''a'');
          (b1, res) = handle_request_vote 2 (nodes toy_net ''b'') req;
          (a2, won) = record_vote a1 ''b'' res
      in \<lparr>nodes = (nodes toy_net)(''a'' := a1, ''b'' := b1, ''a'' := a2),
          requests = {req}, replies = {(''b'', ''a'', res)}\<rparr>)"

lemmas toy_net_simps = toy_net_def toy_elected_def start_election_def handle_request_vote_def record_vote_def
  raft_new_def volatile_new_def index_peers_def persistent_new_def last_index_def last_term_def adopt_term_def
  step_down_def is_leader_def

lemma toy_net_run: "net_run [''a'', ''b''] toy_net toy_elected"
proof -
  obtain a1 req where e: "start_election 1 (nodes toy_net ''a'') = (a1, req)" by (cases "start_election 1 (nodes toy_net ''a'')")
  obtain b1 res where v: "handle_request_vote 2 (nodes toy_net ''b'') req = (b1, res)"
    by (cases "handle_request_vote 2 (nodes toy_net ''b'') req")
  obtain a2 won where c: "record_vote a1 ''b'' res = (a2, won)" by (cases "record_vote a1 ''b'' res")
  have cand: "vq_candidate req = ''a''" using e by (auto simp: toy_net_simps)
  let ?s1 = "toy_net\<lparr>nodes := (nodes toy_net)(''a'' := a1), requests := insert req (requests toy_net)\<rparr>"
  let ?s2 = "?s1\<lparr>nodes := (nodes ?s1)(''b'' := b1), replies := insert (''b'', vq_candidate req, res) (replies ?s1)\<rparr>"
  let ?s3 = "?s2\<lparr>nodes := (nodes ?s2)(''a'' := a2)\<rparr>"
  have "net_step [''a'', ''b''] toy_net ?s1"
    by (rule net_elect [OF _ _ e]) (auto simp: toy_net_simps)
  moreover have "net_step [''a'', ''b''] ?s1 ?s2" by (rule net_vote [where now = 2]) (auto simp: v)
  moreover have "net_step [''a'', ''b''] ?s2 ?s3" by (rule net_count) (auto simp: c cand)
  ultimately have "net_run [''a'', ''b''] toy_net ?s3" by (blast intro: net_refl net_trans)
  moreover have "?s3 = toy_elected" using e v c cand by (simp add: toy_elected_def toy_net_def)
  ultimately show ?thesis by simp
qed

subsection \<open>Properties\<close>

text \<open>
  C3: Election safety of the Raft handlers. Take nodes of different names that start with
  \<open>raft_new\<close>, each with the others as its peers, and that act by the handlers of \<open>RaftNode\<close> alone: elections while the term
  counter has room, votes that go back to their candidate, proposals, append requests and replies
  of any content, changes of peers, application, and restarts with the persistent state at the
  crash. Whatever messages are lost, delayed, repeated or reordered, two of them are never leader
  of the same term, not even at different times. This is not claimed for \<open>ClusterNode::tick\<close>, which
  answers its own vote requests (C40), for \<open>ClusterNode::load\<close>, which forgets term and vote, or for
  \<open>deserialize_state\<close> of other bytes than the node's own.
\<close>

theorem at_most_one_leader_per_term:
  assumes "distinct ms" "net_init ms s0" "net_run ms s0 s" "net_run ms s s'" "i \<in> set ms" "k \<in> set ms"
    and "is_leader (nodes s i)" "is_leader (nodes s' k)"
    and "current_term (persistent (nodes s i)) = current_term (persistent (nodes s' k))"
  shows "i = k"
proof -
  have ok: "net_ok ms s" "net_ok ms s'"
    using net_ok_run [OF assms(3) net_ok_init [OF assms(2)]] net_ok_run [OF assms(4)] by simp_all
  note li = leader_majority [OF assms(1) ok(1) assms(5,7)]
  note lk = leader_majority [OF assms(1) ok(2) assms(6,8)]
  let ?t = "current_term (persistent (nodes s' k))"
  show ?thesis
  proof (rule majorities.unique_winner [OF li(1) lk(1), of "\<lambda>j c. ballot s' j ?t c"])
    show "\<forall>j \<in> set (votes_received (volatile (nodes s i))). ballot s' j ?t i"
      using li(2) ballot_run [OF assms(4)] assms(9) by auto
    show "c = d" if "ballot s' j ?t c" "ballot s' j ?t d" for j c d
      using ok(2) that unfolding net_ok_def by blast
  qed (rule lk(2))
qed

theorem at_most_one_leader_per_term_witness:
  "is_leader (nodes toy_elected ''a'') \<and>
   {k \<in> {''a'', ''b''}. is_leader (nodes toy_elected k) \<and>
      current_term (persistent (nodes toy_elected ''a'')) = current_term (persistent (nodes toy_elected k))} = {''a''}"
proof -
  have lead: "is_leader (nodes toy_elected ''a'')" by (simp add: toy_net_simps)
  have init: "net_init [''a'', ''b''] toy_net" by (auto simp: net_init_def toy_net_def)
  show ?thesis
    using lead at_most_one_leader_per_term [OF _ init toy_net_run net_refl, of "''a''"] by auto
qed

end
