(* ===== verification/Database.thy ===== *)
theory Database
  imports Wal
begin

text \<open>
  The document database with collections of \<open>src/src/db.rs\<close>: documents with tombstones, the
  inverted index per field, the secondary indexes for range queries, full-text search, queries,
  and opening with recovery. Text renderings of JSON values and of numbers (\<open>text_api\<close>), the
  JSON coding of a whole database and the JSONPath crate are arguments; what a call reads of its
  environment (clock, random number) is a record \<open>stamp\<close>.
\<close>

subsection \<open>Data\<close>

record 'n db_document =
  dd_id :: string
  dd_data :: "'n json"
  dd_created :: string
  dd_updated :: string
  dd_deleted :: bool

type_synonym field_index = "(string, (string, string list) hashmap) hashmap"

type_synonym secondary_index = "(string \<times> string list) list"

record 'n collection =
  cn_name :: string
  cn_documents :: "'n db_document list"
  cn_indexes :: "(string, string list) hashmap"
  cn_inverted :: field_index
  cn_secondary :: "(string, secondary_index) hashmap"

record 'n cassette =
  ca_version :: nat
  ca_collections :: "(string, 'n collection) hashmap"
  ca_meta :: "(string, string) hashmap"

definition cassette_new :: "'n cassette" where
  "cassette_new = \<lparr>ca_version = 1, ca_collections = [], ca_meta = []\<rparr>"

definition collection_new :: "string \<Rightarrow> 'n collection" where
  "collection_new name =
     \<lparr>cn_name = name, cn_documents = [], cn_indexes = [], cn_inverted = [], cn_secondary = []\<rparr>"

text \<open>The errors are those of \<open>anyhow\<close>: a message, or the error of another component.\<close>

datatype db_error = CollectionNotFound | BadJson | WalFailed error | Panicked

record 'n text_api =
  number_text :: "'n \<Rightarrow> string"
  value_text :: "'n json \<Rightarrow> string"

record stamp =
  stamp_millis :: nat
  stamp_random :: nat
  stamp_created :: string
  stamp_updated :: string

subsection \<open>Indexes\<close>

text \<open>The regular expression splits at runs of characters that are no ASCII letters or digits.\<close>

definition db_tokenize :: "string \<Rightarrow> string list" where
  "db_tokenize text = map to_lowercase (filter (\<lambda>w. w \<noteq> []) (split_by (\<lambda>c. \<not> is_alphanumeric c) text))"

definition push_id :: "string \<Rightarrow> string \<Rightarrow> (string, string list) hashmap \<Rightarrow> (string, string list) hashmap" where
  "push_id i k m = hm_insert k ((case hm_get m k of None \<Rightarrow> [] | Some ids \<Rightarrow> ids) @ [i]) m"

definition index_text :: "string \<Rightarrow> string \<Rightarrow> string \<Rightarrow> field_index \<Rightarrow> field_index" where
  "index_text i field text ix =
     hm_insert field (fold (push_id i) (db_tokenize text) (case hm_get ix field of None \<Rightarrow> [] | Some fi \<Rightarrow> fi)) ix"

definition db_index_document :: "'n db_document \<Rightarrow> field_index \<Rightarrow> field_index" where
  "db_index_document doc ix =
     (case as_object (dd_data doc) of
        None \<Rightarrow> ix
      | Some obj \<Rightarrow>
          fold (\<lambda>(field, v) ix. case as_str v of None \<Rightarrow> ix | Some text \<Rightarrow> index_text (dd_id doc) field text ix) obj ix)"

definition remove_from_index :: "string \<Rightarrow> field_index \<Rightarrow> field_index" where
  "remove_from_index i ix =
     filter (\<lambda>(f, fi). fi \<noteq> [])
       (map (\<lambda>(f, fi). (f, filter (\<lambda>(t, ids). ids \<noteq> []) (map (\<lambda>(t, ids). (t, filter (\<lambda>j. j \<noteq> i) ids)) fi))) ix)"

fun value_to_index_key :: "'n text_api \<Rightarrow> 'n json \<Rightarrow> string" where
  "value_to_index_key api (JStr s) = s"
| "value_to_index_key api (JNum n) = number_text api n"
| "value_to_index_key api (JBool b) = (if b then ''true'' else ''false'')"
| "value_to_index_key api v = value_text api v"

definition add_to_secondary :: "'n text_api \<Rightarrow> string \<Rightarrow> 'n db_document \<Rightarrow> secondary_index \<Rightarrow> secondary_index" where
  "add_to_secondary api field doc ix =
     (case json_get (dd_data doc) field of
        None \<Rightarrow> ix
      | Some v \<Rightarrow>
          (let k = value_to_index_key api v
           in bt_insert k ((case map_of ix k of None \<Rightarrow> [] | Some ids \<Rightarrow> ids) @ [dd_id doc]) ix))"

definition remove_from_secondary :: "'n text_api \<Rightarrow> string \<Rightarrow> 'n db_document \<Rightarrow> secondary_index \<Rightarrow> secondary_index" where
  "remove_from_secondary api field doc ix =
     (case json_get (dd_data doc) field of
        None \<Rightarrow> ix
      | Some v \<Rightarrow>
          (let k = value_to_index_key api v
           in case map_of ix k of
                None \<Rightarrow> ix
              | Some ids \<Rightarrow>
                  (let ids' = filter (\<lambda>i. i \<noteq> dd_id doc) ids
                   in if ids' = [] then bt_remove k ix else bt_insert k ids' ix)))"

definition index_secondary :: "'n text_api \<Rightarrow> 'n db_document \<Rightarrow> (string, secondary_index) hashmap \<Rightarrow> (string, secondary_index) hashmap" where
  "index_secondary api doc m = map (\<lambda>(field, ix). (field, add_to_secondary api field doc ix)) m"

definition remove_from_secondary_all :: "'n text_api \<Rightarrow> 'n db_document \<Rightarrow> (string, secondary_index) hashmap \<Rightarrow> (string, secondary_index) hashmap" where
  "remove_from_secondary_all api doc m = map (\<lambda>(field, ix). (field, remove_from_secondary api field doc ix)) m"

subsection \<open>Changes\<close>

text \<open>\<open>get_mut(collection)\<close> with its error, and a change of the collection.\<close>

definition on_collection ::
  "'n cassette \<Rightarrow> string \<Rightarrow> ('n collection \<Rightarrow> 'n collection \<times> 'r) \<Rightarrow> 'n cassette \<times> (db_error + 'r)" where
  "on_collection db name f =
     (case hm_get (ca_collections db) name of
        None \<Rightarrow> (db, Inl CollectionNotFound)
      | Some coll \<Rightarrow>
          (let (coll', r) = f coll in (db\<lparr>ca_collections := hm_insert name coll' (ca_collections db)\<rparr>, Inr r)))"

definition stamp_id :: "stamp \<Rightarrow> string" where
  "stamp_id st = nat_to_string (stamp_millis st) @ ''-'' @ nat_to_string (stamp_random st)"

definition collection_insert :: "'n text_api \<Rightarrow> stamp \<Rightarrow> 'n json \<Rightarrow> 'n collection \<Rightarrow> 'n collection" where
  "collection_insert api st data coll =
     (let doc = \<lparr>dd_id = stamp_id st, dd_data = data, dd_created = stamp_created st, dd_updated = stamp_updated st,
                 dd_deleted = False\<rparr>
      in coll\<lparr>cn_inverted := db_index_document doc (cn_inverted coll),
              cn_secondary := index_secondary api doc (cn_secondary coll),
              cn_documents := cn_documents coll @ [doc]\<rparr>)"

definition db_insert :: "'n text_api \<Rightarrow> stamp \<Rightarrow> 'n cassette \<Rightarrow> string \<Rightarrow> 'n json \<Rightarrow> 'n cassette \<times> string" where
  "db_insert api st db name data =
     (let coll = (case hm_get (ca_collections db) name of None \<Rightarrow> collection_new name | Some coll \<Rightarrow> coll)
      in (db\<lparr>ca_collections := hm_insert name (collection_insert api st data coll) (ca_collections db)\<rparr>, stamp_id st))"

definition collection_create_index :: "'n text_api \<Rightarrow> string \<Rightarrow> 'n collection \<Rightarrow> 'n collection" where
  "collection_create_index api field coll =
     (if hm_get (cn_secondary coll) field \<noteq> None then coll
      else coll\<lparr>cn_secondary :=
        hm_insert field (fold (add_to_secondary api field) (filter (\<lambda>d. \<not> dd_deleted d) (cn_documents coll)) [])
          (cn_secondary coll)\<rparr>)"

definition create_index :: "'n text_api \<Rightarrow> 'n cassette \<Rightarrow> string \<Rightarrow> string \<Rightarrow> 'n cassette \<times> (db_error + unit)" where
  "create_index api db name field = on_collection db name (\<lambda>coll. (collection_create_index api field coll, ()))"

definition drop_index :: "'n cassette \<Rightarrow> string \<Rightarrow> string \<Rightarrow> 'n cassette \<times> (db_error + bool)" where
  "drop_index db name field =
     on_collection db name (\<lambda>coll.
       (coll\<lparr>cn_secondary := hm_remove field (cn_secondary coll)\<rparr>, hm_get (cn_secondary coll) field \<noteq> None))"

definition list_indexes :: "'n cassette \<Rightarrow> string \<Rightarrow> string list" where
  "list_indexes db name =
     (case hm_get (ca_collections db) name of None \<Rightarrow> [] | Some coll \<Rightarrow> map fst (cn_secondary coll))"

text \<open>\<open>iter().position(...)\<close>: the first document with the id, deleted or not.\<close>

fun doc_position :: "string \<Rightarrow> 'n db_document list \<Rightarrow> nat option" where
  "doc_position i [] = None"
| "doc_position i (d # ds) = (if dd_id d = i then Some 0 else map_option Suc (doc_position i ds))"

definition collection_update :: "'n text_api \<Rightarrow> string \<Rightarrow> string \<Rightarrow> 'n json \<Rightarrow> 'n collection \<Rightarrow> 'n collection \<times> bool" where
  "collection_update api now i data coll =
     (case doc_position i (cn_documents coll) of
        None \<Rightarrow> (coll, False)
      | Some pos \<Rightarrow>
          (let doc = cn_documents coll ! pos in
           if dd_deleted doc then (coll, False)
           else (let inv = remove_from_index i (cn_inverted coll);
                     sec = remove_from_secondary_all api doc (cn_secondary coll);
                     doc' = doc\<lparr>dd_data := data, dd_updated := now\<rparr>
                 in (coll\<lparr>cn_documents := (cn_documents coll)[pos := doc'],
                          cn_inverted := db_index_document doc' inv,
                          cn_secondary := index_secondary api doc' sec\<rparr>, True))))"

definition db_update :: "'n text_api \<Rightarrow> string \<Rightarrow> 'n cassette \<Rightarrow> string \<Rightarrow> string \<Rightarrow> 'n json \<Rightarrow> 'n cassette \<times> (db_error + bool)" where
  "db_update api now db name i data = on_collection db name (collection_update api now i data)"

definition collection_delete :: "string \<Rightarrow> string \<Rightarrow> 'n collection \<Rightarrow> 'n collection \<times> bool" where
  "collection_delete now i coll =
     (case doc_position i (cn_documents coll) of
        None \<Rightarrow> (coll, False)
      | Some pos \<Rightarrow>
          (coll\<lparr>cn_documents := (cn_documents coll)[pos := (cn_documents coll ! pos)\<lparr>dd_deleted := True, dd_updated := now\<rparr>]\<rparr>,
           True))"

definition db_delete :: "string \<Rightarrow> 'n cassette \<Rightarrow> string \<Rightarrow> string \<Rightarrow> 'n cassette \<times> (db_error + bool)" where
  "db_delete now db name i = on_collection db name (collection_delete now i)"

definition collection_compact :: "'n text_api \<Rightarrow> 'n collection \<Rightarrow> 'n collection" where
  "collection_compact api coll =
     (let docs = filter (\<lambda>d. \<not> dd_deleted d) (cn_documents coll)
      in coll\<lparr>cn_documents := docs, cn_inverted := fold db_index_document docs [],
              cn_secondary := map (\<lambda>(field, _). (field, fold (add_to_secondary api field) docs [])) (cn_secondary coll)\<rparr>)"

definition db_compact :: "'n text_api \<Rightarrow> 'n cassette \<Rightarrow> 'n cassette \<times> nat" where
  "db_compact api db =
     (db\<lparr>ca_collections := map (\<lambda>(n, coll). (n, collection_compact api coll)) (ca_collections db)\<rparr>,
      sum_list (map (\<lambda>(n, coll). length (cn_documents coll) - length (cn_documents (collection_compact api coll)))
        (ca_collections db)))"

subsection \<open>Reading\<close>

text \<open>Every reader answers with no documents for an unknown collection.\<close>

definition read_collection :: "'n cassette \<Rightarrow> string \<Rightarrow> ('n collection \<Rightarrow> 'r list) \<Rightarrow> 'r list" where
  "read_collection db name f = (case hm_get (ca_collections db) name of None \<Rightarrow> [] | Some coll \<Rightarrow> f coll)"

definition find_live :: "'n db_document list \<Rightarrow> string \<Rightarrow> 'n db_document option" where
  "find_live docs i = List.find (\<lambda>d. dd_id d = i \<and> \<not> dd_deleted d) docs"

definition db_get :: "'n cassette \<Rightarrow> string \<Rightarrow> string \<Rightarrow> 'n db_document option" where
  "db_get db name i =
     (case hm_get (ca_collections db) name of None \<Rightarrow> None | Some coll \<Rightarrow> find_live (cn_documents coll) i)"

definition live_documents :: "'n collection \<Rightarrow> 'n db_document list" where
  "live_documents coll = filter (\<lambda>d. \<not> dd_deleted d) (cn_documents coll)"

definition db_scan :: "'n cassette \<Rightarrow> string \<Rightarrow> 'n db_document list" where
  "db_scan db name = read_collection db name live_documents"

text \<open>The score of a document is the number of entries of the index the tokens of the query meet.\<close>

definition score_ids :: "string list \<Rightarrow> (string, nat) hashmap \<Rightarrow> (string, nat) hashmap" where
  "score_ids ids scores =
     fold (\<lambda>i s. hm_insert i ((case hm_get s i of None \<Rightarrow> 0 | Some n \<Rightarrow> n) + 1) s) ids scores"

definition search_scores :: "field_index \<Rightarrow> string list \<Rightarrow> (string, nat) hashmap" where
  "search_scores ix tokens =
     fold (\<lambda>token scores. fold (\<lambda>fi scores. case hm_get fi token of None \<Rightarrow> scores | Some ids \<Rightarrow> score_ids ids scores)
       (hm_values ix) scores) tokens []"

text \<open>The live documents of a list of ids, in its order.\<close>

definition docs_of_ids :: "'n db_document list \<Rightarrow> string list \<Rightarrow> 'n db_document list" where
  "docs_of_ids docs ids = concat (map (\<lambda>i. case find_live docs i of None \<Rightarrow> [] | Some d \<Rightarrow> [d]) ids)"

definition collection_search :: "string \<Rightarrow> 'n collection \<Rightarrow> 'n db_document list" where
  "collection_search q coll =
     (let tokens = db_tokenize q in
      if tokens = [] then live_documents coll
      else (let scored = sort_key (\<lambda>(i, n). - int n) (search_scores (cn_inverted coll) tokens)
            in docs_of_ids (cn_documents coll) (map fst scored)))"

definition db_search :: "'n cassette \<Rightarrow> string \<Rightarrow> string \<Rightarrow> 'n db_document list" where
  "db_search db name q = read_collection db name (collection_search q)"

definition filter_key_value :: "string \<Rightarrow> (string \<times> string) option" where
  "filter_key_value text =
     (case split_by (\<lambda>c. c = CHR ''='') text of
        [k, v] \<Rightarrow> Some (trim k, trim_matches (CHR 34) (trim v))
      | _ \<Rightarrow> None)"

definition string_field :: "'n db_document \<Rightarrow> string \<Rightarrow> string \<Rightarrow> bool" where
  "string_field d k v \<longleftrightarrow> (case json_get (dd_data d) k of None \<Rightarrow> False | Some x \<Rightarrow> as_str x = Some v)"

definition collection_query :: "string \<Rightarrow> 'n collection \<Rightarrow> 'n db_document list" where
  "collection_query text coll =
     (case filter_key_value text of
        None \<Rightarrow> live_documents coll
      | Some (k, v) \<Rightarrow>
          (case hm_get (cn_secondary coll) k of
             Some ix \<Rightarrow>
               (case map_of ix v of
                  Some ids \<Rightarrow> filter (\<lambda>d. \<not> dd_deleted d \<and> dd_id d \<in> set ids) (cn_documents coll)
                | None \<Rightarrow> [])
           | None \<Rightarrow> filter (\<lambda>d. string_field d k v) (live_documents coll)))"

definition db_query :: "'n cassette \<Rightarrow> string \<Rightarrow> string \<Rightarrow> 'n db_document list" where
  "db_query db name text = read_collection db name (collection_query text)"

definition query_owned :: "'n cassette \<Rightarrow> string \<Rightarrow> string \<Rightarrow> 'n db_document list" where
  "query_owned db name text =
     read_collection db name (\<lambda>coll.
       case filter_key_value text of
         None \<Rightarrow> live_documents coll
       | Some (k, v) \<Rightarrow> filter (\<lambda>d. string_field d k v) (live_documents coll))"

text \<open>The readers with owned results read the same.\<close>

definition scan_owned :: "'n cassette \<Rightarrow> string \<Rightarrow> 'n db_document list" where
  "scan_owned db name = read_collection db name (\<lambda>coll. filter (\<lambda>d. \<not> dd_deleted d) (cn_documents coll))"

definition get_owned :: "'n cassette \<Rightarrow> string \<Rightarrow> string \<Rightarrow> 'n db_document option" where
  "get_owned db name i =
     Option.bind (hm_get (ca_collections db) name) (\<lambda>coll. List.find (\<lambda>d. dd_id d = i \<and> \<not> dd_deleted d) (cn_documents coll))"

lemma owned_readers: "scan_owned = db_scan" "get_owned = db_get"
  by (auto simp: fun_eq_iff scan_owned_def db_scan_def live_documents_def [abs_def] get_owned_def db_get_def find_live_def split: option.split)

text \<open>\<open>doc.data[field]\<close> is null when there is no such field.\<close>

definition data_at :: "'n json \<Rightarrow> string \<Rightarrow> 'n json" where
  "data_at v field = (case json_get v field of None \<Rightarrow> JNull | Some x \<Rightarrow> x)"

definition compare_by :: "string \<Rightarrow> string \<Rightarrow> string \<Rightarrow> bool" where
  "compare_by op a b =
     (if op = ''>'' then b < a else if op = ''<'' then a < b
      else if op = ''>='' then b \<le> a else if op = ''<='' then a \<le> b else False)"

definition collection_range :: "'n text_api \<Rightarrow> string \<Rightarrow> string \<Rightarrow> string \<Rightarrow> 'n collection \<Rightarrow> 'n db_document list" where
  "collection_range api field op v coll =
     (case hm_get (cn_secondary coll) field of
        Some ix \<Rightarrow>
          (if op = ''>'' then
             concat (map (\<lambda>(k, ids).
               if map_of ix v = Some ids then []
               else filter (\<lambda>d. v < value_to_index_key api (data_at (dd_data d) field)) (docs_of_ids (cn_documents coll) ids))
               (filter (\<lambda>(k, _). v \<le> k) ix))
           else if op = ''<'' then
             concat (map (\<lambda>(k, ids). docs_of_ids (cn_documents coll) ids) (filter (\<lambda>(k, _). k < v) ix))
           else if op = ''>='' then
             concat (map (\<lambda>(k, ids). docs_of_ids (cn_documents coll) ids) (filter (\<lambda>(k, _). v \<le> k) ix))
           else if op = ''<='' then
             concat (map (\<lambda>(k, ids). docs_of_ids (cn_documents coll) ids) (filter (\<lambda>(k, _). k \<le> v) ix))
           else [])
      | None \<Rightarrow>
          filter (\<lambda>d. case json_get (dd_data d) field of
                        None \<Rightarrow> False
                      | Some x \<Rightarrow> compare_by op (value_to_index_key api x) v)
            (live_documents coll))"

definition query_range :: "'n text_api \<Rightarrow> 'n cassette \<Rightarrow> string \<Rightarrow> string \<Rightarrow> string \<Rightarrow> string \<Rightarrow> 'n db_document list" where
  "query_range api db name field op v = read_collection db name (collection_range api field op v)"

text \<open>\<open>jsonpath\<close> is the \<open>path\<close> function of the crate: \<open>None\<close> is its error.\<close>

definition query_jsonpath :: "('n json \<Rightarrow> string \<Rightarrow> 'n json option) \<Rightarrow> 'n cassette \<Rightarrow> string \<Rightarrow> string \<Rightarrow> 'n db_document list" where
  "query_jsonpath jsonpath db name p =
     read_collection db name (\<lambda>coll.
       filter (\<lambda>d. case jsonpath (dd_data d) p of
                     None \<Rightarrow> False
                   | Some JNull \<Rightarrow> False
                   | Some (JArr xs) \<Rightarrow> xs \<noteq> []
                   | Some _ \<Rightarrow> True)
         (live_documents coll))"

subsection \<open>Files\<close>

record 'n db_codec =
  enc_db :: "'n cassette \<Rightarrow> bytes"
  dec_db :: "bytes \<Rightarrow> 'n cassette option"
  dec_entry :: "bytes \<Rightarrow> 'n wal_entry option"

record cassette_files =
  cf_main :: "bytes option"
  cf_wal :: "bytes option"

definition cassette_open :: "'n db_codec \<Rightarrow> cassette_files \<Rightarrow> db_error + 'n cassette" where
  "cassette_open c files =
     (case cf_main files of
        None \<Rightarrow> Inr cassette_new
      | Some bs \<Rightarrow> (case dec_db c bs of None \<Rightarrow> Inl BadJson | Some db \<Rightarrow> Inr db))"

definition cassette_save :: "'n db_codec \<Rightarrow> 'n cassette \<Rightarrow> cassette_files \<Rightarrow> cassette_files" where
  "cassette_save c db files = files\<lparr>cf_main := Some (enc_db c db)\<rparr>"

definition cassette_init :: "'n db_codec \<Rightarrow> cassette_files \<Rightarrow> cassette_files" where
  "cassette_init c files = cassette_save c cassette_new files"

text \<open>
  The callback of the replay; \<open>stamps\<close> gives the environment of the calls in their order. The
  results of the calls are dropped.
\<close>

fun replay_callback ::
  "'n text_api \<Rightarrow> (nat \<Rightarrow> stamp) \<Rightarrow> 'n cassette \<times> nat \<Rightarrow> 'n wal_entry \<Rightarrow> ('n cassette \<times> nat) outcome" where
  "replay_callback api stamps (db, k) (EInsert t name data) = Ok (fst (db_insert api (stamps k) db name data), k + 1)"
| "replay_callback api stamps (db, k) (EUpdate t name i data) =
     Ok (fst (db_update api (stamp_updated (stamps k)) db name i data), k + 1)"
| "replay_callback api stamps (db, k) (EDelete t name i) = Ok (fst (db_delete (stamp_updated (stamps k)) db name i), k + 1)"
| "replay_callback api stamps (db, k) e = Ok (db, k)"

text \<open>
  \<open>open_with_wal\<close> opens \<open>path\<close> itself as the log, not \<open>wal_path\<close>. The files are returned as they
  are afterwards: opening a missing or empty log file writes its header.
\<close>

definition open_with_wal ::
  "'n text_api \<Rightarrow> 'n db_codec \<Rightarrow> (nat \<Rightarrow> stamp) \<Rightarrow> cassette_files \<Rightarrow> cassette_files \<times> (db_error + 'n cassette)" where
  "open_with_wal api c stamps files =
     (case cassette_open c files of
        Inl e \<Rightarrow> (files, Inl e)
      | Inr db \<Rightarrow>
          (if cf_wal files = None then (files, Inr db)
           else (case wal_open (case cf_main files of None \<Rightarrow> [] | Some bs \<Rightarrow> bs) of
                   Ok w \<Rightarrow>
                     (let files1 = files\<lparr>cf_main := Some w\<rparr> in
                      case replay (dec_entry c) (replay_callback api stamps) w (db, 0) of
                        Ok (db', k) \<Rightarrow> (cassette_save c db' files1, Inr db')
                      | Err e \<Rightarrow> (files1, Inl (WalFailed e))
                      | Panic \<Rightarrow> (files1, Inl Panicked))
                 | Err e \<Rightarrow> (files, Inl (WalFailed e))
                 | Panic \<Rightarrow> (files, Inl Panicked))))"

subsection \<open>Invariants\<close>

definition ids_at :: "('k \<times> string list) list \<Rightarrow> 'k \<Rightarrow> string list" where
  "ids_at m k = (case map_of m k of None \<Rightarrow> [] | Some ids \<Rightarrow> ids)"

text \<open>How often a token occurs in a field of a document, and an id in the entry of the index.\<close>

definition token_count :: "'n db_document \<Rightarrow> string \<Rightarrow> string \<Rightarrow> nat" where
  "token_count d f t =
     (case as_object (dd_data d) of
        None \<Rightarrow> 0
      | Some obj \<Rightarrow> (\<Sum>(f', v)\<leftarrow>obj. if f' = f then (case as_str v of None \<Rightarrow> 0 | Some s \<Rightarrow> count_list (db_tokenize s) t) else 0))"

definition entry_count :: "field_index \<Rightarrow> string \<Rightarrow> string \<Rightarrow> string \<Rightarrow> nat" where
  "entry_count ix f t i = (case hm_get ix f of None \<Rightarrow> 0 | Some fi \<Rightarrow> count_list (ids_at fi t) i)"

definition docs_count :: "'n db_document list \<Rightarrow> string \<Rightarrow> string \<Rightarrow> string \<Rightarrow> nat" where
  "docs_count docs f t i = (\<Sum>d\<leftarrow>docs. if dd_id d = i then token_count d f t else 0)"

definition index_shape :: "field_index \<Rightarrow> bool" where
  "index_shape ix \<longleftrightarrow> hm_ok ix \<and> (\<forall>f fi. hm_get ix f = Some fi \<longrightarrow> hm_ok fi)"

definition inverted_ok :: "'n db_document list \<Rightarrow> field_index \<Rightarrow> bool" where
  "inverted_ok docs ix \<longleftrightarrow> index_shape ix \<and> (\<forall>f t i. entry_count ix f t i = docs_count docs f t i)"

definition key_of :: "'n text_api \<Rightarrow> 'n db_document \<Rightarrow> string \<Rightarrow> string option" where
  "key_of api d field = map_option (value_to_index_key api) (json_get (dd_data d) field)"

definition secondary_ok :: "'n text_api \<Rightarrow> string \<Rightarrow> 'n db_document list \<Rightarrow> secondary_index \<Rightarrow> bool" where
  "secondary_ok api field docs ix \<longleftrightarrow> bt_ok ix \<and>
     (\<forall>k. \<forall>i \<in> set (ids_at ix k). \<exists>d \<in> set docs. dd_id d = i \<and> key_of api d field = Some k) \<and>
     (\<forall>d \<in> set docs. \<forall>k. \<not> dd_deleted d \<and> key_of api d field = Some k \<longrightarrow> dd_id d \<in> set (ids_at ix k))"

definition collection_ok :: "'n text_api \<Rightarrow> 'n collection \<Rightarrow> bool" where
  "collection_ok api coll \<longleftrightarrow> distinct (map dd_id (cn_documents coll)) \<and>
     inverted_ok (cn_documents coll) (cn_inverted coll) \<and> hm_ok (cn_secondary coll) \<and>
     (\<forall>f ix. hm_get (cn_secondary coll) f = Some ix \<longrightarrow> secondary_ok api f (cn_documents coll) ix)"

definition cassette_ok :: "'n text_api \<Rightarrow> 'n cassette \<Rightarrow> bool" where
  "cassette_ok api db \<longleftrightarrow> hm_ok (ca_collections db) \<and>
     (\<forall>name coll. hm_get (ca_collections db) name = Some coll \<longrightarrow> collection_ok api coll)"

subsection \<open>The inverted index\<close>

lemma count_list_append1 [simp]: "count_list (xs @ [x]) y = count_list xs y + (if x = y then 1 else 0)"
  by (induction xs) auto

lemma ids_at_Nil [simp]: "ids_at [] = (\<lambda>k. [])"
  by (simp add: ids_at_def fun_eq_iff)

lemma push_id_ids: "ids_at (push_id i k m) k' = (if k' = k then ids_at m k @ [i] else ids_at m k')"
  by (simp add: push_id_def ids_at_def hm_simps)

lemma push_id_ok: "hm_ok m \<Longrightarrow> hm_ok (push_id i k m)"
  by (simp add: push_id_def hm_simps)

lemma fold_push_ids:
  "count_list (ids_at (fold (push_id i) ts m) t) j = count_list (ids_at m t) j + (if j = i then count_list ts t else 0)"
  by (induction ts arbitrary: m) (auto simp: push_id_ids)

lemma fold_push_ok: "hm_ok m \<Longrightarrow> hm_ok (fold (push_id i) ts m)"
  by (induction ts arbitrary: m) (auto simp: push_id_ok)

lemma index_text_count:
  "entry_count (index_text i f0 text ix) f t j =
     entry_count ix f t j + (if f = f0 \<and> j = i then count_list (db_tokenize text) t else 0)"
  by (auto simp: index_text_def entry_count_def hm_simps fold_push_ids split: option.splits)

lemma index_text_shape: "index_shape ix \<Longrightarrow> index_shape (index_text i f text ix)"
  by (auto simp: index_shape_def index_text_def hm_simps fold_push_ok split: option.splits)

lemma index_fields:
  "entry_count (fold (\<lambda>(field, v) ix. case as_str v of None \<Rightarrow> ix | Some text \<Rightarrow> index_text i field text ix) obj ix) f t j =
     entry_count ix f t j + (if j = i then
       (\<Sum>(f', v)\<leftarrow>obj. if f' = f then (case as_str v of None \<Rightarrow> 0 | Some s \<Rightarrow> count_list (db_tokenize s) t) else 0) else 0)"
  "index_shape ix \<Longrightarrow>
   index_shape (fold (\<lambda>(field, v) ix. case as_str v of None \<Rightarrow> ix | Some text \<Rightarrow> index_text i field text ix) obj ix)"
  by (induction obj arbitrary: ix) (auto simp: index_text_count index_text_shape split: option.splits)

lemma db_index_document_count:
  "entry_count (db_index_document d ix) f t i = entry_count ix f t i + (if i = dd_id d then token_count d f t else 0)"
  by (auto simp: db_index_document_def token_count_def index_fields split: option.splits)

lemma db_index_document_shape: "index_shape ix \<Longrightarrow> index_shape (db_index_document d ix)"
  by (auto simp: db_index_document_def index_fields split: option.splits)

lemma index_documents:
  "entry_count (fold db_index_document docs ix) f t i = entry_count ix f t i + docs_count docs f t i"
  "index_shape ix \<Longrightarrow> index_shape (fold db_index_document docs ix)"
  by (induction docs arbitrary: ix) (auto simp: db_index_document_count db_index_document_shape docs_count_def)

lemma map_of_filter_value:
  "distinct (map fst m) \<Longrightarrow>
   map_of (filter (\<lambda>(k, v). P v) m) k = (case map_of m k of None \<Rightarrow> None | Some v \<Rightarrow> if P v then Some v else None)"
proof (induction m)
  case Nil
  then show ?case by simp
next
  case (Cons p m)
  obtain k' v where p: "p = (k', v)" by (cases p)
  have "map_of (filter (\<lambda>(k, v). P v) m) k = None" if "k = k'"
    using Cons.prems p that by (auto simp: map_of_eq_None_iff)
  with Cons p show ?case by (auto split: option.splits)
qed

lemma map_of_map_value: "map_of (map (\<lambda>(k, v). (k, g v)) m) k = map_option g (map_of m k)"
  by (induction m) auto

lemma keys_map_value: "map fst (map (\<lambda>(k, v). (k, g v)) m) = map fst m"
  by (induction m) auto

lemma hm_ok_filter: "hm_ok m \<Longrightarrow> hm_ok (filter P m)"
  unfolding hm_ok_def by (induction m) auto

lemma remove_from_index_inner:
  assumes "hm_ok fi"
  shows "ids_at (filter (\<lambda>(t, ids). ids \<noteq> []) (map (\<lambda>(t, ids). (t, filter (\<lambda>j. j \<noteq> i) ids)) fi)) t = filter (\<lambda>j. j \<noteq> i) (ids_at fi t)"
    and "hm_ok (filter (\<lambda>(t, ids). ids \<noteq> []) (map (\<lambda>(t, ids). (t, filter (\<lambda>j. j \<noteq> i) ids)) fi))"
proof -
  have d: "distinct (map fst (map (\<lambda>(t, ids). (t, filter (\<lambda>j. j \<noteq> i) ids)) fi))"
    using assms by (simp only: keys_map_value hm_ok_def)
  show "ids_at (filter (\<lambda>(t, ids). ids \<noteq> []) (map (\<lambda>(t, ids). (t, filter (\<lambda>j. j \<noteq> i) ids)) fi)) t = filter (\<lambda>j. j \<noteq> i) (ids_at fi t)"
    unfolding ids_at_def map_of_filter_value [OF d] map_of_map_value by (auto split: option.split)
  show "hm_ok (filter (\<lambda>(t, ids). ids \<noteq> []) (map (\<lambda>(t, ids). (t, filter (\<lambda>j. j \<noteq> i) ids)) fi))"
    using d by (intro hm_ok_filter) (simp add: hm_ok_def)
qed

lemma count_list_filter_ne: "count_list (filter (\<lambda>j. j \<noteq> i) ids) k = (if k = i then 0 else count_list ids k)"
  by (induction ids) auto

lemma remove_from_index_ok:
  assumes "index_shape ix"
  shows "entry_count (remove_from_index i ix) f t j = (if j = i then 0 else entry_count ix f t j)"
    and "index_shape (remove_from_index i ix)"
proof -
  define g where "g fi = filter (\<lambda>(t, ids). ids \<noteq> []) (map (\<lambda>(t, ids). (t, filter (\<lambda>j. j \<noteq> i) ids)) fi)"
    for fi :: "(string, string list) hashmap"
  have rem: "remove_from_index i ix = filter (\<lambda>(f, fi). fi \<noteq> []) (map (\<lambda>(f, fi). (f, g fi)) ix)"
    by (simp add: remove_from_index_def g_def)
  have d: "distinct (map fst (map (\<lambda>(f, fi). (f, g fi)) ix))"
    using assms by (simp only: keys_map_value index_shape_def hm_ok_def)
  have get: "hm_get (remove_from_index i ix) f =
      (case hm_get ix f of None \<Rightarrow> None | Some fi \<Rightarrow> if g fi \<noteq> [] then Some (g fi) else None)" for f
    unfolding rem map_of_filter_value [OF d] map_of_map_value by (auto split: option.split)
  have inner: "count_list (ids_at (g fi) t) j = (if j = i then 0 else count_list (ids_at fi t) j)" "hm_ok (g fi)"
    if "hm_get ix f = Some fi" for f fi t j
  proof -
    have "hm_ok fi" using assms that by (auto simp: index_shape_def)
    from remove_from_index_inner [OF this, of i] show "hm_ok (g fi)"
      "count_list (ids_at (g fi) t) j = (if j = i then 0 else count_list (ids_at fi t) j)"
      by (simp_all add: g_def count_list_filter_ne)
  qed
  have zero: "count_list (ids_at fi t) j = 0 \<or> j = i" if "hm_get ix f = Some fi" "g fi = []" for f fi t j
    using inner(1) [OF that(1), of t j] that(2) by (auto split: if_splits)
  show "entry_count (remove_from_index i ix) f t j = (if j = i then 0 else entry_count ix f t j)"
    using zero inner(1) by (auto simp: entry_count_def get split: option.split)
  show "index_shape (remove_from_index i ix)"
    unfolding index_shape_def
  proof (intro conjI allI impI)
    show "hm_ok (remove_from_index i ix)" unfolding rem using d by (intro hm_ok_filter) (simp add: hm_ok_def)
    show "hm_ok fi" if "hm_get (remove_from_index i ix) f = Some fi" for f fi
      using that inner(2) by (auto simp: get split: option.splits if_splits)
  qed
qed

subsection \<open>Secondary indexes\<close>

lemma add_to_secondary_ok:
  assumes "bt_ok ix"
  shows "bt_ok (add_to_secondary api f d ix)"
    and "ids_at (add_to_secondary api f d ix) k = ids_at ix k @ (if key_of api d f = Some k then [dd_id d] else [])"
  using assms by (auto simp: add_to_secondary_def key_of_def ids_at_def Let_def hm_simps split: option.splits)

lemma remove_from_secondary_ok:
  assumes "bt_ok ix"
  shows "bt_ok (remove_from_secondary api f d ix)"
    and "ids_at (remove_from_secondary api f d ix) k =
      (if key_of api d f = Some k then filter (\<lambda>i. i \<noteq> dd_id d) (ids_at ix k) else ids_at ix k)"
  using assms by (auto simp: remove_from_secondary_def key_of_def ids_at_def Let_def hm_simps split: option.splits)

lemma add_all_secondary:
  assumes "bt_ok ix"
  shows "bt_ok (fold (add_to_secondary api f) docs ix)"
    and "ids_at (fold (add_to_secondary api f) docs ix) k =
      ids_at ix k @ map dd_id (filter (\<lambda>d. key_of api d f = Some k) docs)"
  using assms by (induction docs arbitrary: ix) (auto simp: add_to_secondary_ok)

lemma secondary_ok_built:
  assumes "set live \<subseteq> set docs" "\<And>d. d \<in> set docs \<Longrightarrow> \<not> dd_deleted d \<Longrightarrow> d \<in> set live"
  shows "secondary_ok api f docs (fold (add_to_secondary api f) live [])"
  using assms by (auto simp: secondary_ok_def add_all_secondary hm_simps)

lemma secondary_ok_add:
  assumes "secondary_ok api f docs ix"
  shows "secondary_ok api f (docs @ [d]) (add_to_secondary api f d ix)"
  using assms by (auto simp: secondary_ok_def add_to_secondary_ok)

lemma secondary_ok_replace:
  assumes "secondary_ok api f (xs @ d # ys) ix" "distinct (map dd_id (xs @ d # ys))" "dd_id d' = dd_id d"
  shows "secondary_ok api f (xs @ d' # ys) (add_to_secondary api f d' (remove_from_secondary api f d ix))"
proof -
  let ?r = "remove_from_secondary api f d ix"
  have ok: "bt_ok ix" using assms(1) by (simp add: secondary_ok_def)
  note r = remove_from_secondary_ok [OF ok, of api f d]
  note a = add_to_secondary_ok [OF r(1), of api f d']
  have other: "i \<in> set (ids_at ?r k) \<Longrightarrow> \<exists>e \<in> set xs \<union> set ys. dd_id e = i \<and> key_of api e f = Some k" for i k
  proof -
    assume i: "i \<in> set (ids_at ?r k)"
    then have "i \<in> set (ids_at ix k)" by (auto simp: r(2) split: if_splits)
    with assms(1) obtain e where e: "e \<in> set (xs @ d # ys)" "dd_id e = i" "key_of api e f = Some k"
      unfolding secondary_ok_def by blast
    moreover have "e \<noteq> d" using i e by (auto simp: r(2))
    ultimately show ?thesis by auto
  qed
  have keep: "dd_id e \<in> set (ids_at ?r k)"
    if "e \<in> set xs \<union> set ys" "\<not> dd_deleted e" "key_of api e f = Some k" for e k
  proof -
    have "dd_id e \<in> set (ids_at ix k)" using assms(1) that by (auto simp: secondary_ok_def)
    moreover have "dd_id e \<noteq> dd_id d" using that(1) assms(2) by (auto simp: image_def)
    ultimately show ?thesis by (simp add: r(2))
  qed
  show ?thesis
    unfolding secondary_ok_def a(2)
    using a(1) other keep assms(3) by (auto split: if_splits)
qed

text \<open>A tombstone keeps its data, so no index changes.\<close>

lemma secondary_ok_delete:
  assumes "secondary_ok api f (xs @ d # ys) ix" "dd_id d' = dd_id d" "dd_data d' = dd_data d" "dd_deleted d'"
  shows "secondary_ok api f (xs @ d' # ys) ix"
proof -
  have "key_of api d' f = key_of api d f" using assms(3) by (simp add: key_of_def)
  with assms show ?thesis unfolding secondary_ok_def by fastforce
qed

subsection \<open>Every change keeps the invariant\<close>

lemma doc_position_split:
  "doc_position i docs = Some pos \<longleftrightarrow>
   (\<exists>xs d ys. docs = xs @ d # ys \<and> length xs = pos \<and> dd_id d = i \<and> i \<notin> set (map dd_id xs))"
proof (induction docs arbitrary: pos)
  case Nil
  then show ?case by simp
next
  case (Cons e docs)
  show ?case
  proof (cases "dd_id e = i")
    case True
    have "xs = []" if "e # docs = xs @ d # ys" "i \<notin> set (map dd_id xs)" for xs d ys
      using that True by (cases xs) auto
    with True show ?thesis by (auto intro: exI [of _ "[]"])
  next
    case False
    have "(\<exists>xs d ys. e # docs = xs @ d # ys \<and> length xs = pos \<and> dd_id d = i \<and> i \<notin> set (map dd_id xs)) \<longleftrightarrow>
        (\<exists>q. pos = Suc q \<and> (\<exists>xs d ys. docs = xs @ d # ys \<and> length xs = q \<and> dd_id d = i \<and> i \<notin> set (map dd_id xs)))"
      (is "?L \<longleftrightarrow> ?R")
    proof
      assume ?L
      then obtain xs d ys where "e # docs = xs @ d # ys" "length xs = pos" "dd_id d = i" "i \<notin> set (map dd_id xs)" by blast
      with False show ?R by (cases xs) auto
    next
      assume ?R
      then obtain q xs d ys where "pos = Suc q" "docs = xs @ d # ys" "length xs = q" "dd_id d = i" "i \<notin> set (map dd_id xs)" by blast
      with False show ?L by (intro exI [of _ "e # xs"]) auto
    qed
    with False Cons.IH show ?thesis by auto
  qed
qed

lemma doc_position_None: "doc_position i docs = None \<longleftrightarrow> i \<notin> set (map dd_id docs)"
  by (induction docs) auto

lemma docs_count_split: "docs_count (xs @ d # ys) f t i = docs_count xs f t i + docs_count ys f t i + (if dd_id d = i then token_count d f t else 0)"
  by (simp add: docs_count_def)

lemma docs_count_absent: "i \<notin> set (map dd_id docs) \<Longrightarrow> docs_count docs f t i = 0"
  by (induction docs) (auto simp: docs_count_def)

lemma index_secondary_get:
  "hm_get (index_secondary api d m) f = map_option (add_to_secondary api f d) (hm_get m f)"
  "hm_get (remove_from_secondary_all api d m) f = map_option (remove_from_secondary api f d) (hm_get m f)"
  "hm_ok m \<Longrightarrow> hm_ok (index_secondary api d m)" "hm_ok m \<Longrightarrow> hm_ok (remove_from_secondary_all api d m)"
  by (induction m) (auto simp: index_secondary_def remove_from_secondary_all_def hm_ok_def o_def case_prod_beta)

lemma collection_new_ok: "collection_ok api (collection_new name)"
  by (simp add: collection_ok_def collection_new_def inverted_ok_def index_shape_def entry_count_def docs_count_def hm_simps)

lemma collection_insert_ok:
  assumes "collection_ok api coll" "stamp_id st \<notin> set (map dd_id (cn_documents coll))"
  shows "collection_ok api (collection_insert api st data coll)"
  using assms
  by (auto simp: collection_ok_def collection_insert_def Let_def inverted_ok_def db_index_document_count
      db_index_document_shape docs_count_def index_secondary_get secondary_ok_add)

lemma collection_create_index_ok:
  assumes "collection_ok api coll"
  shows "collection_ok api (collection_create_index api field coll)"
  using assms by (auto simp: collection_ok_def collection_create_index_def hm_simps intro!: secondary_ok_built split: if_splits)

lemma collection_compact_parts:
  "cn_documents (collection_compact api coll) = filter (\<lambda>d. \<not> dd_deleted d) (cn_documents coll)"
  "cn_inverted (collection_compact api coll) = fold db_index_document (filter (\<lambda>d. \<not> dd_deleted d) (cn_documents coll)) []"
  "hm_get (cn_secondary (collection_compact api coll)) f =
     map_option (\<lambda>_. fold (add_to_secondary api f) (filter (\<lambda>d. \<not> dd_deleted d) (cn_documents coll)) []) (hm_get (cn_secondary coll) f)"
  "map fst (cn_secondary (collection_compact api coll)) = map fst (cn_secondary coll)"
proof -
  have "map_of (map (\<lambda>(k, _). (k, g k)) m) f = map_option (\<lambda>_. g f) (map_of m f)" for g :: "string \<Rightarrow> secondary_index" and m :: "(string, secondary_index) hashmap"
    by (induction m) auto
  then show "hm_get (cn_secondary (collection_compact api coll)) f =
     map_option (\<lambda>_. fold (add_to_secondary api f) (filter (\<lambda>d. \<not> dd_deleted d) (cn_documents coll)) []) (hm_get (cn_secondary coll) f)"
    by (simp add: collection_compact_def Let_def)
qed (simp_all add: collection_compact_def Let_def o_def case_prod_beta)

lemma collection_compact_ok:
  assumes "collection_ok api coll"
  shows "collection_ok api (collection_compact api coll)"
proof -
  define docs where "docs = filter (\<lambda>d. \<not> dd_deleted d) (cn_documents coll)"
  note parts = collection_compact_parts [of api coll, folded docs_def]
  have "distinct (map dd_id docs)" using assms by (simp add: docs_def collection_ok_def distinct_map_filter)
  moreover have "inverted_ok docs (fold db_index_document docs [])"
    using index_documents(2) [of "[]"] by (simp add: inverted_ok_def index_documents(1)) (simp add: entry_count_def index_shape_def hm_simps)
  moreover have "secondary_ok api f docs (fold (add_to_secondary api f) docs [])" for f
    by (rule secondary_ok_built) auto
  moreover have "hm_ok (cn_secondary (collection_compact api coll))"
    using assms parts(4) by (simp add: collection_ok_def hm_ok_def)
  ultimately show ?thesis by (auto simp: collection_ok_def parts)
qed

lemma collection_update_ok:
  assumes "collection_ok api coll"
  shows "collection_ok api (fst (collection_update api now i data coll))"
proof (cases "doc_position i (cn_documents coll)")
  case None
  with assms show ?thesis by (simp add: collection_update_def)
next
  case (Some pos)
  then obtain xs d ys where split: "cn_documents coll = xs @ d # ys" "length xs = pos" "dd_id d = i"
    by (auto simp: doc_position_split)
  let ?d = "d\<lparr>dd_data := data, dd_updated := now\<rparr>"
  have ids: "distinct (map dd_id (xs @ d # ys))" using assms split by (simp add: collection_ok_def)
  have inv: "inverted_ok (xs @ d # ys) (cn_inverted coll)" using assms split by (simp add: collection_ok_def)
  have absent: "docs_count xs f t i = 0" "docs_count ys f t i = 0" for f t
    using ids split(3) by (auto intro!: docs_count_absent)
  have "inverted_ok (xs @ ?d # ys) (db_index_document ?d (remove_from_index i (cn_inverted coll)))"
    using inv absent split(3)
    by (auto simp: inverted_ok_def db_index_document_count db_index_document_shape remove_from_index_ok docs_count_split)
  moreover have "secondary_ok api f (xs @ ?d # ys) (add_to_secondary api f ?d (remove_from_secondary api f d ix))"
    if "hm_get (cn_secondary coll) f = Some ix" for f ix
    using that assms split ids by (intro secondary_ok_replace) (auto simp: collection_ok_def)
  moreover have "fst (collection_update api now i data coll) = (if dd_deleted d then coll
      else coll\<lparr>cn_documents := xs @ ?d # ys, cn_inverted := db_index_document ?d (remove_from_index i (cn_inverted coll)),
        cn_secondary := index_secondary api ?d (remove_from_secondary_all api d (cn_secondary coll))\<rparr>)"
    using Some split by (auto simp: collection_update_def Let_def)
  moreover have "distinct (map dd_id (xs @ ?d # ys))" using ids by simp
  moreover have "hm_ok (cn_secondary coll)" using assms by (simp add: collection_ok_def)
  ultimately show ?thesis using assms by (auto simp: collection_ok_def index_secondary_get)
qed

lemma collection_delete_ok:
  assumes "collection_ok api coll"
  shows "collection_ok api (fst (collection_delete now i coll))"
proof (cases "doc_position i (cn_documents coll)")
  case None
  with assms show ?thesis by (simp add: collection_delete_def)
next
  case (Some pos)
  then obtain xs d ys where split: "cn_documents coll = xs @ d # ys" "length xs = pos" "dd_id d = i"
    by (auto simp: doc_position_split)
  let ?d = "d\<lparr>dd_deleted := True, dd_updated := now\<rparr>"
  have "token_count ?d = token_count d" by (simp add: token_count_def fun_eq_iff)
  then have "inverted_ok (xs @ ?d # ys) (cn_inverted coll)"
    using assms split by (simp add: collection_ok_def inverted_ok_def docs_count_split)
  moreover have "secondary_ok api f (xs @ ?d # ys) ix" if "hm_get (cn_secondary coll) f = Some ix" for f ix
    using secondary_ok_delete [of api f xs d ys ix ?d] that assms split by (simp add: collection_ok_def)
  moreover have "fst (collection_delete now i coll) = coll\<lparr>cn_documents := xs @ ?d # ys\<rparr>"
    using Some split by (auto simp: collection_delete_def)
  moreover have "distinct (map dd_id (xs @ ?d # ys))" "hm_ok (cn_secondary coll)"
    using assms split by (auto simp: collection_ok_def)
  ultimately show ?thesis by (simp add: collection_ok_def)
qed

subsection \<open>The database as a store of documents\<close>

datatype 'n db_op =
    DbInsert string "'n json"
  | DbUpdate string string "'n json"
  | DbDelete string string
  | DbCreateIndex string string
  | DbDropIndex string string
  | DbCompact

fun cassette_apply :: "'n text_api \<Rightarrow> stamp \<Rightarrow> 'n cassette \<Rightarrow> 'n db_op \<Rightarrow> 'n cassette" where
  "cassette_apply api st db (DbInsert name data) = fst (db_insert api st db name data)"
| "cassette_apply api st db (DbUpdate name i data) = fst (db_update api (stamp_updated st) db name i data)"
| "cassette_apply api st db (DbDelete name i) = fst (db_delete (stamp_updated st) db name i)"
| "cassette_apply api st db (DbCreateIndex name field) = fst (create_index api db name field)"
| "cassette_apply api st db (DbDropIndex name field) = fst (drop_index db name field)"
| "cassette_apply api st db DbCompact = fst (db_compact api db)"

text \<open>The id made of the clock and a random number is new to the collection.\<close>

definition known_ids :: "'n cassette \<Rightarrow> string \<Rightarrow> string set" where
  "known_ids db name = (case hm_get (ca_collections db) name of None \<Rightarrow> {} | Some coll \<Rightarrow> dd_id ` set (cn_documents coll))"

fun db_admissible :: "stamp \<Rightarrow> 'n cassette \<Rightarrow> 'n db_op \<Rightarrow> bool" where
  "db_admissible st db (DbInsert name data) = (stamp_id st \<notin> known_ids db name)"
| "db_admissible st db _ = True"

text \<open>What the operations do to the documents that can be read.\<close>

fun db_spec :: "stamp \<Rightarrow> (string \<Rightarrow> string \<rightharpoonup> 'n db_document) \<Rightarrow> 'n db_op \<Rightarrow> string \<Rightarrow> string \<rightharpoonup> 'n db_document" where
  "db_spec st m (DbInsert name data) =
     m(name := (m name)(stamp_id st \<mapsto> \<lparr>dd_id = stamp_id st, dd_data = data, dd_created = stamp_created st,
         dd_updated = stamp_updated st, dd_deleted = False\<rparr>))"
| "db_spec st m (DbUpdate name i data) =
     m(name := (case m name i of None \<Rightarrow> m name
                | Some d \<Rightarrow> (m name)(i \<mapsto> d\<lparr>dd_data := data, dd_updated := stamp_updated st\<rparr>)))"
| "db_spec st m (DbDelete name i) = m(name := (m name)(i := None))"
| "db_spec st m _ = m"

lemma on_collection_ok:
  assumes "cassette_ok api db" "\<And>coll. collection_ok api coll \<Longrightarrow> collection_ok api (fst (f coll))"
  shows "cassette_ok api (fst (on_collection db name f))"
  using assms by (auto simp: cassette_ok_def on_collection_def hm_simps case_prod_beta split: option.splits)

lemma on_collection_get:
  "db_get (fst (on_collection db name f)) =
     (db_get db)(name := (case hm_get (ca_collections db) name of
         None \<Rightarrow> Map.empty | Some coll \<Rightarrow> find_live (cn_documents (fst (f coll)))))"
  by (auto simp: fun_eq_iff db_get_def on_collection_def hm_simps case_prod_beta split: option.splits)

lemma find_live_absent: "i \<notin> dd_id ` set docs \<Longrightarrow> find_live docs i = None"
  by (auto simp: find_live_def find_None_iff)

lemma find_live_split:
  "distinct (map dd_id (xs @ d # ys)) \<Longrightarrow>
   find_live (xs @ d # ys) = (find_live (xs @ ys))(dd_id d := (if dd_deleted d then None else Some d))"
proof (induction xs)
  case Nil
  have "find_live ys (dd_id d) = None" using Nil by (intro find_live_absent) simp
  then show ?case by (auto simp: find_live_def fun_eq_iff)
next
  case (Cons x xs)
  then have "find_live (xs @ d # ys) = (find_live (xs @ ys))(dd_id d := (if dd_deleted d then None else Some d))"
    "dd_id x \<noteq> dd_id d" by auto
  then show ?case by (auto simp: find_live_def fun_eq_iff)
qed

lemma find_live_filter: "find_live (filter (\<lambda>d. \<not> dd_deleted d) docs) = find_live docs"
proof
  show "find_live (filter (\<lambda>d. \<not> dd_deleted d) docs) i = find_live docs i" for i
    by (induction docs) (auto simp: find_live_def)
qed

lemma find_live_iff:
  assumes "distinct (map dd_id docs)"
  shows "find_live docs i = Some d \<longleftrightarrow> d \<in> set docs \<and> dd_id d = i \<and> \<not> dd_deleted d"
  using assms
proof (induction docs)
  case Nil
  then show ?case by (simp add: find_live_def)
next
  case (Cons e docs)
  then show ?case by (auto simp: find_live_def image_iff)
qed

lemma collection_update_live:
  assumes "collection_ok api coll"
  shows "find_live (cn_documents (fst (collection_update api now i data coll))) =
      (case find_live (cn_documents coll) i of None \<Rightarrow> find_live (cn_documents coll)
       | Some d \<Rightarrow> (find_live (cn_documents coll))(i \<mapsto> d\<lparr>dd_data := data, dd_updated := now\<rparr>))"
    and "snd (collection_update api now i data coll) \<longleftrightarrow> find_live (cn_documents coll) i \<noteq> None"
proof -
  have "find_live (cn_documents (fst (collection_update api now i data coll))) =
      (case find_live (cn_documents coll) i of None \<Rightarrow> find_live (cn_documents coll)
       | Some d \<Rightarrow> (find_live (cn_documents coll))(i \<mapsto> d\<lparr>dd_data := data, dd_updated := now\<rparr>)) \<and>
    snd (collection_update api now i data coll) = (find_live (cn_documents coll) i \<noteq> None)"
  proof (cases "doc_position i (cn_documents coll)")
    case None
    then have "i \<notin> dd_id ` set (cn_documents coll)" by (simp add: doc_position_None)
    with None show ?thesis by (simp add: collection_update_def find_live_absent fun_upd_idem)
  next
    case (Some pos)
    then obtain xs d ys where split: "cn_documents coll = xs @ d # ys" "length xs = pos" "dd_id d = i"
      by (auto simp: doc_position_split)
    let ?d = "d\<lparr>dd_data := data, dd_updated := now\<rparr>"
    have ids: "distinct (map dd_id (xs @ d # ys))" "distinct (map dd_id (xs @ ?d # ys))"
      using assms split by (auto simp: collection_ok_def)
    show ?thesis
      using Some split find_live_split [OF ids(1)] find_live_split [OF ids(2)]
      by (auto simp: collection_update_def Let_def)
  qed
  then show "find_live (cn_documents (fst (collection_update api now i data coll))) =
      (case find_live (cn_documents coll) i of None \<Rightarrow> find_live (cn_documents coll)
       | Some d \<Rightarrow> (find_live (cn_documents coll))(i \<mapsto> d\<lparr>dd_data := data, dd_updated := now\<rparr>))"
    and "snd (collection_update api now i data coll) \<longleftrightarrow> find_live (cn_documents coll) i \<noteq> None" by blast+
qed

lemma collection_delete_live:
  assumes "collection_ok api coll"
  shows "find_live (cn_documents (fst (collection_delete now i coll))) = (find_live (cn_documents coll))(i := None)"
    and "snd (collection_delete now i coll) \<longleftrightarrow> i \<in> dd_id ` set (cn_documents coll)"
proof -
  have "find_live (cn_documents (fst (collection_delete now i coll))) = (find_live (cn_documents coll))(i := None) \<and>
      snd (collection_delete now i coll) = (i \<in> dd_id ` set (cn_documents coll))"
  proof (cases "doc_position i (cn_documents coll)")
    case None
    then have "i \<notin> dd_id ` set (cn_documents coll)" by (simp add: doc_position_None)
    with None show ?thesis by (simp add: collection_delete_def find_live_absent fun_upd_idem)
  next
    case (Some pos)
    then obtain xs d ys where split: "cn_documents coll = xs @ d # ys" "length xs = pos" "dd_id d = i"
      by (auto simp: doc_position_split)
    let ?d = "d\<lparr>dd_deleted := True, dd_updated := now\<rparr>"
    have ids: "distinct (map dd_id (xs @ d # ys))" "distinct (map dd_id (xs @ ?d # ys))"
      using assms split by (auto simp: collection_ok_def)
    show ?thesis
      using Some split find_live_split [OF ids(1)] find_live_split [OF ids(2)] by (auto simp: collection_delete_def)
  qed
  then show "find_live (cn_documents (fst (collection_delete now i coll))) = (find_live (cn_documents coll))(i := None)"
    and "snd (collection_delete now i coll) \<longleftrightarrow> i \<in> dd_id ` set (cn_documents coll)" by blast+
qed

lemma db_insert_ok:
  assumes "cassette_ok api db" "stamp_id st \<notin> known_ids db name"
  shows "cassette_ok api (fst (db_insert api st db name data))"
    and "db_get (fst (db_insert api st db name data)) = db_spec st (db_get db) (DbInsert name data)"
proof -
  define coll where "coll = (case hm_get (ca_collections db) name of None \<Rightarrow> collection_new name | Some coll \<Rightarrow> coll)"
  have ok: "collection_ok api coll" and new: "stamp_id st \<notin> dd_id ` set (cn_documents coll)"
    and live: "find_live (cn_documents coll) = db_get db name"
    using assms collection_new_ok
    by (auto simp: coll_def cassette_ok_def known_ids_def db_get_def collection_new_def find_live_def fun_eq_iff split: option.splits)
  have ins: "fst (db_insert api st db name data) =
      db\<lparr>ca_collections := hm_insert name (collection_insert api st data coll) (ca_collections db)\<rparr>"
    by (simp add: db_insert_def coll_def)
  show "cassette_ok api (fst (db_insert api st db name data))"
    using assms(1) collection_insert_ok [OF ok, of st data] new by (auto simp: ins cassette_ok_def hm_simps)
  let ?doc = "\<lparr>dd_id = stamp_id st, dd_data = data, dd_created = stamp_created st, dd_updated = stamp_updated st, dd_deleted = False\<rparr>"
  have "cn_documents (collection_insert api st data coll) = cn_documents coll @ [?doc]"
    by (simp add: collection_insert_def Let_def)
  moreover have "distinct (map dd_id (cn_documents coll @ [?doc]))" using ok new by (simp add: collection_ok_def)
  ultimately have "find_live (cn_documents (collection_insert api st data coll)) = (db_get db name)(stamp_id st \<mapsto> ?doc)"
    using find_live_split [of "cn_documents coll" ?doc "[]"] live by simp
  then show "db_get (fst (db_insert api st db name data)) = db_spec st (db_get db) (DbInsert name data)"
    by (auto simp: ins db_get_def hm_simps fun_eq_iff)
qed

lemma db_get_known: "cassette_ok api db \<Longrightarrow> hm_get (ca_collections db) name = Some coll \<Longrightarrow> db_get db name = find_live (cn_documents coll)"
  by (simp add: db_get_def fun_eq_iff)

lemma db_get_unknown: "hm_get (ca_collections db) name = None \<Longrightarrow> db_get db name = Map.empty"
  by (simp add: db_get_def fun_eq_iff)

lemma db_compact_ok:
  assumes "cassette_ok api db"
  shows "cassette_ok api (fst (db_compact api db))" "db_get (fst (db_compact api db)) = db_get db"
proof -
  have get: "hm_get (ca_collections (fst (db_compact api db))) name = map_option (collection_compact api) (hm_get (ca_collections db) name)" for name
    by (simp add: db_compact_def map_of_map_value)
  have keys: "map fst (ca_collections (fst (db_compact api db))) = map fst (ca_collections db)"
    by (simp add: db_compact_def o_def case_prod_beta)
  show "cassette_ok api (fst (db_compact api db))"
    using assms keys by (auto simp: cassette_ok_def get hm_ok_def collection_compact_ok)
  show "db_get (fst (db_compact api db)) = db_get db"
    by (auto simp: fun_eq_iff db_get_def get collection_compact_parts find_live_filter split: option.splits)
qed

lemma cassette_apply_ok:
  assumes "cassette_ok api db" "db_admissible st db op"
  shows "cassette_ok api (cassette_apply api st db op) \<and> db_get (cassette_apply api st db op) = db_spec st (db_get db) op"
proof -
  have coll: "collection_ok api coll" if "hm_get (ca_collections db) name = Some coll" for name coll
    using assms(1) that by (auto simp: cassette_ok_def)
  have same: "(db_get db)(name := (case hm_get (ca_collections db) name of None \<Rightarrow> Map.empty
      | Some coll \<Rightarrow> find_live (cn_documents (fst (f coll))))) = db_get db"
    if "\<And>coll. cn_documents (fst (f coll)) = cn_documents coll" for f :: "'a collection \<Rightarrow> 'a collection \<times> 'b" and name
    using that by (auto simp: fun_eq_iff db_get_def split: option.split)
  have drop_ok: "collection_ok api (c\<lparr>cn_secondary := hm_remove field (cn_secondary c)\<rparr>)" if "collection_ok api c" for c field
    using that by (auto simp: collection_ok_def hm_simps split: if_splits)
  show ?thesis
  proof (cases op)
    case (DbInsert name data)
    with assms db_insert_ok [OF assms(1), of st name data] show ?thesis by simp
  next
    case (DbUpdate name i data)
    with assms coll show ?thesis
      by (auto simp: db_update_def on_collection_get collection_update_ok collection_update_live db_get_known db_get_unknown
          fun_upd_idem intro!: on_collection_ok split: option.split)
  next
    case (DbDelete name i)
    with assms coll show ?thesis
      by (auto simp: db_delete_def on_collection_get collection_delete_ok collection_delete_live [where api = api] db_get_known db_get_unknown
          fun_upd_idem intro!: on_collection_ok split: option.split)
  next
    case (DbCreateIndex name field)
    let ?f = "\<lambda>coll. (collection_create_index api field coll, ())"
    have "cassette_ok api (fst (on_collection db name ?f))"
      by (rule on_collection_ok [OF assms(1)]) (simp add: collection_create_index_ok)
    moreover have "db_get (fst (on_collection db name ?f)) = db_get db"
      unfolding on_collection_get by (rule same) (simp add: collection_create_index_def)
    ultimately show ?thesis using DbCreateIndex by (simp add: create_index_def)
  next
    case (DbDropIndex name field)
    let ?f = "\<lambda>coll. (coll\<lparr>cn_secondary := hm_remove field (cn_secondary coll)\<rparr>, hm_get (cn_secondary coll) field \<noteq> None)"
    have "cassette_ok api (fst (on_collection db name ?f))"
      by (rule on_collection_ok [OF assms(1)]) (simp add: drop_ok)
    moreover have "db_get (fst (on_collection db name ?f)) = db_get db"
      unfolding on_collection_get by (rule same) simp
    ultimately show ?thesis using DbDropIndex by (simp add: drop_index_def)
  next
    case DbCompact
    with assms db_compact_ok [OF assms(1)] show ?thesis by simp
  qed
qed

lemma cassette_new_ok: "cassette_ok api cassette_new"
  by (simp add: cassette_ok_def cassette_new_def hm_simps)

interpretation cass: doc_store "cassette_ok api" db_admissible "cassette_apply api" db_get db_spec for api
  by unfold_locales (use cassette_apply_ok in blast)+

subsection \<open>Searching\<close>

text \<open>How often a token occurs in the text fields of a document, and the rank of a document.\<close>

definition hits :: "'n db_document \<Rightarrow> string \<Rightarrow> nat" where
  "hits d t =
     (case as_object (dd_data d) of
        None \<Rightarrow> 0
      | Some obj \<Rightarrow> (\<Sum>(f, v)\<leftarrow>obj. case as_str v of None \<Rightarrow> 0 | Some s \<Rightarrow> count_list (db_tokenize s) t))"

definition relevance :: "string list \<Rightarrow> 'n db_document \<Rightarrow> nat" where
  "relevance tokens d = (\<Sum>t\<leftarrow>tokens. hits d t)"

lemma sum_list_indicator: "distinct ks \<Longrightarrow> (\<Sum>k\<leftarrow>ks. if x = k then c else (0 :: nat)) = (if x \<in> set ks then c else 0)"
  by (induction ks) auto

lemma sum_list_add: "(\<Sum>x\<leftarrow>xs. f x + g x) = (\<Sum>x\<leftarrow>xs. f x) + (\<Sum>x\<leftarrow>xs. g x :: nat)"
  by (induction xs) auto

text \<open>All fields together: the fields the index knows are enough.\<close>

lemma hits_by_fields:
  assumes "distinct fs" "\<And>f. f \<notin> set fs \<Longrightarrow> token_count d f t = 0"
  shows "hits d t = (\<Sum>f\<leftarrow>fs. token_count d f t)"
proof (cases "as_object (dd_data d)")
  case None
  then show ?thesis by (simp add: hits_def token_count_def)
next
  case (Some obj)
  define c where "c v = (case as_str v of None \<Rightarrow> 0 | Some s \<Rightarrow> count_list (db_tokenize s) t)" for v :: "'a json"
  have tc: "token_count d f t = (\<Sum>(f', v)\<leftarrow>obj. if f' = f then c v else 0)" for f
    using Some by (simp add: token_count_def c_def cong: if_cong)
  have zero: "c v = 0" if "(f, v) \<in> set obj" "f \<notin> set fs" for f v
  proof -
    have "(\<Sum>(f', v)\<leftarrow>obj. if f' = f then c v else 0) = 0" using assms(2) [OF that(2)] tc by simp
    with that(1) show ?thesis by (induction obj) (auto split: if_splits)
  qed
  have "(\<Sum>f\<leftarrow>fs. \<Sum>(f', v)\<leftarrow>xs. if f' = f then c v else 0) = (\<Sum>(f', v)\<leftarrow>xs. if f' \<in> set fs then c v else 0)" for xs
    by (induction xs) (auto simp: sum_list_add sum_list_indicator [OF assms(1)])
  then have "(\<Sum>f\<leftarrow>fs. token_count d f t) = (\<Sum>(f', v)\<leftarrow>obj. if f' \<in> set fs then c v else 0)" by (simp add: tc)
  also have "\<dots> = (\<Sum>(f', v)\<leftarrow>obj. c v)"
    using zero by (intro arg_cong [of _ _ sum_list] map_cong) auto
  finally show ?thesis using Some by (simp add: hits_def c_def)
qed

text \<open>A table of scores that has an entry exactly for the ids with a positive score.\<close>

definition scored :: "(string, nat) hashmap \<Rightarrow> (string \<Rightarrow> nat) \<Rightarrow> bool" where
  "scored s sc \<longleftrightarrow> hm_ok s \<and> (\<forall>i. hm_get s i = (if sc i = 0 then None else Some (sc i)))"

lemma scored_ids: "scored s sc \<Longrightarrow> scored (score_ids ids s) (\<lambda>i. sc i + count_list ids i)"
proof (induction ids arbitrary: s sc)
  case Nil
  then show ?case by (simp add: score_ids_def)
next
  case (Cons j ids)
  let ?s = "hm_insert j ((case hm_get s j of None \<Rightarrow> 0 | Some n \<Rightarrow> n) + 1) s"
  have "scored ?s (\<lambda>i. sc i + (if j = i then 1 else 0))" using Cons.prems by (auto simp: scored_def hm_simps)
  moreover have "(\<lambda>i. sc i + (if j = i then 1 else 0) + count_list ids i) = (\<lambda>i. sc i + count_list (j # ids) i)"
    by (auto simp: fun_eq_iff)
  ultimately show ?case using Cons.IH by (fastforce simp: score_ids_def)
qed

lemma scored_values:
  assumes "scored s sc"
  shows "scored (fold (\<lambda>fi scores. case hm_get fi t of None \<Rightarrow> scores | Some ids \<Rightarrow> score_ids ids scores) fis s)
    (\<lambda>i. sc i + (\<Sum>fi\<leftarrow>fis. count_list (ids_at fi t) i))"
  using assms
proof (induction fis arbitrary: s sc)
  case Nil
  then show ?case by simp
next
  case (Cons fi fis)
  have "scored (case hm_get fi t of None \<Rightarrow> s | Some ids \<Rightarrow> score_ids ids s) (\<lambda>i. sc i + count_list (ids_at fi t) i)"
    using Cons.prems scored_ids by (auto simp: ids_at_def split: option.split)
  from Cons.IH [OF this] show ?case by (simp add: add.assoc)
qed

lemma scored_search:
  "scored (search_scores ix tokens) (\<lambda>i. \<Sum>t\<leftarrow>tokens. \<Sum>fi\<leftarrow>hm_values ix. count_list (ids_at fi t) i)"
proof -
  define step where "step = (\<lambda>token scores. fold (\<lambda>fi scores. case hm_get fi token of None \<Rightarrow> scores | Some ids \<Rightarrow> score_ids ids scores)
       (hm_values ix) scores)"
  have "scored s sc \<Longrightarrow> scored (fold step tokens s) (\<lambda>i. sc i + (\<Sum>t\<leftarrow>tokens. \<Sum>fi\<leftarrow>hm_values ix. count_list (ids_at fi t) i))" for s sc
  proof (induction tokens arbitrary: s sc)
    case Nil
    then show ?case by simp
  next
    case (Cons t tokens)
    from Cons.IH [OF scored_values [OF Cons.prems, of t "hm_values ix"]] show ?case
      by (simp add: step_def add.assoc)
  qed
  from this [of "[]" "\<lambda>i. 0"] show ?thesis by (simp add: search_scores_def step_def scored_def hm_simps)
qed

lemma entry_sum:
  assumes "hm_ok ix"
  shows "(\<Sum>fi\<leftarrow>hm_values ix. count_list (ids_at fi t) i) = (\<Sum>f\<leftarrow>map fst ix. entry_count ix f t i)"
proof -
  have "entry_count ix f t i = count_list (ids_at fi t) i" if "(f, fi) \<in> set ix" for f fi
    using assms that by (simp add: entry_count_def hm_ok_def)
  then show ?thesis by (auto intro!: arg_cong [of _ _ sum_list] simp: o_def)
qed

lemma docs_count_member: "distinct (map dd_id docs) \<Longrightarrow> d \<in> set docs \<Longrightarrow> docs_count docs f t (dd_id d) = token_count d f t"
proof -
  assume "distinct (map dd_id docs)" "d \<in> set docs"
  moreover from this obtain xs ys where "docs = xs @ d # ys" by (meson split_list)
  ultimately show ?thesis by (simp add: docs_count_split docs_count_absent)
qed

lemma search_relevance:
  assumes "collection_ok api coll" "d \<in> set (cn_documents coll)"
  shows "(\<Sum>t\<leftarrow>tokens. \<Sum>fi\<leftarrow>hm_values (cn_inverted coll). count_list (ids_at fi t) (dd_id d)) = relevance tokens d"
proof -
  let ?ix = "cn_inverted coll"
  have ids: "distinct (map dd_id (cn_documents coll))" and ok: "hm_ok ?ix"
    and inv: "entry_count ?ix f t (dd_id d) = docs_count (cn_documents coll) f t (dd_id d)" for f t
    using assms(1) by (auto simp: collection_ok_def inverted_ok_def index_shape_def)
  have eq: "entry_count ?ix f t (dd_id d) = token_count d f t" for f t
    using inv docs_count_member [OF ids assms(2)] by simp
  have "hits d t = (\<Sum>f\<leftarrow>map fst ?ix. token_count d f t)" for t
  proof (rule hits_by_fields)
    show "distinct (map fst ?ix)" using ok by (simp add: hm_ok_def)
    show "token_count d f t = 0" if "f \<notin> set (map fst ?ix)" for f
      using eq [of f t] that by (simp add: entry_count_def hm_get_None_iff [THEN iffD2])
  qed
  then show ?thesis by (simp only: relevance_def entry_sum [OF ok] eq)
qed

lemma docs_of_ids_simps [simp]:
  "docs_of_ids docs [] = []"
  "docs_of_ids docs (i # ids) = (case find_live docs i of None \<Rightarrow> [] | Some d \<Rightarrow> [d]) @ docs_of_ids docs ids"
  by (simp_all add: docs_of_ids_def)

lemma docs_of_ids_set:
  assumes "distinct (map dd_id docs)"
  shows "set (docs_of_ids docs ids) = {d \<in> set docs. \<not> dd_deleted d \<and> dd_id d \<in> set ids}"
proof (induction ids)
  case Nil
  then show ?case by simp
next
  case (Cons i ids)
  have "(case find_live docs i of None \<Rightarrow> {} | Some d \<Rightarrow> {d}) = {d \<in> set docs. \<not> dd_deleted d \<and> dd_id d = i}"
  proof (cases "find_live docs i")
    case None
    then have "\<forall>d \<in> set docs. dd_id d = i \<longrightarrow> dd_deleted d" by (auto simp: find_live_def find_None_iff)
    with None show ?thesis by auto
  next
    case (Some d)
    then have "d \<in> set docs \<and> dd_id d = i \<and> \<not> dd_deleted d" by (simp add: find_live_iff [OF assms])
    moreover have "e = d" if "e \<in> set docs" "dd_id e = i" "\<not> dd_deleted e" for e
      using that find_live_iff [OF assms, of i e] Some by simp
    ultimately show ?thesis unfolding Some by auto
  qed
  with Cons show ?case by (cases "find_live docs i") auto
qed

lemma ranked_documents:
  assumes "distinct (map dd_id docs)" "sorted_wrt (\<lambda>p q. snd q \<le> snd p) xs" "distinct (map fst xs)"
    and "\<And>i n d. (i, n) \<in> set xs \<Longrightarrow> find_live docs i = Some d \<Longrightarrow> r d = (n :: nat)"
  shows "distinct (docs_of_ids docs (map fst xs)) \<and> sorted_wrt (\<lambda>a b. r b \<le> r a) (docs_of_ids docs (map fst xs))"
  using assms(2-4)
proof (induction xs)
  case Nil
  then show ?case by simp
next
  case (Cons p xs)
  obtain i n where p: "p = (i, n)" by (cases p)
  let ?ds = "docs_of_ids docs (map fst xs)"
  have "r d = n" if "(i, n) \<in> set xs" "find_live docs i = Some d" for i n d
    using Cons.prems(3) [of i n d] that by simp
  with Cons.IH Cons.prems(1,2) have IH: "distinct ?ds" "sorted_wrt (\<lambda>a b. r b \<le> r a) ?ds" by simp_all
  show ?case
  proof (cases "find_live docs i")
    case None
    with IH p show ?thesis by simp
  next
    case (Some d)
    have d: "dd_id d = i" "r d = n" using Some find_live_iff [OF assms(1)] Cons.prems(3) p by auto
    have "r e \<le> n" if "e \<in> set ?ds" for e
    proof -
      from that have e: "find_live docs (dd_id e) = Some e" "dd_id e \<in> fst ` set xs"
        by (auto simp: docs_of_ids_set [OF assms(1)] find_live_iff [OF assms(1)])
      then obtain m where m: "(dd_id e, m) \<in> set xs" by force
      with e(1) Cons.prems(3) have "r e = m" by auto
      with m Cons.prems(1) p show ?thesis by auto
    qed
    moreover have "d \<notin> set ?ds" using docs_of_ids_set [OF assms(1)] d Cons.prems(2) p by auto
    ultimately show ?thesis using Some IH d p by simp
  qed
qed

subsection \<open>Range queries\<close>

lemma secondary_ids:
  assumes "secondary_ok api f docs ix" "distinct (map dd_id docs)" "d \<in> set docs" "\<not> dd_deleted d"
  shows "dd_id d \<in> set (ids_at ix k) \<longleftrightarrow> key_of api d f = Some k"
proof
  assume "dd_id d \<in> set (ids_at ix k)"
  with assms(1) obtain e where "e \<in> set docs" "dd_id e = dd_id d" "key_of api e f = Some k"
    unfolding secondary_ok_def by blast
  with assms(2,3) show "key_of api d f = Some k" by (metis inj_onD distinct_map)
qed (use assms in \<open>auto simp: secondary_ok_def\<close>)

text \<open>What an index gives for the keys a predicate selects.\<close>

lemma secondary_select:
  assumes "secondary_ok api f docs ix" "distinct (map dd_id docs)"
  shows "set (concat (map (\<lambda>(k, ids). docs_of_ids docs ids) (filter (\<lambda>(k, _). P k) ix))) =
    {d \<in> set docs. \<not> dd_deleted d \<and> (\<exists>k. key_of api d f = Some k \<and> P k)}"
proof -
  have ix: "distinct (map fst ix)" using assms(1) by (simp add: secondary_ok_def bt_ok_distinct)
  have ids: "ids = ids_at ix k" if "(k, ids) \<in> set ix" for k ids using ix that by (simp add: ids_at_def)
  have mem: "\<exists>ids. (k, ids) \<in> set ix" if "i \<in> set (ids_at ix k)" for k i
    using that by (cases "map_of ix k") (auto simp: ids_at_def dest: map_of_SomeD)
  have "d \<in> set (concat (map (\<lambda>(k, ids). docs_of_ids docs ids) (filter (\<lambda>(k, _). P k) ix))) \<longleftrightarrow>
      d \<in> set docs \<and> \<not> dd_deleted d \<and> (\<exists>k. dd_id d \<in> set (ids_at ix k) \<and> P k)" for d
    using ids mem by (auto simp: docs_of_ids_set [OF assms(2)]) fastforce
  then show ?thesis using secondary_ids [OF assms] by blast
qed

lemma collection_range_set:
  assumes "collection_ok api coll"
  shows "set (collection_range api f op v coll) =
    {d \<in> set (live_documents coll). \<exists>k. key_of api d f = Some k \<and> compare_by op k v}"
proof (cases "hm_get (cn_secondary coll) f")
  case None
  then show ?thesis
    by (auto simp: collection_range_def key_of_def split: option.splits)
next
  case (Some ix)
  let ?docs = "cn_documents coll"
  have ids: "distinct (map dd_id ?docs)" and ok: "secondary_ok api f ?docs ix"
    using assms Some by (auto simp: collection_ok_def)
  have after: "(if map_of ix v = Some is then [] else filter (\<lambda>d. v < value_to_index_key api (data_at (dd_data d) f)) (docs_of_ids ?docs is)) =
      filter (\<lambda>d. v < k) (docs_of_ids ?docs is)" if "(k, is) \<in> set ix" for k "is"
  proof -
    have at: "is = ids_at ix k" using ok that by (simp add: secondary_ok_def bt_ok_distinct ids_at_def)
    have key: "key_of api d f = Some k" if "d \<in> set (docs_of_ids ?docs is)" for d
      using that secondary_ids [OF ok ids] by (auto simp: docs_of_ids_set [OF ids] at)
    then have eq: "value_to_index_key api (data_at (dd_data d) f) = k" if "d \<in> set (docs_of_ids ?docs is)" for d
      using that by (fastforce simp: key_of_def data_at_def)
    show ?thesis
    proof (cases "map_of ix v = Some is")
      case True
      then have "is = ids_at ix v" by (simp add: ids_at_def)
      then have "k = v" if "d \<in> set (docs_of_ids ?docs is)" for d
        using that key [OF that] secondary_ids [OF ok ids] by (auto simp: docs_of_ids_set [OF ids])
      with True show ?thesis by (auto simp: filter_empty_conv)
    next
      case False
      with eq show ?thesis by (auto intro: filter_cong)
    qed
  qed
  have "concat (map (\<lambda>(k, is). filter (\<lambda>d. v < k) (docs_of_ids ?docs is)) (filter (\<lambda>(k, _). v \<le> k) xs)) =
      concat (map (\<lambda>(k, is). docs_of_ids ?docs is) (filter (\<lambda>(k, _). v < k) xs))" for xs
    by (induction xs) (auto simp: le_less)
  moreover have "concat (map (\<lambda>(k, is). if map_of ix v = Some is then []
        else filter (\<lambda>d. v < value_to_index_key api (data_at (dd_data d) f)) (docs_of_ids ?docs is)) (filter (\<lambda>(k, _). v \<le> k) ix)) =
      concat (map (\<lambda>(k, is). filter (\<lambda>d. v < k) (docs_of_ids ?docs is)) (filter (\<lambda>(k, _). v \<le> k) ix))"
    using after by (intro arg_cong [of _ _ concat] map_cong) auto
  ultimately have "collection_range api f op v coll =
      (if op \<in> {''>'', ''<'', ''>='', ''<=''}
       then concat (map (\<lambda>(k, is). docs_of_ids ?docs is) (filter (\<lambda>(k, _). compare_by op k v) ix)) else [])"
    using Some by (auto simp: collection_range_def compare_by_def)
  moreover have "compare_by op k v \<Longrightarrow> op \<in> {''>'', ''<'', ''>='', ''<=''}" for k by (auto simp: compare_by_def split: if_splits)
  ultimately show ?thesis
    using secondary_select [OF ok ids, of "\<lambda>k. compare_by op k v"] by (auto simp: live_documents_def)
qed

end
