(* ===== verification/DatabaseLaws.thy ===== *)
theory DatabaseLaws
  imports Database
begin

text \<open>
  What the document database of \<open>Database\<close> guarantees: its operations act on a map of
  collections, search ranks the matching documents, range queries do not depend on the indexes,
  equality queries do, and opening with recovery never replays the log.
\<close>

subsection \<open>A small database\<close>

definition toy_text :: "unit text_api" where
  "toy_text = \<lparr>number_text = (\<lambda>_. ''0''), value_text = (\<lambda>_. ''null'')\<rparr>"

definition toy_stamp :: "nat \<Rightarrow> stamp" where
  "toy_stamp k = \<lparr>stamp_millis = k, stamp_random = 0, stamp_created = ''c'', stamp_updated = ''u''\<rparr>"

definition toy_data :: "unit json" where
  "toy_data = JObj [(''name'', JStr ''Hi'')]"

definition toy_collection :: "unit collection" where
  "toy_collection = collection_create_index toy_text ''name''
     (collection_insert toy_text (toy_stamp 1) toy_data (collection_new ''c''))"

lemma toy_id: "stamp_id (toy_stamp 1) = ''1-0''"
  by code_simp

lemma toy_collection_ok: "collection_ok toy_text toy_collection"
  unfolding toy_collection_def
  by (intro collection_create_index_ok collection_insert_ok collection_new_ok) (simp add: collection_new_def)

subsection \<open>The operations act on a map of collections\<close>

text \<open>
  C5: Refinement. Whatever operations are applied to a new database (insert, update, delete,
  creating and dropping an index, compaction, in any order and with any clock and random numbers
  that never repeat an id), \<open>get\<close> gives exactly the documents of the abstract map of collections
  on which only insert, update and delete act. On the database that results, update answers with
  true exactly when the document can be read, delete exactly when the id is known to the
  collection, deleted or not, and both fail with CollectionNotFound for an unknown collection.
\<close>

theorem database_implements_collections:
  fixes api :: "'a text_api"
  assumes "ok_history db_admissible (cassette_apply api) cassette_new ops"
  shows "db_get (history_state (cassette_apply api) cassette_new ops) = history_state db_spec (\<lambda>_. Map.empty) ops \<and>
    snd (db_update api now (history_state (cassette_apply api) cassette_new ops) name i data) =
      (if hm_get (ca_collections (history_state (cassette_apply api) cassette_new ops)) name = None then Inl CollectionNotFound
       else Inr (history_state db_spec (\<lambda>_. Map.empty) ops name i \<noteq> None)) \<and>
    snd (db_delete now (history_state (cassette_apply api) cassette_new ops) name i) =
      (if hm_get (ca_collections (history_state (cassette_apply api) cassette_new ops)) name = None then Inl CollectionNotFound
       else Inr (i \<in> known_ids (history_state (cassette_apply api) cassette_new ops) name))"
proof -
  let ?db = "history_state (cassette_apply api) cassette_new ops"
  have ok: "cassette_ok api ?db" using cass.history_arises [OF cassette_new_ok assms] .
  have "db_get (cassette_new :: 'a cassette) = (\<lambda>_. Map.empty)" by (simp add: fun_eq_iff db_get_def cassette_new_def)
  then have get: "db_get ?db = history_state db_spec (\<lambda>_. Map.empty) ops"
    using cass.history_refines [OF cassette_new_ok assms] by simp
  have res: "snd (db_update api now ?db name i data) =
      (if hm_get (ca_collections ?db) name = None then Inl CollectionNotFound else Inr (db_get ?db name i \<noteq> None)) \<and>
    snd (db_delete now ?db name i) =
      (if hm_get (ca_collections ?db) name = None then Inl CollectionNotFound else Inr (i \<in> known_ids ?db name))"
    using ok by (auto simp: db_update_def db_delete_def on_collection_def case_prod_beta cassette_ok_def db_get_def known_ids_def
        collection_update_live collection_delete_live [where api = api] split: option.split)
  show ?thesis using get res by (simp only: get simp_thms)
qed

lemma toy_history:
  "ok_history db_admissible (cassette_apply toy_text) cassette_new [(toy_stamp 1, DbInsert ''c'' toy_data), (toy_stamp 2, DbDelete ''c'' ''1-0'')]"
  by (simp add: known_ids_def cassette_new_def)

theorem database_implements_collections_witness:
  "db_get (history_state (cassette_apply toy_text) cassette_new
     [(toy_stamp 1, DbInsert ''c'' toy_data), (toy_stamp 2, DbDelete ''c'' ''1-0'')]) ''c'' ''1-0'' = None"
  using database_implements_collections [OF toy_history] by simp

subsection \<open>Search\<close>

lemma as_str_iff: "as_str v = Some s \<longleftrightarrow> v = JStr s"
  by (cases v) auto

lemma mem_keys: "i \<in> fst ` set xs \<longleftrightarrow> (\<exists>n. (i, n) \<in> set xs)"
  by force

lemma sorted_scores: "sorted_wrt (\<lambda>p q. snd q \<le> snd p) (sort_key (\<lambda>(i, n). - int n) xs)"
proof -
  have "sorted (map (\<lambda>(i, n). - int n) (sort_key (\<lambda>(i, n). - int n) xs))" by simp
  then show ?thesis by (simp add: sorted_wrt_map case_prod_beta)
qed

lemma scored_entry: "scored s sc \<Longrightarrow> (i, n) \<in> set s \<longleftrightarrow> n = sc i \<and> 0 < n"
proof -
  assume s: "scored s sc"
  then have d: "distinct (map fst s)" and get: "hm_get s i = (if sc i = 0 then None else Some (sc i))"
    by (simp_all add: scored_def hm_ok_def)
  show ?thesis unfolding map_of_eq_Some_iff [OF d, symmetric] get by auto
qed

text \<open>
  C13: Search gives, for a query with at least one token, exactly the documents that are not
  deleted and contain one of the tokens in a text field, each once, with those of higher
  relevance (the number of occurrences of the query's tokens) first. A query without tokens gives
  every document that is not deleted.
\<close>

theorem db_search_ranks:
  assumes "cassette_ok api db" "hm_get (ca_collections db) name = Some coll"
  shows "set (db_search db name q) =
      {d \<in> set (cn_documents coll). \<not> dd_deleted d \<and> (db_tokenize q = [] \<or> 0 < relevance (db_tokenize q) d)} \<and>
    distinct (db_search db name q) \<and>
    (db_tokenize q = [] \<or> sorted_wrt (\<lambda>a b. relevance (db_tokenize q) b \<le> relevance (db_tokenize q) a) (db_search db name q))"
proof -
  let ?docs = "cn_documents coll" and ?ts = "db_tokenize q"
  have coll: "collection_ok api coll" using assms by (auto simp: cassette_ok_def)
  then have ids: "distinct (map dd_id ?docs)" by (simp add: collection_ok_def)
  have search: "db_search db name q = collection_search q coll"
    using assms(2) by (simp add: db_search_def read_collection_def)
  show ?thesis
  proof (cases "?ts = []")
    case True
    then show ?thesis using ids
      by (auto simp: search collection_search_def live_documents_def distinct_map intro: distinct_filter)
  next
    case False
    let ?sc = "\<lambda>i. \<Sum>t\<leftarrow>?ts. \<Sum>fi\<leftarrow>hm_values (cn_inverted coll). count_list (ids_at fi t) i"
    let ?s = "search_scores (cn_inverted coll) ?ts"
    let ?xs = "sort_key (\<lambda>(i, n). - int n) ?s"
    have sc: "scored ?s ?sc" by (rule scored_search)
    have rel: "relevance ?ts d = n" if "(i, n) \<in> set ?xs" "find_live ?docs i = Some d" for i n d
      using that scored_entry [OF sc, of i n] search_relevance [OF coll, of d ?ts] find_live_iff [OF ids, of i d] by simp
    have "distinct (map fst ?s)" using sc by (simp add: scored_def hm_ok_def)
    then have keys: "distinct (map fst ?xs)" by (simp add: distinct_map)
    have ranked: "distinct (docs_of_ids ?docs (map fst ?xs)) \<and>
      sorted_wrt (\<lambda>a b. relevance ?ts b \<le> relevance ?ts a) (docs_of_ids ?docs (map fst ?xs))"
      by (rule ranked_documents [OF ids sorted_scores keys]) (rule rel)
    have "dd_id d \<in> fst ` set ?s \<longleftrightarrow> 0 < relevance ?ts d" if "d \<in> set ?docs" for d
      unfolding mem_keys scored_entry [OF sc] search_relevance [OF coll that] by simp
    then have "set (docs_of_ids ?docs (map fst ?xs)) = {d \<in> set ?docs. \<not> dd_deleted d \<and> 0 < relevance ?ts d}"
      by (auto simp: docs_of_ids_set [OF ids])
    with ranked False show ?thesis by (simp add: search collection_search_def Let_def)
  qed
qed

lemma toy_cassette_ok: "cassette_ok toy_text (cassette_new\<lparr>ca_collections := [(''c'', toy_collection)]\<rparr>)"
  using toy_collection_ok by (simp add: cassette_ok_def hm_ok_def)

theorem db_search_ranks_witness:
  "distinct (db_search (cassette_new\<lparr>ca_collections := [(''c'', toy_collection)]\<rparr>) ''c'' ''hi'')"
  using db_search_ranks [OF toy_cassette_ok, of "''c''" toy_collection "''hi''"] by simp

subsection \<open>Queries and indexes\<close>

text \<open>
  C15: A range query gives the same set of documents whether the field has a secondary index or
  not: the documents not deleted whose value, written as text, compares as asked with the bound
  (and none for an unknown operator). In particular creating or dropping the index changes no answer.
\<close>

theorem query_range_index_agrees:
  assumes "cassette_ok api db" "hm_get (ca_collections db) name = Some coll"
  shows "set (query_range api db name field op v) =
      {d \<in> set (cn_documents coll). \<not> dd_deleted d \<and> (\<exists>k. key_of api d field = Some k \<and> compare_by op k v)} \<and>
    set (query_range api (fst (create_index api db name g)) name field op v) = set (query_range api db name field op v) \<and>
    set (query_range api (fst (drop_index db name g)) name field op v) = set (query_range api db name field op v)"
proof -
  have range: "set (query_range api db' name field op v) =
      {d \<in> set (cn_documents c). \<not> dd_deleted d \<and> (\<exists>k. key_of api d field = Some k \<and> compare_by op k v)}"
    if "cassette_ok api db'" "hm_get (ca_collections db') name = Some c" for db' c
    using that collection_range_set [of api c field op v]
    by (auto simp: query_range_def read_collection_def cassette_ok_def live_documents_def)
  have "cassette_ok api (fst (create_index api db name g))" "cassette_ok api (fst (drop_index db name g))"
    using cassette_apply_ok [OF assms(1), of undefined "DbCreateIndex name g"]
      cassette_apply_ok [OF assms(1), of undefined "DbDropIndex name g"] by simp_all
  from range [OF this(1)] range [OF this(2)] range [OF assms] show ?thesis
    using assms(2) by (simp add: create_index_def drop_index_def on_collection_def hm_simps collection_create_index_def)
qed

theorem query_range_index_agrees_witness:
  "set (query_range toy_text (fst (drop_index (cassette_new\<lparr>ca_collections := [(''c'', toy_collection)]\<rparr>) ''c'' ''name'')) ''c'' ''name'' ''>'' ''A'') =
   set (query_range toy_text (cassette_new\<lparr>ca_collections := [(''c'', toy_collection)]\<rparr>) ''c'' ''name'' ''>'' ''A'')"
  using query_range_index_agrees [OF toy_cassette_ok, of "''c''" toy_collection] by simp

text \<open>
  An equality query depends on the indexes. With a secondary index on the field it gives the
  documents whose value is written as the given text, whatever its type; without one only those
  whose value is that string. A number or a boolean is thus found only while the index exists.
\<close>

theorem query_depends_on_index:
  assumes "cassette_ok api db" "hm_get (ca_collections db) name = Some coll" "filter_key_value text = Some (k, v)"
  shows "set (db_query db name text) =
    {d \<in> set (cn_documents coll). \<not> dd_deleted d \<and>
       (if hm_get (cn_secondary coll) k = None then json_get (dd_data d) k = Some (JStr v) else key_of api d k = Some v)} \<and>
    set (query_owned db name text) = {d \<in> set (cn_documents coll). \<not> dd_deleted d \<and> json_get (dd_data d) k = Some (JStr v)}"
proof -
  have coll: "collection_ok api coll" using assms by (auto simp: cassette_ok_def)
  then have ids: "distinct (map dd_id (cn_documents coll))" by (simp add: collection_ok_def)
  have str: "string_field d k v \<longleftrightarrow> json_get (dd_data d) k = Some (JStr v)" for d :: "'a db_document"
    by (auto simp: string_field_def as_str_iff split: option.split)
  have sec: "set (case map_of ix v of Some ids \<Rightarrow> filter (\<lambda>d. \<not> dd_deleted d \<and> dd_id d \<in> set ids) (cn_documents coll) | None \<Rightarrow> []) =
      {d \<in> set (cn_documents coll). \<not> dd_deleted d \<and> key_of api d k = Some v}" if "hm_get (cn_secondary coll) k = Some ix" for ix
  proof -
    have "secondary_ok api k (cn_documents coll) ix" using coll that by (auto simp: collection_ok_def)
    from secondary_ids [OF this ids] show ?thesis by (auto simp: ids_at_def split: option.splits)
  qed
  show ?thesis
    using assms sec str
    by (auto simp: db_query_def query_owned_def read_collection_def collection_query_def live_documents_def split: option.split)
qed

theorem query_depends_on_index_witness:
  "set (db_query (cassette_new\<lparr>ca_collections := [(''c'', toy_collection)]\<rparr>) ''c'' ''name=Hi'') =
    {d \<in> set (cn_documents toy_collection). \<not> dd_deleted d \<and> key_of toy_text d ''name'' = Some ''Hi''}"
proof -
  have "filter_key_value ''name=Hi'' = Some (''name'', ''Hi'')" by code_simp
  moreover have "hm_get (cn_secondary toy_collection) ''name'' \<noteq> None"
    by (simp add: toy_collection_def collection_create_index_def hm_simps)
  ultimately show ?thesis using query_depends_on_index [OF toy_cassette_ok, of "''c''" toy_collection "''name=Hi''" "''name''" "''Hi''"]
    by auto
qed

subsection \<open>Opening with recovery\<close>

text \<open>
  \<open>open_with_wal\<close> never applies an entry of the log, whatever the log file holds. When the log
  exists it opens the database file in its place: a database file that exists is no log, so the
  call fails on its header and the database cannot be opened; a missing one is created as a log,
  found to hold no entry, and replaced by an empty database. The log file is never changed.
\<close>

theorem open_with_wal_never_replays:
  assumes "\<And>bs db. dec_db c bs = Some db \<Longrightarrow> bs \<noteq> [] \<and> take 4 bs \<noteq> WAL_MAGIC" "cf_wal files = Some log"
  shows "case cf_main files of
      None \<Rightarrow> open_with_wal api c stamps files =
        (\<lparr>cf_main = Some (enc_db c cassette_new), cf_wal = Some log\<rparr>, Inr cassette_new)
    | Some bs \<Rightarrow> \<exists>e. open_with_wal api c stamps files = (files, Inl e)"
proof (cases "cf_main files")
  case None
  have opened: "wal_open [] = Ok wal_header" by (simp add: wal_open_def)
  have "drop 6 wal_header = []" by code_simp
  then have "replay dec f wal_header db = Ok db" for dec :: "bytes \<Rightarrow> 'a wal_entry option" and f and db :: "'a cassette \<times> nat"
    by (simp add: replay_def replay_loop.simps)
  with None opened assms(2) show ?thesis by (simp add: open_with_wal_def cassette_open_def cassette_save_def)
next
  case (Some bs)
  show ?thesis
  proof (cases "dec_db c bs")
    case None
    with Some show ?thesis by (simp add: open_with_wal_def cassette_open_def)
  next
    case (Some db)
    with assms(1) have "bs \<noteq> []" "take 4 bs \<noteq> WAL_MAGIC" by blast+
    then have "\<exists>e. wal_open bs = Err e" by (auto simp: wal_open_def read_exact_def split: option.split)
    with Some \<open>cf_main files = Some bs\<close> assms(2) show ?thesis by (auto simp: open_with_wal_def cassette_open_def)
  qed
qed

definition toy_db_codec :: "unit db_codec" where
  "toy_db_codec = \<lparr>enc_db = (\<lambda>_. ''{}''), dec_db = (\<lambda>bs. if bs = ''{}'' then Some cassette_new else None), dec_entry = (\<lambda>_. None)\<rparr>"

lemma toy_db_codec_text: "dec_db toy_db_codec bs = Some db \<Longrightarrow> bs \<noteq> [] \<and> take 4 bs \<noteq> WAL_MAGIC"
  by (auto simp: toy_db_codec_def WAL_MAGIC_def split: if_splits)

theorem open_with_wal_never_replays_witness:
  "\<exists>e. open_with_wal toy_text toy_db_codec toy_stamp \<lparr>cf_main = Some ''{}'', cf_wal = Some []\<rparr> =
     (\<lparr>cf_main = Some ''{}'', cf_wal = Some []\<rparr>, Inl e)"
  using open_with_wal_never_replays [of toy_db_codec "\<lparr>cf_main = Some ''{}'', cf_wal = Some []\<rparr>" "[]" toy_text toy_stamp] toy_db_codec_text
  by simp

end
