(* ===== verification/Disk.thy ===== *)
theory Disk
  imports Engine
begin

text \<open>
  Databases on a disk shared by several engines, as the connection pool, the registry of
  databases and the rebalancing of shards use them. Each engine keeps its own memory, but reads
  and appends to what the files hold at that moment. The three files of a database are created
  together by \<open>open\<close>; \<open>en\<close> says whether the change feed is enabled, which it is for files in an
  existing directory.
\<close>

type_synonym disk = "string \<Rightarrow> db_files option"

abbreviation no_files :: db_files where
  "no_files \<equiv> \<lparr>main_file = [], wal_file = [], repl_file = []\<rparr>"

text \<open>The files after an attempt to open them: opening writes the headers of empty files.\<close>

definition opened_with :: "'n codec \<Rightarrow> bool \<Rightarrow> db_files \<Rightarrow> db_files" where
  "opened_with c en fs =
     (case engine_open c en fs of
        Ok e \<Rightarrow> engine_files (repl_file fs) e
      | _ \<Rightarrow>
          (case wal_open (wal_file fs) of
             Ok w \<Rightarrow>
               (case storage_open (main_file fs) of
                  Ok st \<Rightarrow> fs\<lparr>wal_file := w, main_file := st_file st\<rparr>
                | _ \<Rightarrow> fs\<lparr>wal_file := w\<rparr>)
           | _ \<Rightarrow> fs))"

abbreviation opened_files :: "'n codec \<Rightarrow> db_files \<Rightarrow> db_files" where
  "opened_files c \<equiv> opened_with c True"

text \<open>An engine whose handles see what the files hold now.\<close>

definition attach :: "db_files \<Rightarrow> 'n engine \<Rightarrow> 'n engine" where
  "attach fs e = e\<lparr>eng_wal := wal_file fs, eng_storage := (eng_storage e)\<lparr>st_file := main_file fs\<rparr>,
     eng_feed := map_option (\<lambda>f. f\<lparr>feed_log := (feed_log f)\<lparr>rl_file := repl_file fs\<rparr>\<rparr>) (eng_feed e)\<rparr>"

subsection \<open>Engines that agree with their files\<close>

text \<open>The documents a later \<open>open\<close> of the files gives.\<close>

definition stored_docs :: "'n codec \<Rightarrow> db_files \<Rightarrow> string \<rightharpoonup> 'n document" where
  "stored_docs c fs = (case engine_open c True fs of Ok e \<Rightarrow> eng_abs e | _ \<Rightarrow> Map.empty)"

definition files_of :: "'n codec \<Rightarrow> db_files \<Rightarrow> 'n engine \<Rightarrow> bool" where
  "files_of c fs e \<longleftrightarrow> db_run c True e \<and> engine_files [] e = fs"

lemma files_of_feed: "files_of c fs e \<Longrightarrow> \<exists>f. eng_feed e = Some f"
  using db_run_ok [of c True e] by (auto simp: files_of_def engine_ok_def)

lemma files_of_attach: "files_of c fs e \<Longrightarrow> attach fs e = e"
  using files_of_feed [of c fs e] by (auto simp: files_of_def attach_def engine_files_def)

lemma files_of_files: "files_of c fs e \<Longrightarrow> engine_files r e = fs"
  using files_of_feed [of c fs e] by (auto simp: files_of_def engine_files_def)

lemma files_of_open:
  assumes "files_of c fs e"
  shows "engine_open c True fs = Ok (without_subscribers e)" "files_of c fs (without_subscribers e)"
    and "opened_files c fs = fs" "stored_docs c fs = eng_abs e"
proof -
  have ok: "engine_ok c True e" using assms db_run_ok [of c True e] by (simp add: files_of_def)
  show op: "engine_open c True fs = Ok (without_subscribers e)" using assms reopen_ok [OF ok] by (simp add: files_of_def)
  have "engine_files [] (without_subscribers e) = fs"
    using files_of_feed [OF assms] assms by (auto simp: files_of_def without_subscribers_def engine_files_def)
  moreover have "db_run c True (without_subscribers e)"
    using assms op by (auto simp: files_of_def intro: db_reopen)
  ultimately show new: "files_of c fs (without_subscribers e)" by (simp add: files_of_def)
  show "opened_files c fs = fs" using files_of_files [OF new] by (simp add: opened_with_def op)
  show "stored_docs c fs = eng_abs e" by (simp add: stored_docs_def op without_subscribers_def eng_abs_def)
qed

lemma files_of_fresh: "\<exists>e. engine_open c True no_files = Ok e \<and> files_of c (opened_files c no_files) e \<and> eng_docs e = []"
proof -
  obtain e where e: "engine_open c True no_files = Ok e" using open_fresh [of c True] ..
  have run: "db_run c True e" by (rule db_fresh) (rule e)
  have "eng_docs e = []" using fresh_ok [OF e] by simp
  moreover from files_of_feed have "\<exists>f. eng_feed e = Some f" using run by (auto simp: files_of_def)
  ultimately show ?thesis using e run by (auto simp: files_of_def opened_with_def engine_files_def)
qed

lemma without_subscribers_idem [simp]: "without_subscribers (without_subscribers e) = without_subscribers e"
  by (cases "eng_feed e") (simp_all add: without_subscribers_def)

lemma op_ok_without_subscribers: "op_ok c env (without_subscribers e) op = op_ok c env e op"
  by (cases op; cases "eng_feed e") (simp_all add: without_subscribers_def payload_ok_def split: option.split)

lemma eng_abs_without_subscribers: "eng_abs (without_subscribers e) = eng_abs e"
  by (simp add: without_subscribers_def eng_abs_def)

text \<open>The same for any setting of the change feed.\<close>

definition agrees :: "'n codec \<Rightarrow> bool \<Rightarrow> db_files \<Rightarrow> 'n engine \<Rightarrow> bool" where
  "agrees c en fs e \<longleftrightarrow> db_run c en e \<and> engine_files (repl_file fs) e = fs"

lemma agrees_feed: "agrees c en fs e \<Longrightarrow> (eng_feed e \<noteq> None) = en"
  using db_run_ok [of c en e] by (simp add: agrees_def engine_ok_def)

lemma agrees_attach: "agrees c en fs e \<Longrightarrow> attach fs e = e"
  by (cases "eng_feed e"; cases fs) (auto simp: agrees_def attach_def engine_files_def)

lemma open_ignores_change_log: "\<not> en \<Longrightarrow> engine_open c en (fs\<lparr>repl_file := r\<rparr>) = engine_open c en fs"
  by (simp add: engine_open_def)

lemma files_repl: "eng_feed e = None \<Longrightarrow> engine_files r e = (engine_files [] e)\<lparr>repl_file := r\<rparr>"
  "eng_feed e \<noteq> None \<Longrightarrow> engine_files r e = engine_files [] e"
  by (auto simp: engine_files_def)

lemma agrees_open:
  assumes "agrees c en fs e"
  shows "engine_open c en fs = Ok (without_subscribers e)" "agrees c en fs (without_subscribers e)" "opened_with c en fs = fs"
proof -
  have run: "db_run c en e" and fs: "engine_files (repl_file fs) e = fs" using assms by (simp_all add: agrees_def)
  have "engine_open c en (engine_files (repl_file fs) e) = engine_open c en (engine_files [] e)"
    using agrees_feed [OF assms] files_repl [of e "repl_file fs"] open_ignores_change_log [of en c "repl_file fs" "engine_files [] e"]
    by (cases en) auto
  then show op: "engine_open c en fs = Ok (without_subscribers e)" using reopen_ok [OF db_run_ok [OF run]] fs by simp
  have "db_run c en (without_subscribers e)" using run reopen_ok [OF db_run_ok [OF run]] by (rule db_reopen)
  moreover have files: "engine_files r (without_subscribers e) = engine_files r e" for r
    by (cases "eng_feed e") (simp_all add: without_subscribers_def engine_files_def)
  ultimately show "agrees c en fs (without_subscribers e)" using fs by (simp add: agrees_def)
  show "opened_with c en fs = fs" by (simp add: opened_with_def op files fs)
qed

lemma agrees_fresh: "\<exists>e. engine_open c en no_files = Ok e \<and> agrees c en (opened_with c en no_files) e \<and> eng_docs e = []"
proof -
  obtain e where e: "engine_open c en no_files = Ok e" using open_fresh [of c en] ..
  have run: "db_run c en e" by (rule db_fresh) (rule e)
  have "engine_files (repl_file (engine_files [] e)) e = engine_files [] e"
    by (cases "eng_feed e") (simp_all add: engine_files_def)
  then show ?thesis using e run fresh_ok [OF e] by (auto simp: agrees_def opened_with_def)
qed

text \<open>A change of an engine, and its answer.\<close>

lemma change_answers:
  assumes "op_ok c env e op" "db_run c en e"
  shows "db_run c en (apply_op c env e op)" "eng_abs (apply_op c env e op) = abs_op env (eng_abs e) op"
    and "op = CInsert doc \<Longrightarrow> fst (snd (engine_insert c env e doc)) = Ok (doc_id (stored_doc env doc))"
    and "op = CUpdate i data \<Longrightarrow> fst (snd (engine_update c env e i data)) = (if eng_abs e i = None then Err (NotFound i) else Ok ())"
    and "op = CDelete i \<Longrightarrow> fst (snd (engine_delete c env e i)) = (if eng_abs e i = None then Err (NotFound i) else Ok ())"
proof -
  note ok = db_run_ok [OF assms(2)]
  show "db_run c en (apply_op c env e op)" using assms by (rule db_change [rotated])
  show "eng_abs (apply_op c env e op) = abs_op env (eng_abs e) op" using apply_op_ok [OF ok assms(1)] by simp
  show "op = CInsert doc \<Longrightarrow> fst (snd (engine_insert c env e doc)) = Ok (doc_id (stored_doc env doc))"
    using insert_ok(1) [OF ok] assms(1) by simp
  show "op = CUpdate i data \<Longrightarrow> fst (snd (engine_update c env e i data)) = (if eng_abs e i = None then Err (NotFound i) else Ok ())"
    using update_ok(1) [OF ok] assms(1) missing_doc(1) [of e i c env data]
    by (cases "hm_get (eng_docs e) i") (simp_all add: eng_abs_def)
  show "op = CDelete i \<Longrightarrow> fst (snd (engine_delete c env e i)) = (if eng_abs e i = None then Err (NotFound i) else Ok ())"
    using delete_ok(1) [OF ok] assms(1) missing_doc(2) [of e i c env]
    by (cases "hm_get (eng_docs e) i") (simp_all add: eng_abs_def)
qed

text \<open>The same as one equation per operation.\<close>

lemma change_results:
  assumes "db_run c en e"
  shows "op_ok c env e (CInsert doc) \<Longrightarrow>
      \<exists>sent. engine_insert c env e doc = (apply_op c env e (CInsert doc), Ok (doc_id (stored_doc env doc)), sent)"
    and "op_ok c env e (CUpdate i data) \<Longrightarrow>
      \<exists>sent. engine_update c env e i data =
        (apply_op c env e (CUpdate i data), if eng_abs e i = None then Err (NotFound i) else Ok (), sent)"
    and "op_ok c env e (CDelete i) \<Longrightarrow>
      \<exists>sent. engine_delete c env e i = (apply_op c env e (CDelete i), if eng_abs e i = None then Err (NotFound i) else Ok (), sent)"
proof -
  show "\<exists>sent. engine_insert c env e doc = (apply_op c env e (CInsert doc), Ok (doc_id (stored_doc env doc)), sent)"
    if "op_ok c env e (CInsert doc)"
    using change_answers(3) [OF that assms refl] by (cases "engine_insert c env e doc") simp
  show "\<exists>sent. engine_update c env e i data =
      (apply_op c env e (CUpdate i data), if eng_abs e i = None then Err (NotFound i) else Ok (), sent)"
    if "op_ok c env e (CUpdate i data)"
    using change_answers(4) [OF that assms refl] by (cases "engine_update c env e i data") simp
  show "\<exists>sent. engine_delete c env e i = (apply_op c env e (CDelete i), if eng_abs e i = None then Err (NotFound i) else Ok (), sent)"
    if "op_ok c env e (CDelete i)"
    using change_answers(5) [OF that assms refl] by (cases "engine_delete c env e i") simp
qed

lemma agrees_change:
  assumes "agrees c en fs e" "op_ok c env e op"
  shows "agrees c en (engine_files r (apply_op c env e op)) (apply_op c env e op)"
proof -
  have "engine_files (repl_file (engine_files r e')) e' = engine_files r e'" for e' :: "'n engine"
    by (cases "eng_feed e'") (simp_all add: engine_files_def)
  then show ?thesis using assms change_answers(1) [OF assms(2)] by (simp add: agrees_def)
qed

end
