(* ===== verification/Rebalance.thy ===== *)
theory Rebalance
  imports Shard Disk
begin

text \<open>
  Moving documents between shards (\<open>ShardRouter::rebalance\<close> of \<open>src/src/shard.rs\<close>). The source is
  opened a second time, whatever engine the router has for it; the files of the shards are shared
  through the disk. Writing and parsing the dump are arguments; \<open>envs\<close> gives the environments of
  the changes in their order.
\<close>

definition open_shard :: "'n codec \<Rightarrow> disk \<Rightarrow> string \<Rightarrow> disk \<times> 'n engine outcome" where
  "open_shard c disk s =
     (let fs = (case disk s of None \<Rightarrow> no_files | Some fs \<Rightarrow> fs) in (disk(s \<mapsto> opened_files c fs), engine_open c True fs))"

text \<open>A change through an engine, on the files of its shard.\<close>

definition change_shard :: "disk \<Rightarrow> string \<Rightarrow> 'n engine \<Rightarrow> ('n engine \<Rightarrow> ('n, 'r) result) \<Rightarrow> disk \<times> 'n engine \<times> 'r outcome" where
  "change_shard disk s e f =
     (case disk s of
        None \<Rightarrow> (let (e', r, sent) = f e in (disk, e', r))
      | Some fs \<Rightarrow> (let (e', r, sent) = f (attach fs e) in (disk(s \<mapsto> engine_files (repl_file fs) e'), e', r)))"

text \<open>The engine of the target: the one of the router, or one that is opened now and kept.\<close>

definition target_engine :: "'n codec \<Rightarrow> disk \<Rightarrow> 'n router \<Rightarrow> string \<Rightarrow> disk \<times> 'n router \<times> 'n engine outcome" where
  "target_engine c disk rt target =
     (case map_of (rt_engines rt) target of
        Some e \<Rightarrow> (disk, rt, Ok e)
      | None \<Rightarrow>
          (case open_shard c disk target of
             (disk', Ok e) \<Rightarrow> (disk', rt\<lparr>rt_engines := bt_insert target e (rt_engines rt)\<rparr>, Ok e)
           | (disk', r) \<Rightarrow> (disk', rt, r)))"

fun move_documents ::
  "(string \<Rightarrow> 64 word) \<Rightarrow> 'n codec \<Rightarrow> (nat \<Rightarrow> call_env) \<Rightarrow> string \<Rightarrow> string \<Rightarrow> 'n document list
     \<Rightarrow> disk \<Rightarrow> 'n engine \<Rightarrow> 'n router \<Rightarrow> nat \<Rightarrow> disk \<times> 'n router \<times> nat outcome" where
  "move_documents hasher c envs source target [] disk src rt moved = (disk, rt, Ok moved)"
| "move_documents hasher c envs source target (d # ds) disk src rt moved =
     (if shard_for hasher rt (doc_id d) = Some target then
        (case change_shard disk source src (\<lambda>e. engine_delete c (envs 0) e (doc_id d)) of
           (disk1, src1, Err x) \<Rightarrow> (disk1, rt, Err x)
         | (disk1, src1, Panic) \<Rightarrow> (disk1, rt, Panic)
         | (disk1, src1, Ok _) \<Rightarrow>
             (case target_engine c disk1 rt target of
                (disk2, rt2, Err x) \<Rightarrow> (disk2, rt2, Err x)
              | (disk2, rt2, Panic) \<Rightarrow> (disk2, rt2, Panic)
              | (disk2, rt2, Ok te) \<Rightarrow>
                  (case change_shard disk2 target te (\<lambda>e. engine_insert c (envs 1) e d) of
                     (disk3, te3, r) \<Rightarrow>
                       (let rt3 = rt2\<lparr>rt_engines := bt_insert target te3 (rt_engines rt2)\<rparr> in
                        case r of
                          Err x \<Rightarrow> (disk3, rt3, Err x)
                        | Panic \<Rightarrow> (disk3, rt3, Panic)
                        | Ok _ \<Rightarrow> move_documents hasher c (\<lambda>i. envs (i + 2)) source target ds disk3 src1 rt3 (moved + 1)))))
      else move_documents hasher c envs source target ds disk src rt moved)"

definition rebalance ::
  "(string \<Rightarrow> 64 word) \<Rightarrow> 'n codec \<Rightarrow> ('n document list \<Rightarrow> string) \<Rightarrow> (string \<Rightarrow> 'n document list option)
     \<Rightarrow> (nat \<Rightarrow> call_env) \<Rightarrow> disk \<Rightarrow> 'n router \<Rightarrow> string \<Rightarrow> string \<Rightarrow> disk \<times> 'n router \<times> nat outcome" where
  "rebalance hasher c pretty parse envs disk rt source target =
     (if disk source = None then (disk, rt, Err (ShardError (''source shard '' @ source @ '' does not exist'')))
      else (case open_shard c disk source of
              (disk1, Err x) \<Rightarrow> (disk1, rt, Err x)
            | (disk1, Panic) \<Rightarrow> (disk1, rt, Panic)
            | (disk1, Ok src) \<Rightarrow>
                (let docs = (case parse (engine_dump pretty src) of None \<Rightarrow> [] | Some docs \<Rightarrow> docs) in
                 case move_documents hasher c envs source target docs disk1 src rt 0 of
                   (disk2, rt2, Ok moved) \<Rightarrow>
                     (if map_of (rt_engines rt2) source = None then (disk2, rt2, Ok moved)
                      else (case open_shard c disk2 source of
                              (disk3, Ok e) \<Rightarrow> (disk3, rt2\<lparr>rt_engines := bt_insert source e (rt_engines rt2)\<rparr>, Ok moved)
                            | (disk3, Err x) \<Rightarrow> (disk3, rt2, Err x)
                            | (disk3, Panic) \<Rightarrow> (disk3, rt2, Panic)))
                 | (disk2, rt2, r) \<Rightarrow> (disk2, rt2, r))))"

subsection \<open>Lemmas\<close>

text \<open>A change of an engine that agrees with the files of its shard, and the engine of the target.\<close>

lemma change_shard_ok:
  assumes "files_of c fs e" "disk s = Some fs" "op_ok c env e op"
  shows "\<exists>fs'. files_of c fs' (apply_op c env e op) \<and>
    (op = CInsert doc \<longrightarrow> change_shard disk s e (\<lambda>e. engine_insert c env e doc) =
       (disk(s \<mapsto> fs'), apply_op c env e op, Ok (doc_id (stored_doc env doc)))) \<and>
    (op = CDelete i \<and> eng_abs e i \<noteq> None \<longrightarrow> change_shard disk s e (\<lambda>e. engine_delete c env e i) =
       (disk(s \<mapsto> fs'), apply_op c env e op, Ok ()))"
proof -
  have run: "db_run c True e" using assms(1) by (simp add: files_of_def)
  note ok = change_answers [OF assms(3) run]
  have files: "files_of c (engine_files [] (apply_op c env e op)) (apply_op c env e op)"
    using ok(1) by (simp add: files_of_def)
  show ?thesis
    by (rule exI [of _ "engine_files [] (apply_op c env e op)"])
       (use assms(2) files files_of_attach [OF assms(1)] files_of_files [OF files, of "repl_file fs"] ok(3,5) in
         \<open>auto simp: change_shard_def case_prod_beta\<close>)
qed

definition target_is :: "'n codec \<Rightarrow> 'n router \<Rightarrow> string \<Rightarrow> db_files \<Rightarrow> 'n engine \<Rightarrow> bool" where
  "target_is c rt target fs e \<longleftrightarrow>
     map_of (rt_engines rt) target = Some e \<or> map_of (rt_engines rt) target = None \<and> engine_open c True fs = Ok e"

lemma target_engine_ok:
  assumes "target_is c rt target fs e" "files_of c fs e" "disk target = Some fs" "bt_ok (rt_engines rt)"
  shows "\<exists>rt'. target_engine c disk rt target = (disk, rt', Ok e) \<and> rt_ring rt' = rt_ring rt \<and>
    bt_ok (rt_engines rt') \<and> map_of (rt_engines rt') = (map_of (rt_engines rt))(target \<mapsto> e)"
proof (cases "map_of (rt_engines rt) target")
  case (Some e')
  with assms(1) have "e' = e" by (simp add: target_is_def)
  with Some assms(4) show ?thesis by (auto simp: target_engine_def)
next
  case None
  with assms(1) have "engine_open c True fs = Ok e" by (simp add: target_is_def)
  with None assms files_of_open(3) [OF assms(2)] show ?thesis
    by (auto simp: target_engine_def open_shard_def hm_simps fun_upd_idem)
qed

subsection \<open>Properties\<close>

text \<open>The changes of the two shards, in their order.\<close>

fun delete_ops :: "(nat \<Rightarrow> call_env) \<Rightarrow> 'n document list \<Rightarrow> (call_env \<times> 'n change_op) list" where
  "delete_ops envs [] = []"
| "delete_ops envs (d # ds) = (envs 0, CDelete (doc_id d)) # delete_ops (\<lambda>i. envs (i + 2)) ds"

fun insert_ops :: "(nat \<Rightarrow> call_env) \<Rightarrow> 'n document list \<Rightarrow> (call_env \<times> 'n change_op) list" where
  "insert_ops envs [] = []"
| "insert_ops envs (d # ds) = (envs 1, CInsert d) # insert_ops (\<lambda>i. envs (i + 2)) ds"

lemma delete_ops_state: "history_state abs_op m (delete_ops envs ds) = (\<lambda>i. if i \<in> doc_id ` set ds then None else m i)"
  by (induction ds arbitrary: envs m) (auto simp: fun_eq_iff)

lemma insert_ops_state:
  assumes "distinct (map doc_id ds)" "\<forall>d \<in> set ds. doc_id d \<noteq> []"
  shows "history_state abs_op m (insert_ops envs ds) = m ++ map_of (map (\<lambda>d. (doc_id d, d)) ds)"
  using assms
proof (induction ds arbitrary: envs m)
  case Nil
  then show ?case by simp
next
  case (Cons d ds)
  then have "doc_id d \<notin> dom (map_of (map (\<lambda>d. (doc_id d, d)) ds))" by (auto simp: dom_map_of_conv_image_fst image_image)
  with Cons show ?case by (auto simp: stored_doc_def fun_eq_iff map_add_def split: option.split)
qed

text \<open>The loop, for the documents that are in the source under their ids.\<close>

lemma move_documents_ok:
  assumes "source \<noteq> target" "bt_ok (rt_engines rt)" "disk source = Some fs" "files_of c fs src"
    and "disk target = Some tfs" "files_of c tfs te" "target_is c rt target tfs te"
    and "distinct (map doc_id ds)" "\<forall>d \<in> set ds. doc_id d \<noteq> [] \<and> eng_abs src (doc_id d) = Some d"
    and "\<forall>d \<in> set ds. shard_for hasher rt (doc_id d) = Some target"
    and "ok_history (op_ok c) (apply_op c) src (delete_ops envs ds)"
    and "ok_history (op_ok c) (apply_op c) te (insert_ops envs ds)"
  shows "\<exists>fs' tfs' rt'. move_documents hasher c envs source target ds disk src rt moved =
      (disk(source \<mapsto> fs', target \<mapsto> tfs'), rt', Ok (moved + length ds)) \<and>
    files_of c fs' (history_state (apply_op c) src (delete_ops envs ds)) \<and>
    files_of c tfs' (history_state (apply_op c) te (insert_ops envs ds)) \<and>
    rt_ring rt' = rt_ring rt \<and> bt_ok (rt_engines rt') \<and>
    map_of (rt_engines rt') = (if ds = [] then map_of (rt_engines rt)
      else (map_of (rt_engines rt))(target \<mapsto> history_state (apply_op c) te (insert_ops envs ds)))"
  using assms
proof (induction ds arbitrary: envs disk src rt fs tfs te moved)
  case Nil
  then have "disk(source \<mapsto> fs, target \<mapsto> tfs) = disk" by (simp add: fun_upd_idem)
  with Nil show ?case by fastforce
next
  case (Cons d ds)
  let ?src = "apply_op c (envs 0) src (CDelete (doc_id d))" and ?te = "apply_op c (envs 1) te (CInsert d)"
  have here: "shard_for hasher rt (doc_id d) = Some target" "eng_abs src (doc_id d) \<noteq> None" "doc_id d \<noteq> []"
    using Cons.prems(9,10) by auto
  have del: "op_ok c (envs 0) src (CDelete (doc_id d))" and ins: "op_ok c (envs 1) te (CInsert d)"
    using Cons.prems(11,12) by simp_all
  obtain fs1 where fs1: "files_of c fs1 ?src"
    "change_shard disk source src (\<lambda>e. engine_delete c (envs 0) e (doc_id d)) = (disk(source \<mapsto> fs1), ?src, Ok ())"
    using change_shard_ok [of c fs src disk source "envs 0" "CDelete (doc_id d)" d "doc_id d"] Cons.prems(3,4) del here(2) by blast
  have at: "(disk(source \<mapsto> fs1)) target = Some tfs" using Cons.prems(1,5) by simp
  obtain rt1 where rt1: "target_engine c (disk(source \<mapsto> fs1)) rt target = (disk(source \<mapsto> fs1), rt1, Ok te)"
    "rt_ring rt1 = rt_ring rt" "bt_ok (rt_engines rt1)" "map_of (rt_engines rt1) = (map_of (rt_engines rt))(target \<mapsto> te)"
    using target_engine_ok [where disk = "disk(source \<mapsto> fs1)", OF Cons.prems(7,6) at Cons.prems(2)] by blast
  obtain tfs1 where tfs1: "files_of c tfs1 ?te"
    "change_shard (disk(source \<mapsto> fs1)) target te (\<lambda>e. engine_insert c (envs 1) e d) =
      (disk(source \<mapsto> fs1, target \<mapsto> tfs1), ?te, Ok (doc_id (stored_doc (envs 1) d)))"
    using change_shard_ok [of c tfs te "disk(source \<mapsto> fs1)" target "envs 1" "CInsert d" d "[]"] Cons.prems(6) at ins by blast
  define rt2 where "rt2 = rt1\<lparr>rt_engines := bt_insert target ?te (rt_engines rt1)\<rparr>"
  have rt2: "rt_ring rt2 = rt_ring rt" "bt_ok (rt_engines rt2)" "map_of (rt_engines rt2) = (map_of (rt_engines rt))(target \<mapsto> ?te)"
    using rt1(2-4) by (simp_all add: rt2_def hm_simps del: apply_op.simps)
  have step: "move_documents hasher c envs source target (d # ds) disk src rt moved =
      move_documents hasher c (\<lambda>i. envs (i + 2)) source target ds (disk(source \<mapsto> fs1, target \<mapsto> tfs1)) ?src rt2 (moved + 1)"
    using here(1) fs1(2) rt1(1) tfs1(2) by (simp add: rt2_def del: apply_op.simps)
  have abs: "eng_abs ?src = (eng_abs src)(doc_id d := None)"
    using change_answers(2) [where en = True, OF del] Cons.prems(4) by (simp add: files_of_def del: apply_op.simps)
  have "\<exists>fs' tfs' rt'. move_documents hasher c (\<lambda>i. envs (i + 2)) source target ds (disk(source \<mapsto> fs1, target \<mapsto> tfs1)) ?src rt2 (moved + 1) =
      (disk(source \<mapsto> fs1, target \<mapsto> tfs1, source \<mapsto> fs', target \<mapsto> tfs'), rt', Ok (moved + 1 + length ds)) \<and>
    files_of c fs' (history_state (apply_op c) ?src (delete_ops (\<lambda>i. envs (i + 2)) ds)) \<and>
    files_of c tfs' (history_state (apply_op c) ?te (insert_ops (\<lambda>i. envs (i + 2)) ds)) \<and>
    rt_ring rt' = rt_ring rt2 \<and> bt_ok (rt_engines rt') \<and>
    map_of (rt_engines rt') = (if ds = [] then map_of (rt_engines rt2)
      else (map_of (rt_engines rt2))(target \<mapsto> history_state (apply_op c) ?te (insert_ops (\<lambda>i. envs (i + 2)) ds)))"
  proof (rule Cons.IH)
    show "\<forall>x \<in> set ds. doc_id x \<noteq> [] \<and> eng_abs ?src (doc_id x) = Some x"
    proof
      fix x
      assume x: "x \<in> set ds"
      then have "doc_id x \<noteq> doc_id d" using Cons.prems(8) by (metis distinct.simps(2) image_eqI list.simps(9) set_map)
      moreover have "doc_id x \<noteq> [] \<and> eng_abs src (doc_id x) = Some x" using Cons.prems(9) x by simp
      ultimately show "doc_id x \<noteq> [] \<and> eng_abs ?src (doc_id x) = Some x" unfolding abs by simp
    qed
    show "\<forall>x \<in> set ds. shard_for hasher rt2 (doc_id x) = Some target"
      using Cons.prems(10) rt2(1) by (simp add: shard_for_def)
    show "target_is c rt2 target tfs1 ?te" using rt2(3) by (simp add: target_is_def)
  qed (use Cons.prems fs1(1) tfs1(1) rt2 in \<open>simp_all del: apply_op.simps\<close>)
  moreover have "disk(source \<mapsto> fs1, target \<mapsto> tfs1, source \<mapsto> fs', target \<mapsto> tfs') = disk(source \<mapsto> fs', target \<mapsto> tfs')" for fs' tfs'
    using Cons.prems(1) by (simp add: fun_upd_twist)
  ultimately show ?case using rt2 unfolding step by (fastforce simp del: apply_op.simps)
qed

text \<open>Documents that stay are passed over; the ring does not change on the way.\<close>

lemma target_engine_ring: "target_engine c disk rt target = (disk', rt', r) \<Longrightarrow> rt_ring rt' = rt_ring rt"
  by (auto simp: target_engine_def split: option.splits prod.splits outcome.splits)

lemma move_documents_filter:
  "move_documents hasher c envs source target (filter (\<lambda>d. shard_for hasher rt (doc_id d) = Some target) ds) disk src rt moved =
   move_documents hasher c envs source target ds disk src rt moved"
proof (induction ds arbitrary: envs disk src rt moved)
  case Nil
  then show ?case by simp
next
  case (Cons d ds)
  show ?case
  proof (cases "shard_for hasher rt (doc_id d) = Some target")
    case False
    then show ?thesis using Cons.IH by simp
  next
    case True
    obtain disk1 src1 r1 where c1: "change_shard disk source src (\<lambda>e. engine_delete c (envs 0) e (doc_id d)) = (disk1, src1, r1)"
      by (metis prod_cases3)
    obtain disk2 rt2 r2 where c2: "target_engine c disk1 rt target = (disk2, rt2, r2)" by (metis prod_cases3)
    have "shard_for hasher (rt2\<lparr>rt_engines := es\<rparr>) = shard_for hasher rt" for es
      using target_engine_ring [OF c2] by (simp add: shard_for_def fun_eq_iff)
    then have "move_documents hasher c envs source target (filter (\<lambda>d. shard_for hasher rt (doc_id d) = Some target) ds)
        disk src (rt2\<lparr>rt_engines := es\<rparr>) moved = move_documents hasher c envs source target ds disk src (rt2\<lparr>rt_engines := es\<rparr>) moved"
      for envs disk src es moved using Cons.IH [of envs "rt2\<lparr>rt_engines := es\<rparr>" disk src moved] by simp
    with True c1 c2 show ?thesis by (cases r1; cases r2) (simp_all add: Let_def split: prod.split outcome.split)
  qed
qed

lemma map_of_filter_key:
  "map_of (map (\<lambda>d. (f d, d)) (filter (\<lambda>d. Q (f d)) ds)) = (\<lambda>i. if Q i then map_of (map (\<lambda>d. (f d, d)) ds) i else None)"
  by (induction ds) (auto simp: fun_eq_iff)

text \<open>The documents of an engine are stored under their ids.\<close>

lemma stored_under_ids:
  assumes "db_run c en e"
  shows "eng_docs e = map (\<lambda>d. (doc_id d, d)) (hm_values (eng_docs e))" "distinct (map doc_id (hm_values (eng_docs e)))"
proof -
  have ok: "hm_ok (eng_docs e)" "\<forall>i d. hm_get (eng_docs e) i = Some d \<longrightarrow> doc_id d = i"
    using db_run_ok [OF assms] by (auto simp: engine_ok_def logged_def docs_ok_def)
  then have key: "doc_id d = i" if "(i, d) \<in> set (eng_docs e)" for i d
    using that by (simp add: hm_ok_def)
  then have "map (\<lambda>(i, d). (doc_id d, d)) (eng_docs e) = eng_docs e" by (intro map_idI) auto
  moreover have "map (\<lambda>(i, d). (doc_id d, d)) (eng_docs e) = map (\<lambda>d. (doc_id d, d)) (hm_values (eng_docs e))"
    by (simp add: case_prod_beta)
  ultimately show "eng_docs e = map (\<lambda>d. (doc_id d, d)) (hm_values (eng_docs e))" by (simp only:)
  have keys: "map (doc_id \<circ> snd) (eng_docs e) = map fst (eng_docs e)" using key by (intro map_cong) auto
  show "distinct (map doc_id (hm_values (eng_docs e)))" using ok(1) unfolding hm_ok_def map_map keys .
qed

text \<open>The documents to move, their removal from the source, and the map they make.\<close>

lemma moving_docs:
  assumes "db_run c en src" "eng_abs src [] = None"
    and "ms = filter (\<lambda>d. shard_for hasher rt (doc_id d) = Some target) (hm_values (eng_docs src))"
  shows "distinct (map doc_id ms)" "\<forall>d \<in> set ms. doc_id d \<noteq> [] \<and> eng_abs src (doc_id d) = Some d"
    and "\<forall>d \<in> set ms. shard_for hasher rt (doc_id d) = Some target"
    and "(if i \<in> doc_id ` set ms then None else eng_abs src i) = (if shard_for hasher rt i = Some target then None else eng_abs src i)"
    and "map_of (map (\<lambda>d. (doc_id d, d)) ms) = (\<lambda>i. if shard_for hasher rt i = Some target then eng_abs src i else None)"
proof -
  let ?docs = "hm_values (eng_docs src)"
  note ids = stored_under_ids [OF assms(1)]
  have abs: "eng_abs src = map_of (map (\<lambda>d. (doc_id d, d)) ?docs)" unfolding eng_abs_def ids(1) [symmetric] ..
  show "distinct (map doc_id ms)" using ids(2) unfolding assms(3) by (rule distinct_map_filter)
  show "\<forall>d \<in> set ms. doc_id d \<noteq> [] \<and> eng_abs src (doc_id d) = Some d"
  proof
    fix d
    assume "d \<in> set ms"
    then have mem: "(doc_id d, d) \<in> set (map (\<lambda>d. (doc_id d, d)) ?docs)" using assms(3) by auto
    have "distinct (map fst (map (\<lambda>d. (doc_id d, d)) ?docs))" using ids(2) by (simp add: comp_def)
    then have d: "eng_abs src (doc_id d) = Some d" unfolding abs by (rule map_of_is_SomeI) (rule mem)
    then have "doc_id d \<noteq> []" using assms(2) by auto
    with d show "doc_id d \<noteq> [] \<and> eng_abs src (doc_id d) = Some d" by blast
  qed
  show "\<forall>d \<in> set ms. shard_for hasher rt (doc_id d) = Some target" by (simp add: assms(3))
  show "(if i \<in> doc_id ` set ms then None else eng_abs src i) = (if shard_for hasher rt i = Some target then None else eng_abs src i)"
  proof (cases "eng_abs src i")
    case (Some x)
    then obtain d where "map_of (map (\<lambda>d. (doc_id d, d)) ?docs) i = Some d" unfolding abs by blast
    from map_of_SomeD [OF this] have "d \<in> set ?docs" "doc_id d = i" by auto
    then have "i \<in> doc_id ` set ms \<longleftrightarrow> shard_for hasher rt i = Some target" unfolding assms(3) set_filter by blast
    then show ?thesis by simp
  qed simp
  show "map_of (map (\<lambda>d. (doc_id d, d)) ms) = (\<lambda>i. if shard_for hasher rt i = Some target then eng_abs src i else None)"
    unfolding assms(3) map_of_filter_key [where f = doc_id and Q = "\<lambda>i. shard_for hasher rt i = Some target"] abs ..
qed

text \<open>
  C22: Rebalancing moves exactly the documents that now map to the target. For two shards whose
  files agree with engines, the target not open or open with such an engine, \<open>rebalance\<close> answers the
  number of documents of the source that the ring sends to the target; afterwards the files of the
  source hold its other documents, those of the target hold the moved ones besides its own, no other
  file has changed, and the engines the router has for the two shards agree with their files.
\<close>

theorem rebalance_moves_documents:
  assumes "source \<noteq> target" "bt_ok (rt_engines rt)" "disk source = Some fs" "files_of c fs src"
    and "disk target = Some tfs" "files_of c tfs te" "target_is c rt target tfs te"
    and "eng_abs src [] = None" "parse (engine_dump pretty src) = Some (hm_values (eng_docs src))"
    and "ms = filter (\<lambda>d. shard_for hasher rt (doc_id d) = Some target) (hm_values (eng_docs src))"
    and "ok_history (op_ok c) (apply_op c) (without_subscribers src) (delete_ops envs ms)"
    and "ok_history (op_ok c) (apply_op c) te (insert_ops envs ms)"
  shows "\<exists>fs' tfs' rt'. rebalance hasher c pretty parse envs disk rt source target =
      (disk(source \<mapsto> fs', target \<mapsto> tfs'), rt', Ok (length ms)) \<and>
    stored_docs c fs' = (\<lambda>i. if shard_for hasher rt i = Some target then None else eng_abs src i) \<and>
    stored_docs c tfs' = eng_abs te ++ (\<lambda>i. if shard_for hasher rt i = Some target then eng_abs src i else None) \<and>
    (\<forall>e. map_of (rt_engines rt') source = Some e \<longrightarrow> eng_abs e = stored_docs c fs') \<and>
    (\<forall>e. map_of (rt_engines rt') target = Some e \<longrightarrow> eng_abs e = stored_docs c tfs')"
proof -
  let ?src = "without_subscribers src" and ?docs = "hm_values (eng_docs src)"
  let ?src' = "history_state (apply_op c) ?src (delete_ops envs ms)"
  let ?te' = "history_state (apply_op c) te (insert_ops envs ms)"
  have run: "db_run c True src" "db_run c True te" using assms(4,6) by (simp_all add: files_of_def)
  note src = files_of_open [OF assms(4)]
  have docs: "eng_docs ?src = eng_docs src" by (simp add: without_subscribers_def)
  note ms = moving_docs [OF run(1) assms(8,10)]
  obtain fs' tfs' rt1 where moved: "move_documents hasher c envs source target ms disk ?src rt 0 =
      (disk(source \<mapsto> fs', target \<mapsto> tfs'), rt1, Ok (0 + length ms))"
    and fs': "files_of c fs' ?src'" and tfs': "files_of c tfs' ?te'" and rt1: "bt_ok (rt_engines rt1)"
    "map_of (rt_engines rt1) = (if ms = [] then map_of (rt_engines rt) else (map_of (rt_engines rt))(target \<mapsto> ?te'))"
    using move_documents_ok [where moved = 0, OF assms(1,2,3) src(2) assms(5-7) ms(1) ms(2) [folded eng_abs_without_subscribers [of src]]
      ms(3) assms(11,12)] by blast
  have "db_run c True ?src" using src(2) by (simp add: files_of_def)
  from dstore.history_refines [OF this assms(11)]
  have kept: "stored_docs c fs' = (\<lambda>i. if shard_for hasher rt i = Some target then None else eng_abs src i)"
    by (simp add: files_of_open(4) [OF fs'] delete_ops_state eng_abs_without_subscribers ms(4))
  from dstore.history_refines [OF run(2) assms(12)]
  have gained: "stored_docs c tfs' = eng_abs te ++ (\<lambda>i. if shard_for hasher rt i = Some target then eng_abs src i else None)"
    using ms(1,2) by (simp add: files_of_open(4) [OF tfs'] insert_ops_state ms(5))
  let ?rt' = "if map_of (rt_engines rt1) source = None then rt1
    else rt1\<lparr>rt_engines := bt_insert source (without_subscribers ?src') (rt_engines rt1)\<rparr>"
  have dump: "parse (engine_dump pretty ?src) = Some ?docs" using assms(9) by (simp add: engine_dump_def docs)
  have "open_shard c disk source = (disk, Ok ?src)" using assms(3) src(1,3) by (simp add: open_shard_def fun_upd_idem)
  moreover have "move_documents hasher c envs source target ?docs disk ?src rt 0 =
      (disk(source \<mapsto> fs', target \<mapsto> tfs'), rt1, Ok (length ms))"
    using moved move_documents_filter [of hasher c envs source target rt ?docs] unfolding assms(10) by simp
  moreover have "open_shard c (disk(source \<mapsto> fs', target \<mapsto> tfs')) source = (disk(source \<mapsto> fs', target \<mapsto> tfs'), Ok (without_subscribers ?src'))"
    using assms(1) files_of_open(1,3) [OF fs'] by (simp add: open_shard_def fun_upd_idem fun_upd_twist)
  ultimately have result: "rebalance hasher c pretty parse envs disk rt source target =
      (disk(source \<mapsto> fs', target \<mapsto> tfs'), ?rt', Ok (length ms))"
    using assms(3) dump by (simp add: rebalance_def)
  have "eng_abs (without_subscribers ?src') = stored_docs c fs'"
    by (simp add: files_of_open(4) [OF fs'] eng_abs_without_subscribers)
  moreover have "eng_abs e = stored_docs c tfs'" if "map_of (rt_engines rt1) target = Some e" for e
  proof (cases "ms = []")
    case True
    then have "map_of (rt_engines rt) target = Some e" using that rt1(2) by simp
    then have "e = te" using assms(7) by (simp add: target_is_def)
    then show ?thesis using True files_of_open(4) [OF tfs'] by simp
  next
    case False
    then show ?thesis using that rt1(2) files_of_open(4) [OF tfs'] by simp
  qed
  ultimately have "(\<forall>e. map_of (rt_engines ?rt') source = Some e \<longrightarrow> eng_abs e = stored_docs c fs') \<and>
      (\<forall>e. map_of (rt_engines ?rt') target = Some e \<longrightarrow> eng_abs e = stored_docs c tfs')"
    using assms(1) rt1(1) by (simp add: hm_simps)
  with result kept gained show ?thesis by (metis (no_types, lifting))
qed

text \<open>
  Rebalancing can lose a document. The document is deleted from the source before the target
  is opened: when the target is not open and its files do not open, \<open>rebalance\<close> fails, the first
  document to move is gone from the files of the source, and no other file but those of the target
  was touched.
\<close>

theorem rebalance_failure_loses_document:
  assumes "source \<noteq> target" "disk source = Some fs" "files_of c fs src"
    and "map_of (rt_engines rt) target = None" "disk target = Some tfs" "engine_open c True tfs = Err x"
    and "parse (engine_dump pretty src) = Some (hm_values (eng_docs src))"
    and "filter (\<lambda>d. shard_for hasher rt (doc_id d) = Some target) (hm_values (eng_docs src)) = d # ds"
    and "eng_abs src [] = None" "op_ok c (envs 0) src (CDelete (doc_id d))"
  shows "\<exists>fs'. rebalance hasher c pretty parse envs disk rt source target =
      (disk(source \<mapsto> fs', target \<mapsto> opened_files c tfs), rt, Err x) \<and>
    eng_abs src (doc_id d) = Some d \<and> stored_docs c fs' = (eng_abs src)(doc_id d := None)"
proof -
  let ?src = "without_subscribers src"
  have run: "db_run c True src" using assms(3) by (simp add: files_of_def)
  note src = files_of_open [OF assms(3)]
  have docs: "eng_docs ?src = eng_docs src" by (simp add: without_subscribers_def)
  have here: "eng_abs src (doc_id d) = Some d" "shard_for hasher rt (doc_id d) = Some target"
    using moving_docs(2,3) [OF run assms(9) assms(8) [symmetric]] by simp_all
  have del: "op_ok c (envs 0) ?src (CDelete (doc_id d))" using assms(10) by (simp only: op_ok_without_subscribers)
  obtain fs1 src1 where fs1: "files_of c fs1 src1" "src1 = apply_op c (envs 0) ?src (CDelete (doc_id d))"
    "change_shard disk source ?src (\<lambda>e. engine_delete c (envs 0) e (doc_id d)) = (disk(source \<mapsto> fs1), src1, Ok ())"
    using change_shard_ok [of c fs ?src disk source "envs 0" "CDelete (doc_id d)" d "doc_id d"] src(2) assms(2) del here(1)
    by (auto simp: eng_abs_without_subscribers simp del: apply_op.simps op_ok.simps)
  have "target_engine c (disk(source \<mapsto> fs1)) rt target = (disk(source \<mapsto> fs1, target \<mapsto> opened_files c tfs), rt, Err x)"
    using assms(1,4-6) by (simp add: target_engine_def open_shard_def)
  then have "move_documents hasher c envs source target (d # ds) disk ?src rt 0 =
      (disk(source \<mapsto> fs1, target \<mapsto> opened_files c tfs), rt, Err x)"
    using here(2) fs1(3) by simp
  then have "move_documents hasher c envs source target (hm_values (eng_docs src)) disk ?src rt 0 =
      (disk(source \<mapsto> fs1, target \<mapsto> opened_files c tfs), rt, Err x)"
    using move_documents_filter [of hasher c envs source target rt "hm_values (eng_docs src)"] assms(8) by simp
  moreover have "open_shard c disk source = (disk, Ok ?src)" using assms(2) src(1,3) by (simp add: open_shard_def fun_upd_idem)
  moreover have "parse (engine_dump pretty ?src) = Some (hm_values (eng_docs src))" using assms(7) by (simp add: engine_dump_def docs)
  ultimately have "rebalance hasher c pretty parse envs disk rt source target =
      (disk(source \<mapsto> fs1, target \<mapsto> opened_files c tfs), rt, Err x)"
    using assms(2) by (simp add: rebalance_def)
  moreover have "stored_docs c fs1 = (eng_abs src)(doc_id d := None)"
    using change_answers(2) [where en = True, OF del] src(2) files_of_open(4) [OF fs1(1)] fs1(2)
    by (simp add: files_of_def eng_abs_without_subscribers)
  ultimately show ?thesis using here(1) by blast
qed

subsection \<open>Witnesses\<close>

text \<open>A coding of the two change records of the witnesses, and a source with one document.\<close>

definition move_codec :: "unit codec" where
  "move_codec = toy_codec\<lparr>enc_change := (\<lambda>r. [char_of (sequence r)]),
     dec_change := (\<lambda>bs. Some (if bs = [char_of (1 :: nat)]
       then \<lparr>sequence = 1, chg_op = OpInsert, chg_doc_id = ''k'', chg_payload = ''k'', timestamp = 0\<rparr>
       else \<lparr>sequence = 2, chg_op = OpDelete, chg_doc_id = ''k'', chg_payload = [], timestamp = 0\<rparr>))\<rparr>"

definition move_router :: "unit router" where
  "move_router = toy_router\<lparr>rt_engines := []\<rparr>"

lemma move_open:
  "engine_open move_codec True no_files = Ok (toy_engine\<lparr>eng_feed :=
     Some \<lparr>feed_log = \<lparr>rl_file = repl_header, next_sequence = 1\<rparr>, subscribers = []\<rparr>\<rparr>)"
  by (simp add: open_fresh toy_engine_def)

lemma move_target: "\<exists>te tfs. files_of move_codec tfs te \<and> engine_open move_codec True tfs = Ok te \<and>
  eng_docs te = [] \<and> op_ok move_codec toy_env te (CInsert toy_doc) \<and>
  eng_feed te = Some \<lparr>feed_log = \<lparr>rl_file = repl_header, next_sequence = 1\<rparr>, subscribers = []\<rparr>"
proof -
  obtain te where te: "engine_open move_codec True no_files = Ok te"
    "files_of move_codec (opened_files move_codec no_files) te" using files_of_fresh by blast
  let ?tfs = "opened_files move_codec no_files"
  have val: "te = toy_engine\<lparr>eng_feed := Some \<lparr>feed_log = \<lparr>rl_file = repl_header, next_sequence = 1\<rparr>, subscribers = []\<rparr>\<rparr>"
    using te(1) move_open by simp
  have "without_subscribers te = te" by (simp add: val without_subscribers_def)
  then have "engine_open move_codec True ?tfs = Ok te" using files_of_open(1) [OF te(2)] by simp
  moreover have "eng_docs te = []" "eng_feed te = Some \<lparr>feed_log = \<lparr>rl_file = repl_header, next_sequence = 1\<rparr>, subscribers = []\<rparr>"
    by (simp_all add: val toy_engine_def)
  moreover have "op_ok move_codec toy_env te (CInsert toy_doc)"
    by (simp add: val toy_engine_def move_codec_def toy_codec_def toy_env_def toy_doc_def stored_doc_def doc_coded_def
        payload_ok_def coded_def)
  ultimately show ?thesis using te(2) by blast
qed

lemma insert_next_sequence:
  assumes "fst (snd (engine_insert c env e doc)) = Ok i" "eng_feed e = Some f"
  shows "\<exists>f'. eng_feed (fst (engine_insert c env e doc)) = Some f' \<and>
    next_sequence (feed_log f') = u64_add (next_sequence (feed_log f)) 1"
proof -
  obtain e1 r where log: "log_write c e OpInsert (doc_id (stored_doc env doc)) (enc_doc c (stored_doc env doc)) = (e1, r)" by fastforce
  then have feed: "eng_feed e1 = Some f" using assms(2) by (auto simp: log_write_def Let_def split: outcome.splits prod.splits)
  have "\<exists>f'. eng_feed (fst (feed_publish c env e2 op j p)) = Some f' \<and> next_sequence (feed_log f') = u64_add (next_sequence (feed_log f)) 1"
    if "eng_feed e2 = Some f" for e2 op j p
    using that by (auto simp: feed_publish_def publish_def repl_append_def Let_def)
  with assms(1) log feed show ?thesis unfolding engine_insert_def stored_doc_def [symmetric]
    by (cases r) (simp_all add: Let_def case_prod_beta)
qed

lemma move_source: "\<exists>src fs. files_of move_codec fs src \<and> without_subscribers src = src \<and> eng_docs src = [(''k'', toy_doc)] \<and>
  op_ok move_codec toy_env src (CDelete ''k'')"
proof -
  obtain te tfs where te: "files_of move_codec tfs te" "engine_open move_codec True tfs = Ok te" "eng_docs te = []"
    "op_ok move_codec toy_env te (CInsert toy_doc)" "eng_feed te = Some \<lparr>feed_log = \<lparr>rl_file = repl_header, next_sequence = 1\<rparr>, subscribers = []\<rparr>"
    using move_target by blast
  let ?src = "apply_op move_codec toy_env te (CInsert toy_doc)"
  have run: "db_run move_codec True te" using te(1) by (simp add: files_of_def)
  note ok = change_answers [OF te(4) run] insert_ok(2) [OF db_run_ok [OF run] te(4)]
  have files: "files_of move_codec (engine_files [] ?src) ?src" using ok(1) by (simp add: files_of_def)
  have docs: "eng_docs ?src = [(''k'', toy_doc)]" using ok(6) te(3) by (simp add: stored_doc_def toy_doc_def)
  obtain f where f: "eng_feed ?src = Some f" "next_sequence (feed_log f) = 2"
    using insert_next_sequence [OF ok(3) [OF refl] te(5)] by auto
  have "(char_of (2 :: nat) :: char) \<noteq> char_of (Suc 0)" by code_simp
  then have "op_ok move_codec toy_env ?src (CDelete ''k'')"
    using f by (simp add: payload_ok_def coded_def move_codec_def toy_codec_def toy_env_def del: apply_op.simps)
  then have "op_ok move_codec toy_env (without_subscribers ?src) (CDelete ''k'')" by (simp only: op_ok_without_subscribers)
  moreover have "eng_docs (without_subscribers ?src) = [(''k'', toy_doc)]" using docs by (simp add: without_subscribers_def)
  ultimately show ?thesis using files_of_open(2) [OF files] without_subscribers_idem by blast
qed

theorem rebalance_moves_documents_witness:
  "\<exists>disk disk' rt'. rebalance toy_hasher move_codec (\<lambda>_. []) (\<lambda>_. Some [toy_doc]) (\<lambda>_. toy_env) disk move_router ''a'' ''b'' =
     (disk', rt', Ok 1) \<and> stored_docs move_codec (the (disk' ''b'')) = [''k'' \<mapsto> toy_doc]"
proof -
  obtain te tfs where te: "files_of move_codec tfs te" "engine_open move_codec True tfs = Ok te" "eng_docs te = []"
    "op_ok move_codec toy_env te (CInsert toy_doc)" using move_target by blast
  obtain src fs where src: "files_of move_codec fs src" "without_subscribers src = src" "eng_docs src = [(''k'', toy_doc)]"
    "op_ok move_codec toy_env src (CDelete ''k'')" using move_source by blast
  let ?disk = "[''a'' \<mapsto> fs, ''b'' \<mapsto> tfs]"
  have id: "doc_id toy_doc = ''k''" by (simp add: toy_doc_def)
  have route: "shard_for toy_hasher move_router k = (if k = [] then Some ''a'' else Some ''b'')" for k
    using toy_route by (simp add: shard_for_def move_router_def)
  have "target_is move_codec move_router ''b'' tfs te" using te(2) by (simp add: target_is_def move_router_def)
  then have "\<exists>fs' tfs' rt'. rebalance toy_hasher move_codec (\<lambda>_. []) (\<lambda>_. Some [toy_doc]) (\<lambda>_. toy_env) ?disk move_router ''a'' ''b'' =
      (?disk(''a'' \<mapsto> fs', ''b'' \<mapsto> tfs'), rt', Ok (length [toy_doc])) \<and>
    stored_docs move_codec fs' = (\<lambda>i. if shard_for toy_hasher move_router i = Some ''b'' then None else eng_abs src i) \<and>
    stored_docs move_codec tfs' = eng_abs te ++ (\<lambda>i. if shard_for toy_hasher move_router i = Some ''b'' then eng_abs src i else None) \<and>
    (\<forall>e. map_of (rt_engines rt') ''a'' = Some e \<longrightarrow> eng_abs e = stored_docs move_codec fs') \<and>
    (\<forall>e. map_of (rt_engines rt') ''b'' = Some e \<longrightarrow> eng_abs e = stored_docs move_codec tfs')"
    by (intro rebalance_moves_documents [where fs = fs and src = src and tfs = tfs])
       (use te src id route in \<open>simp_all add: move_router_def hm_simps eng_abs_def del: op_ok.simps\<close>)
  moreover have "eng_abs te ++ (\<lambda>i. if shard_for toy_hasher move_router i = Some ''b'' then eng_abs src i else None) = [''k'' \<mapsto> toy_doc]"
    by (auto simp: eng_abs_def te(3) src(3) route fun_eq_iff map_add_def)
  ultimately show ?thesis by fastforce
qed

theorem rebalance_failure_loses_document_witness:
  "\<exists>disk disk' rt' x. rebalance toy_hasher move_codec (\<lambda>_. []) (\<lambda>_. Some [toy_doc]) (\<lambda>_. toy_env) disk move_router ''a'' ''b'' =
     (disk', rt', Err x) \<and> stored_docs move_codec (the (disk' ''a'')) = Map.empty"
proof -
  obtain src fs where src: "files_of move_codec fs src" "without_subscribers src = src" "eng_docs src = [(''k'', toy_doc)]"
    "op_ok move_codec toy_env src (CDelete ''k'')" using move_source by blast
  define tfs where "tfs = \<lparr>main_file = [], wal_file = ''not a log'', repl_file = []\<rparr>"
  have "wal_open ''not a log'' = Err (WalError ''Invalid WAL magic'')" by code_simp
  then have "\<exists>x. engine_open move_codec True tfs = Err x" by (simp add: tfs_def engine_open_def)
  then obtain x where x: "engine_open move_codec True tfs = Err x" ..
  let ?disk = "[''a'' \<mapsto> fs, ''b'' \<mapsto> tfs]"
  have id: "doc_id toy_doc = ''k''" by (simp add: toy_doc_def)
  have route: "shard_for toy_hasher move_router k = (if k = [] then Some ''a'' else Some ''b'')" for k
    using toy_route by (simp add: shard_for_def move_router_def)
  have "\<exists>fs'. rebalance toy_hasher move_codec (\<lambda>_. []) (\<lambda>_. Some [toy_doc]) (\<lambda>_. toy_env) ?disk move_router ''a'' ''b'' =
      (?disk(''a'' \<mapsto> fs', ''b'' \<mapsto> opened_files move_codec tfs), move_router, Err x) \<and>
    eng_abs src (doc_id toy_doc) = Some toy_doc \<and> stored_docs move_codec fs' = (eng_abs src)(doc_id toy_doc := None)"
    by (intro rebalance_failure_loses_document [where fs = fs and src = src and tfs = tfs and ds = "[]"])
       (use x src id route in \<open>simp_all add: move_router_def eng_abs_def del: op_ok.simps\<close>)
  moreover have "(eng_abs src)(doc_id toy_doc := None) = Map.empty"
    by (auto simp: eng_abs_def src(3) id fun_eq_iff)
  ultimately show ?thesis by fastforce
qed

end
