(* ===== verification/MultiDb.thy ===== *)
theory MultiDb
  imports Disk
begin

text \<open>
  The registry of databases of the server (\<open>src/src/server/multidb.rs\<close>). The directory is the
  files of its databases by name; shared engines are numbered, and the registry gives the number
  of the engine that is open for a name.
\<close>

record 'n multidb =
  md_files :: "(string, db_files) hashmap"
  md_open :: "(string, nat) hashmap"
  md_engines :: "'n engine list"

definition multidb_new :: "(string, db_files) hashmap \<Rightarrow> 'n multidb" where
  "multidb_new files = \<lparr>md_files = files, md_open = [], md_engines = []\<rparr>"

text \<open>Open the files of a name and register the new engine.\<close>

definition open_and_register :: "'n codec \<Rightarrow> 'n multidb \<Rightarrow> string \<Rightarrow> 'n multidb \<times> nat outcome" where
  "open_and_register c md name =
     (let fs = (case hm_get (md_files md) name of None \<Rightarrow> no_files | Some fs \<Rightarrow> fs);
          md1 = md\<lparr>md_files := hm_insert name (opened_files c fs) (md_files md)\<rparr>
      in case engine_open c True fs of
           Ok e \<Rightarrow>
             (md1\<lparr>md_open := hm_insert name (length (md_engines md)) (md_open md), md_engines := md_engines md @ [e]\<rparr>,
              Ok (length (md_engines md)))
         | Err x \<Rightarrow> (md1, Err x)
         | Panic \<Rightarrow> (md1, Panic))"

definition get_or_open :: "'n codec \<Rightarrow> 'n multidb \<Rightarrow> string \<Rightarrow> 'n multidb \<times> nat outcome" where
  "get_or_open c md name =
     (case hm_get (md_open md) name of
        Some h \<Rightarrow> (md, Ok h)
      | None \<Rightarrow> open_and_register c md name)"

definition multidb_create :: "'n codec \<Rightarrow> 'n multidb \<Rightarrow> string \<Rightarrow> 'n multidb \<times> nat outcome" where
  "multidb_create c md name = open_and_register c md name"

definition multidb_exists :: "'n multidb \<Rightarrow> string \<Rightarrow> bool" where
  "multidb_exists md name \<longleftrightarrow> hm_get (md_files md) name \<noteq> None"

definition multidb_delete :: "'n multidb \<Rightarrow> string \<Rightarrow> 'n multidb" where
  "multidb_delete md name = md\<lparr>md_open := hm_remove name (md_open md), md_files := hm_remove name (md_files md)\<rparr>"

definition multidb_list :: "'n multidb \<Rightarrow> string list" where
  "multidb_list md = sort (map fst (md_files md))"

text \<open>
  Deleting a database. A deleted database does not exist and is not listed; every other
  database keeps its files and its engine; and opening the name again gives a new engine, without
  documents, on new files.
\<close>

theorem multidb_delete_then_open:
  "\<not> multidb_exists (multidb_delete md name) name \<and> name \<notin> set (multidb_list (multidb_delete md name)) \<and>
   (\<forall>n. n \<noteq> name \<longrightarrow> hm_get (md_files (multidb_delete md name)) n = hm_get (md_files md) n \<and>
      get_or_open c (multidb_delete md name) n = (case hm_get (md_open md) n of
        Some h \<Rightarrow> (multidb_delete md name, Ok h) | None \<Rightarrow> open_and_register c (multidb_delete md name) n)) \<and>
   (\<exists>md' e. get_or_open c (multidb_delete md name) name = (md', Ok (length (md_engines md))) \<and>
      md_engines md' = md_engines md @ [e] \<and> eng_abs e = Map.empty \<and> multidb_exists md' name)"
proof -
  obtain e where e: "engine_open c True no_files = Ok e" "eng_docs e = []" using files_of_fresh by blast
  have "eng_abs e = Map.empty" using e(2) by (simp add: eng_abs_def)
  then have "\<exists>md' e. get_or_open c (multidb_delete md name) name = (md', Ok (length (md_engines md))) \<and>
      md_engines md' = md_engines md @ [e] \<and> eng_abs e = Map.empty \<and> multidb_exists md' name"
    using e(1) by (auto simp: get_or_open_def open_and_register_def multidb_delete_def multidb_exists_def hm_simps)
  moreover have "name \<notin> set (multidb_list (multidb_delete md name))"
    by (simp add: multidb_list_def multidb_delete_def delete_keys)
  ultimately show ?thesis
    by (auto simp: multidb_exists_def multidb_delete_def get_or_open_def hm_simps split: option.split)
qed

theorem multidb_delete_then_open_witness:
  "\<not> multidb_exists (multidb_delete (multidb_new [(''a'', no_files)] :: unit multidb) ''a'') ''a''"
  using multidb_delete_then_open [of "multidb_new [(''a'', no_files)]" "''a''" toy_codec] by blast

text \<open>
  Creating an open database splits it. \<open>create\<close> of a name that is open, on files that agree
  with its engine, opens the files a second time and registers the new engine: clients that hold
  the old one and clients that ask from now on no longer share an engine.
\<close>

theorem multidb_create_splits:
  assumes "hm_get (md_open md) name = Some h" "h < length (md_engines md)"
    and "hm_get (md_files md) name = Some fs" "files_of c fs (md_engines md ! h)"
  shows "\<exists>md' h'. multidb_create c md name = (md', Ok h') \<and> h' \<noteq> h \<and> get_or_open c md' name = (md', Ok h') \<and>
    eng_abs (md_engines md' ! h') = eng_abs (md_engines md ! h) \<and> md_engines md' ! h = md_engines md ! h"
  using assms files_of_open(1,3) [OF assms(4)]
  by (auto simp: multidb_create_def open_and_register_def get_or_open_def hm_simps nth_append eng_abs_without_subscribers)

theorem multidb_create_splits_witness:
  "\<exists>e fs md' h'. multidb_create toy_codec \<lparr>md_files = [(''a'', fs)], md_open = [(''a'', 0)], md_engines = [e]\<rparr> ''a'' = (md', Ok h') \<and> h' \<noteq> 0"
proof -
  obtain e where e: "files_of toy_codec (opened_files toy_codec no_files) e" using files_of_fresh by blast
  let ?md = "\<lparr>md_files = [(''a'', opened_files toy_codec no_files)], md_open = [(''a'', 0)], md_engines = [e]\<rparr>"
  have "\<exists>md' h'. multidb_create toy_codec ?md ''a'' = (md', Ok h') \<and> h' \<noteq> 0 \<and> get_or_open toy_codec md' ''a'' = (md', Ok h') \<and>
      eng_abs (md_engines md' ! h') = eng_abs (md_engines ?md ! 0) \<and> md_engines md' ! 0 = md_engines ?md ! 0"
    by (rule multidb_create_splits) (use e in simp_all)
  then show ?thesis by blast
qed

end
