(* ===== verification/ServerPool.thy ===== *)
theory ServerPool
  imports Disk
begin

text \<open>
  The connection pool (\<open>src/src/server/pool.rs\<close>) and the commands of the server
  (\<open>execute_command\<close> of \<open>src/src/server/tcp.rs\<close>). The files of the databases are shared by all
  engines opened on them: a connection reads and appends to what the disk holds at that moment
  and keeps its own memory. \<open>None\<close> is a call that waits for a permit, or a compaction that does
  not end.
\<close>

subsection \<open>The site\<close>

text \<open>
  \<open>si_path\<close> gives the file a database name leads to (\<open>db_dir.join(name.cassette)\<close>, as the
  operating system resolves it), \<open>si_dir\<close> whether its directory exists.
\<close>

record 'n site =
  si_codec :: "'n codec"
  si_num :: "'n number_api"
  si_path :: "string \<Rightarrow> string"
  si_dir :: "string \<Rightarrow> bool"

definition no_such_directory :: error where
  "no_such_directory = Io ''No such file or directory (os error 2)''"

definition open_on_disk :: "'n site \<Rightarrow> disk \<Rightarrow> string \<Rightarrow> disk \<times> 'n engine outcome" where
  "open_on_disk si disk name =
     (let p = si_path si name in
      case disk p of
        Some fs \<Rightarrow> (disk(p \<mapsto> opened_files (si_codec si) fs), engine_open (si_codec si) True fs)
      | None \<Rightarrow>
          if si_dir si name
          then (disk(p \<mapsto> opened_files (si_codec si) no_files), engine_open (si_codec si) True no_files)
          else (disk, Err no_such_directory))"

definition file_stem :: "string \<Rightarrow> string" where
  "file_stem name =
     (let base = rev (takeWhile (\<lambda>c. c \<noteq> CHR ''/'') (rev name)) in if base = [] then ''.cassette'' else base)"

subsection \<open>The pool\<close>

record 'n db_pool =
  dp_permits :: nat
  dp_idle :: "'n engine list"

record 'n server =
  sv_disk :: disk
  cp_size :: nat
  cp_pools :: "(string, 'n db_pool) hashmap"

record 'n connection =
  cn_db :: string
  cn_engine :: "'n engine"

definition server_new :: "disk \<Rightarrow> nat \<Rightarrow> 'n server" where
  "server_new disk n = \<lparr>sv_disk = disk, cp_size = n, cp_pools = []\<rparr>"

definition db_pool_new :: "nat \<Rightarrow> 'n db_pool" where
  "db_pool_new n = \<lparr>dp_permits = n, dp_idle = []\<rparr>"

definition get_or_create_pool :: "'n site \<Rightarrow> 'n server \<Rightarrow> string \<Rightarrow> 'n server \<times> 'n db_pool outcome" where
  "get_or_create_pool si sv name =
     (case hm_get (cp_pools sv) name of
        Some p \<Rightarrow> (sv, Ok p)
      | None \<Rightarrow>
          (let (disk, r) =
                 (if sv_disk sv (si_path si name) = None
                  then (let (disk, r) = open_on_disk si (sv_disk sv) name in (disk, outcome_map (\<lambda>_. ()) r))
                  else (sv_disk sv, Ok ()));
               sv1 = sv\<lparr>sv_disk := disk\<rparr>
           in case r of
                Ok _ \<Rightarrow> (sv1\<lparr>cp_pools := hm_insert name (db_pool_new (cp_size sv)) (cp_pools sv)\<rparr>, Ok (db_pool_new (cp_size sv)))
              | Err x \<Rightarrow> (sv1, Err x)
              | Panic \<Rightarrow> (sv1, Panic)))"

text \<open>\<open>DbPool::acquire\<close>: a permit, then the engine that was returned last, or a new one.\<close>

definition db_pool_acquire :: "'n site \<Rightarrow> 'n server \<Rightarrow> string \<Rightarrow> 'n db_pool \<Rightarrow> ('n server \<times> 'n connection outcome) option" where
  "db_pool_acquire si sv name p =
     (if dp_permits p = 0 then None
      else if dp_idle p \<noteq> []
      then Some (sv\<lparr>cp_pools := hm_insert name \<lparr>dp_permits = dp_permits p - 1, dp_idle = butlast (dp_idle p)\<rparr> (cp_pools sv)\<rparr>,
                 Ok \<lparr>cn_db = name, cn_engine = last (dp_idle p)\<rparr>)
      else (let (disk, r) = open_on_disk si (sv_disk sv) name; sv1 = sv\<lparr>sv_disk := disk\<rparr> in
            case r of
              Ok e \<Rightarrow> Some (sv1\<lparr>cp_pools := hm_insert name (p\<lparr>dp_permits := dp_permits p - 1\<rparr>) (cp_pools sv)\<rparr>,
                            Ok \<lparr>cn_db = name, cn_engine = e\<rparr>)
            | Err x \<Rightarrow> Some (sv1, Err x)
            | Panic \<Rightarrow> Some (sv1, Panic)))"

definition acquire :: "'n site \<Rightarrow> 'n server \<Rightarrow> string \<Rightarrow> ('n server \<times> 'n connection outcome) option" where
  "acquire si sv name =
     (case get_or_create_pool si sv name of
        (sv1, Ok p) \<Rightarrow> db_pool_acquire si sv1 name p
      | (sv1, Err x) \<Rightarrow> Some (sv1, Err x)
      | (sv1, Panic) \<Rightarrow> Some (sv1, Panic))"

text \<open>Dropping a connection gives its permit back and closes its engine.\<close>

definition drop_connection :: "'n server \<Rightarrow> 'n connection \<Rightarrow> 'n server" where
  "drop_connection sv conn =
     (case hm_get (cp_pools sv) (cn_db conn) of
        None \<Rightarrow> sv
      | Some p \<Rightarrow> sv\<lparr>cp_pools := hm_insert (cn_db conn) (p\<lparr>dp_permits := dp_permits p + 1\<rparr>) (cp_pools sv)\<rparr>)"

definition release :: "'n server \<Rightarrow> 'n connection \<Rightarrow> 'n server" where
  "release sv conn =
     (let name = file_stem (cn_db conn);
          sv1 = (case hm_get (cp_pools sv) name of
                   None \<Rightarrow> sv
                 | Some p \<Rightarrow> sv\<lparr>cp_pools := hm_insert name (p\<lparr>dp_idle := dp_idle p @ [cn_engine conn]\<rparr>) (cp_pools sv)\<rparr>)
      in drop_connection sv1 conn)"

definition list_databases :: "'n server \<Rightarrow> string list" where
  "list_databases sv = map fst (cp_pools sv)"

definition database_exists :: "'n site \<Rightarrow> 'n server \<Rightarrow> string \<Rightarrow> bool" where
  "database_exists si sv name \<longleftrightarrow> sv_disk sv (si_path si name) \<noteq> None"

definition create_database :: "'n site \<Rightarrow> 'n server \<Rightarrow> string \<Rightarrow> 'n server \<times> unit outcome" where
  "create_database si sv name =
     (let (disk, r) = open_on_disk si (sv_disk sv) name in (sv\<lparr>sv_disk := disk\<rparr>, outcome_map (\<lambda>_. ()) r))"

subsection \<open>Commands\<close>

datatype 'n tcp_command =
    TAuth string
  | TInsert string "'n json"
  | TGet string string
  | TDelete string string
  | TUpdate string string "'n json"
  | TQuery string string
  | TSearch string string
  | TDump string
  | TCompact string
  | TCount string
  | TListDbs
  | TCreateDb string

text \<open>What the JSON value of an answer is made of.\<close>

datatype 'n reply =
    RNull
  | RTrue
  | RText string
  | RDoc "'n document"
  | RResult "'n query_result"
  | RDocs "'n document set"
  | RCount nat
  | RNames "string list"

type_synonym ('n, 'r) engine_call = "'n engine \<Rightarrow> ('n engine \<times> 'r outcome) option"

text \<open>A call of an engine through a connection, on the files of the disk.\<close>

definition on_connection ::
  "'n site \<Rightarrow> 'n server \<Rightarrow> 'n connection \<Rightarrow> ('n, 'r) engine_call \<Rightarrow> ('n server \<times> 'n connection \<times> 'r outcome) option" where
  "on_connection si sv conn f =
     (let p = si_path si (cn_db conn) in
      case sv_disk sv p of
        None \<Rightarrow> map_option (\<lambda>(e, r). (sv, conn\<lparr>cn_engine := e\<rparr>, r)) (f (cn_engine conn))
      | Some fs \<Rightarrow>
          map_option (\<lambda>(e, r). (sv\<lparr>sv_disk := (sv_disk sv)(p \<mapsto> engine_files (repl_file fs) e)\<rparr>, conn\<lparr>cn_engine := e\<rparr>, r))
            (f (attach fs (cn_engine conn))))"

text \<open>
  Acquire, call, release: an error or a panic of the call leaves the function before the release,
  and the connection is dropped.
\<close>

definition pooled :: "'n site \<Rightarrow> 'n server \<Rightarrow> string \<Rightarrow> ('n, 'r) engine_call \<Rightarrow> ('n server \<times> 'r outcome) option" where
  "pooled si sv name f =
     (case acquire si sv name of
        None \<Rightarrow> None
      | Some (sv1, Err x) \<Rightarrow> Some (sv1, Err x)
      | Some (sv1, Panic) \<Rightarrow> Some (sv1, Panic)
      | Some (sv1, Ok conn) \<Rightarrow>
          (case on_connection si sv1 conn f of
             None \<Rightarrow> None
           | Some (sv2, conn2, Ok v) \<Rightarrow> Some (release sv2 conn2, Ok v)
           | Some (sv2, conn2, r) \<Rightarrow> Some (drop_connection sv2 conn2, r)))"

text \<open>Nobody subscribes to the change feeds of pooled engines: the messages sent are none.\<close>

definition change_call :: "('r \<Rightarrow> 'n reply) \<Rightarrow> ('n engine \<Rightarrow> ('n, 'r) result) \<Rightarrow> ('n, 'n reply) engine_call" where
  "change_call g f e = (let (e', r, sent) = f e in Some (e', outcome_map g r))"

definition read_call :: "('n engine \<Rightarrow> 'n reply outcome) \<Rightarrow> ('n, 'n reply) engine_call" where
  "read_call f e = Some (e, f e)"

fun execute_command ::
  "'n site \<Rightarrow> ('n document list \<Rightarrow> string) \<Rightarrow> call_env \<Rightarrow> 'n server \<Rightarrow> 'n tcp_command \<Rightarrow> ('n server \<times> 'n reply outcome) option" where
  "execute_command si pretty env sv (TAuth token) = Some (sv, Ok RNull)"
| "execute_command si pretty env sv (TInsert db data) =
     pooled si sv db (change_call RText (\<lambda>e. engine_insert (si_codec si) env e (document_new (ce_uuid env) data)))"
| "execute_command si pretty env sv (TGet db i) =
     pooled si sv db (read_call (\<lambda>e. Ok (case engine_get e i of None \<Rightarrow> RNull | Some d \<Rightarrow> RDoc d)))"
| "execute_command si pretty env sv (TDelete db i) =
     pooled si sv db (change_call (\<lambda>_. RTrue) (\<lambda>e. engine_delete (si_codec si) env e i))"
| "execute_command si pretty env sv (TUpdate db i data) =
     pooled si sv db (change_call (\<lambda>_. RTrue) (\<lambda>e. engine_update (si_codec si) env e i data))"
| "execute_command si pretty env sv (TQuery db q) =
     pooled si sv db (read_call (\<lambda>e. outcome_map (\<lambda>q. RResult (engine_query (si_num si) e q)) (parse_query (si_num si) q)))"
| "execute_command si pretty env sv (TSearch db t) =
     pooled si sv db (read_call (\<lambda>e. Ok (RDocs (engine_search e t))))"
| "execute_command si pretty env sv (TDump db) =
     pooled si sv db (read_call (\<lambda>e. Ok (RText (engine_dump pretty e))))"
| "execute_command si pretty env sv (TCompact db) =
     pooled si sv db (\<lambda>e. map_option (\<lambda>(e', r). (e', outcome_map (\<lambda>_. RTrue) r)) (engine_compact (si_codec si) e))"
| "execute_command si pretty env sv (TCount db) =
     pooled si sv db (read_call (\<lambda>e. Ok (RCount (engine_doc_count e))))"
| "execute_command si pretty env sv TListDbs = Some (sv, Ok (RNames (list_databases sv)))"
| "execute_command si pretty env sv (TCreateDb db) =
     (let (sv', r) = create_database si sv db in Some (sv', outcome_map (\<lambda>_. RTrue) r))"

subsection \<open>The databases behind the server\<close>

text \<open>Names without a slash lead to files of their own in the directory of the databases.\<close>

definition plain_name :: "string \<Rightarrow> bool" where
  "plain_name n \<longleftrightarrow> n \<noteq> [] \<and> CHR ''/'' \<notin> set n"

definition site_ok :: "'n site \<Rightarrow> bool" where
  "site_ok si \<longleftrightarrow> (\<forall>n. plain_name n \<longrightarrow> si_path si n = n \<and> si_dir si n)"

text \<open>The engine that opening the files of a name would give now, and its documents.\<close>

definition stored_engine :: "'n site \<Rightarrow> disk \<Rightarrow> string \<Rightarrow> 'n engine outcome" where
  "stored_engine si disk n =
     engine_open (si_codec si) True (case disk (si_path si n) of None \<Rightarrow> no_files | Some fs \<Rightarrow> fs)"

definition databases :: "'n site \<Rightarrow> disk \<Rightarrow> string \<rightharpoonup> (string \<rightharpoonup> 'n document)" where
  "databases si disk = map_option (stored_docs (si_codec si)) \<circ> disk"

definition pool_ok :: "'n codec \<Rightarrow> nat \<Rightarrow> db_files \<Rightarrow> 'n db_pool \<Rightarrow> bool" where
  "pool_ok c n fs p \<longleftrightarrow> dp_permits p = n \<and> (dp_idle p = [] \<or> (\<exists>e. dp_idle p = [e] \<and> files_of c fs e))"

definition server_ok :: "'n site \<Rightarrow> 'n server \<Rightarrow> bool" where
  "server_ok si sv \<longleftrightarrow> site_ok si \<and> 0 < cp_size sv \<and>
     (\<forall>n fs. sv_disk sv n = Some fs \<longrightarrow> (\<exists>e. files_of (si_codec si) fs e)) \<and>
     (\<forall>n p. hm_get (cp_pools sv) n = Some p \<longrightarrow>
        plain_name n \<and> (\<exists>fs. sv_disk sv n = Some fs \<and> pool_ok (si_codec si) (cp_size sv) fs p))"

lemma plain_file_stem: "plain_name n \<Longrightarrow> file_stem n = n"
proof -
  assume n: "plain_name n"
  then have all: "takeWhile (\<lambda>c. c \<noteq> CHR ''/'') (rev n) = rev n"
    by (simp add: plain_name_def takeWhile_eq_all_conv) blast
  show ?thesis using n unfolding file_stem_def all by (simp add: plain_name_def)
qed

lemma open_on_disk_ok:
  assumes "server_ok si sv" "plain_name n"
  shows "\<exists>e fs. open_on_disk si (sv_disk sv) n = ((sv_disk sv)(n \<mapsto> fs), Ok e) \<and> files_of (si_codec si) fs e \<and>
    stored_engine si (sv_disk sv) n = Ok e \<and>
    (case sv_disk sv n of None \<Rightarrow> eng_docs e = [] | Some fs' \<Rightarrow> fs = fs')"
proof -
  have path: "si_path si n = n" "si_dir si n" using assms by (auto simp: server_ok_def site_ok_def)
  show ?thesis
  proof (cases "sv_disk sv n")
    case None
    with files_of_fresh [of "si_codec si"] path show ?thesis by (auto simp: open_on_disk_def stored_engine_def)
  next
    case (Some fs)
    with assms obtain e where "files_of (si_codec si) fs e" unfolding server_ok_def by blast
    from files_of_open [OF this] Some path show ?thesis by (auto simp: open_on_disk_def stored_engine_def)
  qed
qed

text \<open>
  Acquiring a connection succeeds without waiting, creates the database when it is new, and gives
  an engine that agrees with the files. \<open>taken\<close> is the server while the connection is out.
\<close>

definition taken :: "'n server \<Rightarrow> string \<Rightarrow> db_files \<Rightarrow> 'n server" where
  "taken sv n fs = sv\<lparr>sv_disk := (sv_disk sv)(n \<mapsto> fs),
     cp_pools := hm_insert n \<lparr>dp_permits = cp_size sv - 1, dp_idle = []\<rparr> (cp_pools sv)\<rparr>"

text \<open>\<open>e\<close> is an engine for the files that \<open>n\<close> leads to, which are \<open>fs\<close> once it is open.\<close>

definition serves :: "'n site \<Rightarrow> disk \<Rightarrow> string \<Rightarrow> db_files \<Rightarrow> 'n engine \<Rightarrow> bool" where
  "serves si disk n fs e \<longleftrightarrow> files_of (si_codec si) fs e \<and>
     outcome_map without_subscribers (stored_engine si disk n) = Ok (without_subscribers e) \<and>
     (case disk n of None \<Rightarrow> eng_docs e = [] | Some fs' \<Rightarrow> fs = fs')"

lemma open_on_disk_serves:
  assumes "server_ok si sv" "plain_name n"
  shows "\<exists>e fs. open_on_disk si (sv_disk sv) n = ((sv_disk sv)(n \<mapsto> fs), Ok e) \<and> serves si (sv_disk sv) n fs e"
  using open_on_disk_ok [OF assms] by (auto simp: serves_def)

lemma server_ok_create:
  assumes "server_ok si sv" "plain_name n" "serves si (sv_disk sv) n fs e" "sv_disk sv n = None"
  shows "server_ok si (sv\<lparr>sv_disk := (sv_disk sv)(n \<mapsto> fs)\<rparr>)"
  using assms by (fastforce simp: server_ok_def serves_def)

lemma db_pool_acquire_ok:
  assumes "server_ok si sv" "plain_name n" "pool_ok (si_codec si) (cp_size sv) fs0 p" "sv_disk sv n = Some fs0"
  shows "\<exists>e fs. db_pool_acquire si sv n p = Some (taken sv n fs, Ok \<lparr>cn_db = n, cn_engine = e\<rparr>) \<and> serves si (sv_disk sv) n fs e"
proof (cases "dp_idle p = []")
  case True
  obtain e fs where e: "open_on_disk si (sv_disk sv) n = ((sv_disk sv)(n \<mapsto> fs), Ok e)" "serves si (sv_disk sv) n fs e"
    using open_on_disk_serves [OF assms(1,2)] by blast
  have "p\<lparr>dp_permits := dp_permits p - 1\<rparr> = \<lparr>dp_permits = cp_size sv - 1, dp_idle = []\<rparr>" "dp_permits p \<noteq> 0"
    using True assms(1,3) by (cases p; simp add: pool_ok_def server_ok_def)+
  then have "db_pool_acquire si sv n p = Some (taken sv n fs, Ok \<lparr>cn_db = n, cn_engine = e\<rparr>)"
    using e(1) True by (simp add: db_pool_acquire_def taken_def)
  with e(2) show ?thesis by blast
next
  case False
  with assms(3) obtain e where e: "dp_idle p = [e]" "files_of (si_codec si) fs0 e" by (auto simp: pool_ok_def)
  have "si_path si n = n" using assms(1,2) by (simp add: server_ok_def site_ok_def)
  with files_of_open(1) [OF e(2)] have "serves si (sv_disk sv) n fs0 e"
    using e(2) assms(4) by (simp add: serves_def stored_engine_def)
  moreover have "(sv_disk sv)(n \<mapsto> fs0) = sv_disk sv" using assms(4) by (simp add: fun_upd_idem)
  moreover have "dp_permits p = cp_size sv" "dp_permits p \<noteq> 0" using assms(1,3) by (simp_all add: pool_ok_def server_ok_def)
  ultimately have "db_pool_acquire si sv n p = Some (taken sv n fs0, Ok \<lparr>cn_db = n, cn_engine = e\<rparr>)"
    using e(1) by (simp add: db_pool_acquire_def taken_def)
  with \<open>serves si (sv_disk sv) n fs0 e\<close> show ?thesis by blast
qed

lemma acquire_ok:
  assumes "server_ok si sv" "plain_name n"
  shows "\<exists>e fs. acquire si sv n = Some (taken sv n fs, Ok \<lparr>cn_db = n, cn_engine = e\<rparr>) \<and> serves si (sv_disk sv) n fs e"
proof (cases "hm_get (cp_pools sv) n")
  case (Some p)
  with assms obtain fs where "sv_disk sv n = Some fs" "pool_ok (si_codec si) (cp_size sv) fs p" unfolding server_ok_def by blast
  from db_pool_acquire_ok [OF assms this(2,1)] Some show ?thesis by (simp add: acquire_def get_or_create_pool_def)
next
  case None
  have path: "si_path si n = n" using assms by (simp add: server_ok_def site_ok_def)
  let ?new = "db_pool_new (cp_size sv)"
  define sv1 where "sv1 = (if sv_disk sv n = None then sv\<lparr>sv_disk := fst (open_on_disk si (sv_disk sv) n)\<rparr> else sv)"
  obtain e0 fs0 where e0: "open_on_disk si (sv_disk sv) n = ((sv_disk sv)(n \<mapsto> fs0), Ok e0)" "serves si (sv_disk sv) n fs0 e0"
    using open_on_disk_serves [OF assms] by blast
  have ok: "server_ok si sv1" using assms server_ok_create [OF assms e0(2)] e0(1) by (auto simp: sv1_def)
  have disk: "sv_disk sv1 n = Some fs0" using e0 by (cases "sv_disk sv n") (auto simp: sv1_def serves_def)
  have pools: "cp_pools sv1 = cp_pools sv" "cp_size sv1 = cp_size sv" by (simp_all add: sv1_def)
  have get: "get_or_create_pool si sv n = (sv1\<lparr>cp_pools := hm_insert n ?new (cp_pools sv)\<rparr>, Ok ?new)"
    using None path e0(1) by (cases "sv_disk sv n") (simp_all add: get_or_create_pool_def sv1_def)
  let ?sv2 = "sv1\<lparr>cp_pools := hm_insert n ?new (cp_pools sv)\<rparr>"
  have new: "pool_ok (si_codec si) (cp_size sv1) fs0 ?new" by (simp add: pool_ok_def db_pool_new_def pools)
  then have "server_ok si ?sv2" using ok disk assms(2) pools by (auto simp: server_ok_def hm_simps)
  from db_pool_acquire_ok [OF this assms(2), of fs0 ?new] new disk
  obtain e fs where e: "db_pool_acquire si ?sv2 n ?new = Some (taken ?sv2 n fs, Ok \<lparr>cn_db = n, cn_engine = e\<rparr>)"
    "serves si (sv_disk sv1) n fs e" by auto
  have "fs = fs0" using e(2) disk by (simp add: serves_def)
  then have "taken ?sv2 n fs = taken sv n fs" using pools by (auto simp: taken_def sv1_def e0(1))
  moreover have "serves si (sv_disk sv) n fs e"
  proof (cases "sv_disk sv n")
    case None
    then have "sv_disk sv1 = (sv_disk sv)(n \<mapsto> fs0)" by (simp add: sv1_def e0(1))
    moreover have "engine_open (si_codec si) True fs0 = Ok (without_subscribers e0)"
      using e0(2) by (auto simp: serves_def intro: files_of_open)
    ultimately have same: "without_subscribers e0 = without_subscribers e"
      using e(2) path by (simp add: serves_def stored_engine_def)
    have "eng_docs e = eng_docs (without_subscribers e)" "eng_docs e0 = eng_docs (without_subscribers e0)"
      by (simp_all add: without_subscribers_def)
    then have "eng_docs e = eng_docs e0" by (simp only: same)
    then show ?thesis using e(2) e0(2) same None by (simp add: serves_def)
  next
    case (Some fs')
    with e(2) show ?thesis by (simp add: sv1_def)
  qed
  ultimately show ?thesis using e(1) get by (auto simp: acquire_def)
qed

lemma return_ok:
  assumes "server_ok si sv" "plain_name n" "files_of (si_codec si) fs' e'"
    and sv2: "sv2 = (taken sv fs0n fs)\<lparr>sv_disk := (sv_disk sv)(n \<mapsto> fs')\<rparr>" and "fs0n = n"
  shows "server_ok si (drop_connection sv2 \<lparr>cn_db = n, cn_engine = e'\<rparr>)"
    and "server_ok si (release sv2 \<lparr>cn_db = n, cn_engine = e'\<rparr>)"
    and "sv_disk (drop_connection sv2 \<lparr>cn_db = n, cn_engine = e'\<rparr>) = (sv_disk sv)(n \<mapsto> fs')"
    and "sv_disk (release sv2 \<lparr>cn_db = n, cn_engine = e'\<rparr>) = (sv_disk sv)(n \<mapsto> fs')"
    and "dom (hm_get (cp_pools (drop_connection sv2 \<lparr>cn_db = n, cn_engine = e'\<rparr>))) = insert n (dom (hm_get (cp_pools sv)))"
    and "dom (hm_get (cp_pools (release sv2 \<lparr>cn_db = n, cn_engine = e'\<rparr>))) = insert n (dom (hm_get (cp_pools sv)))"
proof -
  have drop: "drop_connection sv2 \<lparr>cn_db = n, cn_engine = e'\<rparr> = sv\<lparr>sv_disk := (sv_disk sv)(n \<mapsto> fs'),
      cp_pools := hm_insert n \<lparr>dp_permits = cp_size sv, dp_idle = []\<rparr> (cp_pools sv)\<rparr>"
    using assms(1) by (simp add: sv2 \<open>fs0n = n\<close> taken_def drop_connection_def hm_simps server_ok_def)
  have rel: "release sv2 \<lparr>cn_db = n, cn_engine = e'\<rparr> = sv\<lparr>sv_disk := (sv_disk sv)(n \<mapsto> fs'),
      cp_pools := hm_insert n \<lparr>dp_permits = cp_size sv, dp_idle = [e']\<rparr> (cp_pools sv)\<rparr>"
    using assms(1) plain_file_stem [OF assms(2)]
    by (simp add: sv2 \<open>fs0n = n\<close> taken_def release_def drop_connection_def hm_simps server_ok_def Let_def)
  show "server_ok si (drop_connection sv2 \<lparr>cn_db = n, cn_engine = e'\<rparr>)"
    using assms(1-3) unfolding drop by (auto simp: server_ok_def hm_simps pool_ok_def)
  show "server_ok si (release sv2 \<lparr>cn_db = n, cn_engine = e'\<rparr>)"
    using assms(1-3) unfolding rel by (auto simp: server_ok_def hm_simps pool_ok_def)
  show "sv_disk (drop_connection sv2 \<lparr>cn_db = n, cn_engine = e'\<rparr>) = (sv_disk sv)(n \<mapsto> fs')"
    "sv_disk (release sv2 \<lparr>cn_db = n, cn_engine = e'\<rparr>) = (sv_disk sv)(n \<mapsto> fs')"
    "dom (hm_get (cp_pools (drop_connection sv2 \<lparr>cn_db = n, cn_engine = e'\<rparr>))) = insert n (dom (hm_get (cp_pools sv)))"
    "dom (hm_get (cp_pools (release sv2 \<lparr>cn_db = n, cn_engine = e'\<rparr>))) = insert n (dom (hm_get (cp_pools sv)))"
    unfolding drop rel by (auto simp: hm_simps dom_def)
qed

text \<open>
  A call through the pool: it reaches an engine that serves the database, its answer is the
  answer, and its engine's files are the files. What becomes of the connection does not matter.
\<close>

lemma pooled_ok:
  assumes "server_ok si sv" "plain_name n"
  shows "\<exists>e fs. serves si (sv_disk sv) n fs e \<and>
    (\<forall>f e' r. f e = Some (e', r) \<and> db_run (si_codec si) True e' \<longrightarrow>
      (\<exists>sv'. pooled si sv n f = Some (sv', r) \<and> server_ok si sv' \<and> sv_disk sv' = (sv_disk sv)(n \<mapsto> engine_files [] e') \<and>
        dom (hm_get (cp_pools sv')) = insert n (dom (hm_get (cp_pools sv)))))"
proof -
  obtain e fs where acq: "acquire si sv n = Some (taken sv n fs, Ok \<lparr>cn_db = n, cn_engine = e\<rparr>)"
    and e: "serves si (sv_disk sv) n fs e" using acquire_ok [OF assms] by blast
  have path: "si_path si n = n" using assms by (simp add: server_ok_def site_ok_def)
  have fs: "files_of (si_codec si) fs e" using e by (simp add: serves_def)
  have "\<exists>sv'. pooled si sv n f = Some (sv', r) \<and> server_ok si sv' \<and> sv_disk sv' = (sv_disk sv)(n \<mapsto> engine_files [] e') \<and>
      dom (hm_get (cp_pools sv')) = insert n (dom (hm_get (cp_pools sv)))"
    if "f e = Some (e', r)" "db_run (si_codec si) True e'" for f :: "('a, 'b) engine_call" and e' r
  proof -
    have files: "files_of (si_codec si) (engine_files [] e') e'" using that(2) by (simp add: files_of_def)
    let ?sv2 = "(taken sv n fs)\<lparr>sv_disk := (sv_disk sv)(n \<mapsto> engine_files [] e')\<rparr>"
    have "sv_disk (taken sv n fs) n = Some fs" by (simp add: taken_def)
    then have on: "on_connection si (taken sv n fs) \<lparr>cn_db = n, cn_engine = e\<rparr> f = Some (?sv2, \<lparr>cn_db = n, cn_engine = e'\<rparr>, r)"
      using path files_of_attach [OF fs] that(1) files_of_files [OF files, of "repl_file fs"]
      by (simp add: on_connection_def Let_def) (simp add: taken_def)
    note ok = return_ok [OF assms files refl refl, of fs]
    show ?thesis
    proof (cases r)
      case (Ok v)
      then show ?thesis using acq on ok by (auto simp: pooled_def)
    next
      case (Err x)
      then show ?thesis using acq on ok by (auto simp: pooled_def)
    next
      case Panic
      then show ?thesis using acq on ok by (auto simp: pooled_def)
    qed
  qed
  with e show ?thesis by blast
qed

lemma databases_upd:
  assumes "db_run (si_codec si) True e'"
  shows "databases si (disk(n \<mapsto> engine_files [] e')) = (databases si disk)(n \<mapsto> eng_abs e')"
  using files_of_open(4) [of "si_codec si" "engine_files [] e'" e'] assms by (auto simp: databases_def files_of_def fun_eq_iff)

lemma serves_abs:
  assumes "serves si disk n fs e"
  shows "eng_abs e = (case databases si disk n of None \<Rightarrow> Map.empty | Some m \<Rightarrow> m)"
proof (cases "disk n")
  case None
  with assms show ?thesis by (simp add: serves_def databases_def eng_abs_def fun_eq_iff)
next
  case (Some fs')
  have "stored_docs (si_codec si) fs = eng_abs e" using assms by (intro files_of_open) (simp add: serves_def)
  with assms Some show ?thesis by (simp add: serves_def databases_def)
qed

subsection \<open>What the server promises\<close>

text \<open>The content of an answer; documents and names come in the order of a hash map.\<close>

datatype 'n answer =
    ANull
  | ATrue
  | AText string
  | ADoc "'n document"
  | AResult "'n document set" nat
  | ADocs "'n document set"
  | ACount nat
  | ANames "string set"

fun view_reply :: "'n reply \<Rightarrow> 'n answer" where
  "view_reply RNull = ANull"
| "view_reply RTrue = ATrue"
| "view_reply (RText s) = AText s"
| "view_reply (RDoc d) = ADoc d"
| "view_reply (RResult r) = AResult (set (documents r)) (count r)"
| "view_reply (RDocs ds) = ADocs ds"
| "view_reply (RCount n) = ACount n"
| "view_reply (RNames ns) = ANames (set ns)"

text \<open>The server with the answers it has given so far.\<close>

type_synonym 'n service = "'n server \<times> 'n reply outcome list"

definition serve :: "'n site \<Rightarrow> ('n document list \<Rightarrow> string) \<Rightarrow> call_env \<Rightarrow> 'n service \<Rightarrow> 'n tcp_command \<Rightarrow> 'n service" where
  "serve si pretty env st cmd =
     (case execute_command si pretty env (fst st) cmd of None \<Rightarrow> st | Some (sv, r) \<Rightarrow> (sv, snd st @ [r]))"

text \<open>
  Commands on plain names whose changes the stored engine accepts (fresh id, codable payload).
  The text of a dump depends on the order of a hash map; compaction is the subject of \<open>Engine\<close>.
\<close>

definition change_fits :: "'n site \<Rightarrow> call_env \<Rightarrow> 'n server \<Rightarrow> string \<Rightarrow> 'n change_op \<Rightarrow> bool" where
  "change_fits si env sv db op \<longleftrightarrow> plain_name db \<and>
     (case stored_engine si (sv_disk sv) db of Ok e \<Rightarrow> op_ok (si_codec si) env e op | _ \<Rightarrow> False)"

fun command_ok :: "'n site \<Rightarrow> call_env \<Rightarrow> 'n service \<Rightarrow> 'n tcp_command \<Rightarrow> bool" where
  "command_ok si env (sv, rs) (TInsert db data) = change_fits si env sv db (CInsert (document_new (ce_uuid env) data))"
| "command_ok si env (sv, rs) (TUpdate db i data) = change_fits si env sv db (CUpdate i data)"
| "command_ok si env (sv, rs) (TDelete db i) = change_fits si env sv db (CDelete i)"
| "command_ok si env (sv, rs) (TGet db i) = plain_name db"
| "command_ok si env (sv, rs) (TQuery db q) = plain_name db"
| "command_ok si env (sv, rs) (TSearch db t) = plain_name db"
| "command_ok si env (sv, rs) (TCount db) = plain_name db"
| "command_ok si env (sv, rs) (TCreateDb db) = plain_name db"
| "command_ok si env (sv, rs) (TAuth t) = True"
| "command_ok si env (sv, rs) TListDbs = True"
| "command_ok si env (sv, rs) (TDump db) = False"
| "command_ok si env (sv, rs) (TCompact db) = False"

text \<open>The abstract server: databases, the names that have been used, and the answers.\<close>

type_synonym 'n abs_server = "(string \<rightharpoonup> (string \<rightharpoonup> 'n document)) \<times> string set \<times> 'n answer outcome list"

definition db_of :: "(string \<rightharpoonup> (string \<rightharpoonup> 'n document)) \<Rightarrow> string \<Rightarrow> string \<rightharpoonup> 'n document" where
  "db_of m db = (case m db of None \<Rightarrow> Map.empty | Some docs \<Rightarrow> docs)"

fun server_spec :: "'n number_api \<Rightarrow> call_env \<Rightarrow> 'n abs_server \<Rightarrow> 'n tcp_command \<Rightarrow> 'n abs_server" where
  "server_spec num env (m, ns, as) (TInsert db data) =
     (m(db \<mapsto> (db_of m db)(ce_uuid env \<mapsto> document_new (ce_uuid env) data)), insert db ns, as @ [Ok (AText (ce_uuid env))])"
| "server_spec num env (m, ns, as) (TUpdate db i data) =
     (case db_of m db i of
        None \<Rightarrow> (m(db \<mapsto> db_of m db), insert db ns, as @ [Err (NotFound i)])
      | Some old \<Rightarrow> (m(db \<mapsto> (db_of m db)(i \<mapsto> old\<lparr>doc_data := data\<rparr>)), insert db ns, as @ [Ok ATrue]))"
| "server_spec num env (m, ns, as) (TDelete db i) =
     (m(db \<mapsto> (db_of m db)(i := None)), insert db ns,
      as @ [if db_of m db i = None then Err (NotFound i) else Ok ATrue])"
| "server_spec num env (m, ns, as) (TGet db i) =
     (m(db \<mapsto> db_of m db), insert db ns, as @ [Ok (case db_of m db i of None \<Rightarrow> ANull | Some d \<Rightarrow> ADoc d)])"
| "server_spec num env (m, ns, as) (TQuery db q) =
     (m(db \<mapsto> db_of m db), insert db ns,
      as @ [outcome_map (\<lambda>q. AResult {d \<in> ran (db_of m db). satisfies num d q} (card {d \<in> ran (db_of m db). satisfies num d q}))
              (parse_query num q)])"
| "server_spec num env (m, ns, as) (TSearch db t) =
     (m(db \<mapsto> db_of m db), insert db ns, as @ [Ok (ADocs {d \<in> ran (db_of m db). satisfies num d (QSearch t)})])"
| "server_spec num env (m, ns, as) (TCount db) =
     (m(db \<mapsto> db_of m db), insert db ns, as @ [Ok (ACount (card (dom (db_of m db))))])"
| "server_spec num env (m, ns, as) (TCreateDb db) = (m(db \<mapsto> db_of m db), ns, as @ [Ok ATrue])"
| "server_spec num env (m, ns, as) (TAuth t) = (m, ns, as @ [Ok ANull])"
| "server_spec num env (m, ns, as) TListDbs = (m, ns, as @ [Ok (ANames ns)])"
| "server_spec num env st _ = st"

definition service_view :: "'n site \<Rightarrow> 'n service \<Rightarrow> 'n abs_server" where
  "service_view si st =
     (databases si (sv_disk (fst st)), set (list_databases (fst st)), map (outcome_map view_reply) (snd st))"

lemma list_databases_dom: "set (list_databases sv) = dom (hm_get (cp_pools sv))"
  by (simp add: list_databases_def dom_map_of_conv_image_fst)

lemma call_serves:
  assumes "server_ok si sv" "plain_name db"
    and "\<And>e fs. serves si (sv_disk sv) db fs e \<Longrightarrow> eng_abs e = db_of (databases si (sv_disk sv)) db \<Longrightarrow>
      \<exists>e' r. f e = Some (e', r) \<and> db_run (si_codec si) True e' \<and> eng_abs e' = docs \<and> outcome_map view_reply r = a"
  shows "\<exists>sv' r. pooled si sv db f = Some (sv', r) \<and> server_ok si sv' \<and>
    service_view si (sv', rs @ [r]) =
      ((databases si (sv_disk sv))(db \<mapsto> docs), insert db (set (list_databases sv)), map (outcome_map view_reply) rs @ [a])"
proof -
  obtain e fs where e: "serves si (sv_disk sv) db fs e"
    and call: "\<forall>f e' r. f e = Some (e', r) \<and> db_run (si_codec si) True e' \<longrightarrow>
      (\<exists>sv'. pooled si sv db f = Some (sv', r :: 'a reply outcome) \<and> server_ok si sv' \<and>
        sv_disk sv' = (sv_disk sv)(db \<mapsto> engine_files [] e') \<and>
        dom (hm_get (cp_pools sv')) = insert db (dom (hm_get (cp_pools sv))))"
    using pooled_ok [OF assms(1,2)] by (elim exE conjE)
  have "eng_abs e = db_of (databases si (sv_disk sv)) db" using serves_abs [OF e] by (simp add: db_of_def)
  from assms(3) [OF e this] obtain e' r where f: "f e = Some (e', r)" "db_run (si_codec si) True e'" "eng_abs e' = docs"
    "outcome_map view_reply r = a" by blast
  from call f(1,2) obtain sv' where sv': "pooled si sv db f = Some (sv', r)" "server_ok si sv'"
    "sv_disk sv' = (sv_disk sv)(db \<mapsto> engine_files [] e')"
    "dom (hm_get (cp_pools sv')) = insert db (dom (hm_get (cp_pools sv)))" by blast
  have "service_view si (sv', rs @ [r]) =
      ((databases si (sv_disk sv))(db \<mapsto> docs), insert db (set (list_databases sv)), map (outcome_map view_reply) rs @ [a])"
    by (simp only: service_view_def list_databases_dom fst_conv snd_conv sv'(3,4) databases_upd [OF f(2)] f(3,4) map_append list.map)
  with sv' show ?thesis by blast
qed

lemma change_fits_op:
  assumes "change_fits si env sv db op" "serves si (sv_disk sv) db fs e"
  shows "op_ok (si_codec si) env e op" "db_run (si_codec si) True e"
proof -
  obtain e0 where "stored_engine si (sv_disk sv) db = Ok e0" "op_ok (si_codec si) env e0 op"
    using assms(1) by (auto simp: change_fits_def split: outcome.splits)
  moreover from this assms(2) have "without_subscribers e0 = without_subscribers e" by (simp add: serves_def)
  ultimately show "op_ok (si_codec si) env e op" using op_ok_without_subscribers by metis
  show "db_run (si_codec si) True e" using assms(2) by (simp add: serves_def files_of_def)
qed

text \<open>Reading leaves the engine as it is.\<close>

lemma read_serves:
  assumes "server_ok si sv" "plain_name db"
    and "\<And>e. engine_ok (si_codec si) True e \<Longrightarrow> eng_abs e = db_of (databases si (sv_disk sv)) db \<Longrightarrow> outcome_map view_reply (f e) = a"
  shows "\<exists>sv' r. pooled si sv db (read_call f) = Some (sv', r) \<and> server_ok si sv' \<and>
    service_view si (sv', rs @ [r]) =
      ((databases si (sv_disk sv))(db \<mapsto> db_of (databases si (sv_disk sv)) db), insert db (set (list_databases sv)),
       map (outcome_map view_reply) rs @ [a])"
proof (rule call_serves [OF assms(1,2)])
  fix e fs
  assume e: "serves si (sv_disk sv) db fs e" "eng_abs e = db_of (databases si (sv_disk sv)) db"
  then have run: "db_run (si_codec si) True e" by (simp add: serves_def files_of_def)
  with assms(3) [OF db_run_ok e(2)] e(2)
  show "\<exists>e' r. read_call f e = Some (e', r) \<and> db_run (si_codec si) True e' \<and>
      eng_abs e' = db_of (databases si (sv_disk sv)) db \<and> outcome_map view_reply r = a"
    by (simp add: read_call_def)
qed

lemma change_serves:
  assumes "server_ok si sv" "change_fits si env sv db op"
    and "\<And>e. f e = (apply_op (si_codec si) env e op, snd (f e))"
    and "\<And>e. op_ok (si_codec si) env e op \<Longrightarrow> db_run (si_codec si) True e \<Longrightarrow> eng_abs e = db_of (databases si (sv_disk sv)) db \<Longrightarrow>
      outcome_map view_reply (outcome_map g (fst (snd (f e)))) = a"
  shows "\<exists>sv' r. pooled si sv db (change_call g f) = Some (sv', r) \<and> server_ok si sv' \<and>
    service_view si (sv', rs @ [r]) =
      ((databases si (sv_disk sv))(db \<mapsto> abs_op env (db_of (databases si (sv_disk sv)) db) op), insert db (set (list_databases sv)),
       map (outcome_map view_reply) rs @ [a])"
proof (rule call_serves [OF assms(1)])
  show "plain_name db" using assms(2) by (simp add: change_fits_def)
  fix e fs
  assume e: "serves si (sv_disk sv) db fs e" "eng_abs e = db_of (databases si (sv_disk sv)) db"
  note ok = change_fits_op [OF assms(2) e(1)]
  have "change_call g f e = Some (apply_op (si_codec si) env e op, outcome_map g (fst (snd (f e))))"
    using assms(3) [of e] by (simp add: change_call_def case_prod_beta) (metis fst_conv)
  with change_answers(1,2) [OF ok] assms(4) [OF ok e(2)] e(2)
  show "\<exists>e' r. change_call g f e = Some (e', r) \<and> db_run (si_codec si) True e' \<and>
      eng_abs e' = abs_op env (db_of (databases si (sv_disk sv)) db) op \<and> outcome_map view_reply r = a"
    by metis
qed

text \<open>A command is answered, the server stays well-formed, and the abstract server follows.\<close>

definition answered :: "'n site \<Rightarrow> ('n document list \<Rightarrow> string) \<Rightarrow> call_env \<Rightarrow> 'n server \<Rightarrow> 'n reply outcome list \<Rightarrow> 'n tcp_command \<Rightarrow> bool" where
  "answered si pretty env sv rs cmd \<longleftrightarrow>
     (\<exists>sv' r. execute_command si pretty env sv cmd = Some (sv', r) \<and> server_ok si sv' \<and>
        service_view si (sv', rs @ [r]) =
          server_spec (si_num si) env (databases si (sv_disk sv), set (list_databases sv), map (outcome_map view_reply) rs) cmd)"

lemma answered_insert:
  assumes "server_ok si sv" "change_fits si env sv db (CInsert (document_new (ce_uuid env) data))"
  shows "answered si pretty env sv rs (TInsert db data)"
proof -
  let ?doc = "document_new (ce_uuid env) data"
  have doc: "stored_doc env ?doc = ?doc" by (simp add: stored_doc_def)
  have pair: "engine_insert (si_codec si) env e ?doc =
      (apply_op (si_codec si) env e (CInsert ?doc), snd (engine_insert (si_codec si) env e ?doc))" for e by simp
  have res: "outcome_map view_reply (outcome_map RText (fst (snd (engine_insert (si_codec si) env e ?doc)))) = Ok (AText (ce_uuid env))"
    if "op_ok (si_codec si) env e (CInsert ?doc)" "db_run (si_codec si) True e" for e
    using change_answers(3) [OF that refl] doc by simp
  show ?thesis using change_serves [where f = "\<lambda>e. engine_insert (si_codec si) env e ?doc" and g = RText and rs = rs, OF assms pair res] doc
    by (simp add: answered_def)
qed

lemma answered_update:
  assumes "server_ok si sv" "change_fits si env sv db (CUpdate i data)"
  shows "answered si pretty env sv rs (TUpdate db i data)"
proof -
  let ?m = "databases si (sv_disk sv)"
  have pair: "engine_update (si_codec si) env e i data =
      (apply_op (si_codec si) env e (CUpdate i data), snd (engine_update (si_codec si) env e i data))" for e by simp
  have res: "outcome_map view_reply (outcome_map (\<lambda>_. RTrue) (fst (snd (engine_update (si_codec si) env e i data)))) =
      (if db_of ?m db i = None then Err (NotFound i) else Ok ATrue)"
    if "op_ok (si_codec si) env e (CUpdate i data)" "db_run (si_codec si) True e" "eng_abs e = db_of ?m db" for e
    using change_answers(4) [OF that(1,2) refl] that(3) by simp
  have "\<exists>sv' r. pooled si sv db (change_call (\<lambda>_. RTrue) (\<lambda>e. engine_update (si_codec si) env e i data)) = Some (sv', r) \<and> server_ok si sv' \<and>
      service_view si (sv', rs @ [r]) = (?m(db \<mapsto> abs_op env (db_of ?m db) (CUpdate i data)), insert db (set (list_databases sv)),
        map (outcome_map view_reply) rs @ [if db_of ?m db i = None then Err (NotFound i) else Ok ATrue])"
    by (rule change_serves [OF assms]) (rule pair, rule res)
  then show ?thesis by (cases "db_of ?m db i") (simp_all add: answered_def)
qed

lemma answered_delete:
  assumes "server_ok si sv" "change_fits si env sv db (CDelete i)"
  shows "answered si pretty env sv rs (TDelete db i)"
proof -
  let ?m = "databases si (sv_disk sv)"
  have pair: "engine_delete (si_codec si) env e i =
      (apply_op (si_codec si) env e (CDelete i), snd (engine_delete (si_codec si) env e i))" for e by simp
  have res: "outcome_map view_reply (outcome_map (\<lambda>_. RTrue) (fst (snd (engine_delete (si_codec si) env e i)))) =
      (if db_of ?m db i = None then Err (NotFound i) else Ok ATrue)"
    if "op_ok (si_codec si) env e (CDelete i)" "db_run (si_codec si) True e" "eng_abs e = db_of ?m db" for e
    using change_answers(5) [OF that(1,2) refl] that(3) by simp
  have "\<exists>sv' r. pooled si sv db (change_call (\<lambda>_. RTrue) (\<lambda>e. engine_delete (si_codec si) env e i)) = Some (sv', r) \<and> server_ok si sv' \<and>
      service_view si (sv', rs @ [r]) = (?m(db \<mapsto> abs_op env (db_of ?m db) (CDelete i)), insert db (set (list_databases sv)),
        map (outcome_map view_reply) rs @ [if db_of ?m db i = None then Err (NotFound i) else Ok ATrue])"
    by (rule change_serves [OF assms]) (rule pair, rule res)
  then show ?thesis by (simp add: answered_def)
qed

lemma answered_read:
  assumes "server_ok si sv" "plain_name db"
  shows "answered si pretty env sv rs (TGet db i)" "answered si pretty env sv rs (TQuery db q)"
    and "answered si pretty env sv rs (TSearch db t)" "answered si pretty env sv rs (TCount db)"
proof -
  let ?m = "databases si (sv_disk sv)"
  note read = read_serves [OF assms, of _ _ rs]
  show "answered si pretty env sv rs (TGet db i)"
    using read [of "\<lambda>e. Ok (case engine_get e i of None \<Rightarrow> RNull | Some d \<Rightarrow> RDoc d)"
        "Ok (case db_of ?m db i of None \<Rightarrow> ANull | Some d \<Rightarrow> ADoc d)"]
    by (simp add: answered_def engine_get_def eng_abs_def [symmetric] split: option.split)
  have "outcome_map view_reply (outcome_map (\<lambda>q. RResult (engine_query (si_num si) e q)) (parse_query (si_num si) q)) =
      outcome_map (\<lambda>q. AResult {d \<in> ran (db_of ?m db). satisfies (si_num si) d q} (card {d \<in> ran (db_of ?m db). satisfies (si_num si) d q}))
        (parse_query (si_num si) q)"
    if "engine_ok (si_codec si) True e" "eng_abs e = db_of ?m db" for e
    using engine_query_ok [OF that(1)] that(2) by (cases "parse_query (si_num si) q") simp_all
  then show "answered si pretty env sv rs (TQuery db q)" using read by (simp add: answered_def)
  have "outcome_map view_reply (Ok (RDocs (engine_search e t))) = Ok (ADocs {d \<in> ran (db_of ?m db). satisfies (si_num si) d (QSearch t)})"
    if "engine_ok (si_codec si) True e" "eng_abs e = db_of ?m db" for e
    using engine_query_ok [OF that(1), of "si_num si"] that(2) by simp
  then show "answered si pretty env sv rs (TSearch db t)" using read by (simp add: answered_def)
  have "engine_doc_count e = card (dom (db_of ?m db))" if "engine_ok (si_codec si) True e" "eng_abs e = db_of ?m db" for e
  proof -
    have "hm_ok (eng_docs e)" using that by (simp add: engine_ok_def docs_ok_def)
    then have "length (eng_docs e) = card (fst ` set (eng_docs e))"
      by (metis distinct_card hm_ok_def length_map set_map)
    with that(2) show ?thesis by (simp add: engine_doc_count_def eng_abs_def [symmetric] dom_map_of_conv_image_fst [symmetric])
  qed
  then have "outcome_map view_reply (Ok (RCount (engine_doc_count e))) = Ok (ACount (card (dom (db_of ?m db))))"
    if "engine_ok (si_codec si) True e" "eng_abs e = db_of ?m db" for e using that by simp
  then show "answered si pretty env sv rs (TCount db)" using read by (simp add: answered_def)
qed

lemma answered_create:
  assumes "server_ok si sv" "plain_name db"
  shows "answered si pretty env sv rs (TCreateDb db)"
proof -
  obtain e fs where e: "open_on_disk si (sv_disk sv) db = ((sv_disk sv)(db \<mapsto> fs), Ok e)" "serves si (sv_disk sv) db fs e"
    using open_on_disk_serves [OF assms] by blast
  then have fs: "fs = engine_files [] e" "db_run (si_codec si) True e" by (simp_all add: serves_def files_of_def)
  have "server_ok si (sv\<lparr>sv_disk := (sv_disk sv)(db \<mapsto> fs)\<rparr>)"
  proof (cases "sv_disk sv db")
    case None
    with server_ok_create [OF assms e(2)] show ?thesis by simp
  next
    case (Some fs')
    with e(2) have "(sv_disk sv)(db \<mapsto> fs) = sv_disk sv" by (simp add: serves_def fun_upd_idem)
    with assms show ?thesis by simp
  qed
  moreover have "databases si ((sv_disk sv)(db \<mapsto> fs)) = (databases si (sv_disk sv))(db \<mapsto> db_of (databases si (sv_disk sv)) db)"
    using databases_upd [OF fs(2)] serves_abs [OF e(2)] by (simp add: fs(1) db_of_def)
  ultimately show ?thesis using e(1)
    by (simp add: answered_def create_database_def service_view_def list_databases_def)
qed

lemma answered_without_pool:
  assumes "server_ok si sv"
  shows "answered si pretty env sv rs (TAuth t)" "answered si pretty env sv rs TListDbs"
  using assms by (simp_all add: answered_def service_view_def)

lemma serve_answered:
  assumes "server_ok si sv" "command_ok si env (sv, rs) cmd"
  shows "answered si pretty env sv rs cmd"
  using assms
  by (cases cmd) (simp_all add: answered_insert answered_update answered_delete answered_read answered_create answered_without_pool)

lemma serve_ok:
  assumes "server_ok si (fst st)" "command_ok si env st cmd"
  shows "server_ok si (fst (serve si pretty env st cmd)) \<and>
    service_view si (serve si pretty env st cmd) = server_spec (si_num si) env (service_view si st) cmd"
proof -
  obtain sv rs where st: "st = (sv, rs)" by fastforce
  have "answered si pretty env sv rs cmd"
    using assms unfolding st by (intro serve_answered) simp_all
  then show ?thesis by (auto simp: answered_def serve_def service_view_def st)
qed

interpretation srv: doc_store "\<lambda>st. server_ok si (fst st)" "command_ok si" "serve si pretty" "service_view si" "server_spec (si_num si)"
  for si pretty
  by unfold_locales (use serve_ok in blast)+

subsection \<open>Properties\<close>

text \<open>
  C6: The server implements its databases. Take a server started on an empty directory, with at
  least one connection per database, and commands executed one after the other: inserts with fresh
  ids, updates, deletes, gets, counts, queries, searches, creations, listings and authentications,
  but no dump and no compaction. The names of databases are not empty and have no slash, and the
  files of one lie under its name; what a change writes (fewer than 2^32 documents, their bytes,
  ids, checksums and log records) fits its length fields and is read back as it was. Then each
  command is answered as a map from names to maps from ids to documents answers it: insert, get,
  update and delete act on the documents, a missing id is an error and changes none, queries and
  searches give the satisfying ones, listing gives the names that have been worked on. The
  documents a later \<open>open\<close> of the files finds are those of the map.
\<close>

theorem server_serves_maps:
  assumes "site_ok si" "0 < n" "ok_history (command_ok si) (serve si pretty) (server_new Map.empty n, []) cmds"
    and "history_state (serve si pretty) (server_new Map.empty n, []) cmds = (sv, replies)"
  shows "(databases si (sv_disk sv), set (list_databases sv), map (outcome_map view_reply) replies) =
    history_state (server_spec (si_num si)) (Map.empty, {}, []) cmds"
proof -
  have "server_ok si (server_new Map.empty n)" using assms(1,2) by (simp add: server_ok_def server_new_def)
  then have "service_view si (sv, replies) = history_state (server_spec (si_num si)) (service_view si (server_new Map.empty n, [])) cmds"
    using srv.history_refines [of si "(server_new Map.empty n, [])" pretty cmds] assms(3,4) by simp
  then show ?thesis by (simp add: service_view_def server_new_def list_databases_def databases_def)
qed


definition toy_site :: "unit site" where
  "toy_site = \<lparr>si_codec = toy_codec\<lparr>enc_change := (\<lambda>r. [char_of (sequence r)]),
       dec_change := (\<lambda>bs. Some \<lparr>sequence = of_char (hd bs), chg_op = OpInsert, chg_doc_id = ''u'', chg_payload = ''u'', timestamp = 0\<rparr>)\<rparr>,
     si_num = toy_numbers, si_path = (\<lambda>n. n), si_dir = (\<lambda>_. True)\<rparr>"

lemma toy_site_open:
  "engine_open (si_codec toy_site) True no_files = Ok (toy_engine\<lparr>eng_feed :=
     Some \<lparr>feed_log = \<lparr>rl_file = repl_header, next_sequence = 1\<rparr>, subscribers = []\<rparr>\<rparr>)"
  by (simp add: open_fresh toy_engine_def)

lemma toy_insert_fits:
  "change_fits toy_site toy_env (server_new Map.empty 1) ''a'' (CInsert (document_new ''u'' (JStr ''hi'')))"
proof -
  have "stored_engine toy_site Map.empty ''a'' = Ok (toy_engine\<lparr>eng_feed :=
     Some \<lparr>feed_log = \<lparr>rl_file = repl_header, next_sequence = 1\<rparr>, subscribers = []\<rparr>\<rparr>)"
    using toy_site_open by (simp add: stored_engine_def)
  then show ?thesis
    by (simp add: change_fits_def plain_name_def server_new_def stored_doc_def toy_engine_def)
       (simp add: toy_site_def toy_codec_def toy_env_def toy_doc_def doc_coded_def document_new_def payload_ok_def coded_def)
qed

theorem server_serves_maps_witness:
  "let (sv, replies) = history_state (serve toy_site (\<lambda>_. [])) (server_new Map.empty 1, [])
         [(toy_env, TInsert ''a'' (JStr ''hi'')), (toy_env, TCount ''a'')]
   in map (outcome_map view_reply) replies = [Ok (AText ''u''), Ok (ACount 1)]"
proof -
  let ?cmds = "[(toy_env, TInsert ''a'' (JStr ''hi'')), (toy_env, TCount ''a'')] :: (call_env \<times> unit tcp_command) list"
  obtain sv replies where h: "history_state (serve toy_site (\<lambda>_. [])) (server_new Map.empty 1, []) ?cmds = (sv, replies)" by fastforce
  have "site_ok toy_site" by (simp add: site_ok_def toy_site_def)
  moreover have "ok_history (command_ok toy_site) (serve toy_site (\<lambda>_. [])) (server_new Map.empty 1, []) ?cmds"
    using toy_insert_fits by (cases "serve toy_site (\<lambda>_. []) toy_env (server_new Map.empty 1, []) (TInsert ''a'' (JStr ''hi''))")
      (simp add: plain_name_def toy_env_def)
  ultimately have "(databases toy_site (sv_disk sv), set (list_databases sv), map (outcome_map view_reply) replies) =
      history_state (server_spec (si_num toy_site)) (Map.empty, {}, []) ?cmds"
    using server_serves_maps [OF _ _ _ h] by simp
  then have "map (outcome_map view_reply) replies = [Ok (AText ''u''), Ok (ACount 1)]"
    by (simp add: db_of_def toy_env_def)
  then show ?thesis unfolding h by simp
qed


text \<open>
  A connection can come back to another database. The pool finds the database of a returned
  connection by the file stem of its path, which drops everything up to the last slash of the
  name. Once the database \<open>n\<close> is in the pool, a connection to any other name that ends in a slash
  and \<open>n\<close> is returned to \<open>n\<close>, and the next client of \<open>n\<close> reads and writes through it.
\<close>

theorem release_crosses_databases:
  assumes "plain_name n" "hm_get (cp_pools sv) n = Some p" "0 < dp_permits p" "cn_db conn = dir @ ''/'' @ n"
  shows "\<exists>sv2. acquire si (release sv conn) n = Some (sv2, Ok \<lparr>cn_db = n, cn_engine = cn_engine conn\<rparr>)"
proof -
  have "takeWhile (\<lambda>c. c \<noteq> CHR ''/'') (rev (cn_db conn)) = rev n"
    using assms(1,4) by (simp add: plain_name_def takeWhile_append takeWhile_eq_all_conv)
  then have stem: "file_stem (cn_db conn) = n" using assms(1) by (simp add: file_stem_def plain_name_def)
  have "cn_db conn \<noteq> n" using assms(4) by simp
  then have "hm_get (cp_pools (release sv conn)) n = Some (p\<lparr>dp_idle := dp_idle p @ [cn_engine conn]\<rparr>)"
    using assms(2) stem by (auto simp: release_def drop_connection_def hm_simps Let_def split: option.split)
  then show ?thesis using assms(3) by (simp add: acquire_def get_or_create_pool_def db_pool_acquire_def)
qed

theorem release_crosses_databases_witness:
  "\<exists>sv2. acquire toy_site (release (server_new Map.empty 1\<lparr>cp_pools := [(''a'', db_pool_new 1), (''x/a'', db_pool_new 0)]\<rparr>)
       \<lparr>cn_db = ''x/a'', cn_engine = toy_engine\<rparr>) ''a'' = Some (sv2, Ok \<lparr>cn_db = ''a'', cn_engine = toy_engine\<rparr>)"
  using release_crosses_databases [of "''a''" "server_new Map.empty 1\<lparr>cp_pools := [(''a'', db_pool_new 1), (''x/a'', db_pool_new 0)]\<rparr>"
      "db_pool_new 1" "\<lparr>cn_db = ''x/a'', cn_engine = toy_engine\<rparr>" "''x''" toy_site]
  by (simp add: plain_name_def db_pool_new_def)

text \<open>
  Connections do not see each other's changes. Of two connections to one database whose
  engines agree with its files, an insert through the first succeeds and is in the files, but
  the second still answers that there is no such document.
\<close>

theorem second_connection_misses_insert:
  assumes "files_of (si_codec si) fs e1" "files_of (si_codec si) fs e2"
    and "sv_disk sv (si_path si db) = Some fs" "op_ok (si_codec si) env e1 (CInsert doc)"
  shows "\<exists>sv1 c1 sv2 c2.
    on_connection si sv \<lparr>cn_db = db, cn_engine = e1\<rparr> (change_call RText (\<lambda>e. engine_insert (si_codec si) env e doc)) =
      Some (sv1, c1, Ok (RText (doc_id (stored_doc env doc)))) \<and>
    db_of (databases si (sv_disk sv1)) (si_path si db) (doc_id (stored_doc env doc)) = Some (stored_doc env doc) \<and>
    on_connection si sv1 \<lparr>cn_db = db, cn_engine = e2\<rparr> (read_call (\<lambda>e. Ok (case engine_get e (doc_id (stored_doc env doc)) of None \<Rightarrow> RNull | Some d \<Rightarrow> RDoc d))) =
      Some (sv2, c2, Ok RNull)"
proof -
  let ?e1 = "apply_op (si_codec si) env e1 (CInsert doc)" and ?i = "doc_id (stored_doc env doc)"
  have run: "db_run (si_codec si) True e1" using assms(1) by (simp add: files_of_def)
  note ok = change_answers [OF assms(4) run]
  have files: "files_of (si_codec si) (engine_files [] ?e1) ?e1" using ok(1) by (simp add: files_of_def)
  define sv1 where "sv1 = sv\<lparr>sv_disk := (sv_disk sv)(si_path si db \<mapsto> engine_files [] ?e1)\<rparr>"
  have first: "on_connection si sv \<lparr>cn_db = db, cn_engine = e1\<rparr> (change_call RText (\<lambda>e. engine_insert (si_codec si) env e doc)) =
      Some (sv1, \<lparr>cn_db = db, cn_engine = ?e1\<rparr>, Ok (RText ?i))"
    using assms(3) ok(3) [OF refl] files_of_attach [OF assms(1)] files_of_files [OF files, of "repl_file fs"]
    by (simp add: on_connection_def change_call_def case_prod_beta sv1_def)
  have stored: "db_of (databases si (sv_disk sv1)) (si_path si db) ?i = Some (stored_doc env doc)"
    using databases_upd [OF ok(1)] ok(2) by (simp add: sv1_def db_of_def)
  have "hm_get (eng_docs e2) ?i = None"
    using files_of_open(4) [OF assms(1)] files_of_open(4) [OF assms(2)] assms(4) by (simp add: eng_abs_def Let_def)
  then have "engine_get (attach f e2) ?i = None" for f by (simp add: engine_get_def attach_def)
  moreover have "sv_disk sv1 (si_path si db) = Some (engine_files [] ?e1)" by (simp add: sv1_def)
  ultimately have "\<exists>sv2 c2. on_connection si sv1 \<lparr>cn_db = db, cn_engine = e2\<rparr>
      (read_call (\<lambda>e. Ok (case engine_get e ?i of None \<Rightarrow> RNull | Some d \<Rightarrow> RDoc d))) = Some (sv2, c2, Ok RNull)"
    by (simp add: on_connection_def read_call_def)
  with first stored show ?thesis by blast
qed

theorem second_connection_misses_insert_witness:
  "\<exists>e fs sv1 c1. on_connection toy_site (server_new [''a'' \<mapsto> fs] 2) \<lparr>cn_db = ''a'', cn_engine = e\<rparr>
       (change_call RText (\<lambda>e. engine_insert (si_codec toy_site) toy_env e (document_new ''u'' (JStr ''hi'')))) =
     Some (sv1, c1, Ok (RText ''u''))"
proof -
  let ?doc = "document_new ''u'' (JStr ''hi'')"
  obtain e where e: "engine_open (si_codec toy_site) True no_files = Ok e"
    "files_of (si_codec toy_site) (opened_files (si_codec toy_site) no_files) e" using files_of_fresh by blast
  have "op_ok (si_codec toy_site) toy_env e (CInsert ?doc)"
    using toy_insert_fits e(1) by (simp add: change_fits_def stored_engine_def server_new_def)
  from second_connection_misses_insert [OF e(2) e(2) _ this, of "server_new [''a'' \<mapsto> opened_files (si_codec toy_site) no_files] 2" "''a''"]
  show ?thesis by (auto simp: server_new_def toy_site_def stored_doc_def)
qed

end
