(* ===== verification/Tcp.thy ===== *)
theory Tcp
  imports ServerPool
begin

text \<open>
  Authentication (\<open>src/src/server/auth.rs\<close>), the response envelope (\<open>src/src/server/mod.rs\<close>) and
  the TCP protocol (\<open>handle_client\<close> of \<open>src/src/server/tcp.rs\<close>). A client is the bytes it sends
  until it closes its side; what the server does to it is the list of its responses. Decoding a
  command from JSON is an argument, with its error text.
\<close>

subsection \<open>Authentication\<close>

record auth =
  au_tokens :: "string set"
  au_enabled :: bool

definition auth_new :: "string option \<Rightarrow> auth" where
  "auth_new master = \<lparr>au_tokens = (case master of None \<Rightarrow> {} | Some t \<Rightarrow> {t}), au_enabled = (master \<noteq> None)\<rparr>"

definition add_token :: "string \<Rightarrow> auth \<Rightarrow> auth" where
  "add_token t a = a\<lparr>au_tokens := insert t (au_tokens a)\<rparr>"

definition remove_token :: "string \<Rightarrow> auth \<Rightarrow> auth \<times> bool" where
  "remove_token t a = (a\<lparr>au_tokens := au_tokens a - {t}\<rparr>, t \<in> au_tokens a)"

definition validate :: "auth \<Rightarrow> string \<Rightarrow> bool" where
  "validate a t \<longleftrightarrow> (if \<not> au_enabled a then True else t \<in> au_tokens a)"

text \<open>\<open>header[..7]\<close> panics when the slice would cut a character.\<close>

definition extract_token :: "string \<Rightarrow> string option outcome" where
  "extract_token header =
     (let h = trim header in
      if 7 < length h
      then and_then (str_slice h 0 7) (\<lambda>p.
             Ok (if to_lowercase p = ''bearer '' then Some (drop 7 h) else None))
      else Ok None)"

subsection \<open>Responses\<close>

text \<open>The texts of \<open>CassetteError\<close>; \<open>detail\<close> is the text of a JSON error.\<close>

fun error_text :: "string \<Rightarrow> error \<Rightarrow> string" where
  "error_text detail (Io m) = ''IO error: '' @ m"
| "error_text detail Serialization = ''Serialization error: '' @ detail"
| "error_text detail (Corrupt m) = ''Corrupt database: '' @ m"
| "error_text detail (InvalidQuery m) = ''Invalid query: '' @ m"
| "error_text detail (NotFound m) = ''Document not found: '' @ m"
| "error_text detail Conflict = ''Transaction conflict''"
| "error_text detail (WalError m) = ''Wal error: '' @ m"
| "error_text detail (IndexError m) = ''Index error: '' @ m"
| "error_text detail (ReplicationError m) = ''Replication error: '' @ m"
| "error_text detail (BackupError m) = ''Backup error: '' @ m"
| "error_text detail (ClusterError m) = ''Cluster error: '' @ m"
| "error_text detail (ShardError m) = ''Shard error: '' @ m"
| "error_text detail (DistTxError m) = ''Distributed transaction error: '' @ m"

record 'd server_response =
  sr_success :: bool
  sr_data :: "'d option"
  sr_error :: "string option"

definition response_ok :: "'d \<Rightarrow> 'd server_response" where
  "response_ok data = \<lparr>sr_success = True, sr_data = Some data, sr_error = None\<rparr>"

definition response_err :: "string \<Rightarrow> 'd server_response" where
  "response_err msg = \<lparr>sr_success = False, sr_data = None, sr_error = Some msg\<rparr>"

subsection \<open>Frames\<close>

definition be_value :: "bytes \<Rightarrow> nat" where
  "be_value bs = le_value (rev bs)"

definition max_request :: nat where
  "max_request = 10000000"

definition response_frame :: "('n reply server_response \<Rightarrow> bytes) \<Rightarrow> 'n reply server_response \<Rightarrow> bytes" where
  "response_frame enc r = (let payload = enc r in rev (le_bytes 4 (as_u32 (length payload))) @ payload)"

subsection \<open>The connection\<close>

record 'n tcp_api =
  ta_decode :: "bytes \<Rightarrow> string + 'n tcp_command"
  ta_pretty :: "'n document list \<Rightarrow> string"
  ta_detail :: string

text \<open>
  The answer to one request, with the new flag. \<open>None\<close> is a command that does not return;
  a panic in a command ends the task of the connection.
\<close>

definition tcp_request ::
  "'n site \<Rightarrow> 'n tcp_api \<Rightarrow> auth \<Rightarrow> call_env \<Rightarrow> 'n server \<Rightarrow> bool \<Rightarrow> bytes
     \<Rightarrow> ('n server \<times> bool \<times> 'n reply server_response outcome) option" where
  "tcp_request si api auth env sv authed payload =
     (case ta_decode api payload of
        Inl e \<Rightarrow> Some (sv, authed, Ok (response_err (''Invalid command: '' @ e)))
      | Inr (TAuth t) \<Rightarrow>
          if validate auth t then Some (sv, True, Ok (response_ok (RText ''authenticated'')))
          else Some (sv, False, Ok (response_err ''Invalid token''))
      | Inr cmd \<Rightarrow>
          if \<not> authed then Some (sv, authed, Ok (response_err ''Not authenticated''))
          else (case execute_command si (ta_pretty api) env sv cmd of
                  None \<Rightarrow> None
                | Some (sv', Ok v) \<Rightarrow> Some (sv', authed, Ok (response_ok v))
                | Some (sv', Err e) \<Rightarrow> Some (sv', authed, Ok (response_err (error_text (ta_detail api) e)))
                | Some (sv', Panic) \<Rightarrow> Some (sv', authed, Panic)))"

text \<open>The loop; \<open>envs\<close> gives the environments of the calls in their order.\<close>

function client_loop ::
  "'n site \<Rightarrow> 'n tcp_api \<Rightarrow> auth \<Rightarrow> (nat \<Rightarrow> call_env) \<Rightarrow> 'n server \<Rightarrow> bool \<Rightarrow> bytes
     \<Rightarrow> ('n server \<times> 'n reply server_response list \<times> unit outcome) option" where
  "client_loop si api auth envs sv authed input =
     (case read_exact 4 input of
        None \<Rightarrow> Some (sv, [], Ok ())
      | Some (prefix, rest) \<Rightarrow>
          if max_request < be_value prefix then Some (sv, [], Err (Io ''request too large''))
          else (case read_exact (be_value prefix) rest of
                  None \<Rightarrow> Some (sv, [], Err (Io ''early eof''))
                | Some (payload, rest') \<Rightarrow>
                    (case tcp_request si api auth (envs 0) sv authed payload of
                       None \<Rightarrow> None
                     | Some (sv', authed', Ok resp) \<Rightarrow>
                         map_option (\<lambda>(sv2, resps, r). (sv2, resp # resps, r))
                           (client_loop si api auth (\<lambda>k. envs (Suc k)) sv' authed' rest')
                     | Some (sv', authed', Err e) \<Rightarrow> Some (sv', [], Err e)
                     | Some (sv', authed', Panic) \<Rightarrow> Some (sv', [], Panic))))"
  by pat_completeness auto
termination
  by (relation "measure (\<lambda>(si, api, auth, envs, sv, authed, input). length input)")
     (auto simp: read_exact_def split: if_splits)

declare client_loop.simps [simp del]

definition handle_client ::
  "'n site \<Rightarrow> 'n tcp_api \<Rightarrow> auth \<Rightarrow> (nat \<Rightarrow> call_env) \<Rightarrow> 'n server \<Rightarrow> bytes
     \<Rightarrow> ('n server \<times> 'n reply server_response list \<times> unit outcome) option" where
  "handle_client si api auth envs sv input = client_loop si api auth envs sv (\<not> au_enabled auth) input"

subsection \<open>What a client sends\<close>

definition request_frame :: "bytes \<Rightarrow> bytes" where
  "request_frame payload = rev (le_bytes 4 (length payload)) @ payload"

text \<open>The payloads the loop reads from an input.\<close>

function payloads :: "bytes \<Rightarrow> bytes list" where
  "payloads input =
     (case read_exact 4 input of
        None \<Rightarrow> []
      | Some (prefix, rest) \<Rightarrow>
          if max_request < be_value prefix then []
          else (case read_exact (be_value prefix) rest of
                  None \<Rightarrow> []
                | Some (payload, rest') \<Rightarrow> payload # payloads rest'))"
  by pat_completeness auto
termination
  by (relation "measure length") (auto simp: read_exact_def split: if_splits)

declare payloads.simps [simp del]

text \<open>How the loop ends on an input: at its end, or at a frame that is too long or cut off.\<close>

function input_end :: "bytes \<Rightarrow> unit outcome" where
  "input_end input =
     (case read_exact 4 input of
        None \<Rightarrow> Ok ()
      | Some (prefix, rest) \<Rightarrow>
          if max_request < be_value prefix then Err (Io ''request too large'')
          else (case read_exact (be_value prefix) rest of
                  None \<Rightarrow> Err (Io ''early eof'')
                | Some (payload, rest') \<Rightarrow> input_end rest'))"
  by pat_completeness auto
termination
  by (relation "measure length") (auto simp: read_exact_def split: if_splits)

declare input_end.simps [simp del]

text \<open>
  Nothing without a token. When authentication is enabled and no request of a connection
  carries a valid token, the server, its databases and its files are untouched, whatever the
  client sends, and every response is a failure without data.
\<close>

theorem tcp_requires_token:
  assumes "au_enabled auth"
    and "\<And>p t. p \<in> set (payloads input) \<Longrightarrow> ta_decode api p = Inr (TAuth t) \<Longrightarrow> t \<notin> au_tokens auth"
  shows "\<exists>resps r. handle_client si api auth envs sv input = Some (sv, resps, r) \<and>
    list_all (\<lambda>resp. \<not> sr_success resp \<and> sr_data resp = None) resps"
proof -
  have "\<exists>resps r. client_loop si api auth envs sv False input = Some (sv, resps, r) \<and>
      list_all (\<lambda>resp. \<not> sr_success resp \<and> sr_data resp = None) resps"
    using assms(2)
  proof (induction input arbitrary: envs rule: payloads.induct)
    case (1 input)
    show ?case
    proof (cases "read_exact 4 input")
      case None
      then show ?thesis by (simp add: client_loop.simps [of si])
    next
      case (Some pr)
      obtain prefix rest where pr: "pr = (prefix, rest)" by (cases pr)
      show ?thesis
      proof (cases "max_request < be_value prefix \<or> read_exact (be_value prefix) rest = None")
        case True
        with Some pr show ?thesis by (auto simp: client_loop.simps [of si])
      next
        case False
        then obtain payload rest' where p: "read_exact (be_value prefix) rest = Some (payload, rest')" by fastforce
        have all: "payloads input = payload # payloads rest'" using Some pr False p by (subst payloads.simps) simp
        have "\<exists>m. tcp_request si api auth (envs 0) sv False payload = Some (sv, False, Ok (response_err m))"
          using assms(1) 1(2) [of payload] all
          by (auto simp: tcp_request_def validate_def split: sum.split tcp_command.split)
        moreover obtain resps r where "client_loop si api auth (\<lambda>k. envs (Suc k)) sv False rest' = Some (sv, resps, r)"
          "list_all (\<lambda>resp. \<not> sr_success resp \<and> sr_data resp = None) resps"
          using 1(1) [of "(prefix, rest)" prefix rest "(payload, rest')" payload rest' "\<lambda>k. envs (Suc k)"] Some pr False p 1(2) all by auto
        ultimately show ?thesis using Some pr False p
          by (auto simp: client_loop.simps [of si api auth envs] response_err_def)
      qed
    qed
  qed
  with assms(1) show ?thesis by (simp add: handle_client_def)
qed


text \<open>The response to a command that is executed.\<close>

fun respond :: "'n tcp_api \<Rightarrow> 'n reply outcome \<Rightarrow> 'n reply server_response" where
  "respond api (Ok v) = response_ok v"
| "respond api (Err e) = response_err (error_text (ta_detail api) e)"
| "respond api Panic = response_err []"

lemma client_loop_frame:
  assumes "length p \<le> max_request"
    and "tcp_request si api auth (envs 0) sv authed p = Some (sv', authed', Ok resp)"
    and "client_loop si api auth (\<lambda>k. envs (Suc k)) sv' authed' rest = Some (sv2, resps, r)"
  shows "client_loop si api auth envs sv authed (request_frame p @ rest) = Some (sv2, resp # resps, r)"
proof -
  have "length p < 2 ^ 32" using assms(1) by (simp add: max_request_def)
  then have "be_value (rev (le_bytes 4 (length p))) = length p" by (simp add: be_value_def codec_simps)
  then show ?thesis
    using assms by (simp add: client_loop.simps [of si api auth envs] request_frame_def codec_simps)
qed

lemma history_replies:
  "history_state (serve si pretty) (sv, rs) cmds =
     (fst (history_state (serve si pretty) (sv, []) cmds), rs @ snd (history_state (serve si pretty) (sv, []) cmds))"
proof (induction cmds arbitrary: sv rs)
  case Nil
  then show ?case by simp
next
  case (Cons c cmds)
  obtain env cmd where c: "c = (env, cmd)" by (cases c)
  show ?case
  proof (cases "execute_command si pretty env sv cmd")
    case None
    then show ?thesis using Cons.IH [of sv rs] by (simp add: c serve_def)
  next
    case (Some p)
    obtain sv' r where p: "p = (sv', r)" by (cases p)
    with Some have serve: "serve si pretty env (sv, rs) cmd = (sv', rs @ [r])" for rs by (simp add: serve_def)
    show ?thesis using Cons.IH [of sv' "rs @ [r]"] Cons.IH [of sv' "[r]"] by (simp add: c serve)
  qed
qed

lemma session_loop:
  assumes "server_ok si sv"
    and "\<And>cmd. cmd \<in> set cmds \<Longrightarrow> ta_decode api (enc cmd) = Inr cmd \<and> length (enc cmd) \<le> max_request \<and> (\<forall>t. cmd \<noteq> TAuth t)"
    and "ok_history (command_ok si) (serve si (ta_pretty api)) (sv, rs) (zip (map envs [0..<length cmds]) cmds)"
    and "history_state (serve si (ta_pretty api)) (sv, []) (zip (map envs [0..<length cmds]) cmds) = (sv', replies)"
    and "Panic \<notin> set replies"
  shows "client_loop si api auth envs sv True (concat (map (request_frame \<circ> enc) cmds)) = Some (sv', map (respond api) replies, Ok ())"
  using assms
proof (induction cmds arbitrary: sv rs envs replies)
  case Nil
  then show ?case by (simp add: client_loop.simps [of si api auth envs] read_exact_def)
next
  case (Cons cmd cmds)
  let ?envs = "\<lambda>k. envs (Suc k)"
  let ?h = "zip (map ?envs [0..<length cmds]) cmds"
  have zip: "zip (map envs [0..<length (cmd # cmds)]) (cmd # cmds) = (envs 0, cmd) # ?h"
    by (simp add: map_upt_Suc del: upt_Suc)
  have ok: "command_ok si (envs 0) (sv, rs) cmd" "ok_history (command_ok si) (serve si (ta_pretty api)) (serve si (ta_pretty api) (envs 0) (sv, rs) cmd) ?h"
    using Cons.prems(3) unfolding zip by simp_all
  obtain sv1 r where exec: "execute_command si (ta_pretty api) (envs 0) sv cmd = Some (sv1, r)" "server_ok si sv1"
    using serve_answered [OF Cons.prems(1) ok(1), of "ta_pretty api"] by (auto simp: answered_def)
  have step: "serve si (ta_pretty api) (envs 0) (sv, rs) cmd = (sv1, rs @ [r])" for rs by (simp add: serve_def exec)
  have hist: "history_state (serve si (ta_pretty api)) (sv1, [r]) ?h = (sv', replies)"
    using Cons.prems(4) unfolding zip by (simp add: step)
  obtain rest where rest: "history_state (serve si (ta_pretty api)) (sv1, []) ?h = (sv', rest)" "replies = r # rest"
    using hist history_replies [of si "ta_pretty api" sv1 "[r]" ?h] by (metis append_Cons append_Nil fst_conv prod.collapse snd_conv)
  have loop: "client_loop si api auth ?envs sv1 True (concat (map (request_frame \<circ> enc) cmds)) = Some (sv', map (respond api) rest, Ok ())"
    using Cons.prems(2,5) rest ok(2) exec by (intro Cons.IH [OF exec(2) _ _ rest(1)]) (auto simp: step)
  have req: "tcp_request si api auth (envs 0) sv True (enc cmd) = Some (sv1, True, Ok (respond api r))"
    using Cons.prems(2) [of cmd] Cons.prems(5) rest(2) exec(1)
    by (cases cmd; cases r) (auto simp: tcp_request_def)
  have "length (enc cmd) \<le> max_request" using Cons.prems(2) [of cmd] by simp
  from client_loop_frame [OF this req loop] show ?case using rest(2) by (simp add: o_def)
qed

text \<open>
  C27: Framing. On a server started on an empty directory without authentication and with at least
  one connection per database, whose files lie under the names of databases, a client sends frames of at most 10,000,000 bytes, one after the other, each of which decodes to its command.
  The commands are those of C6: no dump and no compaction, names without a slash, inserts with
  fresh ids and changes that code and fit; and none of them is an authentication (which has an
  answer of its own) or panics in its execution (a query may: it ends the task). Then the client
  gets one response per command, in order: the answer of the command executed on the server the
  commands before it left, as data or as the text of its error; and the connection ends without an
  error.
\<close>

theorem tcp_session_answers:
  assumes "site_ok si" "0 < n" "\<not> au_enabled auth"
    and "\<And>cmd. cmd \<in> set cmds \<Longrightarrow> ta_decode api (enc cmd) = Inr cmd \<and> length (enc cmd) \<le> max_request \<and> (\<forall>t. cmd \<noteq> TAuth t)"
    and "ok_history (command_ok si) (serve si (ta_pretty api)) (server_new Map.empty n, []) (zip (map envs [0..<length cmds]) cmds)"
    and "history_state (serve si (ta_pretty api)) (server_new Map.empty n, []) (zip (map envs [0..<length cmds]) cmds) = (sv, replies)"
    and "Panic \<notin> set replies"
  shows "handle_client si api auth envs (server_new Map.empty n) (concat (map (request_frame \<circ> enc) cmds)) =
    Some (sv, map (respond api) replies, Ok ())"
proof -
  have "server_ok si (server_new Map.empty n)" using assms(1,2) by (simp add: server_ok_def server_new_def)
  from session_loop [OF this assms(4-7)] assms(3) show ?thesis by (simp add: handle_client_def)
qed


definition toy_tcp :: "unit tcp_api" where
  "toy_tcp = \<lparr>ta_decode = (\<lambda>bs. if bs = [] then Inl ''EOF'' else Inr (TCount bs)), ta_pretty = (\<lambda>_. []), ta_detail = []\<rparr>"

theorem tcp_requires_token_witness:
  "\<exists>resps r. handle_client toy_site toy_tcp (auth_new (Some ''secret'')) (\<lambda>_. toy_env) (server_new Map.empty 1) (request_frame ''db'') =
     Some (server_new Map.empty 1, resps, r) \<and> list_all (\<lambda>resp. \<not> sr_success resp \<and> sr_data resp = None) resps"
  by (rule tcp_requires_token) (simp_all add: auth_new_def toy_tcp_def split: if_splits)

theorem tcp_session_answers_witness:
  "\<exists>sv r. handle_client toy_site toy_tcp (auth_new None) (\<lambda>_. toy_env) (server_new Map.empty 1) (request_frame ''db'') = Some (sv, [r], Ok ())"
proof -
  let ?cmds = "[TCount ''db''] :: unit tcp_command list"
  let ?h = "zip (map (\<lambda>_. toy_env) [0..<length ?cmds]) ?cmds"
  let ?sv0 = "server_new Map.empty 1 :: unit server"
  obtain sv replies where h: "history_state (serve toy_site (ta_pretty toy_tcp)) (?sv0, []) ?h = (sv, replies)" by fastforce
  have site: "site_ok toy_site" by (simp add: site_ok_def toy_site_def)
  then have ok: "server_ok toy_site (fst (?sv0, []))" by (simp add: server_ok_def server_new_def)
  have hist: "ok_history (command_ok toy_site) (serve toy_site (ta_pretty toy_tcp)) (?sv0, []) ?h" by (simp add: plain_name_def)
  have "service_view toy_site (sv, replies) = history_state (server_spec (si_num toy_site)) (service_view toy_site (?sv0, [])) ?h"
    using srv.history_refines [OF ok hist] h by simp
  then have views: "map (outcome_map view_reply) replies = [Ok (ACount 0)]"
    by (simp add: service_view_def server_new_def databases_def db_of_def)
  then have "Panic \<notin> set replies" by auto
  moreover have "length replies = 1" using arg_cong [OF views, of length] by simp
  moreover have "ta_decode toy_tcp (case cmd of TCount db \<Rightarrow> db | _ \<Rightarrow> []) = Inr cmd \<and>
      length (case cmd of TCount db \<Rightarrow> db | _ \<Rightarrow> []) \<le> max_request \<and> (\<forall>t. cmd \<noteq> TAuth t)" if "cmd \<in> set ?cmds" for cmd
    using that by (simp add: toy_tcp_def max_request_def)
  ultimately show ?thesis
    using tcp_session_answers [OF site _ _ _ hist h, of "auth_new None" "\<lambda>cmd. case cmd of TCount db \<Rightarrow> db | _ \<Rightarrow> []"]
    by (cases replies) (auto simp: auth_new_def)
qed

end
