(* ===== verification/Text.thy ===== *)
theory Text
  imports Prelude
begin

text \<open>
  Text functions of the Rust standard library beyond those of \<open>Prelude\<close>: decoding of UTF-8 with
  replacement, lines, words, searching, and paths. Texts are their UTF-8 bytes.
\<close>

subsection \<open>Text from bytes\<close>

text \<open>
  \<open>String::from_utf8_lossy\<close>: every maximal part of an ill-formed sequence becomes the three bytes
  of U+FFFD.
\<close>

definition byte_in :: "nat \<Rightarrow> nat \<Rightarrow> char \<Rightarrow> bool" where
  "byte_in a b c \<longleftrightarrow> (let n = (of_char c :: nat) in a \<le> n \<and> n \<le> b)"

definition second_ok :: "char \<Rightarrow> char \<Rightarrow> bool" where
  "second_ok c d =
     (let n = (of_char c :: nat) in
      if n = 224 then byte_in 160 191 d
      else if n = 237 then byte_in 128 159 d
      else if n = 240 then byte_in 144 191 d
      else if n = 244 then byte_in 128 143 d
      else byte_in 128 191 d)"

definition replacement :: bytes where
  "replacement = [char_of (239 :: nat), char_of (191 :: nat), char_of (189 :: nat)]"

fun utf8_lossy :: "bytes \<Rightarrow> string" where
  "utf8_lossy [] = []"
| "utf8_lossy (c # cs) =
     (if byte_in 0 127 c then c # utf8_lossy cs
      else if byte_in 194 223 c then
        (case cs of
           d # ds \<Rightarrow> if byte_in 128 191 d then c # d # utf8_lossy ds else replacement @ utf8_lossy cs
         | [] \<Rightarrow> replacement)
      else if byte_in 224 239 c then
        (case cs of
           d # ds \<Rightarrow>
             if second_ok c d then
               (case ds of
                  e # es \<Rightarrow> if byte_in 128 191 e then c # d # e # utf8_lossy es else replacement @ utf8_lossy ds
                | [] \<Rightarrow> replacement)
             else replacement @ utf8_lossy cs
         | [] \<Rightarrow> replacement)
      else if byte_in 240 244 c then
        (case cs of
           d # ds \<Rightarrow>
             if second_ok c d then
               (case ds of
                  e # es \<Rightarrow>
                    if byte_in 128 191 e then
                      (case es of
                         f # fs \<Rightarrow> if byte_in 128 191 f then c # d # e # f # utf8_lossy fs else replacement @ utf8_lossy es
                       | [] \<Rightarrow> replacement)
                    else replacement @ utf8_lossy ds
                | [] \<Rightarrow> replacement)
             else replacement @ utf8_lossy cs
         | [] \<Rightarrow> replacement)
      else replacement @ utf8_lossy cs)"

lemma utf8_lossy_ascii: "is_ascii s \<Longrightarrow> utf8_lossy s = s"
  by (induction s) (auto simp: is_ascii_def byte_in_def Let_def)

text \<open>\<open>str::lines\<close>, \<open>split_whitespace\<close> and \<open>str::find\<close> of a text.\<close>

definition strip_cr :: "string \<Rightarrow> string" where
  "strip_cr s = (if s \<noteq> [] \<and> last s = CHR 13 then butlast s else s)"

definition str_lines :: "string \<Rightarrow> string list" where
  "str_lines s =
     (let ps = split_by (\<lambda>c. c = CHR 10) s in map strip_cr (butlast ps) @ (if last ps = [] then [] else [last ps]))"

definition split_whitespace :: "string \<Rightarrow> string list" where
  "split_whitespace s = filter (\<lambda>w. w \<noteq> []) (split_by is_whitespace s)"

fun find_text :: "string \<Rightarrow> string \<Rightarrow> nat option" where
  "find_text p [] = (if p = [] then Some 0 else None)"
| "find_text p (c # cs) = (if starts_with p (c # cs) then Some 0 else map_option Suc (find_text p cs))"

definition split_once :: "char \<Rightarrow> string \<Rightarrow> (string \<times> string) option" where
  "split_once c s = (if c \<in> set s then Some (takeWhile (\<lambda>x. x \<noteq> c) s, tl (dropWhile (\<lambda>x. x \<noteq> c) s)) else None)"

lemma split_by_segment: "\<not> (\<exists>x \<in> set a. p x) \<Longrightarrow> p c \<Longrightarrow> split_by p (a @ c # rest) = a # split_by p rest"
  by (induction a) auto

lemma split_by_last: "\<not> (\<exists>x \<in> set a. p x) \<Longrightarrow> split_by p a = [a]"
  by (induction a) auto

subsection \<open>Paths\<close>

text \<open>The last component of a path; \<open>file_stem\<close>, \<open>extension\<close> and \<open>with_extension\<close> look at it alone.\<close>

definition path_base :: "string \<Rightarrow> string" where
  "path_base p = rev (takeWhile (\<lambda>c. c \<noteq> CHR ''/'') (rev p))"

definition path_dir :: "string \<Rightarrow> string" where
  "path_dir p = take (length p - length (path_base p)) p"

text \<open>A dot at the start of the name does not begin an extension.\<close>

definition base_stem :: "string \<Rightarrow> string" where
  "base_stem b =
     (if CHR ''.'' \<in> set (tl b) then take (length b - Suc (length (takeWhile (\<lambda>c. c \<noteq> CHR ''.'') (rev b)))) b else b)"

definition path_stem :: "string \<Rightarrow> string" where
  "path_stem p = base_stem (path_base p)"

definition path_extension :: "string \<Rightarrow> string option" where
  "path_extension p =
     (let b = path_base p in if CHR ''.'' \<in> set (tl b) then Some (rev (takeWhile (\<lambda>c. c \<noteq> CHR ''.'') (rev b))) else None)"

definition with_extension :: "string \<Rightarrow> string \<Rightarrow> string" where
  "with_extension p ext = path_dir p @ path_stem p @ ''.'' @ ext"


lemma path_split: "path_dir p @ path_base p = p"
proof -
  have "rev p = takeWhile (\<lambda>c. c \<noteq> CHR ''/'') (rev p) @ dropWhile (\<lambda>c. c \<noteq> CHR ''/'') (rev p)" by simp
  then have p: "p = rev (dropWhile (\<lambda>c. c \<noteq> CHR ''/'') (rev p)) @ path_base p"
    unfolding path_base_def by (metis rev_append rev_rev_ident)
  then have "path_dir p = rev (dropWhile (\<lambda>c. c \<noteq> CHR ''/'') (rev p))"
    unfolding path_dir_def by (metis append_eq_conv_conj diff_add_inverse2 length_append)
  with p show ?thesis by simp
qed

lemma path_dir_ends: "path_dir p = [] \<or> last (path_dir p) = CHR ''/''"
proof -
  have "path_dir p = rev (dropWhile (\<lambda>c. c \<noteq> CHR ''/'') (rev p))"
    using path_split [of p] unfolding path_base_def
    by (metis append_same_eq rev_append rev_rev_ident takeWhile_dropWhile_id)
  then show ?thesis using hd_dropWhile [of "\<lambda>c. c \<noteq> CHR ''/''" "rev p"] by (auto simp: last_rev)
qed

lemma path_base_no_slash: "CHR ''/'' \<notin> set (path_base p)"
  unfolding path_base_def by (auto dest: set_takeWhileD)

lemma path_base_append:
  assumes "d = [] \<or> last d = CHR ''/''" "CHR ''/'' \<notin> set b"
  shows "path_base (d @ b) = b"
proof -
  have "takeWhile (\<lambda>c. c \<noteq> CHR ''/'') (rev d) = []" using assms(1) by (cases d rule: rev_cases) auto
  moreover have "takeWhile (\<lambda>c. c \<noteq> CHR ''/'') (rev b @ rev d) = rev b @ takeWhile (\<lambda>c. c \<noteq> CHR ''/'') (rev d)"
    by (rule takeWhile_append2) (use assms(2) in auto)
  ultimately show ?thesis unfolding path_base_def rev_append by simp
qed

lemma path_stem_no_slash: "CHR ''/'' \<notin> set (path_stem p)"
  using path_base_no_slash [of p] by (auto simp: path_stem_def base_stem_def dest: in_set_takeD split: if_splits)

lemma path_base_with_extension:
  "CHR ''/'' \<notin> set ext \<Longrightarrow> path_base (with_extension p ext) = path_stem p @ ''.'' @ ext"
  unfolding with_extension_def by (rule path_base_append) (use path_dir_ends path_stem_no_slash in auto)

end
