(* ===== verification/Http.thy ===== *)
theory Http
  imports Tcp Text
begin

text \<open>
  The HTTP server (\<open>src/src/server/http.rs\<close>): parsing of a request from the first chunk that is
  read, authentication, routing, and the response. JSON of bodies is an argument.
\<close>

subsection \<open>Requests\<close>

record http_request =
  rq_method :: string
  rq_path :: string
  rq_headers :: "(string, string) hashmap"
  rq_body :: bytes

fun parse_headers :: "string list \<Rightarrow> (string, string) hashmap \<Rightarrow> (string, string) hashmap" where
  "parse_headers [] h = h"
| "parse_headers (line # ls) h =
     (if line = [] then h
      else case split_once CHR '':'' line of
             None \<Rightarrow> parse_headers ls h
           | Some (k, v) \<Rightarrow> parse_headers ls (hm_insert (to_lowercase (trim k)) (trim v) h))"

definition body_start :: "string \<Rightarrow> nat" where
  "body_start text =
     (case find_text [CHR 13, CHR 10, CHR 13, CHR 10] text of
        Some i \<Rightarrow> i
      | None \<Rightarrow> (case find_text [CHR 10, CHR 10] text of Some i \<Rightarrow> i | None \<Rightarrow> length text))"

text \<open>
  \<open>chunk\<close> is what one read into the buffer of 8192 bytes gives. The start of the body is found in
  the text and used in the bytes, \<open>buf[body_start..n]\<close>.
\<close>

definition parse_http_request :: "bytes \<Rightarrow> http_request option outcome" where
  "parse_http_request chunk =
     (if chunk = [] then Ok None
      else (let text = utf8_lossy chunk in
        case str_lines text of
          [] \<Rightarrow> Err (Io ''missing request line'')
        | line # ls \<Rightarrow>
            (case split_whitespace line of
               m # p # _ \<Rightarrow>
                 if length chunk < body_start text then Panic
                 else Ok (Some \<lparr>rq_method = m, rq_path = p, rq_headers = parse_headers ls [], rq_body = drop (body_start text) chunk\<rparr>)
             | _ \<Rightarrow> Ok None)))"

text \<open>Percent decoding, character by character; a byte of 128 or more becomes a character of two bytes.\<close>

definition char_width :: "char \<Rightarrow> nat" where
  "char_width c = (let n = (of_char c :: nat) in if n < 128 then 1 else if n < 224 then 2 else if n < 240 then 3 else 4)"

definition take_char :: "string \<Rightarrow> (string \<times> string) option" where
  "take_char s = (case s of [] \<Rightarrow> None | c # _ \<Rightarrow> Some (take (char_width c) s, drop (char_width c) s))"

definition hex_digit :: "char \<Rightarrow> nat option" where
  "hex_digit c =
     (let n = (of_char c :: nat) in
      if 48 \<le> n \<and> n \<le> 57 then Some (n - 48)
      else if 65 \<le> n \<and> n \<le> 70 then Some (n - 55)
      else if 97 \<le> n \<and> n \<le> 102 then Some (n - 87)
      else None)"

definition hex_byte :: "string \<Rightarrow> nat option" where
  "hex_byte s =
     (case s of
        [a, b] \<Rightarrow>
          if a = CHR ''+'' then hex_digit b
          else (case (hex_digit a, hex_digit b) of (Some x, Some y) \<Rightarrow> Some (16 * x + y) | _ \<Rightarrow> None)
      | _ \<Rightarrow> None)"

definition byte_char :: "nat \<Rightarrow> string" where
  "byte_char n = (if n < 128 then [char_of n] else [char_of (192 + n div 64), char_of (128 + n mod 64)])"

function url_decode :: "string \<Rightarrow> string" where
  "url_decode [] = []"
| "url_decode (c # cs) =
     (if c = CHR ''%'' then
        (case take_char cs of
           None \<Rightarrow> [CHR ''%'']
         | Some (h1, r1) \<Rightarrow>
             (case take_char r1 of
                None \<Rightarrow> CHR ''%'' # h1
              | Some (h2, r2) \<Rightarrow>
                  (case hex_byte (h1 @ h2) of
                     Some n \<Rightarrow> byte_char n @ url_decode r2
                   | None \<Rightarrow> CHR ''%'' # h1 @ h2 @ url_decode r2)))
      else if c = CHR ''+'' then CHR '' '' # url_decode cs
      else c # url_decode cs)"
  by pat_completeness auto
termination
  by (relation "measure length") (auto simp: take_char_def split: list.splits)

fun find_param :: "string \<Rightarrow> string list \<Rightarrow> string option" where
  "find_param key [] = None"
| "find_param key (pair # ps) =
     (case split_once CHR ''='' pair of
        None \<Rightarrow> None
      | Some (k, v) \<Rightarrow> if k = key then Some (url_decode v) else find_param key ps)"

definition extract_query_param :: "string \<Rightarrow> string \<Rightarrow> string option" where
  "extract_query_param path key =
     (case split_once CHR ''?'' path of
        None \<Rightarrow> None
      | Some (_, query) \<Rightarrow> find_param key (split_by (\<lambda>c. c = CHR ''&'') query))"

subsection \<open>Routing\<close>

record 'n http_api =
  ha_json :: "bytes \<Rightarrow> 'n json option"
  ha_pretty :: "'n document list \<Rightarrow> string"
  ha_detail :: string

text \<open>
  What \<open>route_request\<close> is going to do, known from the request alone: an answer, one of the two
  calls of the pool that take no connection, or a connection to a database, a call of its engine
  and the status for the value. The waiting for the connection is the only \<open>await\<close> of a route, so
  that this is also where other tasks run.
\<close>

datatype 'n plan =
    Answer "(nat \<times> 'n reply) outcome"
  | ListDbs
  | MakeDb string
  | UseDb string "call_env \<Rightarrow> ('n, 'n reply) engine_call" "'n reply \<Rightarrow> nat"

text \<open>\<open>from_slice(body).unwrap_or(Null).get(key).and_then(as_str)\<close>.\<close>

definition body_string :: "'n http_api \<Rightarrow> bytes \<Rightarrow> string \<Rightarrow> string option" where
  "body_string api body key =
     (case json_get (case ha_json api body of None \<Rightarrow> JNull | Some v \<Rightarrow> v) key of None \<Rightarrow> None | Some v \<Rightarrow> as_str v)"

definition not_found :: "http_request \<Rightarrow> 'n plan" where
  "not_found req = Answer (Ok (404, RText (''Not found: '' @ rq_method req @ '' '' @ rq_path req)))"

definition query_docs :: "'n site \<Rightarrow> string \<Rightarrow> string \<Rightarrow> 'n plan" where
  "query_docs si db q =
     (case parse_query (si_num si) q of
        Ok query \<Rightarrow> UseDb db (\<lambda>_. read_call (\<lambda>e. Ok (RResult (engine_query (si_num si) e query)))) (\<lambda>_. 200)
      | Err x \<Rightarrow> Answer (Err x)
      | Panic \<Rightarrow> Answer Panic)"

definition route_docs :: "'n site \<Rightarrow> 'n http_api \<Rightarrow> http_request \<Rightarrow> string \<Rightarrow> 'n plan" where
  "route_docs si api req db =
     (if rq_method req = ''POST'' then
        (case ha_json api (rq_body req) of
           None \<Rightarrow> Answer (Err Serialization)
         | Some data \<Rightarrow>
             UseDb db (\<lambda>env. change_call RText (\<lambda>e. engine_insert (si_codec si) env e (document_new (ce_uuid env) data)))
               (\<lambda>_. 201))
      else if rq_method req = ''GET'' then
        (case extract_query_param (rq_path req) ''q'' of
           Some q \<Rightarrow> query_docs si db q
         | None \<Rightarrow> query_docs si db ''*'')
      else not_found req)"

definition route_doc :: "'n site \<Rightarrow> 'n http_api \<Rightarrow> http_request \<Rightarrow> string \<Rightarrow> string \<Rightarrow> 'n plan" where
  "route_doc si api req db i =
     (if rq_method req = ''GET'' then
        UseDb db (\<lambda>_. read_call (\<lambda>e. Ok (case engine_get e i of None \<Rightarrow> RNull | Some d \<Rightarrow> RDoc d)))
          (\<lambda>v. if v = RNull then 404 else 200)
      else if rq_method req = ''PUT'' then
        (case ha_json api (rq_body req) of
           None \<Rightarrow> Answer (Err Serialization)
         | Some data \<Rightarrow>
             UseDb db (\<lambda>env. change_call (\<lambda>_. RTrue) (\<lambda>e. engine_update (si_codec si) env e i data)) (\<lambda>_. 200))
      else if rq_method req = ''DELETE'' then
        UseDb db (\<lambda>env. change_call (\<lambda>_. RTrue) (\<lambda>e. engine_delete (si_codec si) env e i)) (\<lambda>_. 204)
      else not_found req)"

text \<open>The routes below \<open>/dbs/\<close>, for the segments of the rest of the path.\<close>

definition route_database :: "'n site \<Rightarrow> 'n http_api \<Rightarrow> http_request \<Rightarrow> string list \<Rightarrow> 'n plan" where
  "route_database si api req segs =
     (case segs of
        [db] \<Rightarrow> if rq_method req = ''DELETE'' then Answer (Ok (204, RNull)) else not_found req
      | [db, s] \<Rightarrow>
          if s = ''docs'' then route_docs si api req db
          else if s = ''search'' \<and> rq_method req = ''POST'' then
            (case body_string api (rq_body req) ''term'' of
               Some t \<Rightarrow> UseDb db (\<lambda>_. read_call (\<lambda>e. Ok (RDocs (engine_search e t)))) (\<lambda>_. 200)
             | None \<Rightarrow> Answer (Ok (400, RText ''Missing term'')))
          else if s = ''compact'' \<and> rq_method req = ''POST'' then
            UseDb db (\<lambda>_ e. map_option (\<lambda>(e', r). (e', outcome_map (\<lambda>_. RTrue) r)) (engine_compact (si_codec si) e)) (\<lambda>_. 200)
          else if s = ''count'' \<and> rq_method req = ''GET'' then
            UseDb db (\<lambda>_. read_call (\<lambda>e. Ok (RCount (engine_doc_count e)))) (\<lambda>_. 200)
          else if s = ''dump'' \<and> rq_method req = ''GET'' then
            UseDb db (\<lambda>_. read_call (\<lambda>e. Ok (RText (engine_dump (ha_pretty api) e)))) (\<lambda>_. 200)
          else not_found req
      | [db, s, i] \<Rightarrow> if s = ''docs'' then route_doc si api req db i else not_found req
      | _ \<Rightarrow> not_found req)"

definition route_plan :: "'n site \<Rightarrow> 'n http_api \<Rightarrow> http_request \<Rightarrow> 'n plan" where
  "route_plan si api req =
     (if rq_path req = ''/auth'' \<and> rq_method req = ''POST'' then Answer (Ok (200, RText ''authenticated''))
      else if rq_path req = ''/dbs'' \<and> rq_method req = ''GET'' then ListDbs
      else if rq_path req = ''/dbs'' \<and> rq_method req = ''POST'' then
        (case body_string api (rq_body req) ''name'' of
           Some name \<Rightarrow> MakeDb name
         | None \<Rightarrow> Answer (Ok (400, RText ''Missing name'')))
      else
        (case strip_prefix ''/dbs/'' (rq_path req) of
           Some rest \<Rightarrow> route_database si api req (split_by (\<lambda>c. c = CHR ''/'') rest)
         | None \<Rightarrow> not_found req))"

text \<open>A plan carried out without another task in between.\<close>

type_synonym 'n routed = "('n server \<times> (nat \<times> 'n reply) outcome) option"

definition with_status :: "('n reply \<Rightarrow> nat) \<Rightarrow> ('n server \<times> 'n reply outcome) option \<Rightarrow> 'n routed" where
  "with_status st = map_option (\<lambda>(sv, r). (sv, outcome_map (\<lambda>v. (st v, v)) r))"

fun run_plan :: "'n site \<Rightarrow> call_env \<Rightarrow> 'n server \<Rightarrow> 'n plan \<Rightarrow> 'n routed" where
  "run_plan si env sv (Answer r) = Some (sv, r)"
| "run_plan si env sv ListDbs = Some (sv, Ok (200, RNames (list_databases sv)))"
| "run_plan si env sv (MakeDb name) =
     (let (sv', r) = create_database si sv name in Some (sv', outcome_map (\<lambda>_. (201, RText name)) r))"
| "run_plan si env sv (UseDb db f st) = with_status st (pooled si sv db (f env))"

definition route_request :: "'n site \<Rightarrow> 'n http_api \<Rightarrow> call_env \<Rightarrow> 'n server \<Rightarrow> http_request \<Rightarrow> 'n routed" where
  "route_request si api env sv req = run_plan si env sv (route_plan si api req)"

subsection \<open>Connections\<close>

record 'n http_response =
  hr_code :: nat
  hr_text :: string
  hr_body :: "'n reply server_response"

definition http_authenticated :: "auth \<Rightarrow> http_request \<Rightarrow> bool outcome" where
  "http_authenticated auth req =
     (if au_enabled auth then
        (case hm_get (rq_headers req) ''authorization'' of
           Some h \<Rightarrow> outcome_map (\<lambda>t. case t of Some t \<Rightarrow> validate auth t | None \<Rightarrow> False) (extract_token h)
         | None \<Rightarrow> Ok False)
      else Ok True)"

definition status_text :: "nat \<Rightarrow> string" where
  "status_text n = (if n = 200 then ''OK'' else if n = 201 then ''Created'' else if n = 204 then ''No Content'' else ''OK'')"

text \<open>
  What the task does with its request: \<open>Inl\<close> an end that needs no route (\<open>Ok None\<close> when the
  connection is closed without a response, an error or a panic of the task), or \<open>Inr\<close> the plan.
\<close>

definition http_decide ::
  "'n site \<Rightarrow> 'n http_api \<Rightarrow> auth \<Rightarrow> bytes \<Rightarrow> 'n http_response option outcome + 'n plan" where
  "http_decide si api auth chunk =
     (case parse_http_request chunk of
        Err e \<Rightarrow> Inl (Err e)
      | Panic \<Rightarrow> Inl Panic
      | Ok None \<Rightarrow> Inl (Ok None)
      | Ok (Some req) \<Rightarrow>
          (case http_authenticated auth req of
             Err e \<Rightarrow> Inl (Err e)
           | Panic \<Rightarrow> Inl Panic
           | Ok False \<Rightarrow> Inl (Ok (Some \<lparr>hr_code = 401, hr_text = ''Unauthorized'', hr_body = response_err ''Unauthorized''\<rparr>))
           | Ok True \<Rightarrow> Inr (route_plan si api req)))"

text \<open>The response to a route; a panic of it ends the task.\<close>

fun http_answer :: "'n http_api \<Rightarrow> (nat \<times> 'n reply) outcome \<Rightarrow> 'n http_response option outcome" where
  "http_answer api (Ok (status, v)) = Ok (Some \<lparr>hr_code = status, hr_text = status_text status, hr_body = response_ok v\<rparr>)"
| "http_answer api (Err e) =
     Ok (Some \<lparr>hr_code = 500, hr_text = ''Internal Server Error'', hr_body = response_err (error_text (ha_detail api) e)\<rparr>)"
| "http_answer api Panic = Panic"

text \<open>One connection, without another task in between: the request of \<open>chunk\<close> and the response.\<close>

definition handle_http_connection ::
  "'n site \<Rightarrow> 'n http_api \<Rightarrow> auth \<Rightarrow> call_env \<Rightarrow> 'n server \<Rightarrow> bytes
     \<Rightarrow> ('n server \<times> 'n http_response option outcome) option" where
  "handle_http_connection si api auth env sv chunk =
     (case http_decide si api auth chunk of
        Inl r \<Rightarrow> Some (sv, r)
      | Inr plan \<Rightarrow> map_option (\<lambda>(sv', r). (sv', http_answer api r)) (run_plan si env sv plan))"

definition http_response_bytes :: "('n reply server_response \<Rightarrow> string) \<Rightarrow> 'n http_response \<Rightarrow> bytes" where
  "http_response_bytes enc resp =
     (let body = enc (hr_body resp); nl = [CHR 13, CHR 10] in
      ''HTTP/1.1 '' @ nat_to_string (hr_code resp) @ '' '' @ hr_text resp @ nl @ ''Content-Type: application/json'' @ nl @
      ''Content-Length: '' @ nat_to_string (length body) @ nl @ ''Connection: close'' @ nl @ nl @ body)"


subsection \<open>Properties\<close>

text \<open>
  C31: No HTTP request without a token. With authentication enabled, a request whose authorization
  header is missing or carries no valid bearer token changes nothing, and if it is answered at all,
  then with status 401 and no data.
\<close>

theorem http_requires_token:
  assumes "au_enabled auth"
    and "\<And>req h t. parse_http_request chunk = Ok (Some req) \<Longrightarrow> hm_get (rq_headers req) ''authorization'' = Some h \<Longrightarrow>
      extract_token h = Ok (Some t) \<Longrightarrow> t \<notin> au_tokens auth"
  shows "\<exists>r. handle_http_connection si api auth env sv chunk = Some (sv, r) \<and>
    (case r of Ok (Some resp) \<Rightarrow> hr_code resp = 401 \<and> sr_data (hr_body resp) = None | _ \<Rightarrow> True)"
proof (cases "\<exists>req. parse_http_request chunk = Ok (Some req)")
  case False
  then show ?thesis by (auto simp: handle_http_connection_def http_decide_def split: outcome.split option.split)
next
  case True
  then obtain req where req: "parse_http_request chunk = Ok (Some req)" by blast
  have "http_authenticated auth req \<noteq> Ok True"
  proof
    assume "http_authenticated auth req = Ok True"
    then obtain h where h: "hm_get (rq_headers req) ''authorization'' = Some h"
      "outcome_map (\<lambda>t. case t of Some t \<Rightarrow> validate auth t | None \<Rightarrow> False) (extract_token h) = Ok True"
      using assms(1) by (auto simp: http_authenticated_def split: option.splits)
    then obtain t where "extract_token h = Ok (Some t)" "validate auth t"
      by (cases "extract_token h") (auto split: option.splits)
    with assms(1) assms(2) [OF req h(1)] show False by (simp add: validate_def)
  qed
  with req show ?thesis by (auto simp: handle_http_connection_def http_decide_def response_err_def split: outcome.split bool.split)
qed

lemma route_below_dbs:
  "rq_path req = ''/dbs/'' @ rest \<Longrightarrow>
   route_request si api env sv req = run_plan si env sv (route_database si api req (split_by (\<lambda>c. c = CHR ''/'') rest))"
  by (simp add: route_request_def route_plan_def strip_prefix_def starts_with_def)

lemma two_segments: "CHR ''/'' \<notin> set a \<Longrightarrow> CHR ''/'' \<notin> set b \<Longrightarrow> split_by (\<lambda>c. c = CHR ''/'') (a @ CHR ''/'' # b) = [a, b]"
  by (subst split_by_segment) (auto simp: split_by_last)

text \<open>
  The documented query endpoint does not exist. \<open>GET /dbs/name/docs?...\<close> is answered with
  404 on every server: the query string stays in the last segment of the path, which is then not
  \<open>docs\<close>, so that the query parameter is never read.
\<close>

theorem http_query_is_not_found:
  assumes "rq_method req = ''GET''" "rq_path req = ''/dbs/'' @ db @ ''/docs?'' @ q" "CHR ''/'' \<notin> set db" "CHR ''/'' \<notin> set q"
  shows "route_request si api env sv req = Some (sv, Ok (404, RText (''Not found: GET '' @ rq_path req)))"
proof -
  have "split_by (\<lambda>c. c = CHR ''/'') (db @ ''/docs?'' @ q) = [db, ''docs?'' @ q]"
    using two_segments [of db "''docs?'' @ q"] assms(3,4) by simp
  then show ?thesis
    using route_below_dbs [OF assms(2), of si api env sv] assms(1) by (simp add: route_database_def not_found_def)
qed

definition toy_http :: "unit http_api" where
  "toy_http = \<lparr>ha_json = (\<lambda>_. Some (JStr ''hi'')), ha_pretty = (\<lambda>_. []), ha_detail = []\<rparr>"

theorem http_query_is_not_found_witness:
  "route_request toy_site toy_http toy_env (server_new Map.empty 1)
     \<lparr>rq_method = ''GET'', rq_path = ''/dbs/a/docs?q=*'', rq_headers = [], rq_body = []\<rparr> =
   Some (server_new Map.empty 1, Ok (404, RText ''Not found: GET /dbs/a/docs?q=*''))"
  using http_query_is_not_found [of "\<lparr>rq_method = ''GET'', rq_path = ''/dbs/a/docs?q=*'', rq_headers = [], rq_body = []\<rparr>" "''a''" "''q=*''"]
  by simp

definition toy_chunk :: bytes where
  "toy_chunk = ''GET /dbs HTTP/1.1'' @ [CHR 13, CHR 10] @ ''Authorization: Bearer wrong'' @ [CHR 13, CHR 10, CHR 13, CHR 10]"

theorem http_requires_token_witness:
  "\<exists>r. handle_http_connection toy_site toy_http (auth_new (Some ''secret'')) toy_env (server_new Map.empty 1) toy_chunk =
     Some (server_new Map.empty 1, r) \<and>
     (case r of Ok (Some resp) \<Rightarrow> hr_code resp = 401 \<and> sr_data (hr_body resp) = None | _ \<Rightarrow> True)"
proof (rule http_requires_token)
  have "parse_http_request toy_chunk = Ok (Some \<lparr>rq_method = ''GET'', rq_path = ''/dbs'',
      rq_headers = [(''authorization'', ''Bearer wrong'')], rq_body = [CHR 13, CHR 10, CHR 13, CHR 10]\<rparr>)" by code_simp
  moreover have "extract_token ''Bearer wrong'' = Ok (Some ''wrong'')" by code_simp
  ultimately show "t \<notin> au_tokens (auth_new (Some ''secret''))"
    if "parse_http_request toy_chunk = Ok (Some req)" "hm_get (rq_headers req) ''authorization'' = Some h"
      "extract_token h = Ok (Some t)" for req h t
    using that by (auto simp: auth_new_def)
qed (simp add: auth_new_def)

lemma outcome_map_map: "outcome_map f (outcome_map g r) = outcome_map (\<lambda>v. f (g v)) r"
  by (cases r) simp_all

lemma parse_all: "\<exists>q. parse_query num ''*'' = Ok q"
  by (subst parse_query.simps) (simp add: trim_by_def is_whitespace_def)

lemma no_parameter: "CHR ''?'' \<notin> set path \<Longrightarrow> extract_query_param path key = None"
  by (simp add: extract_query_param_def split_once_def)

text \<open>
  C30: The routes are the commands of the TCP protocol. For a database name without a slash or a
  question mark and a document id without a slash, an HTTP request on a database has the effect
  and the value of the command of the TCP protocol, with the status of the route: 201 for an insert,
  204 for a deletion, 404 for a document that is not there, else 200. An insert or an update whose
  body is not JSON fails and changes nothing; a search without a term and a creation without a
  name are answered 400. A request to delete a database is answered 204 and deletes nothing. The
  method, the path and the body are those given here; headers play no part. The query parameter
  of \<open>GET /dbs/name/docs\<close> is not among them: that path is not found.
\<close>

theorem http_routes_are_commands:
  assumes "CHR ''/'' \<notin> set db" "CHR ''?'' \<notin> set db" "CHR ''/'' \<notin> set i"
  shows
    "let http = (\<lambda>m path body sv. route_request si api env sv \<lparr>rq_method = m, rq_path = path, rq_headers = h, rq_body = body\<rparr>);
         tcp = (\<lambda>st sv cmd. with_status st (execute_command si (ha_pretty api) env sv cmd)) in
     http ''POST'' (''/dbs/'' @ db @ ''/docs'') body sv =
       (case ha_json api body of None \<Rightarrow> Some (sv, Err Serialization) | Some data \<Rightarrow> tcp (\<lambda>_. 201) sv (TInsert db data)) \<and>
     http ''GET'' (''/dbs/'' @ db @ ''/docs'') body sv = tcp (\<lambda>_. 200) sv (TQuery db ''*'') \<and>
     http ''GET'' (''/dbs/'' @ db @ ''/docs/'' @ i) body sv = tcp (\<lambda>v. if v = RNull then 404 else 200) sv (TGet db i) \<and>
     http ''PUT'' (''/dbs/'' @ db @ ''/docs/'' @ i) body sv =
       (case ha_json api body of None \<Rightarrow> Some (sv, Err Serialization) | Some data \<Rightarrow> tcp (\<lambda>_. 200) sv (TUpdate db i data)) \<and>
     http ''DELETE'' (''/dbs/'' @ db @ ''/docs/'' @ i) body sv = tcp (\<lambda>_. 204) sv (TDelete db i) \<and>
     http ''POST'' (''/dbs/'' @ db @ ''/search'') body sv =
       (case body_string api body ''term'' of
          None \<Rightarrow> Some (sv, Ok (400, RText ''Missing term'')) | Some t \<Rightarrow> tcp (\<lambda>_. 200) sv (TSearch db t)) \<and>
     http ''GET'' (''/dbs/'' @ db @ ''/count'') body sv = tcp (\<lambda>_. 200) sv (TCount db) \<and>
     http ''GET'' (''/dbs/'' @ db @ ''/dump'') body sv = tcp (\<lambda>_. 200) sv (TDump db) \<and>
     http ''POST'' (''/dbs/'' @ db @ ''/compact'') body sv = tcp (\<lambda>_. 200) sv (TCompact db) \<and>
     http ''GET'' ''/dbs'' body sv = tcp (\<lambda>_. 200) sv TListDbs \<and>
     http ''POST'' ''/dbs'' body sv =
       (case body_string api body ''name'' of
          None \<Rightarrow> Some (sv, Ok (400, RText ''Missing name''))
        | Some name \<Rightarrow> map_option (\<lambda>(sv', r). (sv', outcome_map (\<lambda>_. (201, RText name)) r))
                         (execute_command si (ha_pretty api) env sv (TCreateDb name))) \<and>
     http ''DELETE'' (''/dbs/'' @ db) body sv = Some (sv, Ok (204, RNull))"
proof -
  have seg: "split_by (\<lambda>c. c = CHR ''/'') (db @ CHR ''/'' # s) = [db, s]" if "CHR ''/'' \<notin> set s" for s
    by (rule two_segments [OF assms(1) that])
  have one: "split_by (\<lambda>c. c = CHR ''/'') db = [db]" using assms(1) by (auto simp: split_by_last)
  have "split_by (\<lambda>c. c = CHR ''/'') (db @ CHR ''/'' # (''docs'' @ CHR ''/'' # i)) = db # [''docs'', i]"
    using assms(1,3) two_segments [of "''docs''" i] by (subst split_by_segment) auto
  then have doc: "split_by (\<lambda>c. c = CHR ''/'') (db @ ''/docs/'' @ i) = [db, ''docs'', i]" by simp
  note docs = seg [of "''docs''", simplified] and search = seg [of "''search''", simplified] and count = seg [of "''count''", simplified]
    and dump = seg [of "''dump''", simplified] and compact = seg [of "''compact''", simplified]
  have none: "extract_query_param (''/dbs/'' @ db @ ''/docs'') ''q'' = None" using assms(2) by (intro no_parameter) simp
  obtain q where q: "parse_query (si_num si) ''*'' = Ok q" using parse_all by blast
  define http where "http m path body sv =
      route_request si api env sv \<lparr>rq_method = m, rq_path = path, rq_headers = h, rq_body = body\<rparr>" for m path body sv
  define tcp where "tcp st sv cmd = with_status st (execute_command si (ha_pretty api) env sv cmd)" for st sv cmd
  note simps = http_def tcp_def route_below_dbs route_database_def
  show ?thesis unfolding Let_def http_def [symmetric] tcp_def [symmetric]
  proof (intro conjI)
    show "http ''POST'' (''/dbs/'' @ db @ ''/docs'') body sv =
       (case ha_json api body of None \<Rightarrow> Some (sv, Err Serialization) | Some data \<Rightarrow> tcp (\<lambda>_. 201) sv (TInsert db data))"
      by (simp add: simps docs route_docs_def split: option.split)
    show "http ''GET'' (''/dbs/'' @ db @ ''/docs'') body sv = tcp (\<lambda>_. 200) sv (TQuery db ''*'')"
      using none by (simp add: simps docs route_docs_def query_docs_def q)
    show "http ''GET'' (''/dbs/'' @ db @ ''/docs/'' @ i) body sv = tcp (\<lambda>v. if v = RNull then 404 else 200) sv (TGet db i)"
      by (simp add: simps doc [simplified] route_doc_def)
    show "http ''PUT'' (''/dbs/'' @ db @ ''/docs/'' @ i) body sv =
       (case ha_json api body of None \<Rightarrow> Some (sv, Err Serialization) | Some data \<Rightarrow> tcp (\<lambda>_. 200) sv (TUpdate db i data))"
      by (simp add: simps doc [simplified] route_doc_def split: option.split)
    show "http ''DELETE'' (''/dbs/'' @ db @ ''/docs/'' @ i) body sv = tcp (\<lambda>_. 204) sv (TDelete db i)"
      by (simp add: simps doc [simplified] route_doc_def)
    show "http ''POST'' (''/dbs/'' @ db @ ''/search'') body sv =
       (case body_string api body ''term'' of
          None \<Rightarrow> Some (sv, Ok (400, RText ''Missing term'')) | Some t \<Rightarrow> tcp (\<lambda>_. 200) sv (TSearch db t))"
      by (simp add: simps search split: option.split)
    show "http ''GET'' (''/dbs/'' @ db @ ''/count'') body sv = tcp (\<lambda>_. 200) sv (TCount db)"
      by (simp add: simps count)
    show "http ''GET'' (''/dbs/'' @ db @ ''/dump'') body sv = tcp (\<lambda>_. 200) sv (TDump db)"
      by (simp add: simps dump)
    show "http ''POST'' (''/dbs/'' @ db @ ''/compact'') body sv = tcp (\<lambda>_. 200) sv (TCompact db)"
      by (simp add: simps compact)
    show "http ''GET'' ''/dbs'' body sv = tcp (\<lambda>_. 200) sv TListDbs"
      by (simp add: simps route_request_def route_plan_def with_status_def)
    show "http ''POST'' ''/dbs'' body sv =
       (case body_string api body ''name'' of
          None \<Rightarrow> Some (sv, Ok (400, RText ''Missing name''))
        | Some name \<Rightarrow> map_option (\<lambda>(sv', r). (sv', outcome_map (\<lambda>_. (201, RText name)) r))
                         (execute_command si (ha_pretty api) env sv (TCreateDb name)))"
      by (auto simp: simps route_request_def route_plan_def outcome_map_map split: option.split prod.split)
    show "http ''DELETE'' (''/dbs/'' @ db) body sv = Some (sv, Ok (204, RNull))"
      by (simp add: simps one)
  qed
qed

theorem http_routes_are_commands_witness:
  "route_request toy_site toy_http toy_env (server_new Map.empty 1)
     \<lparr>rq_method = ''GET'', rq_path = ''/dbs/a/docs/u'', rq_headers = [], rq_body = []\<rparr> =
   with_status (\<lambda>v. if v = RNull then 404 else 200)
     (execute_command toy_site (ha_pretty toy_http) toy_env (server_new Map.empty 1) (TGet ''a'' ''u''))"
  using http_routes_are_commands [of "''a''" "''u''" toy_site toy_http toy_env "[]" "[]" "server_new Map.empty 1"]
  by (simp add: Let_def)

end
