(* ===== verification/Service.thy ===== *)
theory Service
  imports Http
begin

text \<open>
  The running server: \<open>cassette server\<close> of \<open>src/src/bin/cassette.rs\<close>, the accepting loops
  \<open>TcpServer::run\<close> and \<open>HttpServer::run\<close>, and the tasks of all connected clients, interleaved.
  A task of a TCP client takes two kinds of step: it reads a request and answers it at once or
  acquires a connection of the pool for it, or it makes the call and gives the connection back.
  Between any two steps of one task, other tasks may run. A task that waits for a permit has no
  step. A task of an HTTP client has the same two kinds of step for its one request.
\<close>

subsection \<open>Starting\<close>

datatype listener = TcpListener string | HttpListener string

record server_options =
  so_tcp_addr :: string
  so_http_addr :: string
  so_token :: "string option"
  so_pool :: nat
  so_tcp_only :: bool
  so_http_only :: bool

definition start_server :: "disk \<Rightarrow> server_options \<Rightarrow> 'n server \<times> auth \<times> listener list" where
  "start_server disk so =
     (server_new disk (so_pool so), auth_new (so_token so),
      (if so_http_only so then [] else [TcpListener (so_tcp_addr so)]) @
      (if so_tcp_only so then [] else [HttpListener (so_http_addr so)]))"

subsection \<open>The task of a TCP client\<close>

text \<open>
  \<open>cl_input\<close> is what is left of the bytes the client sends, \<open>cl_read\<close> the requests read so far,
  \<open>cl_work\<close> the connection held for a command, \<open>cl_end\<close> how the task ended.
\<close>

record 'n client =
  cl_authed :: bool
  cl_input :: bytes
  cl_read :: "bytes list"
  cl_work :: "('n connection \<times> call_env \<times> 'n tcp_command) option"
  cl_sent :: "'n reply server_response list"
  cl_end :: "unit outcome option"

definition client_new :: "auth \<Rightarrow> bytes \<Rightarrow> 'n client" where
  "client_new auth input =
     \<lparr>cl_authed = (\<not> au_enabled auth), cl_input = input, cl_read = [], cl_work = None, cl_sent = [], cl_end = None\<rparr>"

text \<open>The database of a command and what it does with the engine; \<open>None\<close> for a command without a connection.\<close>

fun command_call ::
  "'n site \<Rightarrow> ('n document list \<Rightarrow> string) \<Rightarrow> call_env \<Rightarrow> 'n tcp_command \<Rightarrow> (string \<times> ('n, 'n reply) engine_call) option" where
  "command_call si pretty env (TInsert db data) =
     Some (db, change_call RText (\<lambda>e. engine_insert (si_codec si) env e (document_new (ce_uuid env) data)))"
| "command_call si pretty env (TGet db i) =
     Some (db, read_call (\<lambda>e. Ok (case engine_get e i of None \<Rightarrow> RNull | Some d \<Rightarrow> RDoc d)))"
| "command_call si pretty env (TDelete db i) =
     Some (db, change_call (\<lambda>_. RTrue) (\<lambda>e. engine_delete (si_codec si) env e i))"
| "command_call si pretty env (TUpdate db i data) =
     Some (db, change_call (\<lambda>_. RTrue) (\<lambda>e. engine_update (si_codec si) env e i data))"
| "command_call si pretty env (TQuery db q) =
     Some (db, read_call (\<lambda>e. outcome_map (\<lambda>q. RResult (engine_query (si_num si) e q)) (parse_query (si_num si) q)))"
| "command_call si pretty env (TSearch db t) = Some (db, read_call (\<lambda>e. Ok (RDocs (engine_search e t))))"
| "command_call si pretty env (TDump db) = Some (db, read_call (\<lambda>e. Ok (RText (engine_dump pretty e))))"
| "command_call si pretty env (TCompact db) =
     Some (db, \<lambda>e. map_option (\<lambda>(e', r). (e', outcome_map (\<lambda>_. RTrue) r)) (engine_compact (si_codec si) e))"
| "command_call si pretty env (TCount db) = Some (db, read_call (\<lambda>e. Ok (RCount (engine_doc_count e))))"
| "command_call si pretty env _ = None"

fun settle :: "'n tcp_api \<Rightarrow> 'n reply outcome \<Rightarrow> 'n client \<Rightarrow> 'n client" where
  "settle api (Ok v) cl = cl\<lparr>cl_work := None, cl_sent := cl_sent cl @ [response_ok v]\<rparr>"
| "settle api (Err e) cl = cl\<lparr>cl_work := None, cl_sent := cl_sent cl @ [response_err (error_text (ta_detail api) e)]\<rparr>"
| "settle api Panic cl = cl\<lparr>cl_work := None, cl_end := Some Panic\<rparr>"

definition refuse :: "string \<Rightarrow> 'n client \<Rightarrow> 'n client" where
  "refuse msg cl = cl\<lparr>cl_sent := cl_sent cl @ [response_err msg]\<rparr>"

definition client_command ::
  "'n site \<Rightarrow> 'n tcp_api \<Rightarrow> call_env \<Rightarrow> 'n server \<Rightarrow> 'n client \<Rightarrow> 'n tcp_command \<Rightarrow> ('n server \<times> 'n client) option" where
  "client_command si api env sv cl cmd =
     (case command_call si (ta_pretty api) env cmd of
        None \<Rightarrow> map_option (\<lambda>(sv', r). (sv', settle api r cl)) (execute_command si (ta_pretty api) env sv cmd)
      | Some (db, f) \<Rightarrow>
          (case acquire si sv db of
             None \<Rightarrow> None
           | Some (sv1, Ok conn) \<Rightarrow> Some (sv1, cl\<lparr>cl_work := Some (conn, env, cmd)\<rparr>)
           | Some (sv1, Err e) \<Rightarrow> Some (sv1, settle api (Err e) cl)
           | Some (sv1, Panic) \<Rightarrow> Some (sv1, settle api Panic cl)))"

definition client_request ::
  "'n site \<Rightarrow> 'n tcp_api \<Rightarrow> auth \<Rightarrow> call_env \<Rightarrow> 'n server \<Rightarrow> 'n client \<Rightarrow> bytes \<Rightarrow> ('n server \<times> 'n client) option" where
  "client_request si api auth env sv cl payload =
     (case ta_decode api payload of
        Inl e \<Rightarrow> Some (sv, refuse (''Invalid command: '' @ e) cl)
      | Inr (TAuth t) \<Rightarrow>
          if validate auth t then Some (sv, settle api (Ok (RText ''authenticated'')) (cl\<lparr>cl_authed := True\<rparr>))
          else Some (sv, refuse ''Invalid token'' (cl\<lparr>cl_authed := False\<rparr>))
      | Inr cmd \<Rightarrow>
          if \<not> cl_authed cl then Some (sv, refuse ''Not authenticated'' cl) else client_command si api env sv cl cmd)"

definition client_call ::
  "'n site \<Rightarrow> 'n tcp_api \<Rightarrow> 'n server \<Rightarrow> 'n client \<Rightarrow> 'n connection \<Rightarrow> call_env \<Rightarrow> 'n tcp_command
     \<Rightarrow> ('n server \<times> 'n client) option" where
  "client_call si api sv cl conn env cmd =
     (case command_call si (ta_pretty api) env cmd of
        None \<Rightarrow> None
      | Some (_, f) \<Rightarrow>
          (case on_connection si sv conn f of
             None \<Rightarrow> None
           | Some (sv2, conn2, Ok v) \<Rightarrow> Some (release sv2 conn2, settle api (Ok v) cl)
           | Some (sv2, conn2, r) \<Rightarrow> Some (drop_connection sv2 conn2, settle api r cl)))"

definition client_step ::
  "'n site \<Rightarrow> 'n tcp_api \<Rightarrow> auth \<Rightarrow> call_env \<Rightarrow> 'n server \<Rightarrow> 'n client \<Rightarrow> ('n server \<times> 'n client) option" where
  "client_step si api auth env sv cl =
     (case cl_work cl of
        Some (conn, env0, cmd) \<Rightarrow> client_call si api sv cl conn env0 cmd
      | None \<Rightarrow>
          (case read_exact 4 (cl_input cl) of
             None \<Rightarrow> Some (sv, cl\<lparr>cl_end := Some (Ok ())\<rparr>)
           | Some (prefix, rest) \<Rightarrow>
               if max_request < be_value prefix then Some (sv, cl\<lparr>cl_end := Some (Err (Io ''request too large''))\<rparr>)
               else (case read_exact (be_value prefix) rest of
                       None \<Rightarrow> Some (sv, cl\<lparr>cl_end := Some (Err (Io ''early eof''))\<rparr>)
                     | Some (payload, rest') \<Rightarrow>
                         client_request si api auth env sv (cl\<lparr>cl_input := rest', cl_read := cl_read cl @ [payload]\<rparr>) payload)))"

subsection \<open>The task of an HTTP client\<close>

text \<open>
  \<open>ht_chunk\<close> is what the one read of the request gives, \<open>ht_work\<close> the connection held for a route
  with its call and its status, \<open>ht_result\<close> how the task ended: with a response, without one, with
  an error or with a panic.
\<close>

record 'n http_task =
  ht_chunk :: bytes
  ht_work :: "('n connection \<times> (call_env \<Rightarrow> ('n, 'n reply) engine_call) \<times> ('n reply \<Rightarrow> nat)) option"
  ht_result :: "'n http_response option outcome option"

definition http_new :: "bytes \<Rightarrow> 'n http_task" where
  "http_new chunk = \<lparr>ht_chunk = chunk, ht_work = None, ht_result = None\<rparr>"

definition http_end :: "'n http_response option outcome \<Rightarrow> 'n http_task \<Rightarrow> 'n http_task" where
  "http_end r t = t\<lparr>ht_work := None, ht_result := Some r\<rparr>"

definition http_take ::
  "'n site \<Rightarrow> 'n http_api \<Rightarrow> call_env \<Rightarrow> 'n server \<Rightarrow> 'n http_task \<Rightarrow> 'n plan \<Rightarrow> ('n server \<times> 'n http_task) option" where
  "http_take si hapi env sv t plan =
     (case plan of
        UseDb db f st \<Rightarrow>
          (case acquire si sv db of
             None \<Rightarrow> None
           | Some (sv1, Ok conn) \<Rightarrow> Some (sv1, t\<lparr>ht_work := Some (conn, f, st)\<rparr>)
           | Some (sv1, Err e) \<Rightarrow> Some (sv1, http_end (http_answer hapi (Err e)) t)
           | Some (sv1, Panic) \<Rightarrow> Some (sv1, http_end Panic t))
      | _ \<Rightarrow> map_option (\<lambda>(sv', r). (sv', http_end (http_answer hapi r) t)) (run_plan si env sv plan))"

definition http_call ::
  "'n site \<Rightarrow> 'n http_api \<Rightarrow> call_env \<Rightarrow> 'n server \<Rightarrow> 'n http_task \<Rightarrow> 'n connection
     \<Rightarrow> (call_env \<Rightarrow> ('n, 'n reply) engine_call) \<Rightarrow> ('n reply \<Rightarrow> nat) \<Rightarrow> ('n server \<times> 'n http_task) option" where
  "http_call si hapi env sv t conn f st =
     (case on_connection si sv conn (f env) of
        None \<Rightarrow> None
      | Some (sv2, conn2, Ok v) \<Rightarrow> Some (release sv2 conn2, http_end (http_answer hapi (Ok (st v, v))) t)
      | Some (sv2, conn2, Err e) \<Rightarrow> Some (drop_connection sv2 conn2, http_end (http_answer hapi (Err e)) t)
      | Some (sv2, conn2, Panic) \<Rightarrow> Some (drop_connection sv2 conn2, http_end Panic t))"

definition http_step ::
  "'n site \<Rightarrow> 'n http_api \<Rightarrow> auth \<Rightarrow> call_env \<Rightarrow> 'n server \<Rightarrow> 'n http_task \<Rightarrow> ('n server \<times> 'n http_task) option" where
  "http_step si hapi auth env sv t =
     (case ht_work t of
        Some (conn, f, st) \<Rightarrow> http_call si hapi env sv t conn f st
      | None \<Rightarrow>
          (case http_decide si hapi auth (ht_chunk t) of
             Inl r \<Rightarrow> Some (sv, http_end r t)
           | Inr plan \<Rightarrow> http_take si hapi env sv t plan))"

subsection \<open>All tasks\<close>

type_synonym 'n hub = "'n server \<times> 'n client list \<times> 'n http_task list"

inductive service_step ::
  "'n site \<Rightarrow> 'n tcp_api \<Rightarrow> 'n http_api \<Rightarrow> auth \<Rightarrow> listener list \<Rightarrow> 'n hub \<Rightarrow> 'n hub \<Rightarrow> bool" for si api hapi auth ls where
  Accept: "TcpListener addr \<in> set ls \<Longrightarrow>
     service_step si api hapi auth ls (sv, cls, hts) (sv, cls @ [client_new auth input], hts)"
| Turn: "i < length cls \<Longrightarrow> cl_end (cls ! i) = None \<Longrightarrow> client_step si api auth env sv (cls ! i) = Some (sv', cl') \<Longrightarrow>
     service_step si api hapi auth ls (sv, cls, hts) (sv', cls[i := cl'], hts)"
| HttpAccept: "HttpListener addr \<in> set ls \<Longrightarrow>
     service_step si api hapi auth ls (sv, cls, hts) (sv, cls, hts @ [http_new chunk])"
| HttpTurn: "i < length hts \<Longrightarrow> ht_result (hts ! i) = None \<Longrightarrow> http_step si hapi auth env sv (hts ! i) = Some (sv', t') \<Longrightarrow>
     service_step si api hapi auth ls (sv, cls, hts) (sv', cls, hts[i := t'])"

inductive service_run ::
  "'n site \<Rightarrow> 'n tcp_api \<Rightarrow> 'n http_api \<Rightarrow> auth \<Rightarrow> listener list \<Rightarrow> 'n hub \<Rightarrow> 'n hub \<Rightarrow> bool" for si api hapi auth ls where
  Start: "service_run si api hapi auth ls s s"
| Next: "service_run si api hapi auth ls s t \<Longrightarrow> service_step si api hapi auth ls t u \<Longrightarrow> service_run si api hapi auth ls s u"

inductive_cases service_stepE: "service_step si api hapi auth ls s t"

lemma service_run_trans:
  "service_run si api hapi auth ls t u \<Longrightarrow> service_run si api hapi auth ls s t \<Longrightarrow> service_run si api hapi auth ls s u"
  by (induction rule: service_run.induct) (auto intro: service_run.Next)

subsection \<open>Permits\<close>

text \<open>The connections to a database that tasks hold.\<close>

definition holds :: "string \<Rightarrow> 'n client \<Rightarrow> bool" where
  "holds db cl \<longleftrightarrow> (case cl_work cl of None \<Rightarrow> False | Some (conn, _) \<Rightarrow> cn_db conn = db)"

definition held :: "string \<Rightarrow> 'n client list \<Rightarrow> nat" where
  "held db cls = length (filter (holds db) cls)"

definition http_holds :: "string \<Rightarrow> 'n http_task \<Rightarrow> bool" where
  "http_holds db t \<longleftrightarrow> (case ht_work t of None \<Rightarrow> False | Some (conn, _) \<Rightarrow> cn_db conn = db)"

definition http_held :: "string \<Rightarrow> 'n http_task list \<Rightarrow> nat" where
  "http_held db hts = length (filter (http_holds db) hts)"

text \<open>
  Every permit of a pool is free or held, for a number of holders by database that is given as a
  function.
\<close>

definition permits_ok :: "nat \<Rightarrow> 'n server \<Rightarrow> (string \<Rightarrow> nat) \<Rightarrow> bool" where
  "permits_ok n sv h \<longleftrightarrow> cp_size sv = n \<and>
     (\<forall>db p. hm_get (cp_pools sv) db = Some p \<longrightarrow> dp_permits p + h db = n) \<and>
     (\<forall>db. hm_get (cp_pools sv) db = None \<longrightarrow> h db = 0)"

lemma permits_okD: "permits_ok n sv h \<Longrightarrow> hm_get (cp_pools sv) db = Some p \<Longrightarrow> dp_permits p + h db = n"
  by (simp add: permits_ok_def)

lemma permits_ok_None: "permits_ok n sv h \<Longrightarrow> hm_get (cp_pools sv) db = None \<Longrightarrow> h db = 0"
  by (simp add: permits_ok_def)

lemma permits_ok_disk [simp]: "permits_ok n (sv\<lparr>sv_disk := d\<rparr>) h = permits_ok n sv h"
  by (simp add: permits_ok_def)

lemma permits_ok_insert:
  assumes "permits_ok n sv h" "dp_permits p + h' db = n" "\<And>d. d \<noteq> db \<Longrightarrow> h' d = h d"
  shows "permits_ok n (sv\<lparr>cp_pools := hm_insert db p (cp_pools sv)\<rparr>) h'"
  using assms by (auto simp: permits_ok_def hm_simps split: if_splits)

lemma get_or_create_permits:
  assumes "permits_ok n sv h" "get_or_create_pool si sv db = (sv', r)"
  shows "permits_ok n sv' h \<and> (case r of Ok p \<Rightarrow> hm_get (cp_pools sv') db = Some p | _ \<Rightarrow> True)"
proof (cases "hm_get (cp_pools sv) db")
  case (Some p)
  with assms show ?thesis by (auto simp: get_or_create_pool_def)
next
  case None
  let ?new = "db_pool_new (cp_size sv)"
  have "permits_ok n (sv\<lparr>cp_pools := hm_insert db ?new (cp_pools sv)\<rparr>) h"
    using permits_ok_None [OF assms(1) None] assms(1)
    by (intro permits_ok_insert) (simp_all add: db_pool_new_def permits_ok_def)
  with assms None show ?thesis
    by (auto simp: get_or_create_pool_def Let_def hm_simps permits_ok_def split: prod.splits outcome.splits if_splits)
qed

lemma acquire_permits:
  assumes "permits_ok n sv h" "acquire si sv db = Some (sv', r)"
  shows "case r of Ok conn \<Rightarrow> cn_db conn = db \<and> permits_ok n sv' (h(db := Suc (h db))) | _ \<Rightarrow> permits_ok n sv' h"
proof -
  obtain sv1 r1 where get: "get_or_create_pool si sv db = (sv1, r1)" by fastforce
  note ok = get_or_create_permits [OF assms(1) get]
  show ?thesis
  proof (cases r1)
    case (Ok p)
    with ok have p: "permits_ok n sv1 h" "hm_get (cp_pools sv1) db = Some p" by simp_all
    have run: "db_pool_acquire si sv1 db p = Some (sv', r)" using assms(2) get Ok by (simp add: acquire_def)
    then have pos: "dp_permits p \<noteq> 0" by (auto simp: db_pool_acquire_def split: if_splits)
    have put: "permits_ok n (sv1\<lparr>sv_disk := d, cp_pools := hm_insert db q (cp_pools sv1)\<rparr>) (h(db := Suc (h db)))"
      if "dp_permits q = dp_permits p - 1" for q d
      using permits_ok_insert [of n "sv1\<lparr>sv_disk := d\<rparr>" h q "h(db := Suc (h db))" db] permits_okD [OF p] p(1) pos that by simp
    have keep: "permits_ok n (sv1\<lparr>cp_pools := hm_insert db q (cp_pools sv1)\<rparr>) (h(db := Suc (h db)))"
      if "dp_permits q = dp_permits p - 1" for q
      using put [OF that, of "sv_disk sv1"] by simp
    show ?thesis
      using run p(1) put keep
      by (auto simp: db_pool_acquire_def Let_def split: if_splits prod.splits outcome.splits)
  qed (use assms get ok in \<open>auto simp: acquire_def\<close>)
qed

text \<open>A task waits exactly when all permits of the database are held.\<close>

lemma acquire_waits:
  assumes "permits_ok n sv h" "0 < n"
  shows "acquire si sv db = None \<longleftrightarrow> h db = n"
proof -
  obtain sv1 r1 where get: "get_or_create_pool si sv db = (sv1, r1)" by fastforce
  note ok = get_or_create_permits [OF assms(1) get]
  have exists: "h db = 0" if "\<And>p. r1 \<noteq> Ok p"
  proof -
    have "hm_get (cp_pools sv) db = None" using get that by (cases "hm_get (cp_pools sv) db") (auto simp: get_or_create_pool_def)
    then show ?thesis by (rule permits_ok_None [OF assms(1)])
  qed
  show ?thesis
  proof (cases r1)
    case (Ok p)
    with ok have p: "permits_ok n sv1 h" "hm_get (cp_pools sv1) db = Some p" by simp_all
    from get Ok have "acquire si sv db = None \<longleftrightarrow> dp_permits p = 0"
      by (auto simp: acquire_def db_pool_acquire_def Let_def split: prod.splits outcome.splits)
    with permits_okD [OF p] show ?thesis by auto
  qed (use assms(2) get exists in \<open>auto simp: acquire_def\<close>)
qed

lemma on_connection_permits:
  "on_connection si sv conn f = Some (sv', conn', r) \<Longrightarrow> permits_ok n sv h \<Longrightarrow> permits_ok n sv' h \<and> cn_db conn' = cn_db conn"
  by (auto simp: on_connection_def Let_def split: option.splits)

lemma drop_permits:
  assumes "permits_ok n sv h" "0 < h (cn_db conn)"
  shows "permits_ok n (drop_connection sv conn) (h(cn_db conn := h (cn_db conn) - 1))"
proof (cases "hm_get (cp_pools sv) (cn_db conn)")
  case None
  with permits_ok_None [OF assms(1) this] assms(2) show ?thesis by simp
next
  case (Some p)
  with permits_okD [OF assms(1) this] assms show ?thesis
    by (auto simp: drop_connection_def intro!: permits_ok_insert)
qed

lemma release_permits:
  assumes "permits_ok n sv h" "0 < h (cn_db conn)"
  shows "permits_ok n (release sv conn) (h(cn_db conn := h (cn_db conn) - 1))"
proof -
  let ?name = "file_stem (cn_db conn)"
  have "permits_ok n (case hm_get (cp_pools sv) ?name of None \<Rightarrow> sv
      | Some p \<Rightarrow> sv\<lparr>cp_pools := hm_insert ?name (p\<lparr>dp_idle := dp_idle p @ [cn_engine conn]\<rparr>) (cp_pools sv)\<rparr>) h"
    using assms(1) permits_okD [OF assms(1), of ?name] by (auto split: option.split intro!: permits_ok_insert)
  from drop_permits [OF this assms(2)] show ?thesis by (simp add: release_def Let_def)
qed

lemma create_permits:
  "permits_ok n sv h \<Longrightarrow> create_database si sv db = (sv', r) \<Longrightarrow> permits_ok n sv' h"
  by (auto simp: create_database_def Let_def split: prod.splits)

subsection \<open>What every step keeps\<close>

lemma holds_simps [simp]:
  "holds db (refuse m cl) = holds db cl" "holds db (cl\<lparr>cl_authed := b\<rparr>) = holds db cl"
  "holds db (cl\<lparr>cl_input := inp\<rparr>) = holds db cl" "holds db (cl\<lparr>cl_read := rd\<rparr>) = holds db cl"
  "holds db (cl\<lparr>cl_end := e\<rparr>) = holds db cl" "holds db (cl\<lparr>cl_work := Some (conn, w)\<rparr>) \<longleftrightarrow> cn_db conn = db"
  "holds db (client_new auth inp) = False"
  by (simp_all add: holds_def refuse_def client_new_def)

lemma holds_None [simp]: "cl_work cl = None \<Longrightarrow> \<not> holds db cl"
  by (simp add: holds_def)

lemma settle_work [simp]: "cl_work (settle api r cl) = None" "holds db (settle api r cl) = False"
  by (cases r; simp add: holds_def)+

lemma length_filter_update:
  "i < length xs \<Longrightarrow> length (filter P (xs[i := x])) + of_bool (P (xs ! i)) = length (filter P xs) + of_bool (P x)"
proof (induction xs arbitrary: i)
  case (Cons y ys)
  show ?case
  proof (cases i)
    case (Suc j)
    with Cons.IH [of j] Cons.prems show ?thesis by auto
  qed simp
qed simp

lemma filter_pos: "x \<in> set xs \<Longrightarrow> P x \<Longrightarrow> 0 < length (filter P xs)"
  by (auto simp: filter_empty_conv)

text \<open>The holders after a step of one task, which held the databases \<open>p\<close> and then holds \<open>q\<close>.\<close>

definition moved :: "(string \<Rightarrow> nat) \<Rightarrow> (string \<Rightarrow> bool) \<Rightarrow> (string \<Rightarrow> bool) \<Rightarrow> string \<Rightarrow> nat" where
  "moved h p q = (\<lambda>db. h db - of_bool (p db) + of_bool (q db))"

lemma moved_update:
  assumes "i < length xs"
  shows "moved (\<lambda>db. length (filter (P db) xs) + g db) (\<lambda>db. P db (xs ! i)) (\<lambda>db. P db x) =
    (\<lambda>db. length (filter (P db) (xs[i := x])) + g db)"
proof
  fix db
  from length_filter_update [OF assms, of "P db" x] filter_pos [OF nth_mem [OF assms], of "P db"]
  show "moved (\<lambda>db. length (filter (P db) xs) + g db) (\<lambda>db. P db (xs ! i)) (\<lambda>db. P db x) db =
      length (filter (P db) (xs[i := x])) + g db"
    by (cases "P db (xs ! i)") (auto simp: moved_def)
qed

lemma moved_free: "(\<And>db. \<not> p db) \<Longrightarrow> (\<And>db. \<not> q db) \<Longrightarrow> moved h p q = h"
  by (simp add: moved_def)

lemma command_without_call:
  "command_call si pretty env cmd = None \<Longrightarrow>
   \<exists>sv1 r. execute_command si pretty env sv cmd = Some (sv1, r) \<and> (permits_ok n sv h \<longrightarrow> permits_ok n sv1 h)"
  by (cases cmd) (auto dest: create_permits split: prod.split)

lemma client_command_permits:
  assumes "permits_ok n sv h" "cl_work cl = None" "client_command si api env sv cl cmd = Some (sv', cl')"
  shows "permits_ok n sv' (moved h (\<lambda>db. holds db cl) (\<lambda>db. holds db cl'))"
proof (cases "command_call si (ta_pretty api) env cmd")
  case None
  from command_without_call [OF None, of sv n h] assms None show ?thesis by (auto simp: client_command_def moved_free)
next
  case (Some c)
  obtain db f where c: "c = (db, f)" by (cases c)
  with Some assms(3) obtain sv1 r where acq: "acquire si sv db = Some (sv1, r)"
    by (auto simp: client_command_def split: option.splits)
  note ok = acquire_permits [OF assms(1) acq]
  show ?thesis
  proof (cases r)
    case (Ok conn)
    with assms(3) Some c acq have step: "sv' = sv1" "cl' = cl\<lparr>cl_work := Some (conn, env, cmd)\<rparr>" by (auto simp: client_command_def)
    have "cn_db conn = db" using ok Ok by simp
    then have "moved h (\<lambda>db. holds db cl) (\<lambda>db. holds db cl') = h(db := Suc (h db))" using assms(2) step(2) by (auto simp: moved_def fun_eq_iff)
    with ok Ok step(1) show ?thesis by simp
  qed (use assms Some c acq ok in \<open>auto simp: client_command_def moved_free simp del: settle.simps\<close>)
qed

lemma client_request_cases:
  assumes "client_request si api auth env sv cl payload = Some (sv', cl')"
  obtains (refused) msg b where "sv' = sv" "cl' = refuse msg (cl\<lparr>cl_authed := b\<rparr>)" "b \<longrightarrow> cl_authed cl"
  | (authed) t where "ta_decode api payload = Inr (TAuth t)" "validate auth t" "sv' = sv"
      "cl' = settle api (Ok (RText ''authenticated'')) (cl\<lparr>cl_authed := True\<rparr>)"
  | (command) cmd where "ta_decode api payload = Inr cmd" "cl_authed cl" "client_command si api env sv cl cmd = Some (sv', cl')"
proof (cases "ta_decode api payload")
  case (Inl e)
  with assms refused [of "''Invalid command: '' @ e" "cl_authed cl"] show ?thesis by (simp add: client_request_def)
next
  case (Inr cmd)
  show ?thesis
  proof (cases "\<exists>t. cmd = TAuth t")
    case True
    then obtain t where "cmd = TAuth t" by blast
    with assms Inr refused [of "''Invalid token''" False] authed [of t] show ?thesis
      by (auto simp: client_request_def simp del: settle.simps split: if_splits)
  next
    case False
    then have "client_request si api auth env sv cl payload =
        (if \<not> cl_authed cl then Some (sv, refuse ''Not authenticated'' cl) else client_command si api env sv cl cmd)"
      using Inr by (cases cmd) (simp_all add: client_request_def)
    with assms Inr refused [of "''Not authenticated''" "cl_authed cl"] command [of cmd] show ?thesis by (auto split: if_splits)
  qed
qed

lemma client_request_permits:
  assumes "permits_ok n sv h" "cl_work cl = None" "client_request si api auth env sv cl payload = Some (sv', cl')"
  shows "permits_ok n sv' (moved h (\<lambda>db. holds db cl) (\<lambda>db. holds db cl'))"
  using assms(3)
proof (cases rule: client_request_cases)
  case (command cmd)
  with client_command_permits assms show ?thesis by blast
qed (use assms in \<open>simp_all add: moved_free del: settle.simps\<close>)

lemma client_call_permits:
  assumes "permits_ok n sv h" "cl_work cl = Some (conn, env, cmd)" "0 < h (cn_db conn)"
    and "client_call si api sv cl conn env cmd = Some (sv', cl')"
  shows "permits_ok n sv' (moved h (\<lambda>db. holds db cl) (\<lambda>db. holds db cl'))"
proof -
  have work: "holds db cl \<longleftrightarrow> cn_db conn = db" for db using assms(2) by (simp add: holds_def)
  obtain db f where call: "command_call si (ta_pretty api) env cmd = Some (db, f)"
    using assms(4) by (auto simp: client_call_def split: option.splits)
  obtain sv2 conn2 r where on: "on_connection si sv conn f = Some (sv2, conn2, r)"
    using assms(4) call by (auto simp: client_call_def split: option.splits)
  from on_connection_permits [OF on assms(1)] have ok: "permits_ok n sv2 h" "cn_db conn2 = cn_db conn" by simp_all
  have "cl_work cl' = None" using assms(4) call on by (cases r) (auto simp: client_call_def simp del: settle.simps)
  then have "moved h (\<lambda>db. holds db cl) (\<lambda>db. holds db cl') = h(cn_db conn := h (cn_db conn) - 1)" by (simp add: moved_def fun_eq_iff work)
  then show ?thesis
    using drop_permits [OF ok(1), of conn2] release_permits [OF ok(1), of conn2] ok(2) assms(3,4) call on
    by (cases r) (auto simp: client_call_def)
qed

lemma client_step_permits:
  assumes "permits_ok n sv h" "\<And>db. holds db cl \<Longrightarrow> 0 < h db" "client_step si api auth env sv cl = Some (sv', cl')"
  shows "permits_ok n sv' (moved h (\<lambda>db. holds db cl) (\<lambda>db. holds db cl'))"
proof (cases "cl_work cl")
  case (Some w)
  obtain conn env0 cmd where w: "w = (conn, env0, cmd)" by (cases w)
  with Some assms(2) [of "cn_db conn"] have "0 < h (cn_db conn)" by (simp add: holds_def)
  from client_call_permits [OF assms(1) _ this] Some w assms(3) show ?thesis by (simp add: client_step_def)
next
  case None
  then have free: "\<not> holds db cl" for db by (simp add: holds_def)
  show ?thesis
  proof (cases "\<exists>prefix rest payload rest'. read_exact 4 (cl_input cl) = Some (prefix, rest) \<and>
      be_value prefix \<le> max_request \<and> read_exact (be_value prefix) rest = Some (payload, rest')")
    case True
    then obtain prefix rest payload rest' where r: "read_exact 4 (cl_input cl) = Some (prefix, rest)"
      "be_value prefix \<le> max_request" "read_exact (be_value prefix) rest = Some (payload, rest')" by blast
    let ?cl = "cl\<lparr>cl_input := rest', cl_read := cl_read cl @ [payload]\<rparr>"
    have "client_request si api auth env sv ?cl payload = Some (sv', cl')" using assms(3) None r by (simp add: client_step_def)
    from client_request_permits [OF assms(1) _ this] None show ?thesis by (simp add: moved_def)
  next
    case False
    with assms None free show ?thesis
      by (auto simp: client_step_def moved_free split: option.splits if_splits)
  qed
qed

text \<open>A plan that takes no connection changes no permits; \<open>http_take\<close> and \<open>http_call\<close> move one.\<close>

lemma http_holds_simps [simp]:
  "http_holds db (http_end r t) = False" "http_holds db (http_new chunk) = False"
  "http_holds db (t\<lparr>ht_work := Some (conn, w)\<rparr>) \<longleftrightarrow> cn_db conn = db"
  "ht_work (http_end r t) = None" "ht_result (http_end r t) = Some r" "ht_chunk (http_end r t) = ht_chunk t"
  by (simp_all add: http_holds_def http_end_def http_new_def)

lemma http_holds_None [simp]: "ht_work t = None \<Longrightarrow> \<not> http_holds db t"
  by (simp add: http_holds_def)

lemma http_take_permits:
  assumes "permits_ok n sv h" "ht_work t = None" "http_take si hapi env sv t plan = Some (sv', t')"
  shows "permits_ok n sv' (moved h (\<lambda>db. http_holds db t) (\<lambda>db. http_holds db t'))"
proof (cases "\<exists>db f st. plan = UseDb db f st")
  case False
  with assms show ?thesis
    by (cases plan) (auto simp: http_take_def moved_free intro: create_permits split: prod.splits)
next
  case True
  then obtain db f st where plan: "plan = UseDb db f st" by blast
  with assms(3) obtain sv1 r where acq: "acquire si sv db = Some (sv1, r)" by (auto simp: http_take_def split: option.splits)
  note ok = acquire_permits [OF assms(1) acq]
  show ?thesis
  proof (cases r)
    case (Ok conn)
    with assms(3) plan acq have step: "sv' = sv1" "t' = t\<lparr>ht_work := Some (conn, f, st)\<rparr>" by (auto simp: http_take_def)
    have "cn_db conn = db" using ok Ok by simp
    then have "moved h (\<lambda>db. http_holds db t) (\<lambda>db. http_holds db t') = h(db := Suc (h db))"
      using assms(2) step(2) by (auto simp: moved_def fun_eq_iff)
    with ok Ok step(1) show ?thesis by simp
  qed (use assms plan acq ok in \<open>auto simp: http_take_def moved_free\<close>)
qed

lemma http_call_permits:
  assumes "permits_ok n sv h" "ht_work t = Some (conn, f, st)" "0 < h (cn_db conn)"
    and "http_call si hapi env sv t conn f st = Some (sv', t')"
  shows "permits_ok n sv' (moved h (\<lambda>db. http_holds db t) (\<lambda>db. http_holds db t'))"
proof -
  have work: "http_holds db t \<longleftrightarrow> cn_db conn = db" for db using assms(2) by (simp add: http_holds_def)
  obtain sv2 conn2 r where on: "on_connection si sv conn (f env) = Some (sv2, conn2, r)"
    using assms(4) by (auto simp: http_call_def split: option.splits)
  from on_connection_permits [OF on assms(1)] have ok: "permits_ok n sv2 h" "cn_db conn2 = cn_db conn" by simp_all
  have "ht_work t' = None" using assms(4) on by (cases r) (auto simp: http_call_def)
  then have "moved h (\<lambda>db. http_holds db t) (\<lambda>db. http_holds db t') = h(cn_db conn := h (cn_db conn) - 1)"
    by (simp add: moved_def fun_eq_iff work)
  then show ?thesis
    using drop_permits [OF ok(1), of conn2] release_permits [OF ok(1), of conn2] ok(2) assms(3,4) on
    by (cases r) (auto simp: http_call_def)
qed

lemma http_step_permits:
  assumes "permits_ok n sv h" "\<And>db. http_holds db t \<Longrightarrow> 0 < h db" "http_step si hapi auth env sv t = Some (sv', t')"
  shows "permits_ok n sv' (moved h (\<lambda>db. http_holds db t) (\<lambda>db. http_holds db t'))"
proof (cases "ht_work t")
  case (Some w)
  obtain conn f st where w: "w = (conn, f, st)" by (cases w)
  with Some assms(2) [of "cn_db conn"] have "0 < h (cn_db conn)" by (simp add: http_holds_def)
  from http_call_permits [OF assms(1) _ this] Some w assms(3) show ?thesis by (simp add: http_step_def)
next
  case None
  then show ?thesis
    using assms(1,3) http_take_permits [OF assms(1) None]
    by (auto simp: http_step_def moved_free split: sum.splits)
qed

subsection \<open>Reachable states\<close>

text \<open>
  A task that holds a connection has a command to make a call for, which it has read, and goes on;
  an HTTP task that holds one has the call of its request.
\<close>

definition task_ok :: "'n site \<Rightarrow> 'n tcp_api \<Rightarrow> 'n client \<Rightarrow> bool" where
  "task_ok si api cl \<longleftrightarrow>
     (\<forall>conn env cmd. cl_work cl = Some (conn, env, cmd) \<longrightarrow>
        cl_end cl = None \<and> command_call si (ta_pretty api) env cmd \<noteq> None \<and>
        (\<exists>p \<in> set (cl_read cl). ta_decode api p = Inr cmd))"

definition http_task_ok :: "'n site \<Rightarrow> 'n http_api \<Rightarrow> auth \<Rightarrow> 'n http_task \<Rightarrow> bool" where
  "http_task_ok si hapi auth t \<longleftrightarrow>
     (\<forall>conn f st. ht_work t = Some (conn, f, st) \<longrightarrow>
        ht_result t = None \<and> (\<exists>db. http_decide si hapi auth (ht_chunk t) = Inr (UseDb db f st)))"

definition hub_ok :: "'n site \<Rightarrow> 'n tcp_api \<Rightarrow> 'n http_api \<Rightarrow> auth \<Rightarrow> nat \<Rightarrow> 'n hub \<Rightarrow> bool" where
  "hub_ok si api hapi auth n s \<longleftrightarrow>
     permits_ok n (fst s) (\<lambda>db. held db (fst (snd s)) + http_held db (snd (snd s))) \<and>
     (\<forall>cl \<in> set (fst (snd s)). task_ok si api cl) \<and> (\<forall>t \<in> set (snd (snd s)). http_task_ok si hapi auth t)"

text \<open>A step is the end of the task, one request that has been read, or the call of the connection it holds.\<close>

lemma client_step_cases:
  assumes "client_step si api auth env sv cl = Some (sv', cl')"
  obtains (stop) "cl_work cl = None" "sv' = sv" "cl' = cl\<lparr>cl_end := Some (input_end (cl_input cl))\<rparr>" "payloads (cl_input cl) = []"
  | (request) payload rest where "cl_work cl = None" "payloads (cl_input cl) = payload # payloads rest"
      "length rest < length (cl_input cl)" "input_end (cl_input cl) = input_end rest"
      "client_request si api auth env sv (cl\<lparr>cl_input := rest, cl_read := cl_read cl @ [payload]\<rparr>) payload = Some (sv', cl')"
  | (call) conn env0 cmd where "cl_work cl = Some (conn, env0, cmd)" "client_call si api sv cl conn env0 cmd = Some (sv', cl')"
proof (cases "cl_work cl")
  case (Some w)
  with assms call show ?thesis by (cases w) (simp add: client_step_def)
next
  case None
  show ?thesis
  proof (cases "read_exact 4 (cl_input cl)")
    case None: None
    with assms \<open>cl_work cl = None\<close> stop show ?thesis
      by (auto simp: client_step_def payloads.simps [of "cl_input cl"] input_end.simps [of "cl_input cl"])
  next
    case (Some pr)
    obtain prefix rest where pr: "pr = (prefix, rest)" by (cases pr)
    show ?thesis
    proof (cases "max_request < be_value prefix \<or> read_exact (be_value prefix) rest = None")
      case True
      with assms \<open>cl_work cl = None\<close> Some pr stop show ?thesis
        by (auto simp: client_step_def payloads.simps [of "cl_input cl"] input_end.simps [of "cl_input cl"] split: if_splits)
    next
      case False
      then obtain payload rest' where p: "read_exact (be_value prefix) rest = Some (payload, rest')" by fastforce
      have "length rest' < length (cl_input cl)" using Some pr p by (auto simp: read_exact_def split: if_splits)
      moreover have "payloads (cl_input cl) = payload # payloads rest'"
        using Some pr p False by (subst payloads.simps) simp
      moreover have "input_end (cl_input cl) = input_end rest'"
        using Some pr p False by (subst input_end.simps) simp
      moreover have "client_request si api auth env sv (cl\<lparr>cl_input := rest', cl_read := cl_read cl @ [payload]\<rparr>) payload = Some (sv', cl')"
        using assms \<open>cl_work cl = None\<close> Some pr p False by (simp add: client_step_def)
      ultimately show ?thesis using request \<open>cl_work cl = None\<close> by blast
    qed
  qed
qed

lemma settle_simps [simp]:
  "cl_input (settle api r cl) = cl_input cl" "cl_read (settle api r cl) = cl_read cl" "cl_authed (settle api r cl) = cl_authed cl"
  by (cases r; simp)+

lemma refuse_simps [simp]:
  "cl_input (refuse m cl) = cl_input cl" "cl_read (refuse m cl) = cl_read cl" "cl_authed (refuse m cl) = cl_authed cl"
  "cl_work (refuse m cl) = cl_work cl" "cl_end (refuse m cl) = cl_end cl"
  by (simp_all add: refuse_def)

text \<open>What a command and a call do to the record of the client.\<close>

lemma client_command_result:
  assumes "client_command si api env sv cl cmd = Some (sv', cl')"
  shows "(\<exists>r. cl' = settle api r cl) \<or>
    (\<exists>conn. cl' = cl\<lparr>cl_work := Some (conn, env, cmd)\<rparr> \<and> command_call si (ta_pretty api) env cmd \<noteq> None)"
  using assms by (auto simp: client_command_def simp del: settle.simps split: option.splits outcome.splits) blast+

lemma client_call_result:
  assumes "client_call si api sv cl conn env cmd = Some (sv', cl')"
  shows "\<exists>r. cl' = settle api r cl"
proof -
  obtain db f where call: "command_call si (ta_pretty api) env cmd = Some (db, f)"
    using assms by (auto simp: client_call_def split: option.splits)
  obtain sv2 conn2 r where "on_connection si sv conn f = Some (sv2, conn2, r)"
    using assms call by (auto simp: client_call_def split: option.splits)
  with assms call show ?thesis by (cases r) (auto simp: client_call_def simp del: settle.simps)
qed

lemma task_ok_free: "cl_work cl = None \<Longrightarrow> task_ok si api cl"
  by (simp add: task_ok_def)

text \<open>A request leaves what is left of the input and what has been read alone.\<close>

lemma client_request_reads:
  assumes "client_request si api auth env sv cl payload = Some (sv', cl')"
  shows "cl_input cl' = cl_input cl \<and> cl_read cl' = cl_read cl"
  using assms
proof (cases rule: client_request_cases)
  case (command cmd)
  from client_command_result [OF command(3)] show ?thesis by (auto simp del: settle.simps)
qed (simp_all del: settle.simps)

lemma client_step_task:
  assumes "client_step si api auth env sv cl = Some (sv', cl')" "cl_end cl = None"
  shows "task_ok si api cl'"
  using assms(1)
proof (cases rule: client_step_cases)
  case (request payload rest)
  from request(5) show ?thesis
  proof (cases rule: client_request_cases)
    case (command cmd)
    from client_command_result [OF command(3)] command(1) request(1) assms(2) show ?thesis
      by (auto simp: task_ok_def simp del: settle.simps)
  qed (use request(1) in \<open>simp_all add: task_ok_free del: settle.simps\<close>)
next
  case (call conn env0 cmd)
  from client_call_result [OF this(2)] show ?thesis by (auto simp: task_ok_free simp del: settle.simps)
qed (simp add: task_ok_free)

lemma http_step_task:
  assumes "http_step si hapi auth env sv t = Some (sv', t')" "ht_result t = None"
  shows "http_task_ok si hapi auth t'"
proof (cases "ht_work t")
  case (Some w)
  obtain conn f st where w: "w = (conn, f, st)" by (cases w)
  with Some assms(1) have "http_call si hapi env sv t conn f st = Some (sv', t')" by (simp add: http_step_def)
  then have "ht_work t' = None" by (auto simp: http_call_def split: option.splits outcome.splits)
  then show ?thesis by (simp add: http_task_ok_def)
next
  case None
  with assms show ?thesis
    by (auto simp: http_step_def http_take_def http_task_ok_def split: sum.splits plan.splits option.splits outcome.splits prod.splits)
qed

lemma service_step_ok:
  assumes "service_step si api hapi auth ls s t" "hub_ok si api hapi auth n s"
  shows "hub_ok si api hapi auth n t"
  using assms(1)
proof cases
  case (Accept addr sv cls hts input)
  with assms(2) show ?thesis
    by (auto simp: hub_ok_def held_def task_ok_def client_new_def)
next
  case (Turn i cls env sv sv' cl' hts)
  let ?h = "\<lambda>db. held db cls + http_held db hts"
  have ok: "permits_ok n sv ?h" "\<And>cl. cl \<in> set cls \<Longrightarrow> task_ok si api cl" "\<And>t. t \<in> set hts \<Longrightarrow> http_task_ok si hapi auth t"
    using assms(2) Turn(1) by (auto simp: hub_ok_def)
  have "permits_ok n sv' (moved ?h (\<lambda>db. holds db (cls ! i)) (\<lambda>db. holds db cl'))"
    by (rule client_step_permits [OF ok(1) _ Turn(5)])
      (use Turn(3) filter_pos [OF nth_mem] in \<open>auto simp: held_def\<close>)
  then have "permits_ok n sv' (\<lambda>db. held db (cls[i := cl']) + http_held db hts)"
    using moved_update [OF Turn(3), of holds "\<lambda>db. http_held db hts" cl'] by (simp add: held_def)
  then show ?thesis
    using ok(2,3) client_step_task [OF Turn(5,4)] Turn(2) by (auto simp: hub_ok_def dest!: set_update_subset_insert [THEN subsetD])
next
  case (HttpAccept addr sv cls hts chunk)
  with assms(2) show ?thesis
    by (auto simp: hub_ok_def http_held_def http_task_ok_def http_new_def http_holds_def)
next
  case (HttpTurn i hts env sv sv' t' cls)
  let ?h = "\<lambda>db. http_held db hts + held db cls"
  have ok: "permits_ok n sv ?h" "\<And>cl. cl \<in> set cls \<Longrightarrow> task_ok si api cl" "\<And>t. t \<in> set hts \<Longrightarrow> http_task_ok si hapi auth t"
    using assms(2) HttpTurn(1) by (auto simp: hub_ok_def add.commute)
  have "permits_ok n sv' (moved ?h (\<lambda>db. http_holds db (hts ! i)) (\<lambda>db. http_holds db t'))"
    by (rule http_step_permits [OF ok(1) _ HttpTurn(5)])
      (use HttpTurn(3) filter_pos [OF nth_mem] in \<open>auto simp: http_held_def\<close>)
  then have "permits_ok n sv' (\<lambda>db. http_held db (hts[i := t']) + held db cls)"
    using moved_update [OF HttpTurn(3), of http_holds "\<lambda>db. held db cls" t'] by (simp add: http_held_def)
  then show ?thesis
    using ok(2,3) http_step_task [OF HttpTurn(5,4)] HttpTurn(2)
    by (auto simp: hub_ok_def add.commute dest!: set_update_subset_insert [THEN subsetD])
qed

lemma service_run_ok:
  "service_run si api hapi auth ls s t \<Longrightarrow> hub_ok si api hapi auth n s \<Longrightarrow> hub_ok si api hapi auth n t"
  by (induction rule: service_run.induct) (auto intro: service_step_ok)

lemma start_ok: "start_server disk so = (sv, auth, ls) \<Longrightarrow> hub_ok si api hapi auth (so_pool so) (sv, [], [])"
  by (auto simp: start_server_def hub_ok_def permits_ok_def server_new_def held_def http_held_def)

end
