(* ===== verification/Calm.thy ===== *)
theory Calm
  imports Service
begin

text \<open>
  Requests that return, with a value or an error, and databases that were never compacted, which
  \<open>open\<close> reads without allocating a length found in a page. What no step of the server changes as
  long as no client asks for a compaction.
\<close>

subsection \<open>Databases without compacted documents\<close>

definition flat_header :: "header \<Rightarrow> bool" where
  "flat_header h \<longleftrightarrow> header_ok h \<and> num_pages h = 1"

definition uncompacted :: "db_files \<Rightarrow> bool" where
  "uncompacted fs \<longleftrightarrow> (\<forall>st. storage_open (main_file fs) = Ok st \<longrightarrow> flat_header (st_header st))"

definition flat_engine :: "'n engine \<Rightarrow> bool" where
  "flat_engine e \<longleftrightarrow> flat_header (st_header (eng_storage e))"

lemma flat_new: "flat_header header_new"
  by (simp add: flat_header_def header_ok_def header_new_def MAGIC_def VERSION_def PAGE_SIZE_def)

lemma wal_next_not_Panic: "wal_next bs = Some (r, rest) \<Longrightarrow> r \<noteq> Panic"
proof (induction "length bs" arbitrary: bs rule: less_induct)
  case less
  show ?case
  proof (cases bs)
    case (Cons b r0)
    show ?thesis
    proof (cases "read_body r0")
      case (Some p)
      obtain i payload crc flag r' where p: "p = ((i, payload, crc, flag), r')" by (metis prod.collapse)
      have "length r' < length bs" using Some p Cons by (auto dest: read_body_length)
      from less.hyps [OF this] less.prems Cons Some p show ?thesis
        by (auto simp: wal_next.simps Let_def split: if_splits)
    qed (use less.prems Cons in \<open>auto simp: wal_next.simps\<close>)
  qed (use less.prems in \<open>simp add: wal_next.simps\<close>)
qed

lemma recover_not_Panic: "wal_fold (recover_step c) bs s \<noteq> Panic"
proof (induction "length bs" arbitrary: bs s rule: less_induct)
  case less
  show ?case
  proof (cases "wal_next bs")
    case None
    then show ?thesis by (subst wal_fold.simps) simp
  next
    case (Some p)
    obtain r rest where p: "p = (r, rest)" by (cases p)
    have len: "length rest < length bs" using Some p wal_next_length by blast
    have step: "recover_step c s rec \<noteq> Panic" for rec by (auto simp: recover_step_def split: wal_op.split option.split)
    show ?thesis
    proof (cases r)
      case (Ok rec)
      with Some p less.hyps [OF len] step [of rec] show ?thesis
        by (subst wal_fold.simps) (cases "recover_step c s rec"; simp)
    qed (use Some p wal_next_not_Panic in \<open>subst wal_fold.simps, auto\<close>)
  qed
qed

lemma max_sequence_not_Panic: "max_sequence dec bs m \<noteq> Panic"
proof (induction dec bs m rule: max_sequence.induct)
  case (1 dec bs m)
  then show ?case by (subst max_sequence.simps) (auto split: option.split)
qed

lemma and_then_Panic [simp]: "and_then m f = Panic \<longleftrightarrow> m = Panic \<or> (\<exists>x. m = Ok x \<and> f x = Panic)"
  by (cases m) auto

lemma outcome_map_Panic [simp]: "outcome_map f r = Panic \<longleftrightarrow> r = Panic"
  by (cases r) auto

lemma handles_not_Panic:
  "wal_open f \<noteq> Panic" "storage_open f \<noteq> Panic" "feed_open dec f \<noteq> Panic"
  by (auto simp: wal_open_def storage_open_def header_decode_def feed_open_def repl_open_def compute_next_sequence_def
      max_sequence_not_Panic split: if_splits option.splits)

text \<open>Such a database is opened, or the open fails with an error; opening writes headers alone.\<close>

lemma open_uncompacted:
  assumes "uncompacted fs"
  shows "engine_open c True fs \<noteq> (Panic :: 'n engine outcome)"
    and "engine_open c True fs = Ok e \<Longrightarrow> flat_engine (e :: 'n engine)"
proof -
  have flat: "num_pages (st_header st) = 1" if "storage_open (main_file fs) = Ok st" for st
    using assms that by (simp add: uncompacted_def flat_header_def)
  show "engine_open c True fs \<noteq> (Panic :: 'n engine outcome)"
    unfolding engine_open_def using flat
    by (auto simp: handles_not_Panic recover_not_Panic split: if_splits)
  show "flat_engine e" if "engine_open c True fs = Ok e"
    using that assms by (auto simp: engine_open_def uncompacted_def flat_engine_def split: prod.splits)
qed

lemma opened_uncompacted:
  assumes "uncompacted fs"
  shows "uncompacted (opened_files c fs)"
proof -
  have same: "uncompacted gs" if "storage_open (main_file gs) = storage_open (main_file fs)" for gs
    using assms that by (simp add: uncompacted_def)
  have again: "storage_open (st_file st) = storage_open (main_file fs)" if "storage_open (main_file fs) = Ok st" for st
    using that storage_open_ok [OF storage_ok_new]
    by (auto simp: storage_open_def [of "main_file fs"] split: if_splits prod.splits)
  show ?thesis
  proof (cases "engine_open c True fs")
    case (Ok e)
    then have "storage_open (main_file fs) = Ok (eng_storage e)" by (auto simp: engine_open_def split: prod.splits)
    with Ok again show ?thesis by (intro same) (simp add: opened_with_def engine_files_def)
  qed (use again in \<open>auto simp: opened_with_def intro: same split: outcome.split\<close>)
qed

subsection \<open>Calls that return and keep databases uncompacted\<close>

definition quiet_call :: "('n, 'r) engine_call \<Rightarrow> bool" where
  "quiet_call f \<longleftrightarrow> (\<forall>e. \<exists>e' r. f e = Some (e', r) \<and> r \<noteq> Panic \<and>
     (flat_engine e \<longrightarrow> flat_engine e') \<and>
     (st_file (eng_storage e') = st_file (eng_storage e) \<or>
      st_file (eng_storage e') = write_at (st_file (eng_storage e)) 0 (header_encode (st_header (eng_storage e')))))"

lemma quiet_read: "(\<And>e. f e \<noteq> Panic) \<Longrightarrow> quiet_call (read_call f)"
  by (simp add: quiet_call_def read_call_def)

text \<open>Writing the log and publishing leave the page file alone and do not panic.\<close>

lemma log_write_quiet:
  assumes "log_write c e op i payload = (e', r)"
  shows "r \<noteq> Panic" "eng_storage e' = eng_storage e"
  using assms
  by (auto simp: log_write_def commit_record_def Let_def split: prod.splits outcome.splits option.splits)

lemma feed_publish_quiet: "feed_publish c env e op i payload = (e', sent) \<Longrightarrow> eng_storage e' = eng_storage e"
  by (auto simp: feed_publish_def split: option.splits prod.splits)

lemma flat_increment: "flat_header (st_header st) \<Longrightarrow> flat_header (st_header (increment_doc_count st d))"
  by (auto simp: flat_header_def increment_doc_count_def Let_def header_ok_def u32_saturating_add_def u32_saturating_sub_def min_def)

lemma increment_file: "st_file (increment_doc_count st d) = write_at (st_file st) 0 (header_encode (st_header (increment_doc_count st d)))"
  by (simp add: increment_doc_count_def Let_def sync_header_def)

definition quiet_change :: "'n engine \<Rightarrow> ('n, 'r) result \<Rightarrow> bool" where
  "quiet_change e p \<longleftrightarrow> fst (snd p) \<noteq> Panic \<and>
     (eng_storage (fst p) = eng_storage e \<or> (\<exists>d. eng_storage (fst p) = increment_doc_count (eng_storage e) d))"

lemma quiet_changes:
  assumes "\<And>e. quiet_change e (f e)"
  shows "quiet_call (change_call g f)"
proof -
  have "\<exists>e' r. change_call g f e = Some (e', r) \<and> r \<noteq> Panic \<and> (flat_engine e \<longrightarrow> flat_engine e') \<and>
      (st_file (eng_storage e') = st_file (eng_storage e) \<or>
       st_file (eng_storage e') = write_at (st_file (eng_storage e)) 0 (header_encode (st_header (eng_storage e'))))" for e
  proof -
    obtain e' r sent where f: "f e = (e', r, sent)" by (metis prod.collapse)
    then have r: "r \<noteq> Panic" "eng_storage e' = eng_storage e \<or> (\<exists>d. eng_storage e' = increment_doc_count (eng_storage e) d)"
      using assms [of e] by (simp_all add: quiet_change_def)
    from r(2) have "(flat_engine e \<longrightarrow> flat_engine e') \<and>
        (st_file (eng_storage e') = st_file (eng_storage e) \<or>
         st_file (eng_storage e') = write_at (st_file (eng_storage e)) 0 (header_encode (st_header (eng_storage e'))))"
    proof
      assume "\<exists>d. eng_storage e' = increment_doc_count (eng_storage e) d"
      then obtain d where "eng_storage e' = increment_doc_count (eng_storage e) d" ..
      with increment_file [of "eng_storage e" d] flat_increment [of "eng_storage e" d] show ?thesis by (simp add: flat_engine_def)
    qed (simp add: flat_engine_def)
    with f r(1) show ?thesis by (simp add: change_call_def)
  qed
  then show ?thesis by (simp add: quiet_call_def)
qed

lemma log_write_simps: "snd (log_write c e op i payload) \<noteq> Panic" "eng_storage (fst (log_write c e op i payload)) = eng_storage e"
  by (rule log_write_quiet [OF surjective_pairing])+

lemma feed_publish_simps: "eng_storage (fst (feed_publish c env e op i payload)) = eng_storage e"
  by (rule feed_publish_quiet [OF surjective_pairing])

lemmas quiet_simps = quiet_change_def Let_def case_prod_beta log_write_simps feed_publish_simps

lemma quiet_insert: "quiet_change e (engine_insert c env e doc)"
  unfolding engine_insert_def by (simp add: quiet_simps split: outcome.split) blast

lemma quiet_update: "quiet_change e (engine_update c env e i data)"
  unfolding engine_update_def by (simp add: quiet_simps split: outcome.split option.split)

lemma quiet_delete: "quiet_change e (engine_delete c env e i)"
  unfolding engine_delete_def by (simp add: quiet_simps split: outcome.split option.split) blast

text \<open>The requests that are no compaction and no query on which the parser panics.\<close>

fun calm_command :: "'n site \<Rightarrow> 'n tcp_command \<Rightarrow> bool" where
  "calm_command si (TCompact db) = False"
| "calm_command si (TQuery db q) = (parse_query (si_num si) q \<noteq> Panic)"
| "calm_command si _ = True"

definition asks_compaction :: "http_request \<Rightarrow> bool" where
  "asks_compaction req \<longleftrightarrow> rq_method req = ''POST'' \<and>
     (\<exists>rest db. rq_path req = ''/dbs/'' @ rest \<and> split_by (\<lambda>c. c = CHR ''/'') rest = [db, ''compact''])"

definition calm_request :: "'n site \<Rightarrow> http_request \<Rightarrow> bool" where
  "calm_request si req \<longleftrightarrow> \<not> asks_compaction req \<and>
     (\<forall>q. extract_query_param (rq_path req) ''q'' = Some q \<longrightarrow> parse_query (si_num si) q \<noteq> Panic)"

lemma command_quiet: "command_call si pretty env cmd = Some (db, f) \<Longrightarrow> calm_command si cmd \<Longrightarrow> quiet_call f"
  by (cases cmd) (auto intro!: quiet_read quiet_changes quiet_insert quiet_update quiet_delete)

definition quiet_plan :: "'n plan \<Rightarrow> bool" where
  "quiet_plan plan \<longleftrightarrow> (case plan of Answer r \<Rightarrow> r \<noteq> Panic | UseDb db f st \<Rightarrow> \<forall>env. quiet_call (f env) | _ \<Rightarrow> True)"

lemma quiet_plan_simps [simp]:
  "quiet_plan (Answer r) \<longleftrightarrow> r \<noteq> Panic" "quiet_plan ListDbs" "quiet_plan (MakeDb n)" "quiet_plan (not_found req)"
  "quiet_plan (UseDb db f st) \<longleftrightarrow> (\<forall>env. quiet_call (f env))"
  by (simp_all add: quiet_plan_def not_found_def)

lemma quiet_query_docs: "parse_query (si_num si) q \<noteq> Panic \<Longrightarrow> quiet_plan (query_docs si db q)"
  by (auto simp: query_docs_def intro!: quiet_read split: outcome.split)

lemma quiet_route_docs: "calm_request si req \<Longrightarrow> quiet_plan (route_docs si hapi req db)"
  using parse_all [of "si_num si"]
  by (auto simp: route_docs_def calm_request_def intro!: quiet_changes quiet_insert quiet_query_docs split: option.split)

lemma quiet_route_doc: "quiet_plan (route_doc si hapi req db i)"
  by (simp add: route_doc_def quiet_read quiet_changes quiet_update quiet_delete split: option.split)

lemma quiet_route_database:
  assumes "calm_request si req" "rq_method req = ''POST'' \<Longrightarrow> \<forall>d. segs \<noteq> [d, ''compact'']"
  shows "quiet_plan (route_database si hapi req segs)"
proof (cases segs)
  case (Cons db r1)
  show ?thesis
  proof (cases r1)
    case Nil
    with Cons show ?thesis by (simp add: route_database_def)
  next
    case r1: (Cons s r2)
    show ?thesis
    proof (cases r2)
      case Nil
      with Cons r1 assms show ?thesis
        by (cases "rq_method req = ''POST''") (simp_all add: route_database_def quiet_route_docs quiet_read split: option.split)
    next
      case (Cons i r3)
      then show ?thesis using \<open>segs = db # r1\<close> r1 quiet_route_doc [of si hapi req db i]
        by (cases r3) (simp_all add: route_database_def)
    qed
  qed
qed (simp add: route_database_def)

lemma plan_quiet:
  assumes "calm_request si req"
  shows "quiet_plan (route_plan si hapi req)"
proof (cases "strip_prefix ''/dbs/'' (rq_path req)")
  case (Some rest)
  then have path: "rq_path req = ''/dbs/'' @ rest"
    unfolding strip_prefix_def starts_with_def by (metis append_take_drop_id option.distinct(1) option.inject)
  have "quiet_plan (route_database si hapi req (split_by (\<lambda>c. c = CHR ''/'') rest))"
    by (rule quiet_route_database [OF assms]) (use assms path in \<open>auto simp: calm_request_def asks_compaction_def\<close>)
  with Some show ?thesis by (simp add: route_plan_def split: option.split)
qed (simp add: route_plan_def split: option.split)

subsection \<open>The server\<close>

definition flat_server :: "'n server \<Rightarrow> bool" where
  "flat_server sv \<longleftrightarrow> (\<forall>n fs. sv_disk sv n = Some fs \<longrightarrow> uncompacted fs) \<and>
     (\<forall>n p e. hm_get (cp_pools sv) n = Some p \<longrightarrow> e \<in> set (dp_idle p) \<longrightarrow> flat_engine e)"

lemma flat_server_pool:
  "flat_server sv \<Longrightarrow> (\<And>e. e \<in> set (dp_idle p) \<Longrightarrow> flat_engine e) \<Longrightarrow>
   flat_server (sv\<lparr>cp_pools := hm_insert n p (cp_pools sv)\<rparr>)"
  by (auto simp: flat_server_def hm_simps split: if_splits)

lemma flat_server_file: "flat_server sv \<Longrightarrow> uncompacted fs \<Longrightarrow> flat_server (sv\<lparr>sv_disk := (sv_disk sv)(n \<mapsto> fs)\<rparr>)"
  by (auto simp: flat_server_def split: if_splits)

lemma uncompacted_no_files: "uncompacted no_files"
  by (simp add: uncompacted_def storage_open_def flat_new)

lemma open_on_disk_flat:
  assumes "flat_server sv" "open_on_disk si (sv_disk sv) n = (disk, r)"
  shows "flat_server (sv\<lparr>sv_disk := disk\<rparr>)" "r \<noteq> Panic" "r = Ok e \<Longrightarrow> flat_engine e"
proof -
  have "flat_server (sv\<lparr>sv_disk := disk\<rparr>) \<and> r \<noteq> Panic \<and> (\<forall>e. r = Ok e \<longrightarrow> flat_engine e)"
  proof (cases "sv_disk sv (si_path si n)")
    case (Some fs)
    then have "uncompacted fs" using assms(1) by (auto simp: flat_server_def)
    with Some assms show ?thesis
      using open_uncompacted [of fs "si_codec si"] opened_uncompacted [of fs "si_codec si"]
      by (auto simp: open_on_disk_def Let_def intro: flat_server_file)
  next
    case None
    with assms show ?thesis
      using open_uncompacted [OF uncompacted_no_files, of "si_codec si"] opened_uncompacted [OF uncompacted_no_files, of "si_codec si"]
      by (auto simp: open_on_disk_def Let_def no_such_directory_def intro: flat_server_file split: if_splits)
  qed
  then show "flat_server (sv\<lparr>sv_disk := disk\<rparr>)" "r \<noteq> Panic" "r = Ok e \<Longrightarrow> flat_engine e" by simp_all
qed

lemma get_or_create_flat:
  assumes "flat_server sv" "get_or_create_pool si sv n = (sv', r)"
  shows "flat_server sv' \<and> r \<noteq> Panic \<and> (\<forall>p. r = Ok p \<longrightarrow> (\<forall>e \<in> set (dp_idle p). flat_engine e))"
proof (cases "hm_get (cp_pools sv) n")
  case (Some p)
  with assms show ?thesis by (auto simp: get_or_create_pool_def flat_server_def)
next
  case None
  obtain disk r1 where op: "open_on_disk si (sv_disk sv) n = (disk, r1)" by fastforce
  note flat = open_on_disk_flat [OF assms(1) op]
  have new: "flat_server (s\<lparr>cp_pools := hm_insert n (db_pool_new k) (cp_pools s)\<rparr>)" if "flat_server s" for s :: "'a server" and k
    by (rule flat_server_pool [OF that]) (simp add: db_pool_new_def)
  show ?thesis
    using assms None op flat(1,2) new [OF assms(1)] new [OF flat(1)]
    by (auto simp: get_or_create_pool_def Let_def db_pool_new_def split: if_splits outcome.splits)
qed

lemma acquire_flat:
  assumes "flat_server sv" "acquire si sv n = Some (sv', r)"
  shows "flat_server sv' \<and> r \<noteq> Panic \<and> (\<forall>conn. r = Ok conn \<longrightarrow> flat_engine (cn_engine conn))"
proof -
  obtain sv1 r1 where get: "get_or_create_pool si sv n = (sv1, r1)" by fastforce
  note flat = get_or_create_flat [OF assms(1) get]
  show ?thesis
  proof (cases r1)
    case (Ok p)
    with assms(2) get have acq: "db_pool_acquire si sv1 n p = Some (sv', r)" by (simp add: acquire_def)
    have p: "flat_server sv1" "\<And>e. e \<in> set (dp_idle p) \<Longrightarrow> flat_engine e" using flat Ok by auto
    show ?thesis
    proof (cases "dp_idle p = []")
      case False
      have "flat_server (sv1\<lparr>cp_pools := hm_insert n \<lparr>dp_permits = dp_permits p - 1, dp_idle = butlast (dp_idle p)\<rparr> (cp_pools sv1)\<rparr>)"
        by (rule flat_server_pool [OF p(1)]) (auto intro: p(2) dest: in_set_butlastD)
      with False acq p(2) [of "last (dp_idle p)"] show ?thesis by (auto simp: db_pool_acquire_def split: if_splits)
    next
      case True
      obtain disk r2 where op: "open_on_disk si (sv_disk sv1) n = (disk, r2)" by fastforce
      note opened = open_on_disk_flat [OF p(1) op]
      have "flat_server (sv1\<lparr>sv_disk := disk, cp_pools := hm_insert n (p\<lparr>dp_permits := k\<rparr>) (cp_pools sv1)\<rparr>)" for k
        using flat_server_pool [OF opened(1), of "p\<lparr>dp_permits := k\<rparr>" n] p(2) by simp
      with True acq op opened show ?thesis by (auto simp: db_pool_acquire_def Let_def split: if_splits outcome.splits)
    qed
  qed (use assms(2) get flat in \<open>auto simp: acquire_def\<close>)
qed

lemma drop_connection_flat: "flat_server sv \<Longrightarrow> flat_server (drop_connection sv conn)"
  by (cases "hm_get (cp_pools sv) (cn_db conn)")
    (auto simp: drop_connection_def flat_server_def [of sv] intro!: flat_server_pool)

lemma release_flat: "flat_server sv \<Longrightarrow> flat_engine (cn_engine conn) \<Longrightarrow> flat_server (release sv conn)"
  by (cases "hm_get (cp_pools sv) (file_stem (cn_db conn))")
    (auto simp: release_def Let_def flat_server_def [of sv] intro!: drop_connection_flat flat_server_pool)

lemma create_flat:
  "flat_server sv \<Longrightarrow> create_database si sv n = (sv', r) \<Longrightarrow> flat_server sv' \<and> r \<noteq> Panic"
  by (auto simp: create_database_def dest: open_on_disk_flat split: prod.splits)

text \<open>The page file after a header with one page has been written to it.\<close>

lemma uncompacted_header:
  assumes "flat_header h" "main_file fs = write_at f 0 (header_encode h)"
  shows "uncompacted fs"
proof -
  have "read_exact PAGE_SIZE (main_file fs) = Some (header_encode h, drop PAGE_SIZE (main_file fs))"
    using assms(2) slice_write_at_same [of "header_encode h" 0 f] by (simp add: read_exact_def)
  moreover have "header_decode (header_encode h) = Ok h" using assms(1) header_decode_encode by (simp add: flat_header_def)
  ultimately show ?thesis
    using assms(1) by (auto simp: uncompacted_def storage_open_def flat_new split: if_splits)
qed

lemma on_connection_flat:
  assumes "quiet_call f" "flat_server sv" "flat_engine (cn_engine conn)"
  shows "\<exists>sv' conn' r. on_connection si sv conn f = Some (sv', conn', r) \<and> r \<noteq> Panic \<and>
    flat_server sv' \<and> flat_engine (cn_engine conn')"
proof (cases "sv_disk sv (si_path si (cn_db conn))")
  case None
  obtain e' r where f: "f (cn_engine conn) = Some (e', r)" "r \<noteq> Panic" "flat_engine e'"
    using assms(1,3) unfolding quiet_call_def by blast
  with None assms(2) show ?thesis by (simp add: on_connection_def)
next
  case (Some fs)
  let ?e = "attach fs (cn_engine conn)"
  have flat: "flat_engine ?e" using assms(3) by (simp add: flat_engine_def attach_def)
  obtain e' r where f: "f ?e = Some (e', r)" "r \<noteq> Panic" "flat_engine ?e \<longrightarrow> flat_engine e'"
    "st_file (eng_storage e') = st_file (eng_storage ?e) \<or>
     st_file (eng_storage e') = write_at (st_file (eng_storage ?e)) 0 (header_encode (st_header (eng_storage e')))"
    using assms(1) unfolding quiet_call_def by blast
  have e': "flat_engine e'" using f(3) flat by simp
  have "uncompacted fs" using Some assms(2) by (auto simp: flat_server_def)
  then have "uncompacted (engine_files (repl_file fs) e')"
    using f(4)
  proof (elim disjE)
    assume "st_file (eng_storage e') = st_file (eng_storage ?e)"
    with \<open>uncompacted fs\<close> show ?thesis by (simp add: uncompacted_def engine_files_def attach_def)
  next
    assume "st_file (eng_storage e') = write_at (st_file (eng_storage ?e)) 0 (header_encode (st_header (eng_storage e')))"
    with e' show ?thesis by (intro uncompacted_header) (auto simp: flat_engine_def engine_files_def)
  qed
  with Some f(1,2) e' assms(2) show ?thesis by (simp add: on_connection_def flat_server_file)
qed

end
