(* ===== verification/ServiceLaws.thy ===== *)
theory ServiceLaws
  imports Calm
begin

text \<open>
  What the running server guarantees, for every interleaving of its TCP and HTTP clients: the bound
  of the pool, what a client sees without a token, and that all clients can be served to the end.
\<close>

subsection \<open>The bound\<close>

text \<open>
  C8: The pool bounds the connections. In every state of a running server, however clients connect
  and their tasks interleave, at most \<open>pool_size\<close> connections to a database are in use by the tasks
  of TCP and HTTP clients together, and a task that wants another one waits exactly when that many are.
\<close>

theorem pool_bounds_connections:
  assumes "start_server disk so = (sv0, auth, ls)" "service_run si api hapi auth ls (sv0, [], []) (sv, cls, hts)" "0 < so_pool so"
  shows "held db cls + http_held db hts \<le> so_pool so \<and>
    (acquire si sv db = None \<longleftrightarrow> held db cls + http_held db hts = so_pool so)"
proof -
  have ok: "permits_ok (so_pool so) sv (\<lambda>db. held db cls + http_held db hts)"
    using service_run_ok [OF assms(2) start_ok [OF assms(1)]] by (simp add: hub_ok_def)
  have "held db cls + http_held db hts \<le> so_pool so"
    using permits_okD [OF ok, of db] permits_ok_None [OF ok, of db] by (cases "hm_get (cp_pools sv) db") auto
  with acquire_waits [OF ok assms(3)] show ?thesis by simp
qed

subsection \<open>Tokens\<close>

definition presented :: "'n tcp_api \<Rightarrow> auth \<Rightarrow> 'n client \<Rightarrow> bool" where
  "presented api auth cl \<longleftrightarrow> (\<exists>p \<in> set (cl_read cl). \<exists>t \<in> au_tokens auth. ta_decode api p = Inr (TAuth t))"

definition shut_out :: "'n client \<Rightarrow> bool" where
  "shut_out cl \<longleftrightarrow> \<not> cl_authed cl \<and> cl_work cl = None \<and> list_all (\<lambda>r. \<not> sr_success r \<and> sr_data r = None) (cl_sent cl)"

lemma presented_keeps: "presented api auth cl \<Longrightarrow> cl_read cl' = cl_read cl @ ps \<Longrightarrow> presented api auth cl'"
  by (auto simp: presented_def)

lemma client_step_reads:
  assumes "client_step si api auth env sv cl = Some (sv', cl')"
  shows "\<exists>ps. cl_read cl' = cl_read cl @ ps"
  using assms
proof (cases rule: client_step_cases)
  case (request payload rest)
  from client_request_reads [OF request(5)] show ?thesis by simp
next
  case (call conn env0 cmd)
  from client_call_result [OF this(2)] show ?thesis by auto
qed auto

lemma client_step_shut_out:
  assumes "client_step si api auth env sv cl = Some (sv', cl')" "au_enabled auth" "shut_out cl" "\<not> presented api auth cl'"
  shows "shut_out cl'"
  using assms(1)
proof (cases rule: client_step_cases)
  case (request payload rest)
  from request(5) show ?thesis
  proof (cases rule: client_request_cases)
    case (authed t)
    with assms(2,4) show ?thesis by (auto simp: presented_def validate_def)
  qed (use assms(3) in \<open>auto simp: shut_out_def refuse_def response_err_def\<close>)
qed (use assms(3) in \<open>auto simp: shut_out_def\<close>)

lemma service_run_shut_out:
  "service_run si api hapi auth ls s t \<Longrightarrow> au_enabled auth \<Longrightarrow>
   (\<And>cl. cl \<in> set (fst (snd s)) \<Longrightarrow> presented api auth cl \<or> shut_out cl) \<Longrightarrow>
   cl \<in> set (fst (snd t)) \<Longrightarrow> presented api auth cl \<or> shut_out cl"
proof (induction arbitrary: cl rule: service_run.induct)
  case (Next s t u)
  note ok = Next.IH [OF Next.prems(1,2)]
  from Next.hyps(2) show ?case
  proof cases
    case (Accept addr sv cls hts input)
    with ok Next.prems(1,3) show ?thesis by (auto simp: shut_out_def client_new_def)
  next
    case (Turn i cls env sv sv' cl' hts)
    with Next.prems(3) consider "cl \<in> set cls" | "cl = cl'" by (auto dest!: set_update_subset_insert [THEN subsetD])
    then show ?thesis
    proof cases
      case 1
      with ok Turn show ?thesis by simp
    next
      case 2
      have "presented api auth (cls ! i) \<or> shut_out (cls ! i)" using ok Turn by simp
      with client_step_reads [OF Turn(5)] client_step_shut_out [OF Turn(5) Next.prems(1)] 2 show ?thesis
        by (auto dest: presented_keeps)
    qed
  next
    case (HttpAccept addr sv cls hts chunk)
    with ok Next.prems(3) show ?thesis by simp
  next
    case (HttpTurn i hts env sv sv' t' cls)
    with ok Next.prems(3) show ?thesis by simp
  qed
qed

text \<open>
  C9: Tokens are per client. On a server started with a token, in every interleaving, a client of
  which no request carried the token has got nothing but failures without data and holds no
  connection, whatever the other clients have presented.
\<close>

theorem client_needs_its_own_token:
  assumes "start_server disk so = (sv0, auth, ls)" "so_token so = Some token"
    and "service_run si api hapi auth ls (sv0, [], []) (sv, cls, hts)" "cl \<in> set cls"
    and "\<And>p. p \<in> set (cl_read cl) \<Longrightarrow> ta_decode api p \<noteq> Inr (TAuth token)"
  shows "cl_work cl = None \<and> list_all (\<lambda>r. \<not> sr_success r \<and> sr_data r = None) (cl_sent cl)"
proof -
  have auth: "au_enabled auth" "au_tokens auth = {token}" using assms(1,2) by (auto simp: start_server_def auth_new_def)
  from service_run_shut_out [OF assms(3) auth(1)] assms(4) have "presented api auth cl \<or> shut_out cl" by simp
  with assms(5) auth(2) show ?thesis by (auto simp: presented_def shut_out_def)
qed

subsection \<open>Every client is served\<close>

text \<open>
  What it is for a TCP client and for an HTTP client in some state to have been served in a later
  one. The loop of a TCP client ends where its input ends, all requests read, one more response
  for each of them and for the command that was being executed. An HTTP client has got the
  response of its route, or what \<open>http_decide\<close> says when there is none.
\<close>

definition served :: "'n client \<Rightarrow> 'n client \<Rightarrow> bool" where
  "served cl cl' \<longleftrightarrow>
     (if cl_end cl \<noteq> None then cl' = cl
      else cl_end cl' = Some (input_end (cl_input cl)) \<and> cl_work cl' = None \<and>
        cl_read cl' = cl_read cl @ payloads (cl_input cl) \<and>
        (\<exists>rs. cl_sent cl' = cl_sent cl @ rs \<and>
           length rs = length (payloads (cl_input cl)) + (if cl_work cl = None then 0 else 1)))"

definition http_served :: "'n site \<Rightarrow> 'n http_api \<Rightarrow> auth \<Rightarrow> 'n http_task \<Rightarrow> 'n http_task \<Rightarrow> bool" where
  "http_served si hapi auth t t' \<longleftrightarrow>
     (if ht_result t \<noteq> None then t' = t
      else ht_chunk t' = ht_chunk t \<and> ht_work t' = None \<and>
        (case http_decide si hapi auth (ht_chunk t) of
           Inl r \<Rightarrow> ht_result t' = Some r
         | Inr plan \<Rightarrow> \<exists>resp. ht_result t' = Some (Ok (Some resp))))"

text \<open>All the requests of a client, read or not, are calm.\<close>

definition calm :: "'n site \<Rightarrow> 'n tcp_api \<Rightarrow> 'n client \<Rightarrow> bool" where
  "calm si api cl \<longleftrightarrow>
     (\<forall>p \<in> set (cl_read cl @ payloads (cl_input cl)). \<forall>cmd. ta_decode api p = Inr cmd \<longrightarrow> calm_command si cmd)"

definition http_calm :: "'n site \<Rightarrow> 'n http_task \<Rightarrow> bool" where
  "http_calm si t \<longleftrightarrow> (\<forall>req. parse_http_request (ht_chunk t) = Ok (Some req) \<longrightarrow> calm_request si req)"

definition hub_calm :: "'n site \<Rightarrow> 'n tcp_api \<Rightarrow> 'n hub \<Rightarrow> bool" where
  "hub_calm si api s \<longleftrightarrow> (\<forall>cl \<in> set (fst (snd s)). calm si api cl) \<and> (\<forall>t \<in> set (snd (snd s)). http_calm si t)"

text \<open>The engines of a hub have page files that were never compacted, whoever holds them.\<close>

definition flat_client :: "'n client \<Rightarrow> bool" where
  "flat_client cl \<longleftrightarrow> (\<forall>conn w. cl_work cl = Some (conn, w) \<longrightarrow> flat_engine (cn_engine conn))"

definition flat_task :: "'n http_task \<Rightarrow> bool" where
  "flat_task t \<longleftrightarrow> (\<forall>conn w. ht_work t = Some (conn, w) \<longrightarrow> flat_engine (cn_engine conn))"

definition hub_flat :: "'n hub \<Rightarrow> bool" where
  "hub_flat s \<longleftrightarrow> flat_server (fst s) \<and> (\<forall>cl \<in> set (fst (snd s)). flat_client cl) \<and> (\<forall>t \<in> set (snd (snd s)). flat_task t)"

subsubsection \<open>Steps of one TCP task\<close>

text \<open>How a calm step changes the client: it stops, answers a request, takes a connection, or answers its call.\<close>

definition advances :: "'n client \<Rightarrow> 'n client \<Rightarrow> bool" where
  "advances cl cl' \<longleftrightarrow>
     cl_work cl = None \<and> payloads (cl_input cl) = [] \<and> cl' = cl\<lparr>cl_end := Some (input_end (cl_input cl))\<rparr> \<or>
     cl_work cl = None \<and> cl_end cl' = cl_end cl \<and>
       (\<exists>p. payloads (cl_input cl) = p # payloads (cl_input cl') \<and> cl_read cl' = cl_read cl @ [p]) \<and>
       input_end (cl_input cl) = input_end (cl_input cl') \<and>
       (if cl_work cl' = None then \<exists>resp. cl_sent cl' = cl_sent cl @ [resp] else cl_sent cl' = cl_sent cl) \<or>
     cl_work cl \<noteq> None \<and> (\<exists>resp. cl' = cl\<lparr>cl_work := None, cl_sent := cl_sent cl @ [resp]\<rparr>)"

lemma advances_served:
  assumes "advances cl cl'" "cl_end cl = None" "served cl' cl2"
  shows "served cl cl2"
  using assms by (auto simp: advances_def served_def split: if_splits)

lemma settle_answers: "r \<noteq> Panic \<Longrightarrow> \<exists>resp. settle api r cl = cl\<lparr>cl_work := None, cl_sent := cl_sent cl @ [resp]\<rparr>"
  by (cases r) auto

lemma settle_flat: "flat_client (settle api r cl)"
  by (simp add: flat_client_def)

lemma refuse_flat: "flat_client cl \<Longrightarrow> flat_client (refuse m (cl\<lparr>cl_authed := b\<rparr>))"
  by (simp add: flat_client_def)

text \<open>\<open>answered\<close> covers a request: a response and no connection, or a connection and no response yet.\<close>

definition request_answered :: "'n client \<Rightarrow> 'n client \<Rightarrow> bool" where
  "request_answered cl cl' \<longleftrightarrow> cl_end cl' = cl_end cl \<and> cl_input cl' = cl_input cl \<and> cl_read cl' = cl_read cl \<and>
     (if cl_work cl' = None then \<exists>resp. cl_sent cl' = cl_sent cl @ [resp] else cl_sent cl' = cl_sent cl)"

lemma settle_answered: "cl_work cl = None \<Longrightarrow> r \<noteq> Panic \<Longrightarrow> request_answered cl (settle api r (cl\<lparr>cl_authed := b\<rparr>))"
  using settle_answers [of r api "cl\<lparr>cl_authed := b\<rparr>"] by (auto simp: request_answered_def)

lemma client_command_flat:
  assumes "client_command si api env sv cl cmd = Some (sv', cl')" "flat_server sv" "calm_command si cmd" "cl_work cl = None"
  shows "flat_server sv' \<and> flat_client cl' \<and> request_answered cl cl'"
proof (cases "command_call si (ta_pretty api) env cmd")
  case None
  then have "\<exists>sv1 r. execute_command si (ta_pretty api) env sv cmd = Some (sv1, r) \<and> flat_server sv1 \<and> r \<noteq> Panic"
    using assms(2) by (cases cmd) (auto dest: create_flat split: prod.split)
  then obtain sv1 r where exec: "execute_command si (ta_pretty api) env sv cmd = Some (sv1, r)" "flat_server sv1" "r \<noteq> Panic"
    by blast
  with assms(1) None have "sv' = sv1" "cl' = settle api r cl" by (simp_all add: client_command_def)
  with exec(2,3) settle_answered [OF assms(4), of r api "cl_authed cl"] show ?thesis by (simp add: settle_flat)
next
  case (Some c)
  obtain db f where c: "c = (db, f)" by (cases c)
  with Some assms(1) obtain sv1 r where acq: "acquire si sv db = Some (sv1, r)"
    by (auto simp: client_command_def split: option.splits)
  note flat = acquire_flat [OF assms(2) acq]
  show ?thesis
  proof (cases r)
    case (Ok conn)
    with assms(1) Some c acq flat show ?thesis by (auto simp: client_command_def flat_client_def request_answered_def)
  next
    case (Err e)
    with assms(1) Some c acq have "sv' = sv1" "cl' = settle api (Err e) cl" by (simp_all add: client_command_def)
    with flat settle_answered [OF assms(4), of "Err e" api "cl_authed cl"] show ?thesis
      by (simp add: settle_flat del: settle.simps)
  qed (use flat in simp)
qed

lemma client_request_flat:
  assumes "client_request si api auth env sv cl payload = Some (sv', cl')" "flat_server sv" "cl_work cl = None"
    and "\<And>cmd. ta_decode api payload = Inr cmd \<Longrightarrow> calm_command si cmd"
  shows "flat_server sv' \<and> flat_client cl' \<and> request_answered cl cl'"
  using assms(1)
proof (cases rule: client_request_cases)
  case (refused msg b)
  with assms(2,3) show ?thesis by (auto simp: request_answered_def refuse_def flat_client_def)
next
  case (authed t)
  with assms(2) settle_answered [OF assms(3), of "Ok (RText ''authenticated'')" api True] show ?thesis
    by (simp add: settle_flat del: settle.simps)
next
  case (command cmd)
  from client_command_flat [OF command(3) assms(2) assms(4) [OF command(1)] assms(3)] show ?thesis .
qed

lemma client_call_flat:
  assumes "task_ok si api cl" "cl_work cl = Some (conn, env, cmd)" "calm si api cl" "flat_server sv" "flat_client cl"
  shows "\<exists>sv' cl'. client_call si api sv cl conn env cmd = Some (sv', cl') \<and> flat_server sv' \<and> flat_client cl' \<and> advances cl cl'"
proof -
  obtain p where p: "p \<in> set (cl_read cl)" "ta_decode api p = Inr cmd" using assms(1,2) unfolding task_ok_def by blast
  have "calm_command si cmd" using assms(3) p by (auto simp: calm_def)
  moreover obtain db f where call: "command_call si (ta_pretty api) env cmd = Some (db, f)"
    using assms(1,2) by (auto simp: task_ok_def)
  ultimately have "quiet_call f" using command_quiet by blast
  moreover have "flat_engine (cn_engine conn)" using assms(2,5) by (simp add: flat_client_def)
  ultimately obtain sv2 conn2 r where on: "on_connection si sv conn f = Some (sv2, conn2, r)" "r \<noteq> Panic"
    "flat_server sv2" "flat_engine (cn_engine conn2)" using on_connection_flat [of f sv conn si] assms(4) by blast
  have "client_call si api sv cl conn env cmd = Some (if \<exists>v. r = Ok v then release sv2 conn2 else drop_connection sv2 conn2, settle api r cl)"
    using call on(1) by (cases r) (simp_all add: client_call_def)
  moreover have "advances cl (settle api r cl)" using settle_answers [OF on(2)] assms(2) by (auto simp: advances_def)
  ultimately show ?thesis using on(3,4) by (auto simp: settle_flat release_flat drop_connection_flat simp del: settle.simps)
qed

lemma client_step_flat:
  assumes "client_step si api auth env sv cl = Some (sv', cl')" "task_ok si api cl" "calm si api cl" "flat_server sv" "flat_client cl"
  shows "flat_server sv' \<and> flat_client cl' \<and> advances cl cl'"
  using assms(1)
proof (cases rule: client_step_cases)
  case stop
  with assms(4,5) show ?thesis by (auto simp: advances_def flat_client_def)
next
  case (request payload rest)
  let ?cl = "cl\<lparr>cl_input := rest, cl_read := cl_read cl @ [payload]\<rparr>"
  have "calm_command si cmd" if "ta_decode api payload = Inr cmd" for cmd
    using assms(3) request(2) that by (auto simp: calm_def)
  with client_request_flat [OF request(5) assms(4)] request(1)
  have "flat_server sv' \<and> flat_client cl' \<and> request_answered ?cl cl'" by simp
  with request(1,2,4) show ?thesis by (auto simp: advances_def request_answered_def)
next
  case (call conn env0 cmd)
  from client_call_flat [OF assms(2) call(1) assms(3-5)] call(2) show ?thesis by auto
qed

text \<open>What a client has read and what it is still to read, together, never change.\<close>

lemma client_step_calm:
  assumes "client_step si api auth env sv cl = Some (sv', cl')"
  shows "calm si api cl' \<longleftrightarrow> calm si api cl"
  using assms
proof (cases rule: client_step_cases)
  case (request payload rest)
  from client_request_reads [OF request(5)] request(2) show ?thesis by (simp add: calm_def)
next
  case (call conn env0 cmd)
  from client_call_result [OF this(2)] show ?thesis by (auto simp: calm_def)
qed (simp add: calm_def)

subsubsection \<open>Steps of one HTTP task\<close>

lemma decided_plan: "http_decide si hapi auth chunk = Inr plan \<Longrightarrow> \<exists>req. parse_http_request chunk = Ok (Some req) \<and> plan = route_plan si hapi req"
  by (auto simp: http_decide_def split: outcome.splits option.splits bool.splits)

lemma decided_quiet: "http_decide si hapi auth (ht_chunk t) = Inr plan \<Longrightarrow> http_calm si t \<Longrightarrow> quiet_plan plan"
  using decided_plan [of si hapi auth "ht_chunk t" plan] plan_quiet by (auto simp: http_calm_def)

lemma http_answer_Some: "r \<noteq> Panic \<Longrightarrow> \<exists>resp. http_answer hapi r = Ok (Some resp)"
  by (cases r) auto

text \<open>A calm step keeps the request, and ends the task with what it has to end with.\<close>

definition http_advances :: "'n site \<Rightarrow> 'n http_api \<Rightarrow> auth \<Rightarrow> 'n http_task \<Rightarrow> 'n http_task \<Rightarrow> bool" where
  "http_advances si hapi auth t t' \<longleftrightarrow> ht_chunk t' = ht_chunk t \<and> (ht_result t' = None \<longrightarrow> ht_work t = None \<and> ht_work t' \<noteq> None) \<and>
     (ht_result t' \<noteq> None \<longrightarrow> ht_work t' = None \<and>
        (case http_decide si hapi auth (ht_chunk t) of
           Inl r \<Rightarrow> ht_result t' = Some r
         | Inr plan \<Rightarrow> \<exists>resp. ht_result t' = Some (Ok (Some resp))))"

lemma http_advances_served:
  assumes "http_advances si hapi auth t t'" "ht_result t = None" "http_served si hapi auth t' t2"
  shows "http_served si hapi auth t t2"
  using assms by (auto simp: http_advances_def http_served_def split: if_splits sum.splits)

lemma http_ends: "http_decide si hapi auth (ht_chunk t) = Inr plan \<Longrightarrow> r \<noteq> Panic \<Longrightarrow> http_advances si hapi auth t (http_end (http_answer hapi r) t)"
  using http_answer_Some [of r hapi] by (auto simp: http_advances_def)

lemma http_take_flat:
  assumes "http_take si hapi env sv t plan = Some (sv', t')" "http_decide si hapi auth (ht_chunk t) = Inr plan"
    and "http_calm si t" "flat_server sv" "ht_work t = None" "ht_result t = None"
  shows "flat_server sv' \<and> flat_task t' \<and> http_advances si hapi auth t t'"
proof (cases "\<exists>db f st. plan = UseDb db f st")
  case True
  then obtain db f st where plan: "plan = UseDb db f st" by blast
  with assms(1) obtain sv1 r where acq: "acquire si sv db = Some (sv1, r)" by (auto simp: http_take_def split: option.splits)
  note flat = acquire_flat [OF assms(4) acq]
  show ?thesis
  proof (cases r)
    case (Ok conn)
    with assms(1,5,6) plan acq flat show ?thesis by (auto simp: http_take_def flat_task_def http_advances_def)
  next
    case (Err e)
    with assms(1) plan acq have "sv' = sv1" "t' = http_end (http_answer hapi (Err e)) t" by (auto simp: http_take_def)
    with flat http_ends [OF assms(2), of "Err e"] show ?thesis by (simp add: flat_task_def del: http_answer.simps)
  qed (use flat in simp)
next
  case False
  then obtain sv1 r where run: "run_plan si env sv plan = Some (sv1, r)" "sv' = sv1" "t' = http_end (http_answer hapi r) t"
    using assms(1) by (cases plan) (auto simp: http_take_def split: option.splits)
  have "flat_server sv1 \<and> r \<noteq> Panic"
    using run(1) False decided_quiet [OF assms(2,3)] assms(4)
    by (cases plan) (auto dest: create_flat split: prod.splits)
  with run(2,3) http_ends [OF assms(2), of r] show ?thesis by (simp add: flat_task_def)
qed

lemma http_call_flat:
  assumes "http_task_ok si hapi auth t" "ht_work t = Some (conn, f, st)" "http_calm si t" "flat_server sv" "flat_task t"
  shows "\<exists>sv' t'. http_call si hapi env sv t conn f st = Some (sv', t') \<and> flat_server sv' \<and> flat_task t' \<and> http_advances si hapi auth t t'"
proof -
  obtain db where dec: "http_decide si hapi auth (ht_chunk t) = Inr (UseDb db f st)" using assms(1,2) by (auto simp: http_task_ok_def)
  from decided_quiet [OF this assms(3)] have "quiet_call (f env)" by simp
  moreover have "flat_engine (cn_engine conn)" using assms(2,5) by (simp add: flat_task_def)
  ultimately obtain sv2 conn2 r where on: "on_connection si sv conn (f env) = Some (sv2, conn2, r)" "r \<noteq> Panic"
    "flat_server sv2" "flat_engine (cn_engine conn2)" using on_connection_flat [of "f env" sv conn si] assms(4) by blast
  have "http_call si hapi env sv t conn f st =
      Some (if \<exists>v. r = Ok v then release sv2 conn2 else drop_connection sv2 conn2, http_end (http_answer hapi (outcome_map (\<lambda>v. (st v, v)) r)) t)"
    using on(1,2) by (cases r) (simp_all add: http_call_def)
  moreover have "http_advances si hapi auth t (http_end (http_answer hapi (outcome_map (\<lambda>v. (st v, v)) r)) t)"
    by (rule http_ends [OF dec]) (use on(2) in \<open>cases r; simp\<close>)
  ultimately show ?thesis using on(3,4) by (auto simp: flat_task_def release_flat drop_connection_flat)
qed

lemma http_step_flat:
  assumes "http_step si hapi auth env sv t = Some (sv', t')" "http_task_ok si hapi auth t" "ht_result t = None"
    and "http_calm si t" "flat_server sv" "flat_task t"
  shows "flat_server sv' \<and> flat_task t' \<and> http_advances si hapi auth t t'"
proof (cases "ht_work t")
  case (Some w)
  obtain conn f st where w: "w = (conn, f, st)" by (cases w)
  with Some have "ht_work t = Some (conn, f, st)" by simp
  from http_call_flat [OF assms(2) this assms(4-6), of env] assms(1) Some w show ?thesis by (auto simp: http_step_def)
next
  case None
  show ?thesis
  proof (cases "http_decide si hapi auth (ht_chunk t)")
    case (Inl r)
    with None assms show ?thesis by (auto simp: http_step_def http_advances_def flat_task_def)
  next
    case (Inr plan)
    with None assms(1) have "http_take si hapi env sv t plan = Some (sv', t')" by (simp add: http_step_def)
    from http_take_flat [OF this Inr assms(4,5) None assms(3)] show ?thesis .
  qed
qed

subsubsection \<open>All tasks\<close>

lemma in_update: "y \<in> set (xs[i := x]) \<Longrightarrow> y \<in> set xs \<or> y = x"
  by (auto dest!: set_update_subset_insert [THEN subsetD])

text \<open>Calm requests are calm at every moment of a run.\<close>

lemma service_step_calm: "service_step si api hapi auth ls s t \<Longrightarrow> hub_calm si api t \<Longrightarrow> hub_calm si api s"
proof (induction rule: service_step.induct)
  case (Turn i cls env sv sv' cl' hts)
  have "calm si api cl" if mem: "cl \<in> set cls" for cl
  proof -
    obtain j where j: "j < length cls" "cls ! j = cl" using mem by (auto simp: in_set_conv_nth)
    show ?thesis
    proof (cases "j = i")
      case True
      have "cl' \<in> set (cls[i := cl'])" by (rule set_update_memI [OF Turn.hyps(1)])
      then have "calm si api cl'" using Turn.prems by (simp add: hub_calm_def)
      with client_step_calm [OF Turn.hyps(3)] True j(2) show ?thesis by simp
    next
      case False
      with j have "cl \<in> set (cls[i := cl'])" by (metis length_list_update nth_list_update_neq nth_mem)
      with Turn.prems show ?thesis by (simp add: hub_calm_def)
    qed
  qed
  with Turn.prems show ?case by (simp add: hub_calm_def)
next
  case (HttpTurn i hts env sv sv' t' cls)
  have chunk: "ht_chunk t' = ht_chunk (hts ! i)"
    using HttpTurn.hyps(3)
    by (auto simp: http_step_def http_take_def http_call_def split: option.splits prod.splits sum.splits plan.splits outcome.splits)
  have "http_calm si t" if mem: "t \<in> set hts" for t
  proof -
    obtain j where j: "j < length hts" "hts ! j = t" using mem by (auto simp: in_set_conv_nth)
    show ?thesis
    proof (cases "j = i")
      case True
      have "t' \<in> set (hts[i := t'])" by (rule set_update_memI [OF HttpTurn.hyps(1)])
      then have "http_calm si t'" using HttpTurn.prems by (simp add: hub_calm_def)
      with chunk True j(2) show ?thesis by (simp add: http_calm_def)
    next
      case False
      with j have "t \<in> set (hts[i := t'])" by (metis length_list_update nth_list_update_neq nth_mem)
      with HttpTurn.prems show ?thesis by (simp add: hub_calm_def)
    qed
  qed
  with HttpTurn.prems show ?case by (simp add: hub_calm_def)
qed (simp_all add: hub_calm_def)

lemma service_step_flat:
  assumes "service_step si api hapi auth ls s t" "hub_ok si api hapi auth n s" "hub_calm si api s" "hub_flat s"
  shows "hub_flat t"
  using assms(1)
proof cases
  case (Accept addr sv cls hts input)
  with assms(4) show ?thesis by (auto simp: hub_flat_def flat_client_def client_new_def)
next
  case (Turn i cls env sv sv' cl' hts)
  then have "cls ! i \<in> set cls" by simp
  with assms(2-4) Turn(1) client_step_flat [OF Turn(5)] have "flat_server sv' \<and> flat_client cl'"
    by (simp add: hub_ok_def hub_calm_def hub_flat_def)
  with assms(4) Turn(1,2) show ?thesis by (auto simp: hub_flat_def dest: in_update)
next
  case (HttpAccept addr sv cls hts chunk)
  with assms(4) show ?thesis by (auto simp: hub_flat_def flat_task_def http_new_def)
next
  case (HttpTurn i hts env sv sv' t' cls)
  then have "hts ! i \<in> set hts" by simp
  with assms(2-4) HttpTurn(1,4) http_step_flat [OF HttpTurn(5)] have "flat_server sv' \<and> flat_task t'"
    by (simp add: hub_ok_def hub_calm_def hub_flat_def)
  with assms(4) HttpTurn(1,2) show ?thesis by (auto simp: hub_flat_def dest: in_update)
qed

lemma service_run_flat:
  "service_run si api hapi auth ls s t \<Longrightarrow> hub_ok si api hapi auth n s \<Longrightarrow> hub_flat s \<Longrightarrow> hub_calm si api t \<Longrightarrow> hub_flat t"
proof (induction rule: service_run.induct)
  case (Next s t u)
  have "hub_calm si api t" by (rule service_step_calm [OF Next.hyps(2) Next.prems(3)])
  with Next show ?case using service_step_flat service_run_ok by metis
qed simp

text \<open>Somebody can go on: a task that holds a connection, or, when none does, any task that is not finished.\<close>

definition unfinished :: "'n hub \<Rightarrow> bool" where
  "unfinished s \<longleftrightarrow> (\<exists>cl \<in> set (fst (snd s)). cl_end cl = None) \<or> (\<exists>t \<in> set (snd (snd s)). ht_result t = None)"

definition can_go :: "'n site \<Rightarrow> 'n tcp_api \<Rightarrow> 'n http_api \<Rightarrow> auth \<Rightarrow> call_env \<Rightarrow> 'n hub \<Rightarrow> bool" where
  "can_go si api hapi auth env s \<longleftrightarrow>
     (\<exists>cl \<in> set (fst (snd s)). cl_end cl = None \<and> client_step si api auth env (fst s) cl \<noteq> None) \<or>
     (\<exists>t \<in> set (snd (snd s)). ht_result t = None \<and> http_step si hapi auth env (fst s) t \<noteq> None)"

lemma client_request_goes:
  assumes "\<And>db. acquire si sv db \<noteq> None"
  shows "client_request si api auth env sv cl payload \<noteq> None"
proof -
  have "\<exists>p. client_command si api env sv cl cmd = Some p" for cmd
  proof (cases "command_call si (ta_pretty api) env cmd")
    case None
    with command_without_call [OF None, of sv 0 "\<lambda>_. 0"] show ?thesis by (auto simp: client_command_def)
  next
    case (Some c)
    obtain db f where c: "c = (db, f)" by (cases c)
    obtain sv1 r where "acquire si sv db = Some (sv1, r)" using assms [of db] by auto
    with Some c show ?thesis by (cases r) (simp_all add: client_command_def)
  qed
  then show ?thesis by (auto simp: client_request_def split: sum.split tcp_command.split)
qed

lemma http_take_goes:
  assumes "\<And>db. acquire si sv db \<noteq> None"
  shows "http_take si hapi env sv t plan \<noteq> None"
proof (cases plan)
  case (UseDb db f st)
  obtain sv1 r where "acquire si sv db = Some (sv1, r)" using assms [of db] by auto
  with UseDb show ?thesis by (cases r) (simp_all add: http_take_def)
qed (simp_all add: http_take_def split: prod.split)

lemma somebody_goes:
  assumes "hub_ok si api hapi auth n s" "0 < n" "hub_calm si api s" "hub_flat s" "unfinished s"
  shows "can_go si api hapi auth env s"
proof -
  obtain sv cls hts where s: "s = (sv, cls, hts)" by (metis prod.collapse)
  have ok: "\<And>cl. cl \<in> set cls \<Longrightarrow> task_ok si api cl" "\<And>t. t \<in> set hts \<Longrightarrow> http_task_ok si hapi auth t"
    using assms(1) s by (auto simp: hub_ok_def)
  have calm: "\<And>cl. cl \<in> set cls \<Longrightarrow> calm si api cl" "\<And>t. t \<in> set hts \<Longrightarrow> http_calm si t"
    using assms(3) s by (auto simp: hub_calm_def)
  have flat: "flat_server sv" "\<And>cl. cl \<in> set cls \<Longrightarrow> flat_client cl" "\<And>t. t \<in> set hts \<Longrightarrow> flat_task t"
    using assms(4) s by (auto simp: hub_flat_def)
  consider (client) c conn env0 cmd where "c \<in> set cls" "cl_work c = Some (conn, env0, cmd)"
    | (http) t conn f st where "t \<in> set hts" "ht_work t = Some (conn, f, st)"
    | (free) "\<And>c. c \<in> set cls \<Longrightarrow> cl_work c = None" "\<And>t. t \<in> set hts \<Longrightarrow> ht_work t = None"
    by (metis option.exhaust surj_pair)
  then show ?thesis
  proof cases
    case client
    obtain sv' cl' where "client_call si api sv c conn env0 cmd = Some (sv', cl')"
      using client_call_flat [OF ok(1) client(2) calm(1) flat(1) flat(2)] client(1) by blast
    then have "client_step si api auth env sv c \<noteq> None" using client(2) by (simp add: client_step_def)
    moreover have "cl_end c = None" using ok(1) [OF client(1)] client(2) by (auto simp: task_ok_def)
    ultimately show ?thesis using client(1) s by (auto simp: can_go_def)
  next
    case http
    obtain sv' t' where "http_call si hapi env sv t conn f st = Some (sv', t')"
      using http_call_flat [OF ok(2) http(2) calm(2) flat(1) flat(3), of env] http(1) by blast
    then have "http_step si hapi auth env sv t \<noteq> None" using http(2) by (simp add: http_step_def)
    moreover have "ht_result t = None" using ok(2) [OF http(1)] http(2) by (auto simp: http_task_ok_def)
    ultimately show ?thesis using http(1) s by (auto simp: can_go_def)
  next
    case free
    then have "held db cls + http_held db hts = 0" for db by (simp add: held_def http_held_def filter_empty_conv)
    then have go: "acquire si sv db \<noteq> None" for db
      using acquire_waits [of n sv "\<lambda>db. held db cls + http_held db hts" si db] assms(1,2) s by (simp add: hub_ok_def)
    have "client_step si api auth env sv cl \<noteq> None" if "cl \<in> set cls" for cl
      using free(1) [OF that] client_request_goes [OF go] by (auto simp: client_step_def split: option.split)
    moreover have "http_step si hapi auth env sv t \<noteq> None" if "t \<in> set hts" for t
      using free(2) [OF that] http_take_goes [OF go] by (auto simp: http_step_def split: sum.split)
    ultimately show ?thesis using assms(5) s by (auto simp: unfinished_def can_go_def)
  qed
qed

text \<open>Every step shortens what is left to do.\<close>

definition task_size :: "'n client \<Rightarrow> nat" where
  "task_size cl = 2 * length (payloads (cl_input cl)) + of_bool (cl_work cl \<noteq> None) + of_bool (cl_end cl = None)"

definition http_size :: "'n http_task \<Rightarrow> nat" where
  "http_size t = (if ht_result t \<noteq> None then 0 else if ht_work t = None then 2 else 1)"

lemma advances_size: "advances cl cl' \<Longrightarrow> cl_end cl = None \<Longrightarrow> task_size cl' < task_size cl"
  by (auto simp: advances_def task_size_def of_bool_def split: if_splits)

lemma http_advances_size: "http_advances si hapi auth t t' \<Longrightarrow> ht_result t = None \<Longrightarrow> http_size t' < http_size t"
  by (auto simp: http_advances_def http_size_def)

definition left_to_do :: "'n hub \<Rightarrow> nat" where
  "left_to_do s = (\<Sum>cl \<leftarrow> fst (snd s). task_size cl) + (\<Sum>t \<leftarrow> snd (snd s). http_size t)"

lemma sum_list_update_less: "i < length xs \<Longrightarrow> f x < (f (xs ! i) :: nat) \<Longrightarrow> (\<Sum>x \<leftarrow> xs[i := x]. f x) < (\<Sum>x \<leftarrow> xs. f x)"
  by (induction xs arbitrary: i) (auto split: nat.split)

definition hub_served :: "'n site \<Rightarrow> 'n http_api \<Rightarrow> auth \<Rightarrow> 'n hub \<Rightarrow> 'n hub \<Rightarrow> bool" where
  "hub_served si hapi auth s t \<longleftrightarrow> list_all2 served (fst (snd s)) (fst (snd t)) \<and>
     list_all2 (http_served si hapi auth) (snd (snd s)) (snd (snd t))"

lemma list_all2_before:
  assumes "list_all2 P (xs[i := y]) ys" "i < length xs" "\<And>z. P y z \<Longrightarrow> P (xs ! i) z"
  shows "list_all2 P xs ys"
  using assms by (auto simp: list_all2_conv_all_nth) (metis nth_list_update)

lemma one_step:
  assumes "hub_ok si api hapi auth n s" "0 < n" "hub_calm si api s" "hub_flat s" "unfinished s"
  shows "\<exists>t. service_step si api hapi auth ls s t \<and> hub_calm si api t \<and> left_to_do t < left_to_do s \<and>
    (\<forall>u. hub_served si hapi auth t u \<longrightarrow> hub_served si hapi auth s u)"
proof -
  obtain sv cls hts where s: "s = (sv, cls, hts)" by (metis prod.collapse)
  define env :: call_env where "env = undefined"
  from somebody_goes [OF assms, of env]
  consider (client) i sv' cl' where "i < length cls" "cl_end (cls ! i) = None" "client_step si api auth env sv (cls ! i) = Some (sv', cl')"
    | (http) i sv' t' where "i < length hts" "ht_result (hts ! i) = None" "http_step si hapi auth env sv (hts ! i) = Some (sv', t')"
    unfolding s can_go_def by (auto simp: in_set_conv_nth)
  then show ?thesis
  proof cases
    case client
    have mem: "cls ! i \<in> set cls" using client(1) by simp
    then have adv: "advances (cls ! i) cl'"
      using client_step_flat [OF client(3)] assms(1,3,4) s by (simp add: hub_ok_def hub_calm_def hub_flat_def)
    have "calm si api cl'" using client_step_calm [OF client(3)] mem assms(3) s by (simp add: hub_calm_def)
    then have "hub_calm si api (sv', cls[i := cl'], hts)" using assms(3) s by (auto simp: hub_calm_def dest: in_update)
    moreover have "left_to_do (sv', cls[i := cl'], hts) < left_to_do s"
      using sum_list_update_less [OF client(1), of task_size cl'] advances_size [OF adv client(2)] s by (simp add: left_to_do_def)
    moreover have "hub_served si hapi auth s u" if "hub_served si hapi auth (sv', cls[i := cl'], hts) u" for u
      using that list_all2_before [OF _ client(1), of served cl'] advances_served [OF adv client(2)] s by (auto simp: hub_served_def)
    ultimately show ?thesis using service_step.Turn [OF client, of hapi ls hts] s by blast
  next
    case http
    have mem: "hts ! i \<in> set hts" using http(1) by simp
    then have adv: "http_advances si hapi auth (hts ! i) t'"
      using http_step_flat [OF http(3) _ http(2)] assms(1,3,4) s by (simp add: hub_ok_def hub_calm_def hub_flat_def)
    have "http_calm si t'" using adv mem assms(3) s by (simp add: http_advances_def http_calm_def hub_calm_def)
    then have "hub_calm si api (sv', cls, hts[i := t'])" using assms(3) s by (auto simp: hub_calm_def dest: in_update)
    moreover have "left_to_do (sv', cls, hts[i := t']) < left_to_do s"
      using sum_list_update_less [OF http(1), of http_size t'] http_advances_size [OF adv http(2)] s by (simp add: left_to_do_def)
    moreover have "hub_served si hapi auth s u" if "hub_served si hapi auth (sv', cls, hts[i := t']) u" for u
      using that list_all2_before [OF _ http(1), of "http_served si hapi auth" t'] http_advances_served [OF adv http(2)] s
      by (auto simp: hub_served_def)
    ultimately show ?thesis using service_step.HttpTurn [OF http, of api ls cls] s by blast
  qed
qed

lemma all_served:
  assumes "hub_ok si api hapi auth n s" "0 < n" "hub_calm si api s" "hub_flat s"
  shows "\<exists>t. service_run si api hapi auth ls s t \<and> hub_served si hapi auth s t"
  using assms
proof (induction "left_to_do s" arbitrary: s rule: less_induct)
  case less
  show ?case
  proof (cases "unfinished s")
    case True
    from one_step [OF less.prems True, of ls] obtain t where t: "service_step si api hapi auth ls s t" "hub_calm si api t"
      "left_to_do t < left_to_do s" "\<And>u. hub_served si hapi auth t u \<Longrightarrow> hub_served si hapi auth s u" by blast
    from less.hyps [OF t(3) service_step_ok [OF t(1) less.prems(1)] less.prems(2) t(2) service_step_flat [OF t(1) less.prems(1,3,4)]]
    obtain u where "service_run si api hapi auth ls t u" "hub_served si hapi auth t u" by blast
    moreover have "service_run si api hapi auth ls s t" using t(1) by (blast intro: service_run.intros)
    ultimately show ?thesis using t(4) service_run_trans by blast
  next
    case False
    then have "hub_served si hapi auth s s"
      by (auto simp: hub_served_def unfinished_def served_def http_served_def list_all2_same)
    then show ?thesis by (blast intro: service_run.Start)
  qed
qed

text \<open>
  C7: No client starves. Let a server run on databases that were never compacted, for instance on
  an empty directory, with TCP and HTTP clients that ask for no compaction and send no query on
  which the parser panics. From every state it can then be in, there is a continuation in which all
  the clients that are connected are served. The task of a TCP client that had not ended has read
  all the requests that were left, sent a response for each of them and for the command it was
  executing, keeping the ones before, and ended as its input does: regularly, or with an error for a
  frame that is too long or cut off. The task of an HTTP client whose request is routed has got a
  response, and any other has ended as its request says. Nobody waits for a permit that is never
  given back.
\<close>

theorem service_completes:
  assumes "start_server disk so = (sv0, auth, ls)" "service_run si api hapi auth ls (sv0, [], []) (sv, cls, hts)" "0 < so_pool so"
    and "\<And>db fs. disk db = Some fs \<Longrightarrow> uncompacted fs"
    and "\<And>cl. cl \<in> set cls \<Longrightarrow> calm si api cl" "\<And>t. t \<in> set hts \<Longrightarrow> http_calm si t"
  shows "\<exists>sv' cls' hts'. service_run si api hapi auth ls (sv, cls, hts) (sv', cls', hts') \<and>
    list_all2 served cls cls' \<and> list_all2 (http_served si hapi auth) hts hts'"
proof -
  have start: "hub_ok si api hapi auth (so_pool so) (sv0, [], [])" by (rule start_ok [OF assms(1)])
  have "sv0 = server_new disk (so_pool so)" using assms(1) by (simp add: start_server_def)
  then have "hub_flat (sv0, [], [])" using assms(4) by (auto simp: hub_flat_def flat_server_def server_new_def)
  moreover have calm: "hub_calm si api (sv, cls, hts)" using assms(5,6) by (simp add: hub_calm_def)
  ultimately have "hub_flat (sv, cls, hts)" using service_run_flat [OF assms(2) start] by blast
  from all_served [OF service_run_ok [OF assms(2) start] assms(3) calm this, of ls] show ?thesis
    by (auto simp: hub_served_def)
qed

subsection \<open>Witnesses\<close>

definition toy_options :: server_options where
  "toy_options = \<lparr>so_tcp_addr = ''t'', so_http_addr = ''h'', so_token = Some ''secret'', so_pool = 1,
     so_tcp_only = True, so_http_only = False\<rparr>"

lemma toy_start:
  "start_server Map.empty toy_options = (server_new Map.empty 1, auth_new (Some ''secret''), [TcpListener ''t''])"
  by (simp add: start_server_def toy_options_def)

definition toy_client :: "unit client" where
  "toy_client = client_new (auth_new (Some ''secret'')) (request_frame ''db'')"

lemma toy_accept:
  "service_run toy_site toy_tcp toy_http (auth_new (Some ''secret'')) [TcpListener ''t''] (server_new Map.empty 1, [], [])
     (server_new Map.empty 1, [toy_client], [])"
  using service_step.Accept [of "''t''" "[TcpListener ''t'']" toy_site toy_tcp toy_http "auth_new (Some ''secret'')"
      "server_new Map.empty 1" "[]" "[]" "request_frame ''db''"]
  by (auto simp: toy_client_def intro: service_run.intros)

theorem pool_bounds_connections_witness:
  "held ''db'' [toy_client] \<le> 1 \<and> (acquire toy_site (server_new Map.empty 1) ''db'' = None \<longleftrightarrow> held ''db'' [toy_client] = 1)"
  using pool_bounds_connections [OF toy_start toy_accept, of "''db''"] by (simp add: toy_options_def http_held_def)

theorem client_needs_its_own_token_witness:
  "cl_work toy_client = None \<and> list_all (\<lambda>r. \<not> sr_success r \<and> sr_data r = None) (cl_sent toy_client)"
  by (rule client_needs_its_own_token [OF toy_start _ toy_accept, of "''secret''"])
     (simp_all add: toy_options_def toy_client_def client_new_def)

text \<open>Two clients of one database with one connection, a TCP command and an HTTP request.\<close>

definition open_options :: server_options where
  "open_options = toy_options\<lparr>so_token := None, so_tcp_only := False\<rparr>"

definition open_chunk :: bytes where
  "open_chunk = ''GET /dbs/db/count HTTP/1.1'' @ [CHR 13, CHR 10, CHR 13, CHR 10]"

definition open_client :: "unit client" where
  "open_client = client_new (auth_new None) (request_frame ''db'')"

lemma open_start:
  "start_server Map.empty open_options = (server_new Map.empty 1, auth_new None, [TcpListener ''t'', HttpListener ''h''])"
  by (simp add: start_server_def open_options_def toy_options_def)

lemma open_accept:
  "service_run toy_site toy_tcp toy_http (auth_new None) [TcpListener ''t'', HttpListener ''h''] (server_new Map.empty 1, [], [])
     (server_new Map.empty 1, [open_client], [http_new open_chunk])"
proof -
  let ?ls = "[TcpListener ''t'', HttpListener ''h'']"
  have "service_step toy_site toy_tcp toy_http (auth_new None) ?ls (server_new Map.empty 1, [], []) (server_new Map.empty 1, [open_client], [])"
    using service_step.Accept [of "''t''" ?ls toy_site toy_tcp toy_http "auth_new None" "server_new Map.empty 1" "[]" "[]" "request_frame ''db''"]
    by (simp add: open_client_def)
  moreover have "service_step toy_site toy_tcp toy_http (auth_new None) ?ls (server_new Map.empty 1, [open_client], [])
      (server_new Map.empty 1, [open_client], [http_new open_chunk])"
    using service_step.HttpAccept [of "''h''" ?ls toy_site toy_tcp toy_http "auth_new None" "server_new Map.empty 1" "[open_client]" "[]" open_chunk]
    by simp
  ultimately show ?thesis by (blast intro: service_run.intros)
qed

lemma open_request:
  "parse_http_request open_chunk = Ok (Some \<lparr>rq_method = ''GET'', rq_path = ''/dbs/db/count'', rq_headers = [],
     rq_body = [CHR 13, CHR 10, CHR 13, CHR 10]\<rparr>)"
  by code_simp

lemma input_frame:
  assumes "length p \<le> max_request"
  shows "payloads (request_frame p @ rest) = p # payloads rest" "input_end (request_frame p @ rest) = input_end rest"
proof -
  have "length p < 2 ^ 32" using assms by (simp add: max_request_def)
  then have "be_value (rev (le_bytes 4 (length p))) = length p" by (simp add: be_value_def codec_simps)
  then have frame: "read_exact 4 (request_frame p @ rest) = Some (rev (le_bytes 4 (length p)), p @ rest)"
    "\<not> max_request < be_value (rev (le_bytes 4 (length p)))"
    "read_exact (be_value (rev (le_bytes 4 (length p)))) (p @ rest) = Some (p, rest)"
    using assms by (simp_all add: request_frame_def codec_simps)
  show "payloads (request_frame p @ rest) = p # payloads rest" by (subst payloads.simps) (simp add: frame)
  show "input_end (request_frame p @ rest) = input_end rest" by (subst input_end.simps) (simp add: frame)
qed

lemma input_nil: "payloads [] = []" "input_end [] = Ok ()"
  by (simp_all add: payloads.simps input_end.simps read_exact_def)

lemma open_input: "payloads (request_frame ''db'') = [''db'']" "input_end (request_frame ''db'') = Ok ()"
  using input_frame [of "''db''" "[]"] by (simp_all add: input_nil max_request_def)

theorem service_completes_witness:
  "\<exists>sv' cl' t' resp. service_run toy_site toy_tcp toy_http (auth_new None) [TcpListener ''t'', HttpListener ''h'']
     (server_new Map.empty 1, [open_client], [http_new open_chunk]) (sv', [cl'], [t']) \<and>
     cl_end cl' = Some (Ok ()) \<and> length (cl_sent cl') = 1 \<and> ht_result t' = Some (Ok (Some resp))"
proof -
  have "calm toy_site toy_tcp open_client"
    by (simp add: calm_def open_client_def client_new_def open_input toy_tcp_def)
  moreover have "extract_query_param ''/dbs/db/count'' ''q'' = None" by (rule no_parameter) simp
  then have "http_calm toy_site (http_new open_chunk)"
    by (simp add: http_calm_def http_new_def open_request calm_request_def asks_compaction_def)
  ultimately obtain sv' cl' t' where run: "service_run toy_site toy_tcp toy_http (auth_new None) [TcpListener ''t'', HttpListener ''h'']
      (server_new Map.empty 1, [open_client], [http_new open_chunk]) (sv', [cl'], [t'])"
    "served open_client cl'" "http_served toy_site toy_http (auth_new None) (http_new open_chunk) t'"
    using service_completes [OF open_start open_accept] by (auto simp: open_options_def toy_options_def list_all2_Cons1)
  have "cl_end cl' = Some (Ok ())" "length (cl_sent cl') = 1"
    using run(2) by (auto simp: served_def open_client_def client_new_def open_input)
  moreover have "http_decide toy_site toy_http (auth_new None) open_chunk \<in> range Inr"
    by (simp add: http_decide_def open_request http_authenticated_def auth_new_def)
  then obtain resp where "ht_result t' = Some (Ok (Some resp))" using run(3) by (auto simp: http_served_def http_new_def)
  ultimately show ?thesis using run(1) by blast
qed

end
