(* ===== verification/Ffi.thy ===== *)
theory Ffi
  imports Disk Tcp Text
begin

text \<open>
  The C interface (\<open>src/libcassettedb/src/lib.rs\<close>): every exported function, on the memory it
  shares with its client. Addresses are numbers, 0 is the null pointer; a string argument is its
  bytes up to the terminating zero, \<open>None\<close> for null. The handles and the strings that are live are
  partial maps from addresses, fresh addresses come from an allocator. A function may return, abort
  the process (a panic cannot leave an \<open>extern "C"\<close> function), touch memory that is not live, or
  run on (a compaction that does not end).
\<close>

subsection \<open>State\<close>

datatype 'a exit = Returns 'a | Aborts | Undefined | Runs_on

text \<open>
  \<open>la_parse\<close> and \<open>la_doc\<close>, \<open>la_docs\<close>, \<open>la_pretty\<close> are the JSON coding, \<open>la_dir\<close> tells whether the
  directory of a path exists and \<open>la_feed\<close> whether \<open>parent().exists()\<close> holds for it, which enables
  the change feed.
\<close>

record 'n lib_api =
  la_codec :: "'n codec"
  la_num :: "'n number_api"
  la_parse :: "string \<Rightarrow> string + 'n json"
  la_doc :: "'n document \<Rightarrow> string + string"
  la_docs :: "'n document list \<Rightarrow> string + string"
  la_pretty :: "'n document list \<Rightarrow> string"
  la_detail :: string
  la_dir :: "string \<Rightarrow> bool"
  la_feed :: "string \<Rightarrow> bool"
  la_alloc :: "nat set \<Rightarrow> nat"

record 'n library =
  lb_disk :: disk
  lb_handles :: "nat \<rightharpoonup> string \<times> 'n engine"
  lb_strings :: "nat \<rightharpoonup> string"
  lb_error :: "string option"

definition lib_start :: "disk \<Rightarrow> 'n library" where
  "lib_start disk = \<lparr>lb_disk = disk, lb_handles = Map.empty, lb_strings = Map.empty, lb_error = None\<rparr>"

definition set_error :: "string \<Rightarrow> 'n library \<Rightarrow> 'n library" where
  "set_error msg lib = lib\<lparr>lb_error := Some msg\<rparr>"

definition clear_error :: "'n library \<Rightarrow> 'n library" where
  "clear_error lib = lib\<lparr>lb_error := None\<rparr>"

definition fail :: "'n library \<Rightarrow> 'r \<Rightarrow> string \<Rightarrow> ('n library \<times> 'r) exit" where
  "fail lib r msg = Returns (set_error msg lib, r)"

definition handle_result :: "'n lib_api \<Rightarrow> 'n library \<Rightarrow> 'r outcome \<Rightarrow> ('n library \<times> int) exit" where
  "handle_result api lib r =
     (case r of
        Ok _ \<Rightarrow> Returns (clear_error lib, 0)
      | Err e \<Rightarrow> Returns (set_error (error_text (la_detail api) e) lib, -1)
      | Panic \<Rightarrow> Aborts)"

text \<open>\<open>CStr::to_str\<close> and \<open>CString::new(..).into_raw()\<close>.\<close>

definition valid_utf8 :: "bytes \<Rightarrow> bool" where
  "valid_utf8 bs \<longleftrightarrow> utf8_lossy bs = bs"

definition addresses :: "'n library \<Rightarrow> nat set" where
  "addresses lib = dom (lb_handles lib) \<union> dom (lb_strings lib)"

definition give_string :: "'n lib_api \<Rightarrow> 'n library \<Rightarrow> string \<Rightarrow> string \<Rightarrow> ('n library \<times> nat) exit" where
  "give_string api lib what s =
     (if CHR 0x00 \<in> set s then fail lib 0 (what @ '' contains null byte'')
      else (let a = la_alloc api (addresses lib) in
        Returns (lib\<lparr>lb_strings := (lb_strings lib)(a \<mapsto> s)\<rparr>, a)))"

text \<open>A use of the engine behind a handle, on what its files hold.\<close>

definition on_handle ::
  "'n library \<Rightarrow> nat \<Rightarrow> ('n engine \<Rightarrow> ('n engine \<times> 'r outcome) option) \<Rightarrow> ('n library \<Rightarrow> 'r outcome \<Rightarrow> 'a exit) \<Rightarrow> 'a exit" where
  "on_handle lib db f k =
     (case lb_handles lib db of
        None \<Rightarrow> Undefined
      | Some (path, e) \<Rightarrow>
          (case f (case lb_disk lib path of None \<Rightarrow> e | Some fs \<Rightarrow> attach fs e) of
             None \<Rightarrow> Runs_on
           | Some (e', r) \<Rightarrow>
               k (lib\<lparr>lb_handles := (lb_handles lib)(db \<mapsto> (path, e')),
                      lb_disk := (case lb_disk lib path of
                                    None \<Rightarrow> lb_disk lib
                                  | Some fs \<Rightarrow> (lb_disk lib)(path \<mapsto> engine_files (repl_file fs) e'))\<rparr>) r))"

definition changing :: "('n engine \<Rightarrow> ('n, 'r) result) \<Rightarrow> 'n engine \<Rightarrow> ('n engine \<times> 'r outcome) option" where
  "changing f e = (let (e', r, sent) = f e in Some (e', r))"

subsection \<open>Exported functions\<close>

text \<open>The files after opening them, as \<open>opened_files\<close>, with the change feed enabled or not.\<close>

definition open_path :: "'n lib_api \<Rightarrow> disk \<Rightarrow> string \<Rightarrow> disk \<times> 'n engine outcome" where
  "open_path api disk p =
     (if disk p = None \<and> \<not> la_dir api p then (disk, Err (Io ''No such file or directory (os error 2)''))
      else (let fs = (case disk p of None \<Rightarrow> no_files | Some fs \<Rightarrow> fs) in
        (disk(p \<mapsto> opened_with (la_codec api) (la_feed api p) fs), engine_open (la_codec api) (la_feed api p) fs)))"

definition cassette_db_open :: "'n lib_api \<Rightarrow> 'n library \<Rightarrow> bytes option \<Rightarrow> ('n library \<times> nat) exit" where
  "cassette_db_open api lib0 path =
     (let lib = clear_error lib0 in
      case path of
        None \<Rightarrow> fail lib 0 ''Null path pointer''
      | Some p \<Rightarrow>
          if \<not> valid_utf8 p then fail lib 0 ''Path is not valid UTF-8''
          else (case open_path api (lb_disk lib) p of
                  (disk, Ok e) \<Rightarrow>
                    (let a = la_alloc api (addresses lib) in
                     Returns (lib\<lparr>lb_disk := disk, lb_handles := (lb_handles lib)(a \<mapsto> (p, e))\<rparr>, a))
                | (disk, Err x) \<Rightarrow> fail (lib\<lparr>lb_disk := disk\<rparr>) 0 (error_text (la_detail api) x)
                | (disk, Panic) \<Rightarrow> Aborts))"

definition cassette_db_close :: "'n library \<Rightarrow> nat \<Rightarrow> 'n library exit" where
  "cassette_db_close lib db =
     (if db = 0 then Returns lib
      else if lb_handles lib db = None then Undefined
      else Returns (lib\<lparr>lb_handles := (lb_handles lib)(db := None)\<rparr>))"

definition cassette_insert :: "'n lib_api \<Rightarrow> call_env \<Rightarrow> 'n library \<Rightarrow> nat \<Rightarrow> bytes option \<Rightarrow> ('n library \<times> nat) exit" where
  "cassette_insert api env lib0 db json =
     (let lib = clear_error lib0 in
      if db = 0 then fail lib 0 ''Null database pointer''
      else case json of
        None \<Rightarrow> fail lib 0 ''Null JSON pointer''
      | Some s \<Rightarrow>
          if \<not> valid_utf8 s then fail lib 0 ''JSON is not valid UTF-8''
          else (case la_parse api s of
                  Inl e \<Rightarrow> fail lib 0 (''Invalid JSON: '' @ e)
                | Inr v \<Rightarrow>
                    on_handle lib db (changing (\<lambda>e. engine_insert (la_codec api) env e (document_new (ce_uuid env) v)))
                      (\<lambda>lib r. case r of
                         Ok i \<Rightarrow> give_string api lib ''Document ID'' i
                       | Err x \<Rightarrow> fail lib 0 (error_text (la_detail api) x)
                       | Panic \<Rightarrow> Aborts)))"

definition cassette_get :: "'n lib_api \<Rightarrow> 'n library \<Rightarrow> nat \<Rightarrow> bytes option \<Rightarrow> ('n library \<times> nat) exit" where
  "cassette_get api lib0 db ident =
     (let lib = clear_error lib0 in
      if db = 0 then fail lib 0 ''Null database pointer''
      else case ident of
        None \<Rightarrow> fail lib 0 ''Null ID pointer''
      | Some i \<Rightarrow>
          if \<not> valid_utf8 i then fail lib 0 ''ID is not valid UTF-8''
          else (case lb_handles lib db of
                  None \<Rightarrow> Undefined
                | Some (path, e) \<Rightarrow>
                    (case engine_get e i of
                       Some doc \<Rightarrow>
                         (case la_doc api doc of
                            Inr json \<Rightarrow> give_string api lib ''Document JSON'' json
                          | Inl x \<Rightarrow> fail lib 0 (''Serialization error: '' @ x))
                     | None \<Rightarrow> fail lib 0 (''Document not found: '' @ i))))"

definition cassette_update ::
  "'n lib_api \<Rightarrow> call_env \<Rightarrow> 'n library \<Rightarrow> nat \<Rightarrow> bytes option \<Rightarrow> bytes option \<Rightarrow> ('n library \<times> int) exit" where
  "cassette_update api env lib0 db ident json =
     (let lib = clear_error lib0 in
      if db = 0 then fail lib (-1) ''Null database pointer''
      else case ident of
        None \<Rightarrow> fail lib (-1) ''Null ID pointer''
      | Some i \<Rightarrow>
          (case json of
             None \<Rightarrow> fail lib (-1) ''Null JSON pointer''
           | Some s \<Rightarrow>
               if \<not> valid_utf8 i then fail lib (-1) ''ID is not valid UTF-8''
               else if \<not> valid_utf8 s then fail lib (-1) ''JSON is not valid UTF-8''
               else (case la_parse api s of
                       Inl e \<Rightarrow> fail lib (-1) (''Invalid JSON: '' @ e)
                     | Inr v \<Rightarrow>
                         on_handle lib db (changing (\<lambda>e. engine_update (la_codec api) env e i v)) (handle_result api))))"

definition cassette_delete :: "'n lib_api \<Rightarrow> call_env \<Rightarrow> 'n library \<Rightarrow> nat \<Rightarrow> bytes option \<Rightarrow> ('n library \<times> int) exit" where
  "cassette_delete api env lib0 db ident =
     (let lib = clear_error lib0 in
      if db = 0 then fail lib (-1) ''Null database pointer''
      else case ident of
        None \<Rightarrow> fail lib (-1) ''Null ID pointer''
      | Some i \<Rightarrow>
          if \<not> valid_utf8 i then fail lib (-1) ''ID is not valid UTF-8''
          else on_handle lib db (changing (\<lambda>e. engine_delete (la_codec api) env e i)) (handle_result api))"

definition cassette_query :: "'n lib_api \<Rightarrow> 'n library \<Rightarrow> nat \<Rightarrow> bytes option \<Rightarrow> ('n library \<times> nat) exit" where
  "cassette_query api lib0 db query =
     (let lib = clear_error lib0 in
      if db = 0 then fail lib 0 ''Null database pointer''
      else case query of
        None \<Rightarrow> fail lib 0 ''Null query pointer''
      | Some s \<Rightarrow>
          if \<not> valid_utf8 s then fail lib 0 ''Query is not valid UTF-8''
          else (case parse_query (la_num api) s of
                  Err x \<Rightarrow> fail lib 0 (''Query parse error: '' @ error_text (la_detail api) x)
                | Panic \<Rightarrow> Aborts
                | Ok q \<Rightarrow>
                    (case lb_handles lib db of
                       None \<Rightarrow> Undefined
                     | Some (path, e) \<Rightarrow>
                         (case la_docs api (documents (engine_query (la_num api) e q)) of
                            Inr json \<Rightarrow> give_string api lib ''Result JSON'' json
                          | Inl x \<Rightarrow> fail lib 0 (''Serialization error: '' @ x)))))"

definition cassette_dump :: "'n lib_api \<Rightarrow> 'n library \<Rightarrow> nat \<Rightarrow> ('n library \<times> nat) exit" where
  "cassette_dump api lib0 db =
     (let lib = clear_error lib0 in
      if db = 0 then fail lib 0 ''Null database pointer''
      else case lb_handles lib db of
        None \<Rightarrow> Undefined
      | Some (path, e) \<Rightarrow> give_string api lib ''Dump JSON'' (engine_dump (la_pretty api) e))"

definition cassette_compact :: "'n lib_api \<Rightarrow> 'n library \<Rightarrow> nat \<Rightarrow> ('n library \<times> int) exit" where
  "cassette_compact api lib0 db =
     (let lib = clear_error lib0 in
      if db = 0 then fail lib (-1) ''Null database pointer''
      else on_handle lib db (engine_compact (la_codec api)) (handle_result api))"

definition cassette_last_error :: "'n lib_api \<Rightarrow> 'n library \<Rightarrow> ('n library \<times> nat) exit" where
  "cassette_last_error api lib =
     (let msg = (case lb_error lib of None \<Rightarrow> [] | Some m \<Rightarrow> m); a = la_alloc api (addresses lib) in
      if CHR 0x00 \<in> set msg then Returns (lib, 0)
      else Returns (lib\<lparr>lb_strings := (lb_strings lib)(a \<mapsto> msg)\<rparr>, a))"

definition cassette_free_string :: "'n library \<Rightarrow> nat \<Rightarrow> 'n library exit" where
  "cassette_free_string lib s =
     (if s = 0 then Returns lib
      else if lb_strings lib s = None then Undefined
      else Returns (lib\<lparr>lb_strings := (lb_strings lib)(s := None)\<rparr>))"

end
