(* ===== verification/FfiLaws.thy ===== *)
theory FfiLaws
  imports Ffi
begin

text \<open>
  What the C interface guarantees: the convention of its error codes, and the refinement of all
  sequences of calls by a map of databases, under the rules the interface gives its client.
\<close>

subsection \<open>Calls\<close>

datatype lib_call =
    LOpen "bytes option"
  | LClose nat
  | LInsert nat "bytes option"
  | LGet nat "bytes option"
  | LUpdate nat "bytes option" "bytes option"
  | LDelete nat "bytes option"
  | LQuery nat "bytes option"
  | LDump nat
  | LCompact nat
  | LLastError
  | LFree nat

datatype c_value = Pointer nat | Code int | Void

fun exit_map :: "('a \<Rightarrow> 'b) \<Rightarrow> 'a exit \<Rightarrow> 'b exit" where
  "exit_map f (Returns x) = Returns (f x)"
| "exit_map f Aborts = Aborts"
| "exit_map f Undefined = Undefined"
| "exit_map f Runs_on = Runs_on"

lemma exit_map_Returns: "exit_map f x = Returns y \<longleftrightarrow> (\<exists>z. x = Returns z \<and> y = f z)"
  by (cases x) auto

fun lib_run :: "'n lib_api \<Rightarrow> call_env \<Rightarrow> 'n library \<Rightarrow> lib_call \<Rightarrow> ('n library \<times> c_value) exit" where
  "lib_run api env lib (LOpen path) = exit_map (map_prod id Pointer) (cassette_db_open api lib path)"
| "lib_run api env lib (LClose db) = exit_map (\<lambda>lib. (lib, Void)) (cassette_db_close lib db)"
| "lib_run api env lib (LInsert db json) = exit_map (map_prod id Pointer) (cassette_insert api env lib db json)"
| "lib_run api env lib (LGet db i) = exit_map (map_prod id Pointer) (cassette_get api lib db i)"
| "lib_run api env lib (LUpdate db i json) = exit_map (map_prod id Code) (cassette_update api env lib db i json)"
| "lib_run api env lib (LDelete db i) = exit_map (map_prod id Code) (cassette_delete api env lib db i)"
| "lib_run api env lib (LQuery db q) = exit_map (map_prod id Pointer) (cassette_query api lib db q)"
| "lib_run api env lib (LDump db) = exit_map (map_prod id Pointer) (cassette_dump api lib db)"
| "lib_run api env lib (LCompact db) = exit_map (map_prod id Code) (cassette_compact api lib db)"
| "lib_run api env lib LLastError = exit_map (map_prod id Pointer) (cassette_last_error api lib)"
| "lib_run api env lib (LFree s) = exit_map (\<lambda>lib. (lib, Void)) (cassette_free_string lib s)"

subsection \<open>The convention of errors\<close>

definition pointer_convention :: "('n library \<times> nat) exit \<Rightarrow> bool" where
  "pointer_convention x \<longleftrightarrow> (\<forall>lib p. x = Returns (lib, p) \<longrightarrow> (p = 0 \<longleftrightarrow> lb_error lib \<noteq> None))"

definition code_convention :: "('n library \<times> int) exit \<Rightarrow> bool" where
  "code_convention x \<longleftrightarrow> (\<forall>lib n. x = Returns (lib, n) \<longrightarrow> n = (if lb_error lib = None then 0 else -1))"

lemma pointer_conventionD: "pointer_convention x \<Longrightarrow> x = Returns (lib, p) \<Longrightarrow> (p = 0) = (lb_error lib \<noteq> None)"
  by (simp add: pointer_convention_def)

lemma code_conventionD: "code_convention x \<Longrightarrow> x = Returns (lib, n) \<Longrightarrow> n = (if lb_error lib = None then 0 else -1)"
  by (simp add: code_convention_def)

lemma conventions [simp]:
  "pointer_convention (fail lib 0 msg)" "code_convention (fail lib (-1) msg)"
  "pointer_convention Aborts" "pointer_convention Undefined" "pointer_convention Runs_on"
  "code_convention Aborts" "code_convention Undefined" "code_convention Runs_on"
  "code_convention (handle_result api lib r)"
  by (auto simp: pointer_convention_def code_convention_def fail_def set_error_def clear_error_def handle_result_def split: outcome.splits)

lemma give_string_convention:
  "\<forall>A. la_alloc api A \<noteq> 0 \<Longrightarrow> lb_error lib = None \<Longrightarrow> pointer_convention (give_string api lib what s)"
  by (auto simp: give_string_def pointer_convention_def fail_def set_error_def Let_def)

lemma on_handle_pointer:
  "(\<And>lib' r. lb_error lib' = lb_error lib \<Longrightarrow> pointer_convention (k lib' r)) \<Longrightarrow> pointer_convention (on_handle lib db f k)"
  by (simp add: on_handle_def split: option.split prod.split)

lemma on_handle_code: "(\<And>lib' r. code_convention (k lib' r)) \<Longrightarrow> code_convention (on_handle lib db f k)"
  by (simp add: on_handle_def split: option.split prod.split)

lemma error_cleared [simp]: "lb_error (clear_error lib) = None"
  by (simp add: clear_error_def)

lemma pointer_functions:
  assumes "\<forall>A. la_alloc api A \<noteq> 0"
  shows "pointer_convention (cassette_db_open api lib path)" "pointer_convention (cassette_insert api env lib db json)"
    and "pointer_convention (cassette_get api lib db i)" "pointer_convention (cassette_query api lib db q)"
    and "pointer_convention (cassette_dump api lib db)"
proof -
  note give = give_string_convention [OF assms]
  show "pointer_convention (cassette_insert api env lib db json)"
    by (auto simp: cassette_insert_def Let_def intro!: on_handle_pointer give split: option.split sum.split outcome.split)
  show "pointer_convention (cassette_get api lib db i)" "pointer_convention (cassette_query api lib db q)"
    "pointer_convention (cassette_dump api lib db)"
    by (auto simp: cassette_get_def cassette_query_def cassette_dump_def Let_def intro!: give
        split: option.split sum.split outcome.split prod.split)
  have "pointer_convention (Returns (lib\<lparr>lb_disk := disk, lb_handles := hs\<rparr>, la_alloc api A))" if "lb_error lib = None" for lib :: "'a library" and disk hs A
    using that assms by (simp add: pointer_convention_def)
  then show "pointer_convention (cassette_db_open api lib path)"
    by (auto simp: cassette_db_open_def Let_def split: option.split outcome.split prod.split)
qed

lemma code_functions:
  "code_convention (cassette_update api env lib db i json)" "code_convention (cassette_delete api env lib db i)"
  "code_convention (cassette_compact api lib db)"
  by (auto simp: cassette_update_def cassette_delete_def cassette_compact_def Let_def intro!: on_handle_code split: option.split sum.split)

text \<open>
  C29: The error convention. Whatever the arguments are, a call that returns either succeeds (a
  pointer that is not null, or the code 0) and leaves no error, or fails (null, or the code -1) and
  leaves a message; closing, freeing and reading the message do not change it, and after a failure
  \<open>cassette_last_error\<close> gives exactly the message, unless it contains a zero byte.
\<close>

theorem ffi_error_convention:
  assumes "\<forall>A. la_alloc api A \<noteq> 0" "lib_run api env lib call = Returns (lib', v)"
  shows "(case v of
      Pointer p \<Rightarrow> if call = LLastError then lb_error lib' = lb_error lib else (p = 0 \<longleftrightarrow> lb_error lib' \<noteq> None)
    | Code n \<Rightarrow> n = (if lb_error lib' = None then 0 else -1)
    | Void \<Rightarrow> lb_error lib' = lb_error lib) \<and>
    (case lb_error lib' of None \<Rightarrow> True | Some msg \<Rightarrow> CHR 0x00 \<in> set msg \<or>
      (\<exists>lib2 p. cassette_last_error api lib' = Returns (lib2, p) \<and> p \<noteq> 0 \<and> lb_strings lib2 p = Some msg))"
proof -
  have "case v of
      Pointer p \<Rightarrow> if call = LLastError then lb_error lib' = lb_error lib else (p = 0 \<longleftrightarrow> lb_error lib' \<noteq> None)
    | Code n \<Rightarrow> n = (if lb_error lib' = None then 0 else -1)
    | Void \<Rightarrow> lb_error lib' = lb_error lib"
  proof (cases call)
    case (LClose db)
    then show ?thesis using assms(2) by (auto simp: exit_map_Returns cassette_db_close_def split: if_splits)
  next
    case LLastError
    then show ?thesis using assms(2) by (auto simp: exit_map_Returns cassette_last_error_def Let_def split: if_splits)
  next
    case (LFree s)
    then show ?thesis using assms(2) by (auto simp: exit_map_Returns cassette_free_string_def split: if_splits)
  qed (use assms(2) in \<open>auto simp: exit_map_Returns
      dest: pointer_functions [OF assms(1), THEN pointer_conventionD] code_functions [THEN code_conventionD]\<close>)
  moreover have "case lb_error lib' of None \<Rightarrow> True | Some msg \<Rightarrow> CHR 0x00 \<in> set msg \<or>
      (\<exists>lib2 p. cassette_last_error api lib' = Returns (lib2, p) \<and> p \<noteq> 0 \<and> lb_strings lib2 p = Some msg)"
    using assms(1) by (simp add: cassette_last_error_def Let_def split: option.split)
  ultimately show ?thesis ..
qed

subsection \<open>Handles that agree with their files\<close>

definition path_docs :: "'n lib_api \<Rightarrow> string \<Rightarrow> db_files \<Rightarrow> string \<rightharpoonup> 'n document" where
  "path_docs api p fs = (case engine_open (la_codec api) (la_feed api p) fs of Ok e \<Rightarrow> eng_abs e | _ \<Rightarrow> Map.empty)"

lemma agrees_docs: "agrees (la_codec api) (la_feed api p) fs e \<Longrightarrow> path_docs api p fs = eng_abs e"
  using agrees_open(1) [of "la_codec api" "la_feed api p" fs e] by (simp add: path_docs_def eng_abs_without_subscribers)

definition alloc_ok :: "'n lib_api \<Rightarrow> bool" where
  "alloc_ok api \<longleftrightarrow> (\<forall>A. finite A \<longrightarrow> la_alloc api A \<notin> A \<and> la_alloc api A \<noteq> 0)"

definition lib_ok :: "'n lib_api \<Rightarrow> 'n library \<Rightarrow> bool" where
  "lib_ok api lib \<longleftrightarrow> alloc_ok api \<and> finite (addresses lib) \<and> 0 \<notin> addresses lib \<and>
     dom (lb_handles lib) \<inter> dom (lb_strings lib) = {} \<and>
     (\<forall>p fs. lb_disk lib p = Some fs \<longrightarrow> (\<exists>e. agrees (la_codec api) (la_feed api p) fs e)) \<and>
     (\<forall>h p e. lb_handles lib h = Some (p, e) \<longrightarrow> (\<exists>fs. lb_disk lib p = Some fs \<and> agrees (la_codec api) (la_feed api p) fs e)) \<and>
     (\<forall>h h' p e e'. lb_handles lib h = Some (p, e) \<longrightarrow> lb_handles lib h' = Some (p, e') \<longrightarrow> h = h')"

lemma lib_ok_error [simp]: "lib_ok api (lib\<lparr>lb_error := x\<rparr>) = lib_ok api lib"
  by (simp add: lib_ok_def addresses_def)

subsection \<open>The abstract interface\<close>

text \<open>
  What a client may rely on: a map of databases by path, each a map of documents; the handles and
  the path each is open on; the strings it was given; the last error; and the values returned.
\<close>

record 'n lib_view =
  lv_dbs :: "string \<rightharpoonup> (string \<rightharpoonup> 'n document)"
  lv_handles :: "nat \<rightharpoonup> string"
  lv_strings :: "nat \<rightharpoonup> string"
  lv_error :: "string option"
  lv_values :: "c_value list"

definition lib_view :: "'n lib_api \<Rightarrow> 'n library \<times> c_value list \<Rightarrow> 'n lib_view" where
  "lib_view api s =
     \<lparr>lv_dbs = (\<lambda>p. map_option (path_docs api p) (lb_disk (fst s) p)), lv_handles = map_option fst \<circ> lb_handles (fst s),
      lv_strings = lb_strings (fst s), lv_error = lb_error (fst s), lv_values = snd s\<rparr>"

definition view_fail :: "'n lib_view \<Rightarrow> c_value \<Rightarrow> string \<Rightarrow> 'n lib_view" where
  "view_fail v r msg = v\<lparr>lv_error := Some msg, lv_values := lv_values v @ [r]\<rparr>"

definition view_done :: "'n lib_view \<Rightarrow> c_value \<Rightarrow> 'n lib_view" where
  "view_done v r = v\<lparr>lv_error := None, lv_values := lv_values v @ [r]\<rparr>"

definition fresh :: "'n lib_api \<Rightarrow> 'n lib_view \<Rightarrow> nat" where
  "fresh api v = la_alloc api (dom (lv_handles v) \<union> dom (lv_strings v))"

definition view_give :: "'n lib_api \<Rightarrow> 'n lib_view \<Rightarrow> string \<Rightarrow> string \<Rightarrow> 'n lib_view" where
  "view_give api v what s =
     (if CHR 0x00 \<in> set s then view_fail v (Pointer 0) (what @ '' contains null byte'')
      else view_done (v\<lparr>lv_strings := (lv_strings v)(fresh api v \<mapsto> s)\<rparr>) (Pointer (fresh api v)))"

definition open_docs :: "'n lib_view \<Rightarrow> nat \<Rightarrow> string \<rightharpoonup> 'n document" where
  "open_docs v db = (case lv_handles v db of None \<Rightarrow> Map.empty | Some p \<Rightarrow> (case lv_dbs v p of None \<Rightarrow> Map.empty | Some m \<Rightarrow> m))"

definition put_docs :: "'n lib_view \<Rightarrow> nat \<Rightarrow> (string \<rightharpoonup> 'n document) \<Rightarrow> 'n lib_view" where
  "put_docs v db m = (case lv_handles v db of None \<Rightarrow> v | Some p \<Rightarrow> v\<lparr>lv_dbs := (lv_dbs v)(p \<mapsto> m)\<rparr>)"

fun lib_spec :: "'n lib_api \<Rightarrow> call_env \<Rightarrow> 'n lib_view \<Rightarrow> lib_call \<Rightarrow> 'n lib_view" where
  "lib_spec api env v (LOpen path) =
     (case path of
        None \<Rightarrow> view_fail v (Pointer 0) ''Null path pointer''
      | Some p \<Rightarrow>
          if \<not> valid_utf8 p then view_fail v (Pointer 0) ''Path is not valid UTF-8''
          else if lv_dbs v p = None \<and> \<not> la_dir api p
          then view_fail v (Pointer 0) ''IO error: No such file or directory (os error 2)''
          else view_done (v\<lparr>lv_dbs := (lv_dbs v)(p \<mapsto> (case lv_dbs v p of None \<Rightarrow> Map.empty | Some m \<Rightarrow> m)),
                            lv_handles := (lv_handles v)(fresh api v \<mapsto> p)\<rparr>) (Pointer (fresh api v)))"
| "lib_spec api env v (LClose db) = v\<lparr>lv_handles := (lv_handles v)(db := None), lv_values := lv_values v @ [Void]\<rparr>"
| "lib_spec api env v (LInsert db json) =
     (if db = 0 then view_fail v (Pointer 0) ''Null database pointer''
      else case json of
        None \<Rightarrow> view_fail v (Pointer 0) ''Null JSON pointer''
      | Some s \<Rightarrow>
          if \<not> valid_utf8 s then view_fail v (Pointer 0) ''JSON is not valid UTF-8''
          else (case la_parse api s of
                  Inl e \<Rightarrow> view_fail v (Pointer 0) (''Invalid JSON: '' @ e)
                | Inr d \<Rightarrow>
                    view_give api (put_docs v db ((open_docs v db)(ce_uuid env \<mapsto> document_new (ce_uuid env) d)))
                      ''Document ID'' (ce_uuid env)))"
| "lib_spec api env v (LGet db ident) =
     (if db = 0 then view_fail v (Pointer 0) ''Null database pointer''
      else case ident of
        None \<Rightarrow> view_fail v (Pointer 0) ''Null ID pointer''
      | Some i \<Rightarrow>
          if \<not> valid_utf8 i then view_fail v (Pointer 0) ''ID is not valid UTF-8''
          else (case open_docs v db i of
                  None \<Rightarrow> view_fail v (Pointer 0) (''Document not found: '' @ i)
                | Some doc \<Rightarrow>
                    (case la_doc api doc of
                       Inr json \<Rightarrow> view_give api v ''Document JSON'' json
                     | Inl x \<Rightarrow> view_fail v (Pointer 0) (''Serialization error: '' @ x))))"
| "lib_spec api env v (LUpdate db ident json) =
     (if db = 0 then view_fail v (Code (-1)) ''Null database pointer''
      else case ident of
        None \<Rightarrow> view_fail v (Code (-1)) ''Null ID pointer''
      | Some i \<Rightarrow>
          (case json of
             None \<Rightarrow> view_fail v (Code (-1)) ''Null JSON pointer''
           | Some s \<Rightarrow>
               if \<not> valid_utf8 i then view_fail v (Code (-1)) ''ID is not valid UTF-8''
               else if \<not> valid_utf8 s then view_fail v (Code (-1)) ''JSON is not valid UTF-8''
               else (case la_parse api s of
                       Inl e \<Rightarrow> view_fail v (Code (-1)) (''Invalid JSON: '' @ e)
                     | Inr d \<Rightarrow>
                         (case open_docs v db i of
                            None \<Rightarrow> view_fail v (Code (-1)) (''Document not found: '' @ i)
                          | Some old \<Rightarrow> view_done (put_docs v db ((open_docs v db)(i \<mapsto> old\<lparr>doc_data := d\<rparr>))) (Code 0)))))"
| "lib_spec api env v (LDelete db ident) =
     (if db = 0 then view_fail v (Code (-1)) ''Null database pointer''
      else case ident of
        None \<Rightarrow> view_fail v (Code (-1)) ''Null ID pointer''
      | Some i \<Rightarrow>
          if \<not> valid_utf8 i then view_fail v (Code (-1)) ''ID is not valid UTF-8''
          else if open_docs v db i = None then view_fail v (Code (-1)) (''Document not found: '' @ i)
          else view_done (put_docs v db ((open_docs v db)(i := None))) (Code 0))"
| "lib_spec api env v LLastError =
     (let msg = (case lv_error v of None \<Rightarrow> [] | Some m \<Rightarrow> m) in
      if CHR 0x00 \<in> set msg then v\<lparr>lv_values := lv_values v @ [Pointer 0]\<rparr>
      else v\<lparr>lv_strings := (lv_strings v)(fresh api v \<mapsto> msg), lv_values := lv_values v @ [Pointer (fresh api v)]\<rparr>)"
| "lib_spec api env v (LFree s) = v\<lparr>lv_strings := (lv_strings v)(s := None), lv_values := lv_values v @ [Void]\<rparr>"
| "lib_spec api env v call = v"

text \<open>
  The rules for the client: a path is open at most once at a time, handles and strings are live or
  null; and what a change writes fits, as \<open>op_ok\<close> says. Queries, dumps and compactions, whose texts
  depend on the order of the documents, are outside of this interface.
\<close>

type_synonym 'n client = "'n library \<times> c_value list"

definition change_at :: "'n lib_api \<Rightarrow> call_env \<Rightarrow> 'n client \<Rightarrow> nat \<Rightarrow> 'n change_op option \<Rightarrow> bool" where
  "change_at api env s db op \<longleftrightarrow> db = 0 \<or>
     (case lb_handles (fst s) db of
        None \<Rightarrow> False
      | Some (p, e) \<Rightarrow> (case op of None \<Rightarrow> True | Some op \<Rightarrow> op_ok (la_codec api) env e op))"

fun parsed :: "'n lib_api \<Rightarrow> bytes option \<Rightarrow> 'n json option" where
  "parsed api None = None"
| "parsed api (Some s) = (case la_parse api s of Inl e \<Rightarrow> None | Inr d \<Rightarrow> Some d)"

fun call_ok :: "'n lib_api \<Rightarrow> call_env \<Rightarrow> 'n client \<Rightarrow> lib_call \<Rightarrow> bool" where
  "call_ok api env s (LOpen path) = (case path of None \<Rightarrow> True | Some p \<Rightarrow> Some p \<notin> range (map_option fst \<circ> lb_handles (fst s)))"
| "call_ok api env s (LClose db) = change_at api env s db None"
| "call_ok api env s (LInsert db json) =
     change_at api env s db (map_option (\<lambda>d. CInsert (document_new (ce_uuid env) d)) (parsed api json))"
| "call_ok api env s (LGet db i) = change_at api env s db None"
| "call_ok api env s (LUpdate db ident json) =
     change_at api env s db (case ident of None \<Rightarrow> None | Some i \<Rightarrow> map_option (CUpdate i) (parsed api json))"
| "call_ok api env s (LDelete db ident) = change_at api env s db (map_option CDelete ident)"
| "call_ok api env s LLastError = True"
| "call_ok api env s (LFree a) = (a = 0 \<or> lb_strings (fst s) a \<noteq> None)"
| "call_ok api env s call = False"

definition perform :: "'n lib_api \<Rightarrow> call_env \<Rightarrow> 'n client \<Rightarrow> lib_call \<Rightarrow> 'n client" where
  "perform api env s call = (case lib_run api env (fst s) call of Returns (lib, v) \<Rightarrow> (lib, snd s @ [v]) | _ \<Rightarrow> s)"

subsection \<open>Refinement\<close>

lemma fresh_address:
  assumes "lib_ok api lib"
  shows "la_alloc api (addresses lib) \<noteq> 0" "la_alloc api (addresses lib) \<notin> dom (lb_handles lib)"
    "la_alloc api (addresses lib) \<notin> dom (lb_strings lib)"
  using assms by (auto simp: lib_ok_def alloc_ok_def addresses_def)

lemma view_fresh: "fresh api (lib_view api (lib, vs)) = la_alloc api (addresses lib)"
proof -
  have "dom (map_option fst \<circ> lb_handles lib) = dom (lb_handles lib)" by (auto simp: dom_def)
  then show ?thesis by (simp add: fresh_def lib_view_def addresses_def)
qed

lemma lib_ok_string:
  assumes "lib_ok api lib"
  shows "lib_ok api (lib\<lparr>lb_strings := (lb_strings lib)(la_alloc api (addresses lib) \<mapsto> s)\<rparr>)"
    and "lib_ok api (lib\<lparr>lb_strings := (lb_strings lib)(a := None)\<rparr>)"
  using assms fresh_address [OF assms] by (auto simp: lib_ok_def addresses_def)

lemma lib_ok_handle:
  assumes "lib_ok api lib" "Some p \<notin> range (map_option fst \<circ> lb_handles lib)" "agrees (la_codec api) (la_feed api p) fs e"
  shows "lib_ok api (lib\<lparr>lb_disk := (lb_disk lib)(p \<mapsto> fs), lb_handles := (lb_handles lib)(la_alloc api (addresses lib) \<mapsto> (p, e))\<rparr>)"
proof -
  have new: "lb_handles lib h \<noteq> Some (p, e')" for h e'
    using assms(2) by (metis comp_apply fst_conv option.simps(9) rangeI)
  define a where "a = la_alloc api (addresses lib)"
  have "a \<noteq> 0" "a \<notin> dom (lb_handles lib)" "a \<notin> dom (lb_strings lib)"
    using fresh_address [OF assms(1)] by (simp_all add: a_def)
  then show ?thesis unfolding a_def [symmetric]
    using assms(1,3) new unfolding lib_ok_def addresses_def by auto
qed

lemma lib_ok_change:
  assumes "lib_ok api lib" "lb_handles lib db = Some (p, e)" "agrees (la_codec api) (la_feed api p) fs e'"
  shows "lib_ok api (lib\<lparr>lb_handles := (lb_handles lib)(db \<mapsto> (p, e')), lb_disk := (lb_disk lib)(p \<mapsto> fs)\<rparr>)"
proof -
  have other: "q \<noteq> p" if "lb_handles lib h = Some (q, e2)" "h \<noteq> db" for h q e2
    using assms(1,2) that unfolding lib_ok_def by metis
  have dom: "dom ((lb_handles lib)(db \<mapsto> (p, e'))) = dom (lb_handles lib)" using assms(2) by auto
  show ?thesis using assms(1,3) other unfolding lib_ok_def addresses_def by (auto simp: dom simp del: dom_fun_upd)
qed

lemma view_handle:
  assumes "lib_ok api lib" "lb_handles lib db = Some (p, e)"
  shows "\<exists>fs. lb_disk lib p = Some fs \<and> agrees (la_codec api) (la_feed api p) fs e \<and>
    open_docs (lib_view api (lib, vs)) db = eng_abs e"
proof -
  from assms obtain fs where fs: "lb_disk lib p = Some fs" "agrees (la_codec api) (la_feed api p) fs e"
    unfolding lib_ok_def by blast
  then show ?thesis using assms(2) by (auto simp: open_docs_def lib_view_def agrees_docs)
qed

lemma fail_ok:
  assumes "lib_ok api lib"
  shows "lib_ok api (set_error msg lib)" "lib_view api (set_error msg lib, vs @ [r]) = view_fail (lib_view api (lib, vs)) r msg"
  using assms by (simp_all add: set_error_def lib_view_def view_fail_def)

lemma give_string_ok:
  assumes "lib_ok api lib" "lb_error lib = None"
  shows "\<exists>lib' a. give_string api lib what s = Returns (lib', a) \<and> lib_ok api lib' \<and>
    lib_view api (lib', vs @ [Pointer a]) = view_give api (lib_view api (lib, vs)) what s"
proof (cases "CHR 0x00 \<in> set s")
  case True
  then show ?thesis using assms fail_ok [OF assms(1)] by (simp add: give_string_def view_give_def fail_def)
next
  case False
  then have "give_string api lib what s =
      Returns (lib\<lparr>lb_strings := (lb_strings lib)(la_alloc api (addresses lib) \<mapsto> s)\<rparr>, la_alloc api (addresses lib))"
    by (simp add: give_string_def Let_def)
  moreover have "lib_view api (lib\<lparr>lb_strings := (lb_strings lib)(la_alloc api (addresses lib) \<mapsto> s)\<rparr>, vs @ [Pointer (la_alloc api (addresses lib))]) =
      view_give api (lib_view api (lib, vs)) what s"
    using False assms(2) by (simp add: view_give_def view_fresh) (simp add: lib_view_def view_done_def)
  ultimately show ?thesis using lib_ok_string(1) [OF assms(1)] by blast
qed

lemma on_handle_ok:
  assumes "lib_ok api lib" "lb_handles lib db = Some (p, e)" "op_ok (la_codec api) env e op"
    and "f e = (apply_op (la_codec api) env e op, r, sent)"
  shows "\<exists>lib'. on_handle lib db (changing f) k = k lib' r \<and> lib_ok api lib' \<and> lb_error lib' = lb_error lib \<and>
    lib_view api (lib', vs) = put_docs (lib_view api (lib, vs)) db (abs_op env (eng_abs e) op)"
proof -
  let ?e = "apply_op (la_codec api) env e op"
  from view_handle [OF assms(1,2)] obtain fs where fs: "lb_disk lib p = Some fs" "agrees (la_codec api) (la_feed api p) fs e" by blast
  let ?fs = "engine_files (repl_file fs) ?e"
  have run: "db_run (la_codec api) (la_feed api p) e" using fs(2) by (simp add: agrees_def)
  note ok = change_answers(1,2) [OF assms(3) run]
  have new: "agrees (la_codec api) (la_feed api p) ?fs ?e" by (rule agrees_change [OF fs(2) assms(3)])
  let ?lib = "lib\<lparr>lb_handles := (lb_handles lib)(db \<mapsto> (p, ?e)), lb_disk := (lb_disk lib)(p \<mapsto> ?fs)\<rparr>"
  have "on_handle lib db (changing f) k = k ?lib r"
    using assms(2,4) fs(1) agrees_attach [OF fs(2)] by (simp add: on_handle_def changing_def)
  moreover have "lib_view api (?lib, vs) = put_docs (lib_view api (lib, vs)) db (abs_op env (eng_abs e) op)"
    using assms(2) agrees_docs [OF new] ok(2) by (auto simp: lib_view_def put_docs_def fun_eq_iff)
  ultimately show ?thesis using lib_ok_change [OF assms(1,2) new] by auto
qed

lemma view_clear [simp]:
  "view_fail (lib_view api (clear_error lib, vs)) r msg = view_fail (lib_view api (lib, vs)) r msg"
  "view_give api (put_docs (lib_view api (clear_error lib, vs)) db m) what s = view_give api (put_docs (lib_view api (lib, vs)) db m) what s"
  "view_give api (lib_view api (clear_error lib, vs)) what s = view_give api (lib_view api (lib, vs)) what s"
  "view_done (put_docs (lib_view api (clear_error lib, vs)) db m) r = view_done (put_docs (lib_view api (lib, vs)) db m) r"
  by (auto simp: view_fail_def view_give_def view_done_def put_docs_def lib_view_def clear_error_def fresh_def split: option.split)

definition meets :: "'n lib_api \<Rightarrow> c_value list \<Rightarrow> ('n library \<times> c_value) exit \<Rightarrow> 'n lib_view \<Rightarrow> bool" where
  "meets api vs x v \<longleftrightarrow> (\<exists>lib r. x = Returns (lib, r) \<and> lib_ok api lib \<and> lib_view api (lib, vs @ [r]) = v)"

lemma meets_fail [simp]:
  "lib_ok api lib \<Longrightarrow> meets api vs (exit_map (map_prod id C) (fail (clear_error lib) r msg)) (view_fail (lib_view api (lib, vs)) (C r) msg)"
  using fail_ok(1) [of api "clear_error lib" msg] fail_ok(2) [of api "clear_error lib" msg vs "C r"] by (simp add: meets_def fail_def clear_error_def view_clear [unfolded clear_error_def])

lemma meets_give:
  "lib_ok api lib \<Longrightarrow> lb_error lib = None \<Longrightarrow>
   meets api vs (exit_map (map_prod id Pointer) (give_string api lib what s)) (view_give api (lib_view api (lib, vs)) what s)"
  using give_string_ok [of api lib what s vs] by (auto simp: meets_def)

lemma cleared [simp]: "lib_ok api (clear_error lib) = lib_ok api lib" "lb_handles (clear_error lib) = lb_handles lib"
  "lb_disk (clear_error lib) = lb_disk lib" "lb_strings (clear_error lib) = lb_strings lib" "addresses (clear_error lib) = addresses lib"
  by (simp_all add: clear_error_def addresses_def)

lemma same_disk: "clear_error lib\<lparr>lb_disk := lb_disk lib\<rparr> = clear_error lib"
  by (simp add: clear_error_def)

lemma open_docs_clear [simp]: "open_docs (lib_view api (clear_error lib, vs)) db = open_docs (lib_view api (lib, vs)) db"
  by (auto simp: open_docs_def lib_view_def clear_error_def split: option.split)

lemma handle_result_ok:
  assumes "lib_ok api lib" "lb_error lib = None"
  shows "meets api vs (exit_map (map_prod id Code) (handle_result api lib (Ok x))) (view_done (lib_view api (lib, vs)) (Code 0))"
    and "meets api vs (exit_map (map_prod id Code) (handle_result api lib (Err y)))
      (view_fail (lib_view api (lib, vs)) (Code (-1)) (error_text (la_detail api) y))"
proof -
  show "meets api vs (exit_map (map_prod id Code) (handle_result api lib (Ok x))) (view_done (lib_view api (lib, vs)) (Code 0))"
    using assms by (simp add: meets_def handle_result_def) (simp add: lib_view_def view_done_def clear_error_def)
  show "meets api vs (exit_map (map_prod id Code) (handle_result api lib (Err y)))
      (view_fail (lib_view api (lib, vs)) (Code (-1)) (error_text (la_detail api) y))"
    using fail_ok [OF assms(1)] by (simp add: meets_def handle_result_def)
qed

lemma document_new_stored [simp]: "stored_doc env (document_new (ce_uuid env) d) = document_new (ce_uuid env) d"
  by (simp add: stored_doc_def document_new_def)

lemma document_new_id [simp]: "doc_id (document_new i d) = i"
  by (simp add: document_new_def)

lemma insert_meets:
  assumes "lib_ok api lib" "call_ok api env (lib, vs) (LInsert db json)"
  shows "meets api vs (lib_run api env lib (LInsert db json)) (lib_spec api env (lib_view api (lib, vs)) (LInsert db json))"
proof (cases "db = 0 \<or> json = None \<or> \<not> valid_utf8 (the json) \<or> parsed api json = None")
  case True
  then show ?thesis using assms(1) by (auto simp: cassette_insert_def Let_def split: option.split sum.splits)
next
  case False
  then obtain s d where s: "db \<noteq> 0" "json = Some s" "valid_utf8 s" "la_parse api s = Inr d" by (auto split: sum.splits)
  let ?doc = "document_new (ce_uuid env) d" and ?c = "la_codec api"
  from assms(2) s obtain p e where h: "lb_handles lib db = Some (p, e)" "op_ok ?c env e (CInsert ?doc)"
    by (auto simp: change_at_def simp del: op_ok.simps split: option.splits)
  from view_handle [OF assms(1) h(1)] obtain fs where fs: "agrees ?c (la_feed api p) fs e" "open_docs (lib_view api (lib, vs)) db = eng_abs e" by blast
  have run: "db_run ?c (la_feed api p) e" using fs(1) by (simp add: agrees_def)
  obtain sent where ins: "engine_insert ?c env e ?doc = (apply_op ?c env e (CInsert ?doc), Ok (ce_uuid env), sent)"
    using change_results(1) [OF run h(2)] by auto
  have ok: "lib_ok api (clear_error lib)" "lb_handles (clear_error lib) db = Some (p, e)" using assms(1) h(1) by simp_all
  let ?k = "\<lambda>lib r. case r of Ok i \<Rightarrow> give_string api lib ''Document ID'' i | Err x \<Rightarrow> fail lib 0 (error_text (la_detail api) x) | Panic \<Rightarrow> Aborts"
  obtain lib' where lib': "on_handle (clear_error lib) db (changing (\<lambda>e. engine_insert ?c env e ?doc)) ?k = ?k lib' (Ok (ce_uuid env))"
    "lib_ok api lib'" "lb_error lib' = None"
    "lib_view api (lib', vs) = put_docs (lib_view api (clear_error lib, vs)) db (abs_op env (eng_abs e) (CInsert ?doc))"
    using on_handle_ok [where f = "\<lambda>e. engine_insert ?c env e ?doc" and k = ?k and vs = vs, OF ok h(2) ins] by auto
  have "meets api vs (exit_map (map_prod id Pointer) (give_string api lib' ''Document ID'' (ce_uuid env)))
     (view_give api (put_docs (lib_view api (lib, vs)) db ((eng_abs e)(ce_uuid env \<mapsto> ?doc))) ''Document ID'' (ce_uuid env))"
    using meets_give [OF lib'(2,3), of vs "''Document ID''" "ce_uuid env"] unfolding lib'(4) by (simp cong: if_cong)
  with s fs(2) lib'(1) show ?thesis by (simp add: cassette_insert_def Let_def)
qed

lemma get_meets:
  assumes "lib_ok api lib" "call_ok api env (lib, vs) (LGet db ident)"
  shows "meets api vs (lib_run api env lib (LGet db ident)) (lib_spec api env (lib_view api (lib, vs)) (LGet db ident))"
proof (cases "db = 0 \<or> ident = None \<or> \<not> valid_utf8 (the ident)")
  case True
  then show ?thesis using assms(1) by (auto simp: cassette_get_def Let_def split: option.split)
next
  case False
  then obtain i where i: "db \<noteq> 0" "ident = Some i" "valid_utf8 i" by auto
  from assms(2) i obtain p e where h: "lb_handles lib db = Some (p, e)" by (auto simp: change_at_def split: option.splits)
  have "open_docs (lib_view api (lib, vs)) db = eng_abs e" using view_handle [OF assms(1) h] by blast
  moreover have "meets api vs (exit_map (map_prod id Pointer) (give_string api (clear_error lib) what s)) (view_give api (lib_view api (lib, vs)) what s)" for what s
    using meets_give [of api "clear_error lib" vs what s] assms(1) by simp
  ultimately show ?thesis using i h assms(1)
    by (auto simp: cassette_get_def engine_get_def eng_abs_def Let_def split: option.split sum.split)
qed

text \<open>Update and delete: a change of the handle's engine with its answer, through \<open>handle_result\<close>.\<close>

lemma change_meets:
  assumes "lib_ok api lib" "lb_handles lib db = Some (p, e)" "op_ok (la_codec api) env e op"
    and "fst (f e) = apply_op (la_codec api) env e op" "fst (snd (f e)) = (if eng_abs e i = None then Err (NotFound i) else Ok ())"
  shows "meets api vs (exit_map (map_prod id Code) (on_handle (clear_error lib) db (changing f) (handle_result api)))
    (if eng_abs e i = None then view_fail (put_docs (lib_view api (lib, vs)) db (abs_op env (eng_abs e) op)) (Code (-1)) (''Document not found: '' @ i)
     else view_done (put_docs (lib_view api (lib, vs)) db (abs_op env (eng_abs e) op)) (Code 0))"
proof -
  obtain sent where f: "f e = (apply_op (la_codec api) env e op, if eng_abs e i = None then Err (NotFound i) else Ok (), sent)"
    using assms(4,5) by (cases "f e") auto
  have ok: "lib_ok api (clear_error lib)" "lb_handles (clear_error lib) db = Some (p, e)" using assms(1,2) by simp_all
  obtain lib' where lib': "on_handle (clear_error lib) db (changing f) (handle_result api) =
      handle_result api lib' (if eng_abs e i = None then Err (NotFound i) else Ok ())" "lib_ok api lib'"
    "lib_view api (lib', vs) = put_docs (lib_view api (clear_error lib, vs)) db (abs_op env (eng_abs e) op)"
    and err: "lb_error lib' = lb_error (clear_error lib)"
    using on_handle_ok [where f = f and k = "handle_result api" and vs = vs, OF ok assms(3) f] by blast
  have none: "lb_error lib' = None" using err by simp
  have fail: "view_fail (put_docs (lib_view api (clear_error lib, vs)) db m) r msg = view_fail (put_docs (lib_view api (lib, vs)) db m) r msg" for m r msg
    by (auto simp: view_fail_def put_docs_def lib_view_def clear_error_def split: option.split)
  show ?thesis
    using handle_result_ok(1) [OF lib'(2) none, of vs "()"] handle_result_ok(2) [OF lib'(2) none, of vs "NotFound i"]
    unfolding lib'(1,3) fail view_clear by (cases "eng_abs e i") simp_all
qed

lemma put_docs_same:
  assumes "lib_ok api lib" "lb_handles lib db = Some (p, e)"
  shows "put_docs (lib_view api (lib, vs)) db (eng_abs e) = lib_view api (lib, vs)"
proof -
  from view_handle [OF assms] obtain fs where "lb_disk lib p = Some fs" "agrees (la_codec api) (la_feed api p) fs e" by blast
  then show ?thesis using assms(2) by (auto simp: put_docs_def lib_view_def agrees_docs fun_eq_iff)
qed

lemma update_meets:
  assumes "lib_ok api lib" "call_ok api env (lib, vs) (LUpdate db ident json)"
  shows "meets api vs (lib_run api env lib (LUpdate db ident json)) (lib_spec api env (lib_view api (lib, vs)) (LUpdate db ident json))"
proof (cases "db = 0 \<or> ident = None \<or> json = None \<or> \<not> valid_utf8 (the ident) \<or> \<not> valid_utf8 (the json) \<or> parsed api json = None")
  case True
  then show ?thesis using assms(1) by (auto simp: cassette_update_def Let_def split: option.split sum.splits)
next
  case False
  then obtain i s d where s: "db \<noteq> 0" "ident = Some i" "json = Some s" "valid_utf8 i" "valid_utf8 s" "la_parse api s = Inr d"
    by (auto split: sum.splits)
  let ?c = "la_codec api"
  from assms(2) s obtain p e where h: "lb_handles lib db = Some (p, e)" "op_ok ?c env e (CUpdate i d)"
    by (auto simp: change_at_def simp del: op_ok.simps split: option.splits)
  from view_handle [OF assms(1) h(1)] obtain fs where fs: "agrees ?c (la_feed api p) fs e" "open_docs (lib_view api (lib, vs)) db = eng_abs e" by blast
  have run: "db_run ?c (la_feed api p) e" using fs(1) by (simp add: agrees_def)
  have "meets api vs (exit_map (map_prod id Code) (on_handle (clear_error lib) db (changing (\<lambda>e. engine_update ?c env e i d)) (handle_result api)))
    (if eng_abs e i = None then view_fail (put_docs (lib_view api (lib, vs)) db (abs_op env (eng_abs e) (CUpdate i d))) (Code (-1)) (''Document not found: '' @ i)
     else view_done (put_docs (lib_view api (lib, vs)) db (abs_op env (eng_abs e) (CUpdate i d))) (Code 0))"
    by (rule change_meets [OF assms(1) h]) (simp_all only: apply_op.simps change_answers(4) [OF h(2) run refl])
  moreover have "put_docs (lib_view api (lib, vs)) db (eng_abs e) = lib_view api (lib, vs)"
    using put_docs_same [OF assms(1) h(1)] .
  ultimately show ?thesis using s fs(2) by (cases "eng_abs e i") (simp_all add: cassette_update_def Let_def)
qed

lemma delete_meets:
  assumes "lib_ok api lib" "call_ok api env (lib, vs) (LDelete db ident)"
  shows "meets api vs (lib_run api env lib (LDelete db ident)) (lib_spec api env (lib_view api (lib, vs)) (LDelete db ident))"
proof (cases "db = 0 \<or> ident = None \<or> \<not> valid_utf8 (the ident)")
  case True
  then show ?thesis using assms(1) by (auto simp: cassette_delete_def Let_def split: option.split)
next
  case False
  then obtain i where s: "db \<noteq> 0" "ident = Some i" "valid_utf8 i" by auto
  let ?c = "la_codec api"
  from assms(2) s obtain p e where h: "lb_handles lib db = Some (p, e)" "op_ok ?c env e (CDelete i)"
    by (auto simp: change_at_def simp del: op_ok.simps split: option.splits)
  from view_handle [OF assms(1) h(1)] obtain fs where fs: "agrees ?c (la_feed api p) fs e" "open_docs (lib_view api (lib, vs)) db = eng_abs e" by blast
  have run: "db_run ?c (la_feed api p) e" using fs(1) by (simp add: agrees_def)
  have "meets api vs (exit_map (map_prod id Code) (on_handle (clear_error lib) db (changing (\<lambda>e. engine_delete ?c env e i)) (handle_result api)))
    (if eng_abs e i = None then view_fail (put_docs (lib_view api (lib, vs)) db (abs_op env (eng_abs e) (CDelete i))) (Code (-1)) (''Document not found: '' @ i)
     else view_done (put_docs (lib_view api (lib, vs)) db (abs_op env (eng_abs e) (CDelete i))) (Code 0))"
    by (rule change_meets [OF assms(1) h]) (simp_all only: apply_op.simps change_answers(5) [OF h(2) run refl])
  moreover have "put_docs (lib_view api (lib, vs)) db (eng_abs e) = lib_view api (lib, vs)"
    using put_docs_same [OF assms(1) h(1)] .
  ultimately show ?thesis using s fs(2) by (cases "eng_abs e i") (simp_all add: cassette_delete_def Let_def fun_upd_idem)
qed

lemma open_meets:
  assumes "lib_ok api lib" "call_ok api env (lib, vs) (LOpen path)"
  shows "meets api vs (lib_run api env lib (LOpen path)) (lib_spec api env (lib_view api (lib, vs)) (LOpen path))"
proof (cases "path = None \<or> \<not> valid_utf8 (the path)")
  case True
  then show ?thesis using assms(1) by (auto simp: cassette_db_open_def Let_def split: option.split)
next
  case False
  then obtain p where p: "path = Some p" "valid_utf8 p" by auto
  let ?c = "la_codec api" and ?en = "la_feed api p" and ?a = "la_alloc api (addresses lib)"
  have dbs: "lv_dbs (lib_view api (lib, vs)) p = map_option (path_docs api p) (lb_disk lib p)" by (simp add: lib_view_def)
  show ?thesis
  proof (cases "lb_disk lib p = None \<and> \<not> la_dir api p")
    case True
    then have "open_path api (lb_disk lib) p = (lb_disk lib, Err (Io ''No such file or directory (os error 2)''))"
      by (simp add: open_path_def)
    then show ?thesis using p True dbs assms(1) by (simp add: cassette_db_open_def same_disk)
  next
    case False
    obtain fs e where fs: "open_path api (lb_disk lib) p = ((lb_disk lib)(p \<mapsto> fs), Ok e)" "agrees ?c ?en fs e"
      "eng_abs e = (case lb_disk lib p of None \<Rightarrow> Map.empty | Some fs' \<Rightarrow> path_docs api p fs')"
    proof (cases "lb_disk lib p")
      case None
      from agrees_fresh [of ?c ?en] obtain e where "engine_open ?c ?en no_files = Ok e" "agrees ?c ?en (opened_with ?c ?en no_files) e"
        "eng_docs e = []" by blast
      then show ?thesis using that None False by (simp add: open_path_def eng_abs_def)
    next
      case (Some fs')
      with assms(1) obtain e where e: "agrees ?c ?en fs' e" unfolding lib_ok_def by blast
      show ?thesis using that [of fs' "without_subscribers e"] agrees_open [OF e] agrees_docs [OF e] Some
        by (simp add: open_path_def eng_abs_without_subscribers)
    qed
    let ?lib = "clear_error lib\<lparr>lb_disk := (lb_disk lib)(p \<mapsto> fs), lb_handles := (lb_handles lib)(?a \<mapsto> (p, e))\<rparr>"
    have "lib_ok api ?lib"
      using lib_ok_handle [OF _ _ fs(2), of "clear_error lib"] assms(1,2) p(1) by simp
    moreover have "lib_view api (?lib, vs @ [Pointer ?a]) = lib_spec api env (lib_view api (lib, vs)) (LOpen path)"
      using p dbs False fs(3) agrees_docs [OF fs(2)]
      by (auto simp: view_fresh view_done_def split: option.splits) (auto simp: lib_view_def clear_error_def fun_eq_iff)
    ultimately show ?thesis using p fs(1) by (simp add: cassette_db_open_def meets_def Let_def)
  qed
qed

lemma other_meets:
  assumes "lib_ok api lib"
  shows "db = 0 \<or> lb_handles lib db \<noteq> None \<Longrightarrow>
      meets api vs (lib_run api env lib (LClose db)) (lib_spec api env (lib_view api (lib, vs)) (LClose db))"
    and "meets api vs (lib_run api env lib LLastError) (lib_spec api env (lib_view api (lib, vs)) LLastError)"
    and "a = 0 \<or> lb_strings lib a \<noteq> None \<Longrightarrow>
      meets api vs (lib_run api env lib (LFree a)) (lib_spec api env (lib_view api (lib, vs)) (LFree a))"
proof -
  have zero: "lb_handles lib 0 = None" "lb_strings lib 0 = None" using assms by (auto simp: lib_ok_def addresses_def)
  have "lib_ok api (lib\<lparr>lb_handles := (lb_handles lib)(db := None)\<rparr>)"
    using assms unfolding lib_ok_def addresses_def by auto
  then show "meets api vs (lib_run api env lib (LClose db)) (lib_spec api env (lib_view api (lib, vs)) (LClose db))"
    if "db = 0 \<or> lb_handles lib db \<noteq> None"
    using that assms zero by (auto simp: cassette_db_close_def meets_def lib_view_def fun_eq_iff)
  show "meets api vs (lib_run api env lib LLastError) (lib_spec api env (lib_view api (lib, vs)) LLastError)"
    using assms lib_ok_string(1) [OF assms] by (auto simp: cassette_last_error_def meets_def Let_def view_fresh) (auto simp: lib_view_def)
  show "meets api vs (lib_run api env lib (LFree a)) (lib_spec api env (lib_view api (lib, vs)) (LFree a))"
    if "a = 0 \<or> lb_strings lib a \<noteq> None"
    using that assms zero lib_ok_string(2) [OF assms, of a] by (auto simp: cassette_free_string_def meets_def lib_view_def fun_eq_iff)
qed

lemma call_meets:
  assumes "lib_ok api (fst s)" "call_ok api env s call"
  shows "meets api (snd s) (lib_run api env (fst s) call) (lib_spec api env (lib_view api s) call)"
proof -
  obtain lib vs where s: "s = (lib, vs)" by (cases s)
  note ok = assms(1) [unfolded s fst_conv] and call = assms(2) [unfolded s]
  show ?thesis unfolding s fst_conv snd_conv
  proof (cases call)
    case (LClose db)
    with call ok have "db = 0 \<or> lb_handles lib db \<noteq> None" by (auto simp: change_at_def split: option.splits)
    then show "meets api vs (lib_run api env lib call) (lib_spec api env (lib_view api (lib, vs)) call)"
      using other_meets(1) [OF ok] LClose by simp
  next
    case (LFree a)
    with call have "a = 0 \<or> lb_strings lib a \<noteq> None" by simp
    then show "meets api vs (lib_run api env lib call) (lib_spec api env (lib_view api (lib, vs)) call)"
      using other_meets(3) [OF ok] LFree by simp
  qed (use call ok open_meets insert_meets get_meets update_meets delete_meets other_meets(2) in
      \<open>simp_all del: lib_run.simps lib_spec.simps call_ok.simps(1-6)\<close>)
qed

text \<open>The rules of the client are the interface of a store, which the library implements.\<close>

interpretation ffi: doc_store "\<lambda>s. lib_ok api (fst s)" "call_ok api" "perform api" "lib_view api" "lib_spec api" for api :: "'n lib_api"
proof
  fix s :: "'n client" and env call
  assume "lib_ok api (fst s)" "call_ok api env s call"
  from call_meets [OF this] obtain lib r where "lib_run api env (fst s) call = Returns (lib, r)" "lib_ok api lib"
    "lib_view api (lib, snd s @ [r]) = lib_spec api env (lib_view api s) call" by (auto simp: meets_def)
  then show "lib_ok api (fst (perform api env s call))" "lib_view api (perform api env s call) = lib_spec api env (lib_view api s) call"
    by (simp_all add: perform_def)
qed


text \<open>
  A query can end the process. The parser panics on a comparison with a lone quotation mark,
  and a panic does not leave an \<open>extern "C"\<close> function: on any handle, and even without one that is
  live, such a query aborts the client.
\<close>

theorem ffi_query_aborts:
  assumes "db \<noteq> 0" "path_ok segs" "q = CHR 34 \<or> q = CHR 39" "valid_utf8 (comparison_text (join ''.'' segs) ''=='' [q])"
  shows "cassette_query api lib db (Some (comparison_text (join ''.'' segs) ''=='' [q])) = Aborts"
  using assms parse_lone_quote_panics [OF assms(2,3), of "la_num api"] by (simp add: cassette_query_def Let_def)

subsection \<open>Witnesses\<close>

lemma valid_ascii: "is_ascii s \<Longrightarrow> valid_utf8 s"
  by (simp add: valid_utf8_def utf8_lossy_ascii)

definition toy_lib :: "unit lib_api" where
  "toy_lib = \<lparr>la_codec = toy_codec, la_num = toy_numbers, la_parse = (\<lambda>s. if s = [] then Inl ''empty'' else Inr (JStr s)),
     la_doc = (\<lambda>d. Inr (doc_id d)), la_docs = (\<lambda>ds. Inr (concat (map doc_id ds))), la_pretty = (\<lambda>ds. []), la_detail = [],
     la_dir = (\<lambda>_. True), la_feed = (\<lambda>_. False), la_alloc = (\<lambda>A. if A = {} then 1 else Suc (Max A))\<rparr>"

lemma toy_alloc: "alloc_ok toy_lib" "la_alloc toy_lib A \<noteq> 0"
proof -
  have "Suc (Max A) \<notin> A" if "finite A" for A
    using that Max_ge Suc_n_not_le_n by metis
  then show "alloc_ok toy_lib" "la_alloc toy_lib A \<noteq> 0" by (auto simp: alloc_ok_def toy_lib_def)
qed

theorem ffi_error_convention_witness:
  "\<exists>lib1 lib2 p. lib_run toy_lib toy_env (lib_start Map.empty) (LInsert 0 None) = Returns (lib1, Pointer 0) \<and>
     cassette_last_error toy_lib lib1 = Returns (lib2, p) \<and> lb_strings lib2 p = Some ''Null database pointer''"
proof -
  have run: "lib_run toy_lib toy_env (lib_start Map.empty) (LInsert 0 None) =
      Returns (lib_start Map.empty\<lparr>lb_error := Some ''Null database pointer''\<rparr>, Pointer 0)"
    by (simp add: cassette_insert_def fail_def set_error_def clear_error_def lib_start_def)
  have "CHR 0x00 \<notin> set ''Null database pointer''" by simp
  then show ?thesis using conjunct2 [OF ffi_error_convention [OF _ run]] toy_alloc(2) run by (simp add: lib_start_def) blast
qed


theorem ffi_query_aborts_witness: "cassette_query toy_lib (lib_start Map.empty) 5 (Some (''name == '' @ [CHR 34])) = Aborts"
proof -
  have "valid_utf8 (''name == '' @ [CHR 34])" by (simp add: valid_ascii is_ascii_def)
  then show ?thesis using ffi_query_aborts [of 5 "[''name'']" "CHR 34" toy_lib "lib_start Map.empty"]
    by (simp add: path_ok_def operand_text_def no_parens_def is_whitespace_def comparison_text_def)
qed

end
