(* ===== verification/Cluster.thy ===== *)
theory Cluster
  imports RaftElection
begin

text \<open>
  Cluster membership, health and failover (\<open>src/src/cluster.rs\<close>). A cluster node is its
  configuration, the file it saves it to, its Raft node, the health records of its peers and the
  time of its last failover. \<open>Instant::now()\<close> is an argument in milliseconds; a \<open>tick\<close>, which
  reads the clock many times, gets it as a function of the number of the reading. The JSON coding
  of the configuration is an argument. \<open>ClusterManager\<close> and the status summaries only pass calls
  and values on.
\<close>

subsection \<open>Configuration\<close>

datatype node_role = NodePrimary | NodeSecondary | NodeObserver

record node_info =
  ni_id :: string
  ni_address :: string
  ni_role :: node_role
  ni_last_seen :: int

record cluster_config =
  cc_id :: string
  cc_nodes :: "node_info list"
  cc_failover :: bool
  cc_interval :: nat
  cc_timeout :: nat

definition cluster_config_new :: "string \<Rightarrow> node_info \<Rightarrow> cluster_config" where
  "cluster_config_new i seed =
     \<lparr>cc_id = i, cc_nodes = [seed], cc_failover = True, cc_interval = 1000, cc_timeout = 3000\<rparr>"

definition config_load :: "(bytes \<Rightarrow> cluster_config option) \<Rightarrow> bytes option \<Rightarrow> cluster_config outcome" where
  "config_load dec file =
     and_then (ok_or file (Io ''No such file or directory (os error 2)'')) (\<lambda>bs. ok_or (dec bs) Serialization)"

definition find_node :: "cluster_config \<Rightarrow> string \<Rightarrow> node_info option" where
  "find_node cfg i = List.find (\<lambda>n. ni_id n = i) (cc_nodes cfg)"

definition config_add_node :: "node_info \<Rightarrow> cluster_config \<Rightarrow> cluster_config" where
  "config_add_node node cfg =
     (if ni_id node \<in> set (map ni_id (cc_nodes cfg)) then cfg else cfg\<lparr>cc_nodes := cc_nodes cfg @ [node]\<rparr>)"

definition config_remove_node :: "string \<Rightarrow> cluster_config \<Rightarrow> cluster_config" where
  "config_remove_node i cfg = cfg\<lparr>cc_nodes := filter (\<lambda>n. ni_id n \<noteq> i) (cc_nodes cfg)\<rparr>"

definition voting_nodes :: "cluster_config \<Rightarrow> node_info list" where
  "voting_nodes cfg = filter (\<lambda>n. ni_role n \<noteq> NodeObserver) (cc_nodes cfg)"

definition primary :: "cluster_config \<Rightarrow> node_info option" where
  "primary cfg = List.find (\<lambda>n. ni_role n = NodePrimary) (cc_nodes cfg)"

subsection \<open>Cluster nodes\<close>

datatype health_status = Healthy | Unhealthy | HealthUnknown

record health_record =
  hr_status :: health_status
  hr_last_heartbeat :: nat
  hr_missed :: nat

record cluster_node =
  cl_local :: string
  cl_file :: "bytes option"
  cl_config :: cluster_config
  cl_raft :: raft_node
  cl_health :: "(string, health_record) hashmap"
  cl_last_failover :: "nat option"

definition failover_cooldown :: nat where
  "failover_cooldown = 5000"

definition init_cluster ::
  "(cluster_config \<Rightarrow> bytes) \<Rightarrow> string \<Rightarrow> string \<Rightarrow> string \<Rightarrow> int \<Rightarrow> nat \<Rightarrow> cluster_node" where
  "init_cluster enc i local address stamp now =
     (let cfg = cluster_config_new i
            \<lparr>ni_id = local, ni_address = address, ni_role = NodePrimary, ni_last_seen = stamp\<rparr>
      in \<lparr>cl_local = local, cl_file = Some (enc cfg), cl_config = cfg, cl_raft = raft_new local [] now,
          cl_health = [], cl_last_failover = None\<rparr>)"

text \<open>The peers of the Raft node: every other node of the configuration, observers included.\<close>

definition config_peers :: "string \<Rightarrow> cluster_config \<Rightarrow> string list" where
  "config_peers local cfg = remdups_adj (sort (filter (\<lambda>i. i \<noteq> local) (map ni_id (cc_nodes cfg))))"

definition join_cluster :: "string \<Rightarrow> bytes option \<Rightarrow> cluster_config \<Rightarrow> nat \<Rightarrow> cluster_node" where
  "join_cluster local file cfg now =
     \<lparr>cl_local = local, cl_file = file, cl_config = cfg, cl_raft = raft_new local (config_peers local cfg) now,
      cl_health = [], cl_last_failover = None\<rparr>"

definition cluster_load ::
  "(bytes \<Rightarrow> cluster_config option) \<Rightarrow> string \<Rightarrow> bytes option \<Rightarrow> nat \<Rightarrow> cluster_node outcome" where
  "cluster_load dec local file now =
     and_then (config_load dec file) (\<lambda>cfg.
       Ok \<lparr>cl_local = local, cl_file = file, cl_config = cfg, cl_raft = raft_new local (config_peers local cfg) now,
           cl_health = [], cl_last_failover = None\<rparr>)"

text \<open>The file \<open>cluster.json\<close> of the directory of the node, which is made when it is missing.\<close>

definition config_save :: "(cluster_config \<Rightarrow> bytes) \<Rightarrow> cluster_config \<Rightarrow> bytes option" where
  "config_save enc cfg = Some (enc cfg)"

definition save_config :: "(cluster_config \<Rightarrow> bytes) \<Rightarrow> cluster_node \<Rightarrow> cluster_node" where
  "save_config enc n = n\<lparr>cl_file := config_save enc (cl_config n)\<rparr>"

declare config_save_def [simp]

definition cluster_is_leader :: "cluster_node \<Rightarrow> bool" where
  "cluster_is_leader n = is_leader (cl_raft n)"

definition cluster_propose :: "cluster_node \<Rightarrow> cluster_command \<Rightarrow> cluster_node \<times> unit outcome" where
  "cluster_propose n cmd =
     (let (r, res) = propose (cl_raft n) cmd in (n\<lparr>cl_raft := r\<rparr>, outcome_map (\<lambda>_. ()) res))"

definition cluster_add_node ::
  "(cluster_config \<Rightarrow> bytes) \<Rightarrow> cluster_node \<Rightarrow> node_info \<Rightarrow> cluster_node \<times> unit outcome" where
  "cluster_add_node enc n node =
     (if \<not> cluster_is_leader n then (n, Err (ClusterError ''only the leader can add nodes''))
      else (let n1 = save_config enc (n\<lparr>cl_config := config_add_node node (cl_config n)\<rparr>);
                n2 = n1\<lparr>cl_raft := add_peer (cl_raft n1) (ni_id node)\<rparr>
            in cluster_propose n2 (AddNode (ni_id node) (ni_address node))))"

definition cluster_remove_node ::
  "(cluster_config \<Rightarrow> bytes) \<Rightarrow> cluster_node \<Rightarrow> string \<Rightarrow> cluster_node \<times> unit outcome" where
  "cluster_remove_node enc n i =
     (if \<not> cluster_is_leader n then (n, Err (ClusterError ''only the leader can remove nodes''))
      else (let n1 = save_config enc (n\<lparr>cl_config := config_remove_node i (cl_config n)\<rparr>);
                n2 = n1\<lparr>cl_raft := remove_peer (cl_raft n1) i\<rparr>
            in cluster_propose n2 (RemoveNode i)))"

definition record_heartbeat :: "nat \<Rightarrow> cluster_node \<Rightarrow> string \<Rightarrow> cluster_node" where
  "record_heartbeat now n peer =
     n\<lparr>cl_health := hm_insert peer \<lparr>hr_status = Healthy, hr_last_heartbeat = now, hr_missed = 0\<rparr> (cl_health n)\<rparr>"

definition record_missed_heartbeat :: "nat \<Rightarrow> cluster_node \<Rightarrow> string \<Rightarrow> cluster_node" where
  "record_missed_heartbeat now n peer =
     (let r = (case hm_get (cl_health n) peer of
                 Some r \<Rightarrow> r
               | None \<Rightarrow> \<lparr>hr_status = HealthUnknown, hr_last_heartbeat = now, hr_missed = 0\<rparr>);
          r1 = r\<lparr>hr_missed := u32_add (hr_missed r) 1\<rparr>;
          r2 = (if 3 \<le> hr_missed r1 then r1\<lparr>hr_status := Unhealthy\<rparr> else r1)
      in n\<lparr>cl_health := hm_insert peer r2 (cl_health n)\<rparr>)"

definition health_snapshot :: "cluster_node \<Rightarrow> (string, health_status) hashmap" where
  "health_snapshot n = map (\<lambda>(k, v). (k, hr_status v)) (cl_health n)"

subsection \<open>Failover\<close>

definition should_failover :: "nat \<Rightarrow> cluster_node \<Rightarrow> string \<Rightarrow> bool" where
  "should_failover now n failed =
     (if \<not> cc_failover (cl_config n) then False
      else case find_node (cl_config n) failed of
          None \<Rightarrow> False
        | Some node \<Rightarrow>
            if ni_role node \<noteq> NodePrimary then False
            else if cl_local n = failed then False
            else case cl_last_failover n of
                Some t \<Rightarrow> \<not> now - t < failover_cooldown
              | None \<Rightarrow> True)"

definition failover_role :: "string \<Rightarrow> string \<Rightarrow> node_info \<Rightarrow> node_info" where
  "failover_role local failed nd =
     (let n1 = (if ni_id nd = failed then nd\<lparr>ni_role := NodeSecondary\<rparr> else nd)
      in if ni_id n1 = local then n1\<lparr>ni_role := NodePrimary\<rparr> else n1)"

text \<open>\<open>now\<close> is the time of the check, \<open>now'\<close> that of the note at the end.\<close>

definition perform_failover ::
  "(cluster_config \<Rightarrow> bytes) \<Rightarrow> nat \<Rightarrow> nat \<Rightarrow> cluster_node \<Rightarrow> string \<Rightarrow> cluster_node \<times> unit outcome" where
  "perform_failover enc now now' n failed =
     (if \<not> should_failover now n failed then (n, Err (ClusterError ''failover preconditions not met''))
      else (let cfg = (cl_config n)\<lparr>cc_nodes := map (failover_role (cl_local n) failed) (cc_nodes (cl_config n))\<rparr>;
                n1 = save_config enc (n\<lparr>cl_config := cfg\<rparr>)
            in (n1\<lparr>cl_last_failover := Some now'\<rparr>, Ok ())))"

subsection \<open>The tick\<close>

text \<open>The loop over the peers in which a candidate answers its own vote request for each of them.\<close>

fun tick_votes :: "(nat \<Rightarrow> nat) \<Rightarrow> vote_request \<Rightarrow> string list \<Rightarrow> raft_node \<Rightarrow> bool \<Rightarrow> raft_node \<times> bool" where
  "tick_votes clock req [] r became = (r, became)"
| "tick_votes clock req (peer # ps) r became =
     (let (r1, res) = handle_request_vote (clock 0) r req;
          (r2, won) = record_vote r1 peer res
      in tick_votes (\<lambda>i. clock (Suc i)) req ps r2 (became \<or> won))"

fun tick_heartbeats :: "(nat \<Rightarrow> nat) \<Rightarrow> string list \<Rightarrow> cluster_node \<Rightarrow> cluster_node" where
  "tick_heartbeats clock [] n = n"
| "tick_heartbeats clock (peer # ps) n =
     tick_heartbeats (\<lambda>i. clock (Suc i)) ps (record_heartbeat (clock 0) n peer)"

definition tick :: "(nat \<Rightarrow> nat) \<Rightarrow> cluster_node \<Rightarrow> cluster_node \<times> bool" where
  "tick clock n =
     (let r = cl_raft n in
      if role (volatile r) = RoleLeader
      then (let n1 = tick_heartbeats clock (peers r) n
            in (n1\<lparr>cl_raft := fst (apply_committed r)\<rparr>, False))
      else if election_due (clock 0) r
      then (let (r1, req) = start_election (clock 1) r;
                (r2, became) = tick_votes (\<lambda>i. clock (i + 2)) req (filter (\<lambda>p. p \<noteq> cl_local n) (peers r1)) r1 False
            in (n\<lparr>cl_raft := r2\<rparr>, became))
      else (n, False))"

subsection \<open>The manager\<close>

definition set_failover_enabled :: "(cluster_config \<Rightarrow> bytes) \<Rightarrow> cluster_node \<Rightarrow> bool \<Rightarrow> cluster_node" where
  "set_failover_enabled enc n enabled = save_config enc (n\<lparr>cl_config := (cl_config n)\<lparr>cc_failover := enabled\<rparr>\<rparr>)"

record raw_cluster_status =
  rs_cluster_id :: string
  rs_local_id :: string
  rs_leader :: "string option"
  rs_role :: raft_role
  rs_nodes :: "node_info list"
  rs_health :: "(string, health_status) hashmap"
  rs_failover :: bool

definition status_raw :: "cluster_node \<Rightarrow> raw_cluster_status" where
  "status_raw n =
     \<lparr>rs_cluster_id = cc_id (cl_config n), rs_local_id = cl_local n, rs_leader = leader_id (volatile (cl_raft n)),
      rs_role = role (volatile (cl_raft n)), rs_nodes = cc_nodes (cl_config n), rs_health = health_snapshot n,
      rs_failover = cc_failover (cl_config n)\<rparr>"

fun health_text :: "health_status \<Rightarrow> string" where
  "health_text Healthy = ''healthy''"
| "health_text Unhealthy = ''unhealthy''"
| "health_text HealthUnknown = ''unknown''"

record cluster_status =
  cs_cluster_id :: string
  cs_local_id :: string
  cs_leader :: "string option"
  cs_role :: raft_role
  cs_nodes :: "node_info list"
  cs_health :: "(string, string) hashmap"
  cs_failover :: bool

definition status_from_node :: "cluster_node \<Rightarrow> cluster_status" where
  "status_from_node n =
     (let raw = status_raw n in
      \<lparr>cs_cluster_id = rs_cluster_id raw, cs_local_id = rs_local_id raw, cs_leader = rs_leader raw, cs_role = rs_role raw,
       cs_nodes = rs_nodes raw, cs_health = map (\<lambda>(k, v). (k, health_text v)) (rs_health raw),
       cs_failover = rs_failover raw\<rparr>)"

subsection \<open>The node as a machine\<close>

datatype cluster_event =
    ClAdd node_info
  | ClRemove string
  | ClHeartbeat nat string
  | ClMissed nat string
  | ClFailover nat nat string
  | ClFailoverEnabled bool
  | ClTick "nat \<Rightarrow> nat"
  | ClRaft raft_event

text \<open>
  \<open>request_vote\<close>, \<open>handle_request_vote\<close>, \<open>record_vote\<close>, \<open>handle_append_entries\<close> and the two
  \<open>record_append\<close> functions pass the call on to the Raft node: \<open>ClRaft\<close>.
\<close>

fun cluster_step :: "(cluster_config \<Rightarrow> bytes) \<Rightarrow> cluster_node \<Rightarrow> cluster_event \<Rightarrow> cluster_node" where
  "cluster_step enc n (ClAdd node) = fst (cluster_add_node enc n node)"
| "cluster_step enc n (ClRemove i) = fst (cluster_remove_node enc n i)"
| "cluster_step enc n (ClHeartbeat now peer) = record_heartbeat now n peer"
| "cluster_step enc n (ClMissed now peer) = record_missed_heartbeat now n peer"
| "cluster_step enc n (ClFailover now now' failed) = fst (perform_failover enc now now' n failed)"
| "cluster_step enc n (ClFailoverEnabled enabled) = set_failover_enabled enc n enabled"
| "cluster_step enc n (ClTick clock) = fst (tick clock n)"
| "cluster_step enc n (ClRaft ev) = n\<lparr>cl_raft := raft_step (cl_raft n) ev\<rparr>"

text \<open>Another election still fits into the \<open>u64\<close> term.\<close>

fun cluster_room :: "cluster_node \<Rightarrow> cluster_event \<Rightarrow> bool" where
  "cluster_room n (ClTick clock) = term_room (cl_raft n) (EvElection (clock 1))"
| "cluster_room n (ClRaft ev) = term_room (cl_raft n) ev"
| "cluster_room n _ = True"

definition cluster_wf :: "cluster_node \<Rightarrow> bool" where
  "cluster_wf n \<longleftrightarrow> distinct (map ni_id (cc_nodes (cl_config n))) \<and> hm_ok (cl_health n) \<and>
     raft_wf (cl_raft n) \<and> node_id (cl_raft n) = cl_local n"

definition cluster_le :: "cluster_node \<Rightarrow> cluster_node \<Rightarrow> bool" where
  "cluster_le n n' \<longleftrightarrow> cl_local n' = cl_local n \<and> term_le (cl_raft n) (cl_raft n')"

subsection \<open>Every operation is a run of Raft steps\<close>

lemma tick_votes_steps:
  "\<exists>evs. fst (tick_votes clock req ps r became) = foldl raft_step r evs \<and> ok_run term_room raft_step r evs"
proof (induction ps arbitrary: clock r became)
  case Nil
  have "r = foldl raft_step r [] \<and> ok_run term_room raft_step r []" by simp
  then show ?case unfolding tick_votes.simps fst_conv by blast
next
  case (Cons p ps)
  obtain r1 res where h: "handle_request_vote (clock 0) r req = (r1, res)" by fastforce
  obtain r2 won where v: "record_vote r1 p res = (r2, won)" by fastforce
  from Cons.IH [of "\<lambda>i. clock (Suc i)" r2 "became \<or> won"] obtain evs where
    evs: "fst (tick_votes (\<lambda>i. clock (Suc i)) req ps r2 (became \<or> won)) = foldl raft_step r2 evs"
      "ok_run term_room raft_step r2 evs" by blast
  have "fst (tick_votes clock req (p # ps) r became) =
      foldl raft_step r (EvRequestVote (clock 0) req # EvVote p res # evs)"
    "ok_run term_room raft_step r (EvRequestVote (clock 0) req # EvVote p res # evs)"
    using h v evs by simp_all
  then show ?case by blast
qed

lemma tick_heartbeats_frame [simp]:
  "cl_raft (tick_heartbeats clock ps n) = cl_raft n" "cl_config (tick_heartbeats clock ps n) = cl_config n"
  "cl_local (tick_heartbeats clock ps n) = cl_local n" "cl_file (tick_heartbeats clock ps n) = cl_file n"
  by (induction ps arbitrary: clock n) (simp_all add: record_heartbeat_def)

lemma tick_heartbeats_ok: "hm_ok (cl_health n) \<Longrightarrow> hm_ok (cl_health (tick_heartbeats clock ps n))"
  by (induction ps arbitrary: clock n) (simp_all add: record_heartbeat_def hm_simps)

lemma cluster_step_raft:
  assumes "cluster_room n ev"
  shows "\<exists>evs. cl_raft (cluster_step enc n ev) = foldl raft_step (cl_raft n) evs \<and> ok_run term_room raft_step (cl_raft n) evs"
proof -
  have one: "\<exists>evs. raft_step r ev = foldl raft_step r evs \<and> ok_run term_room raft_step r evs" if "term_room r ev" for r ev
    using that by (intro exI [of _ "[ev]"]) simp
  have none: "\<exists>evs. r = foldl raft_step r evs \<and> ok_run term_room raft_step r evs" for r
    by (rule exI [of _ "[]"]) simp
  have two: "\<exists>evs. raft_step (raft_step r ev) ev' = foldl raft_step r evs \<and> ok_run term_room raft_step r evs"
    if "term_room r ev" "term_room (raft_step r ev) ev'" for r ev ev'
    using that by (intro exI [of _ "[ev, ev']"]) simp
  show ?thesis
  proof (cases ev)
    case (ClAdd node)
    then show ?thesis
      using none two [of "cl_raft n" "EvAddPeer (ni_id node)" "EvPropose (AddNode (ni_id node) (ni_address node))"]
      by (simp add: cluster_add_node_def cluster_propose_def save_config_def Let_def case_prod_beta)
  next
    case (ClRemove i)
    then show ?thesis
      using none two [of "cl_raft n" "EvRemovePeer i" "EvPropose (RemoveNode i)"]
      by (simp add: cluster_remove_node_def cluster_propose_def save_config_def Let_def case_prod_beta)
  next
    case (ClTick clock)
    obtain r1 req where e: "start_election (clock 1) (cl_raft n) = (r1, req)" by fastforce
    let ?ps = "filter (\<lambda>p. p \<noteq> cl_local n) (peers r1)"
    obtain evs where evs: "fst (tick_votes (\<lambda>i. clock (i + 2)) req ?ps r1 False) = foldl raft_step r1 evs"
      "ok_run term_room raft_step r1 evs" using tick_votes_steps by blast
    have "\<exists>evs. fst (tick_votes (\<lambda>i. clock (i + 2)) req ?ps r1 False) = foldl raft_step (cl_raft n) evs \<and>
        ok_run term_room raft_step (cl_raft n) evs"
      using evs e assms ClTick by (intro exI [of _ "EvElection (clock 1) # evs"]) simp
    with ClTick e none one [of "cl_raft n" EvApply] show ?thesis
      by (simp add: tick_def Let_def case_prod_beta)
  qed (use none one assms in \<open>auto simp: record_heartbeat_def record_missed_heartbeat_def perform_failover_def set_failover_enabled_def
         save_config_def Let_def\<close>)
qed

lemma failover_role_id [simp]: "ni_id (failover_role local failed nd) = ni_id nd"
  by (simp add: failover_role_def Let_def)

lemma cluster_step_frame:
  "cl_local (cluster_step enc n ev) = cl_local n"
  "distinct (map ni_id (cc_nodes (cl_config n))) \<Longrightarrow> distinct (map ni_id (cc_nodes (cl_config (cluster_step enc n ev))))"
  "hm_ok (cl_health n) \<Longrightarrow> hm_ok (cl_health (cluster_step enc n ev))"
proof -
  have dist: "distinct (map f xs) \<Longrightarrow> distinct (map f (filter P xs))" for f :: "node_info \<Rightarrow> string" and P xs
    by (induction xs) auto
  show "cl_local (cluster_step enc n ev) = cl_local n"
    "distinct (map ni_id (cc_nodes (cl_config n))) \<Longrightarrow> distinct (map ni_id (cc_nodes (cl_config (cluster_step enc n ev))))"
    "hm_ok (cl_health n) \<Longrightarrow> hm_ok (cl_health (cluster_step enc n ev))"
    by (cases ev; auto simp: cluster_add_node_def cluster_remove_node_def cluster_propose_def save_config_def
        record_heartbeat_def record_missed_heartbeat_def perform_failover_def set_failover_enabled_def tick_def config_add_node_def
        config_remove_node_def hm_simps tick_heartbeats_ok dist o_def Let_def case_prod_beta)+
qed

interpretation clm: monotone_machine "cluster_step enc" cluster_room cluster_wf cluster_le for enc
proof
  show "cluster_le s s" for s by (simp add: cluster_le_def rmach.rank_refl)
  show "cluster_le s u" if "cluster_le s t" "cluster_le t u" for s t u
    using that rmach.rank_trans unfolding cluster_le_def by metis
  fix s ev
  assume wf: "cluster_wf s" and room: "cluster_room s ev"
  obtain evs where evs: "cl_raft (cluster_step enc s ev) = foldl raft_step (cl_raft s) evs"
    "ok_run term_room raft_step (cl_raft s) evs" using cluster_step_raft [OF room] by blast
  have raft: "raft_wf (cl_raft s)" "node_id (cl_raft s) = cl_local s" using wf by (auto simp: cluster_wf_def)
  note inv = rmach.run_inv [OF raft(1) evs(2)] and rank = rmach.run_rank [OF raft(1) evs(2)]
  show "cluster_wf (cluster_step enc s ev)"
    using wf inv rank cluster_step_frame by (simp add: cluster_wf_def evs(1) term_le_def)
  show "cluster_le s (cluster_step enc s ev)"
    using rank by (simp add: cluster_le_def evs(1) cluster_step_frame)
qed

lemma join_wf: "distinct (map ni_id (cc_nodes cfg)) \<Longrightarrow> cluster_wf (join_cluster local file cfg now)"
  by (simp add: cluster_wf_def join_cluster_def raft_new_wf hm_simps) (simp add: raft_new_def)

lemma config_peers_set: "set (config_peers local cfg) = ni_id ` set (cc_nodes cfg) - {local}"
  by (auto simp: config_peers_def)

lemma config_peers_distinct: "distinct (config_peers local cfg)"
proof -
  have "sorted xs \<Longrightarrow> distinct (remdups_adj xs)" for xs :: "string list"
    by (induction xs rule: remdups_adj.induct) (auto simp: less_le)
  then show ?thesis by (simp add: config_peers_def)
qed

subsection \<open>A candidate that counts its own answers\<close>

text \<open>A node in its own election: its vote request is granted by itself, and changes nothing else.\<close>

lemma own_vote:
  assumes "voted_for (persistent r) = Some (vq_candidate req)" "current_term (persistent r) = vq_term req"
    and "last_index (persistent r) = vq_last_index req" "last_term (persistent r) = vq_last_term req"
  shows "handle_request_vote now r req =
    (r\<lparr>volatile := (volatile r)\<lparr>last_heartbeat := now\<rparr>\<rparr>, \<lparr>vr_term = vq_term req, vr_granted = True\<rparr>)"
  using assms by (simp add: handle_request_vote_def Let_def)

lemma tick_votes_leader:
  assumes "voted_for (persistent r) = Some (vq_candidate req)" "current_term (persistent r) = vq_term req"
    and "last_index (persistent r) = vq_last_index req" "last_term (persistent r) = vq_last_term req"
    and "role (volatile r) = RoleLeader"
  shows "\<exists>r'. tick_votes clock req ps r became = (r', became) \<and> role (volatile r') = RoleLeader \<and> persistent r' = persistent r"
  using assms
proof (induction ps arbitrary: clock r)
  case Nil
  then show ?case by simp
next
  case (Cons p ps)
  let ?r = "r\<lparr>volatile := (volatile r)\<lparr>last_heartbeat := clock 0\<rparr>\<rparr>"
  have "record_vote ?r p \<lparr>vr_term = vq_term req, vr_granted = True\<rparr> = (?r, False)"
    using Cons.prems by (simp add: record_vote_def)
  with Cons.IH [of ?r "\<lambda>i. clock (Suc i)"] Cons.prems own_vote [OF Cons.prems(1-4)] show ?case by simp
qed

lemma tick_votes_wins:
  assumes "voted_for (persistent r) = Some (vq_candidate req)" "current_term (persistent r) = vq_term req"
    and "last_index (persistent r) = vq_last_index req" "last_term (persistent r) = vq_last_term req"
    and "role (volatile r) = RoleCandidate"
    and "ps \<noteq> []" "distinct ps" "set ps \<inter> set (votes_received (volatile r)) = {}"
    and "(length (peers r) + 1) div 2 + 1 \<le> length (votes_received (volatile r)) + length ps"
  shows "\<exists>r'. tick_votes clock req ps r became = (r', True) \<and> role (volatile r') = RoleLeader \<and> persistent r' = persistent r"
  using assms
proof (induction ps arbitrary: clock r became)
  case Nil
  then show ?case by simp
next
  case (Cons p ps)
  let ?r = "r\<lparr>volatile := (volatile r)\<lparr>last_heartbeat := clock 0\<rparr>\<rparr>"
  let ?res = "\<lparr>vr_term = vq_term req, vr_granted = True\<rparr>"
  let ?vs = "votes_received (volatile r) @ [p]"
  obtain r2 won where v: "record_vote ?r p ?res = (r2, won)" by fastforce
  have won: "won \<longleftrightarrow> (length (peers r) + 1) div 2 + 1 \<le> length ?vs" and per: "persistent r2 = persistent r"
    using v Cons.prems by (auto simp: record_vote_def Let_def split: if_splits)
  have step: "tick_votes clock req (p # ps) r became = tick_votes (\<lambda>i. clock (Suc i)) req ps r2 (became \<or> won)"
    using own_vote [OF Cons.prems(1-4), of "clock 0"] v by simp
  show ?case
  proof (cases won)
    case True
    then have "role (volatile r2) = RoleLeader" using v Cons.prems by (auto simp: record_vote_def Let_def split: if_splits)
    from tick_votes_leader [OF _ _ _ _ this, of req] Cons.prems per True step show ?thesis by simp
  next
    case False
    then have r2: "role (volatile r2) = RoleCandidate" "votes_received (volatile r2) = ?vs" "peers r2 = peers r"
      using v Cons.prems by (auto simp: record_vote_def Let_def split: if_splits)
    have "ps \<noteq> []" using False won Cons.prems(9) by auto
    with Cons.IH [of r2 "\<lambda>i. clock (Suc i)" "became \<or> won"] r2 per Cons.prems step show ?thesis by simp
  qed
qed

lemma tick_elects:
  assumes "role (volatile (cl_raft n)) \<noteq> RoleLeader" "election_due (clock 0) (cl_raft n)"
    and "node_id (cl_raft n) = cl_local n" "cl_local n \<notin> set (peers (cl_raft n))"
    and "distinct (peers (cl_raft n))" "peers (cl_raft n) \<noteq> []"
  shows "\<exists>n'. tick clock n = (n', True) \<and> cluster_is_leader n' \<and>
    current_term (persistent (cl_raft n')) = u64_add (current_term (persistent (cl_raft n))) 1"
proof -
  obtain r req where e: "start_election (clock 1) (cl_raft n) = (r, req)" by fastforce
  have r: "voted_for (persistent r) = Some (vq_candidate req)" "current_term (persistent r) = vq_term req"
    "last_index (persistent r) = vq_last_index req" "last_term (persistent r) = vq_last_term req"
    "role (volatile r) = RoleCandidate" "votes_received (volatile r) = [cl_local n]" "peers r = peers (cl_raft n)"
    "current_term (persistent r) = u64_add (current_term (persistent (cl_raft n))) 1"
    using e assms(3) by (auto simp: start_election_def Let_def last_index_def last_term_def)
  have ps: "filter (\<lambda>p. p \<noteq> cl_local n) (peers r) = peers r"
    using assms(4) r(7) by (auto simp: filter_id_conv)
  have "(length (peers r) + 1) div 2 + 1 \<le> length (votes_received (volatile r)) + length (peers r)"
    using assms(6) r(6,7) by (cases "peers r") auto
  then obtain r' where "tick_votes (\<lambda>i. clock (i + 2)) req (peers r) r False = (r', True)"
    "role (volatile r') = RoleLeader" "persistent r' = persistent r"
    using tick_votes_wins [OF r(1-5), of "peers r"] assms(4-6) r(6,7) by auto
  with e assms(1,2) ps r(8) show ?thesis
    by (simp add: tick_def cluster_is_leader_def is_leader_def)
qed

lemma missed_run:
  assumes "hm_get (cl_health n) peer = Some r" "hr_missed r + length ts < 2 ^ 32"
  shows "map_option hr_status (hm_get (cl_health (foldl (\<lambda>n t. record_missed_heartbeat t n peer) n ts)) peer) =
    Some (if ts \<noteq> [] \<and> 3 \<le> hr_missed r + length ts then Unhealthy else hr_status r)"
  using assms
proof (induction ts arbitrary: n r)
  case Nil
  then show ?case by simp
next
  case (Cons t ts)
  define r1 where "r1 = (if 3 \<le> Suc (hr_missed r) then r\<lparr>hr_missed := Suc (hr_missed r), hr_status := Unhealthy\<rparr>
    else r\<lparr>hr_missed := Suc (hr_missed r)\<rparr>)"
  have r1: "hr_missed r1 = Suc (hr_missed r)"
    "hr_status r1 = (if 3 \<le> Suc (hr_missed r) then Unhealthy else hr_status r)" by (simp_all add: r1_def)
  have "hm_get (cl_health (record_missed_heartbeat t n peer)) peer = Some r1"
    using Cons.prems by (simp add: record_missed_heartbeat_def Let_def hm_simps u32_add_def r1_def)
  from Cons.IH [OF this] Cons.prems(2) show ?case by (auto simp: r1)
qed

subsection \<open>Properties\<close>



lemma filter_one: "distinct xs \<Longrightarrow> a \<in> set xs \<Longrightarrow> filter (\<lambda>x. x = a) xs = [a]"
  by (induction xs) (auto simp: filter_empty_conv)

text \<open>
  C16: Failover. When the preconditions hold, no id is listed twice and the local node is in the
  configuration, failover makes the local node a primary and the failed node, which stays in the
  configuration, a secondary. It changes nothing else of these two, no other node of the configuration,
  no other setting, and of the node only the file and the time of the last failover; if the failed
  node was the only primary, the local node is the only one afterwards. The configuration is saved so
  that it reads back (its coding being read back), and failover is refused again until the cooldown
  is over.
\<close>

theorem failover_moves_primary:
  assumes "distinct (map ni_id (cc_nodes (cl_config n)))" "cl_local n \<in> set (map ni_id (cc_nodes (cl_config n)))"
    and "should_failover now n failed" "perform_failover enc now now' n failed = (n', res)"
    and "dec (enc (cl_config n')) = Some (cl_config n')" "now'' < now' + failover_cooldown"
  shows "res = Ok () \<and>
    map ni_id (cc_nodes (cl_config n')) = map ni_id (cc_nodes (cl_config n)) \<and>
    (\<forall>i. find_node (cl_config n') i =
       (if i = cl_local n then map_option (\<lambda>nd. nd\<lparr>ni_role := NodePrimary\<rparr>) (find_node (cl_config n) i)
        else if i = failed then map_option (\<lambda>nd. nd\<lparr>ni_role := NodeSecondary\<rparr>) (find_node (cl_config n) i)
        else find_node (cl_config n) i)) \<and>
    find_node (cl_config n') (cl_local n) \<noteq> None \<and> find_node (cl_config n') failed \<noteq> None \<and>
    (map ni_id (filter (\<lambda>nd. ni_role nd = NodePrimary) (cc_nodes (cl_config n))) = [failed] \<longrightarrow>
     map ni_id (filter (\<lambda>nd. ni_role nd = NodePrimary) (cc_nodes (cl_config n'))) = [cl_local n]) \<and>
    cl_config n' = (cl_config n)\<lparr>cc_nodes := cc_nodes (cl_config n')\<rparr> \<and>
    n' = n\<lparr>cl_config := cl_config n', cl_file := cl_file n', cl_last_failover := Some now'\<rparr> \<and>
    config_load dec (cl_file n') = Ok (cl_config n') \<and>
    (\<forall>other. perform_failover enc now'' now2 n' other = (n', Err (ClusterError ''failover preconditions not met'')))"
proof -
  let ?ns = "cc_nodes (cl_config n)" and ?f = "failover_role (cl_local n) failed"
  have ne: "cl_local n \<noteq> failed" and mem: "find_node (cl_config n) failed \<noteq> None"
    using assms(3) by (auto simp: should_failover_def split: if_splits option.splits)
  define cfg where "cfg = (cl_config n)\<lparr>cc_nodes := map ?f ?ns\<rparr>"
  have n': "n' = n\<lparr>cl_config := cfg, cl_file := Some (enc cfg), cl_last_failover := Some now'\<rparr>" "res = Ok ()"
    using assms(3,4) by (auto simp: perform_failover_def save_config_def cfg_def Let_def)
  have f: "?f nd = (if ni_id nd = cl_local n then nd\<lparr>ni_role := NodePrimary\<rparr>
      else if ni_id nd = failed then nd\<lparr>ni_role := NodeSecondary\<rparr> else nd)" for nd
    using ne by (simp add: failover_role_def Let_def)
  have "List.find (\<lambda>m. ni_id m = i) (map ?f xs) = map_option ?f (List.find (\<lambda>m. ni_id m = i) xs)" for i xs
    by (induction xs) auto
  then have find: "find_node cfg i = map_option ?f (find_node (cl_config n) i)" for i
    by (simp add: find_node_def cfg_def)
  have id: "ni_id x = i" if "find_node (cl_config n) i = Some x" for i x
    using that by (auto simp: find_node_def find_Some_iff)
  have loc: "find_node (cl_config n) (cl_local n) \<noteq> None"
    using assms(2) by (auto simp: find_node_def find_None_iff)
  have nodes: "find_node cfg i =
       (if i = cl_local n then map_option (\<lambda>nd. nd\<lparr>ni_role := NodePrimary\<rparr>) (find_node (cl_config n) i)
        else if i = failed then map_option (\<lambda>nd. nd\<lparr>ni_role := NodeSecondary\<rparr>) (find_node (cl_config n) i)
        else find_node (cl_config n) i)" for i
    using id [of i] by (cases "find_node (cl_config n) i") (auto simp: find f)
  have one: "map ni_id (filter (\<lambda>nd. ni_role nd = NodePrimary) (cc_nodes cfg)) = [cl_local n]"
    if "map ni_id (filter (\<lambda>nd. ni_role nd = NodePrimary) ?ns) = [failed]"
  proof -
    have others: "ni_id nd = failed" if "nd \<in> set ?ns" "ni_role nd = NodePrimary" for nd
    proof -
      have "nd \<in> set (filter (\<lambda>nd. ni_role nd = NodePrimary) ?ns)" using that by simp
      then have "ni_id nd \<in> set (map ni_id (filter (\<lambda>nd. ni_role nd = NodePrimary) ?ns))" by force
      with \<open>map ni_id (filter (\<lambda>nd. ni_role nd = NodePrimary) ?ns) = [failed]\<close> show ?thesis by simp
    qed
    have "filter (\<lambda>nd. ni_role nd = NodePrimary) (map ?f ?ns) = map ?f (filter (\<lambda>nd. ni_id nd = cl_local n) ?ns)"
      unfolding filter_map o_def
      by (intro arg_cong [where f = "map ?f"] filter_cong refl) (use others ne in \<open>auto simp: f\<close>)
    then have "map ni_id (filter (\<lambda>nd. ni_role nd = NodePrimary) (cc_nodes cfg)) = filter (\<lambda>i. i = cl_local n) (map ni_id ?ns)"
      by (simp add: cfg_def filter_map o_def)
    also have "\<dots> = [cl_local n]"
      using assms(1,2) by (rule filter_one)
    finally show ?thesis .
  qed
  have "\<not> should_failover now'' n' other" for other
    using assms(6) by (auto simp: should_failover_def n' failover_cooldown_def split: option.split)
  then have "perform_failover enc now'' now2 n' other = (n', Err (ClusterError ''failover preconditions not met''))" for other
    by (simp add: perform_failover_def)
  moreover have "map ni_id (cc_nodes cfg) = map ni_id ?ns" by (simp add: cfg_def o_def)
  moreover have "config_load dec (cl_file n') = Ok (cl_config n')" using assms(5) by (simp add: config_load_def n')
  moreover have "cfg = (cl_config n)\<lparr>cc_nodes := cc_nodes cfg\<rparr>" by (simp add: cfg_def)
  ultimately show ?thesis using nodes one loc mem ne n' by simp
qed

text \<open>A cluster of three, one of them an observer, coded as its number of nodes.\<close>

definition toy_config :: cluster_config where
  "toy_config = cluster_config_new ''k'' \<lparr>ni_id = ''a'', ni_address = [], ni_role = NodePrimary, ni_last_seen = 0\<rparr>
     \<lparr>cc_nodes := [\<lparr>ni_id = ''a'', ni_address = [], ni_role = NodePrimary, ni_last_seen = 0\<rparr>,
       \<lparr>ni_id = ''b'', ni_address = [], ni_role = NodeSecondary, ni_last_seen = 0\<rparr>,
       \<lparr>ni_id = ''c'', ni_address = [], ni_role = NodeObserver, ni_last_seen = 0\<rparr>]\<rparr>"

theorem failover_moves_primary_witness:
  "map ni_id (filter (\<lambda>nd. ni_role nd = NodePrimary)
     (cc_nodes (cl_config (fst (perform_failover (\<lambda>c. []) 9 10 (join_cluster ''b'' None toy_config 0) ''a''))))) = [''b'']"
proof -
  let ?n = "join_cluster ''b'' None toy_config 0"
  obtain n' res where p: "perform_failover (\<lambda>c. []) 9 10 ?n ''a'' = (n', res)" by fastforce
  have "distinct (map ni_id (cc_nodes (cl_config ?n)))" "cl_local ?n \<in> set (map ni_id (cc_nodes (cl_config ?n)))"
    "should_failover 9 ?n ''a''" "(10::nat) < 10 + failover_cooldown" "cl_local ?n = ''b''"
    by (simp_all add: join_cluster_def toy_config_def cluster_config_new_def should_failover_def find_node_def failover_cooldown_def)
  note pre = this
  have "map ni_id (filter (\<lambda>nd. ni_role nd = NodePrimary) (cc_nodes (cl_config ?n))) = [''a'']"
    by (simp add: join_cluster_def toy_config_def cluster_config_new_def)
  moreover have "(\<lambda>b. Some (cl_config n')) ((\<lambda>c. []) (cl_config n')) = Some (cl_config n')" by simp
  note failover_moves_primary [OF pre(1-3) p this pre(4), where ?now2.0 = 0]
  ultimately have "map ni_id (filter (\<lambda>nd. ni_role nd = NodePrimary) (cc_nodes (cl_config n'))) = [cl_local ?n]"
    by (elim conjE) simp
  with p pre(5) show ?thesis by simp
qed

text \<open>
  Health. After a heartbeat a peer is healthy, and exactly the third heartbeat missed in a
  row makes it unhealthy; a peer that was never heard of is unknown until then. Other peers keep
  their records.
\<close>

theorem missed_heartbeats_mark_unhealthy:
  assumes "length ts < 2 ^ 32" "hm_get (cl_health n0) peer = None"
  shows "let n = foldl (\<lambda>n t. record_missed_heartbeat t n peer) (record_heartbeat now n0 peer) ts;
      u = foldl (\<lambda>n t. record_missed_heartbeat t n peer) n0 ts in
    map_option hr_status (hm_get (cl_health n) peer) = Some (if 3 \<le> length ts then Unhealthy else Healthy) \<and>
    map_option hr_status (hm_get (cl_health u) peer) =
      (if ts = [] then None else Some (if 3 \<le> length ts then Unhealthy else HealthUnknown)) \<and>
    (\<forall>p. p \<noteq> peer \<longrightarrow> hm_get (cl_health n) p = hm_get (cl_health n0) p \<and> hm_get (cl_health u) p = hm_get (cl_health n0) p)"
proof -
  let ?r = "\<lparr>hr_status = Healthy, hr_last_heartbeat = now, hr_missed = 0\<rparr>"
  let ?miss = "\<lambda>n t. record_missed_heartbeat t n peer"
  have "hm_get (cl_health (record_heartbeat now n0 peer)) peer = Some ?r" by (simp add: record_heartbeat_def hm_simps)
  note n = missed_run [OF this, of ts]
  have u: "map_option hr_status (hm_get (cl_health (foldl ?miss n0 ts)) peer) =
      (if ts = [] then None else Some (if 3 \<le> length ts then Unhealthy else HealthUnknown))"
  proof (cases ts)
    case (Cons t us)
    have "hm_get (cl_health (?miss n0 t)) peer = Some \<lparr>hr_status = HealthUnknown, hr_last_heartbeat = t, hr_missed = 1\<rparr>"
      by (simp add: record_missed_heartbeat_def assms(2) hm_simps Let_def u32_add_def)
    from missed_run [OF this, of us] assms(1) Cons show ?thesis by auto
  qed (simp add: assms(2))
  have other: "hm_get (cl_health (foldl ?miss m ts)) p = hm_get (cl_health m) p" if "p \<noteq> peer" for m p
    using that by (induction ts arbitrary: m) (auto simp: record_missed_heartbeat_def Let_def hm_simps)
  have "hm_get (cl_health (record_heartbeat now n0 peer)) p = hm_get (cl_health n0) p" if "p \<noteq> peer" for p
    using that by (simp add: record_heartbeat_def hm_simps)
  with n u other assms(1) show ?thesis by (auto simp: Let_def)
qed

theorem missed_heartbeats_mark_unhealthy_witness:
  "map_option hr_status (hm_get (cl_health (foldl (\<lambda>n t. record_missed_heartbeat t n ''p'')
     (record_heartbeat 0 (init_cluster (\<lambda>c. []) ''k'' ''a'' [] 0 0) ''p'') [1, 2, 3])) ''p'') = Some Unhealthy"
  using missed_heartbeats_mark_unhealthy [of "[1, 2, 3]" "init_cluster (\<lambda>c. []) ''k'' ''a'' [] 0 0" "''p''" 0]
  by (simp add: Let_def init_cluster_def)

text \<open>
  C40: Two leaders of one term. A node whose election is due and that has a peer wins it within
  one \<open>tick\<close>, on its own: it answers its vote request itself, once for every peer. So two nodes
  that load the same configuration and tick are leaders of the same term.
\<close>

theorem ticking_nodes_split_the_cluster:
  assumes "distinct (map ni_id (cc_nodes cfg))" "a \<in> ni_id ` set (cc_nodes cfg)" "b \<in> ni_id ` set (cc_nodes cfg)" "a \<noteq> b"
    and "config_load dec file = Ok cfg" "150 < t"
  shows "\<exists>na nb na' nb'. cluster_load dec a file 0 = Ok na \<and> cluster_load dec b file 0 = Ok nb \<and>
    tick (\<lambda>i. t) na = (na', True) \<and> tick (\<lambda>i. t) nb = (nb', True) \<and>
    cluster_is_leader na' \<and> cluster_is_leader nb' \<and>
    current_term (persistent (cl_raft na')) = 1 \<and> current_term (persistent (cl_raft nb')) = 1"
proof -
  have one: "\<exists>n n'. cluster_load dec i file 0 = Ok n \<and> tick (\<lambda>i. t) n = (n', True) \<and> cluster_is_leader n' \<and>
      current_term (persistent (cl_raft n')) = 1"
    if "i \<noteq> j" "j \<in> ni_id ` set (cc_nodes cfg)" for i j
  proof -
    let ?n = "join_cluster i file cfg 0"
    have load: "cluster_load dec i file 0 = Ok ?n" using assms(5) by (simp add: cluster_load_def join_cluster_def)
    have ps: "peers (cl_raft ?n) = config_peers i cfg" by (simp add: join_cluster_def raft_new_def)
    have "j \<in> set (config_peers i cfg)" using that by (simp add: config_peers_set)
    then have "config_peers i cfg \<noteq> []" by auto
    then have "\<exists>n'. tick (\<lambda>i. t) ?n = (n', True) \<and> cluster_is_leader n' \<and>
        current_term (persistent (cl_raft n')) = u64_add (current_term (persistent (cl_raft ?n))) 1"
      using assms(6) config_peers_distinct [of i cfg] config_peers_set [of i cfg] ps
      by (intro tick_elects) (auto simp: join_cluster_def raft_new_def volatile_new_def index_peers_def election_due_def)
    moreover have "u64_add (current_term (persistent (cl_raft ?n))) 1 = 1"
      by (simp add: join_cluster_def raft_new_def persistent_new_def u64_add_def)
    ultimately show ?thesis using load by auto
  qed
  from one [OF assms(4,3)] one [OF assms(4) [symmetric] assms(2)] show ?thesis by blast
qed

theorem ticking_nodes_split_the_cluster_witness:
  "\<exists>na nb na' nb'. cluster_load (\<lambda>b. Some toy_config) ''a'' (Some []) 0 = Ok na \<and>
    cluster_load (\<lambda>b. Some toy_config) ''b'' (Some []) 0 = Ok nb \<and>
    tick (\<lambda>i. 200) na = (na', True) \<and> tick (\<lambda>i. 200) nb = (nb', True) \<and> cluster_is_leader na' \<and> cluster_is_leader nb' \<and>
    current_term (persistent (cl_raft na')) = 1 \<and> current_term (persistent (cl_raft nb')) = 1"
  by (rule ticking_nodes_split_the_cluster [where cfg = toy_config])
    (simp_all add: toy_config_def cluster_config_new_def config_load_def)

text \<open>
  A restart forgets votes and terms. The Raft state is not part of what a node saves, so a
  node that has voted in a term grants its vote to any other candidate of the same term after it
  is loaded again.
\<close>

theorem restart_forgets_votes:
  assumes "handle_request_vote now (cl_raft n) req = (r, res)" "vr_granted res"
    and "cluster_load dec (cl_local n) (cl_file n) now' = Ok n2" "vq_term req2 = vq_term req"
  shows "voted_for (persistent r) = Some (vq_candidate req) \<and>
    (\<exists>r2. handle_request_vote now2 (cl_raft n2) req2 = (r2, \<lparr>vr_term = vq_term req, vr_granted = True\<rparr>) \<and>
       voted_for (persistent r2) = Some (vq_candidate req2))"
proof -
  obtain cfg where "cl_raft n2 = raft_new (cl_local n) (config_peers (cl_local n) cfg) now'"
    using assms(3) by (auto simp: cluster_load_def)
  then have fresh: "current_term (persistent (cl_raft n2)) = 0" "voted_for (persistent (cl_raft n2)) = None"
    "rlog (persistent (cl_raft n2)) = []" by (simp_all add: raft_new_def persistent_new_def)
  have "voted_for (persistent r) = Some (vq_candidate req)" using vote_step(3) [OF assms(1,2)] .
  then show ?thesis
    using fresh assms(4) by (auto simp: handle_request_vote_def Let_def last_term_def last_index_def adopt_term_def)
qed

theorem restart_forgets_votes_witness:
  "\<exists>r2. handle_request_vote 9 (cl_raft (join_cluster ''a'' (Some []) toy_config 0))
      \<lparr>vq_term = 1, vq_candidate = ''c'', vq_last_index = 0, vq_last_term = 0\<rparr> = (r2, \<lparr>vr_term = 1, vr_granted = True\<rparr>) \<and>
    voted_for (persistent r2) = Some ''c''"
proof -
  let ?n = "join_cluster ''a'' (Some []) toy_config 0"
  let ?q = "\<lambda>c. \<lparr>vq_term = 1, vq_candidate = c, vq_last_index = 0, vq_last_term = 0\<rparr>"
  obtain r res where v: "handle_request_vote 5 (cl_raft ?n) (?q ''b'') = (r, res)" by fastforce
  then have "vr_granted res"
    by (auto simp: handle_request_vote_def join_cluster_def raft_new_def persistent_new_def last_term_def last_index_def
        adopt_term_def)
  moreover have "cluster_load (\<lambda>b. Some toy_config) (cl_local ?n) (cl_file ?n) 0 = Ok ?n"
    by (simp add: cluster_load_def config_load_def join_cluster_def)
  ultimately show ?thesis
    using restart_forgets_votes [OF v, where ?req2.0 = "?q ''c''" and ?now2.0 = 9 and dec = "\<lambda>b. Some toy_config" and now' = 0 and ?n2.0 = ?n]
    by simp
qed

text \<open>
  A cluster of one cannot grow. The node that \<open>init_cluster\<close> starts has no peers, so no tick
  ever counts a vote for it: after any number of ticks, at any times, it is not the leader, and
  adding a node is refused.
\<close>

theorem seed_cannot_grow:
  "let n = foldl (\<lambda>n clock. fst (tick clock n)) (init_cluster enc i local address stamp now) clocks in
   \<not> cluster_is_leader n \<and>
   cluster_add_node enc n node = (n, Err (ClusterError ''only the leader can add nodes''))"
proof -
  have step: "peers (cl_raft (fst (tick clock n))) = [] \<and> \<not> cluster_is_leader (fst (tick clock n))"
    if "peers (cl_raft n) = []" "\<not> cluster_is_leader n" for n clock
    using that by (simp add: tick_def cluster_is_leader_def is_leader_def start_election_def Let_def)
  have "peers (cl_raft (foldl (\<lambda>n clock. fst (tick clock n)) n clocks)) = [] \<and>
      \<not> cluster_is_leader (foldl (\<lambda>n clock. fst (tick clock n)) n clocks)"
    if "peers (cl_raft n) = []" "\<not> cluster_is_leader n" for n
    using that by (induction clocks arbitrary: n) (auto simp: step)
  then have "\<not> cluster_is_leader (foldl (\<lambda>n clock. fst (tick clock n)) (init_cluster enc i local address stamp now) clocks)"
    by (simp add: init_cluster_def Let_def raft_new_def cluster_is_leader_def is_leader_def volatile_new_def)
  then show ?thesis by (simp add: Let_def cluster_add_node_def)
qed

end
