(* ===== verification/DistTx.thy ===== *)
theory DistTx
  imports Shard
begin

text \<open>
  Distributed transactions (\<open>src/src/dist_tx.rs\<close>): the transaction record, the coordinator's log,
  the two-phase commit coordinator, and the local participant that works on a shard router. The
  log, shared by clones of the coordinator behind a mutex, is a field of the coordinator's state;
  an operation that fails leaves it as it was. The coordinator is a machine: its steps keep
  \<open>coord_wf\<close>, and \<open>log_le\<close> is what no step undoes.
\<close>

subsection \<open>Transactions\<close>

datatype tx_phase = Voting | Prepared | Committed | Aborted

datatype participant_vote = VoteYes | VoteNo

datatype 'n tx_op =
    TxInsert "'n document" string
  | TxUpdate string "'n json" string
  | TxDelete string string

record participant =
  pt_node :: string
  pt_vote :: "participant_vote option"

record 'n dist_tx =
  tx_id :: string
  tx_coordinator :: string
  tx_participants :: "participant list"
  tx_operations :: "'n tx_op list"
  tx_phase_of :: tx_phase

definition dist_tx_new :: "string \<Rightarrow> string \<Rightarrow> 'n dist_tx" where
  "dist_tx_new i coord =
     \<lparr>tx_id = i, tx_coordinator = coord, tx_participants = [], tx_operations = [], tx_phase_of = Voting\<rparr>"

definition add_participant :: "string \<Rightarrow> 'n dist_tx \<Rightarrow> 'n dist_tx" where
  "add_participant node tx =
     (if node \<in> set (map pt_node (tx_participants tx)) then tx
      else tx\<lparr>tx_participants := tx_participants tx @ [\<lparr>pt_node = node, pt_vote = None\<rparr>]\<rparr>)"

definition tx_add_operation :: "'n tx_op \<Rightarrow> 'n dist_tx \<Rightarrow> 'n dist_tx" where
  "tx_add_operation op tx = tx\<lparr>tx_operations := tx_operations tx @ [op]\<rparr>"

text \<open>The first participant with the node's id gets the vote; \<open>None\<close> when there is none.\<close>

fun set_vote :: "string \<Rightarrow> participant_vote \<Rightarrow> participant list \<Rightarrow> participant list option" where
  "set_vote node v [] = None"
| "set_vote node v (p # ps) =
     (if pt_node p = node then Some (p\<lparr>pt_vote := Some v\<rparr> # ps)
      else map_option ((#) p) (set_vote node v ps))"

definition tx_record_vote :: "'n dist_tx \<Rightarrow> string \<Rightarrow> participant_vote \<Rightarrow> 'n dist_tx outcome" where
  "tx_record_vote tx node v =
     and_then (ok_or (set_vote node v (tx_participants tx)) (DistTxError ''unknown participant'')) (\<lambda>ps.
       Ok (tx\<lparr>tx_participants := ps\<rparr>))"

definition all_votes_received :: "'n dist_tx \<Rightarrow> bool" where
  "all_votes_received tx \<longleftrightarrow> list_all (\<lambda>p. pt_vote p \<noteq> None) (tx_participants tx)"

definition tx_outcome :: "'n dist_tx \<Rightarrow> tx_phase option" where
  "tx_outcome tx =
     (if \<not> all_votes_received tx then None
      else if list_all (\<lambda>p. pt_vote p = Some VoteYes) (tx_participants tx) then Some Prepared
      else Some Aborted)"

definition tx_commit :: "'n dist_tx \<Rightarrow> 'n dist_tx outcome" where
  "tx_commit tx =
     (if tx_phase_of tx \<noteq> Prepared then Err (DistTxError ''transaction is not prepared'')
      else Ok (tx\<lparr>tx_phase_of := Committed\<rparr>))"

definition tx_abort :: "'n dist_tx \<Rightarrow> 'n dist_tx outcome" where
  "tx_abort tx =
     (if tx_phase_of tx = Committed then Err (DistTxError ''cannot abort a committed transaction'')
      else Ok (tx\<lparr>tx_phase_of := Aborted\<rparr>))"

definition participant_ids :: "'n dist_tx \<Rightarrow> string list" where
  "participant_ids tx = map pt_node (tx_participants tx)"

subsection \<open>The log and the coordinator\<close>

type_synonym 'n tx_log = "(string, 'n dist_tx) hashmap"

definition log_register :: "'n dist_tx \<Rightarrow> 'n tx_log \<Rightarrow> 'n tx_log" where
  "log_register tx l = hm_insert (tx_id tx) tx l"

definition log_update :: "'n dist_tx \<Rightarrow> 'n tx_log \<Rightarrow> 'n tx_log outcome" where
  "log_update tx l =
     (if hm_get l (tx_id tx) = None then Err (DistTxError ''transaction not found'')
      else Ok (hm_insert (tx_id tx) tx l))"

definition log_active :: "'n tx_log \<Rightarrow> 'n dist_tx list" where
  "log_active l = filter (\<lambda>tx. tx_phase_of tx \<noteq> Committed \<and> tx_phase_of tx \<noteq> Aborted) (hm_values l)"

record prepare_response =
  pr_tx :: string
  pr_node :: string
  pr_vote :: participant_vote

record 'n coordinator =
  co_node :: string
  co_log :: "'n tx_log"

definition coordinator_new :: "string \<Rightarrow> 'n coordinator" where
  "coordinator_new node = \<lparr>co_node = node, co_log = []\<rparr>"

definition coord_begin :: "'n coordinator \<Rightarrow> string \<Rightarrow> string list \<Rightarrow> 'n coordinator \<times> 'n dist_tx" where
  "coord_begin co i nodes =
     (let tx = fold add_participant nodes (dist_tx_new i (co_node co))
      in (co\<lparr>co_log := log_register tx (co_log co)\<rparr>, tx))"

text \<open>\<open>self.log.get(tx_id).ok_or_else(...)?\<close>, a change of the copy, and \<open>self.log.update(tx)\<close>.\<close>

definition log_change :: "('n dist_tx \<Rightarrow> ('n dist_tx \<times> 'r) outcome) \<Rightarrow> 'n coordinator \<Rightarrow> string \<Rightarrow> 'n coordinator \<times> 'r outcome" where
  "log_change f co i =
     (case and_then (ok_or (hm_get (co_log co) i) (DistTxError ''transaction not found'')) (\<lambda>tx.
           and_then (f tx) (\<lambda>(tx', r). and_then (log_update tx' (co_log co)) (\<lambda>l. Ok (l, r)))) of
        Ok (l, r) \<Rightarrow> (co\<lparr>co_log := l\<rparr>, Ok r)
      | Err e \<Rightarrow> (co, Err e)
      | Panic \<Rightarrow> (co, Panic))"

definition coord_add_operation :: "'n coordinator \<Rightarrow> string \<Rightarrow> 'n tx_op \<Rightarrow> 'n coordinator \<times> unit outcome" where
  "coord_add_operation co i op = log_change (\<lambda>tx. Ok (tx_add_operation op tx, ())) co i"

definition record_responses :: "prepare_response list \<Rightarrow> 'n dist_tx \<Rightarrow> 'n dist_tx outcome" where
  "record_responses rs tx = foldM (\<lambda>tx r. tx_record_vote tx (pr_node r) (pr_vote r)) rs tx"

definition coord_prepare :: "'n coordinator \<Rightarrow> string \<Rightarrow> prepare_response list \<Rightarrow> 'n coordinator \<times> tx_phase outcome" where
  "coord_prepare co i rs =
     log_change (\<lambda>tx.
       if tx_phase_of tx \<noteq> Voting then Err (DistTxError ''transaction is not in voting phase'')
       else and_then (record_responses rs tx) (\<lambda>tx1.
            and_then (ok_or (tx_outcome tx1) (DistTxError ''votes not complete'')) (\<lambda>outcome.
              Ok (tx1\<lparr>tx_phase_of := outcome\<rparr>, outcome)))) co i"

definition coord_commit :: "'n coordinator \<Rightarrow> string \<Rightarrow> 'n coordinator \<times> unit outcome" where
  "coord_commit co i = log_change (\<lambda>tx. outcome_map (\<lambda>tx'. (tx', ())) (tx_commit tx)) co i"

definition coord_abort :: "'n coordinator \<Rightarrow> string \<Rightarrow> 'n coordinator \<times> unit outcome" where
  "coord_abort co i = log_change (\<lambda>tx. outcome_map (\<lambda>tx'. (tx', ())) (tx_abort tx)) co i"

definition coord_recover :: "'n coordinator \<Rightarrow> string \<Rightarrow> tx_phase option" where
  "coord_recover co i = map_option tx_phase_of (hm_get (co_log co) i)"

subsection \<open>The local participant\<close>

text \<open>
  \<open>engine_mut\<close> of the router and one change of that engine. Every change reads its own
  environment: \<open>envs i\<close> is that of the \<open>i\<close>-th operation.
\<close>

definition on_shard ::
  "'n router \<Rightarrow> string \<Rightarrow> ('n engine \<Rightarrow> ('n, 'r) result) \<Rightarrow> 'n router \<times> unit outcome \<times> (nat \<times> change_record) list" where
  "on_shard rt s f =
     (case map_of (rt_engines rt) s of
        None \<Rightarrow> (rt, Err (ShardError ''shard not open''), [])
      | Some e \<Rightarrow>
          (let (e', r, sent) = f e
           in (rt\<lparr>rt_engines := bt_insert s e' (rt_engines rt)\<rparr>, outcome_map (\<lambda>_. ()) r, sent)))"

fun apply_tx_op ::
  "'n codec \<Rightarrow> call_env \<Rightarrow> 'n router \<Rightarrow> 'n tx_op \<Rightarrow> 'n router \<times> unit outcome \<times> (nat \<times> change_record) list" where
  "apply_tx_op c env rt (TxInsert doc s) = on_shard rt s (\<lambda>e. engine_insert c env e doc)"
| "apply_tx_op c env rt (TxUpdate i data s) = on_shard rt s (\<lambda>e. engine_update c env e i data)"
| "apply_tx_op c env rt (TxDelete i s) = on_shard rt s (\<lambda>e. engine_delete c env e i)"

fun apply_ops ::
  "'n codec \<Rightarrow> (nat \<Rightarrow> call_env) \<Rightarrow> 'n router \<Rightarrow> 'n tx_op list \<Rightarrow> 'n router \<times> unit outcome \<times> (nat \<times> change_record) list" where
  "apply_ops c envs rt [] = (rt, Ok (), [])"
| "apply_ops c envs rt (op # ops) =
     (case apply_tx_op c (envs 0) rt op of
        (rt1, Ok _, sent) \<Rightarrow>
          (let (rt2, r, sent') = apply_ops c (\<lambda>i. envs (Suc i)) rt1 ops in (rt2, r, sent @ sent'))
      | (rt1, Err e, sent) \<Rightarrow> (rt1, Err e, sent)
      | (rt1, Panic, sent) \<Rightarrow> (rt1, Panic, sent))"

definition participant_prepare ::
  "'n codec \<Rightarrow> (nat \<Rightarrow> call_env) \<Rightarrow> string \<Rightarrow> 'n router \<Rightarrow> string \<Rightarrow> 'n tx_op list
     \<Rightarrow> 'n router \<times> prepare_response outcome \<times> (nat \<times> change_record) list" where
  "participant_prepare c envs node rt i ops =
     (let (rt', r, sent) = apply_ops c envs rt ops
      in (rt', (case r of
                  Ok _ \<Rightarrow> Ok \<lparr>pr_tx = i, pr_node = node, pr_vote = VoteYes\<rparr>
                | Err e \<Rightarrow> Ok \<lparr>pr_tx = i, pr_node = node, pr_vote = VoteNo\<rparr>
                | Panic \<Rightarrow> Panic), sent))"

subsection \<open>The coordinator as a machine\<close>

datatype 'n coord_event =
    CoBegin string "string list"
  | CoAddOperation string "'n tx_op"
  | CoPrepare string "prepare_response list"
  | CoCommit string
  | CoAbort string

fun coord_step :: "'n coordinator \<Rightarrow> 'n coord_event \<Rightarrow> 'n coordinator" where
  "coord_step co (CoBegin i nodes) = fst (coord_begin co i nodes)"
| "coord_step co (CoAddOperation i op) = fst (coord_add_operation co i op)"
| "coord_step co (CoPrepare i rs) = fst (coord_prepare co i rs)"
| "coord_step co (CoCommit i) = fst (coord_commit co i)"
| "coord_step co (CoAbort i) = fst (coord_abort co i)"

text \<open>\<open>begin\<close> replaces a transaction that has the same id: admissible steps use a new one.\<close>

fun fresh_begin :: "'n coordinator \<Rightarrow> 'n coord_event \<Rightarrow> bool" where
  "fresh_begin co (CoBegin i nodes) = (hm_get (co_log co) i = None)"
| "fresh_begin co _ = True"

text \<open>Before the decision no vote is stored; a transaction that can commit has only yes votes.\<close>

definition tx_wf :: "'n dist_tx \<Rightarrow> bool" where
  "tx_wf tx \<longleftrightarrow> distinct (map pt_node (tx_participants tx)) \<and>
     (tx_phase_of tx = Voting \<longrightarrow> list_all (\<lambda>p. pt_vote p = None) (tx_participants tx)) \<and>
     (tx_phase_of tx \<in> {Prepared, Committed} \<longrightarrow> list_all (\<lambda>p. pt_vote p = Some VoteYes) (tx_participants tx))"

definition coord_wf :: "'n coordinator \<Rightarrow> bool" where
  "coord_wf co \<longleftrightarrow> (\<forall>i tx. hm_get (co_log co) i = Some tx \<longrightarrow> tx_id tx = i \<and> tx_wf tx)"

text \<open>The order of the phases: a decision is final.\<close>

fun phase_le :: "tx_phase \<Rightarrow> tx_phase \<Rightarrow> bool" where
  "phase_le Voting q = True"
| "phase_le Prepared q = (q \<noteq> Voting)"
| "phase_le Committed q = (q = Committed)"
| "phase_le Aborted q = (q = Aborted)"

definition tx_le :: "'n dist_tx \<Rightarrow> 'n dist_tx \<Rightarrow> bool" where
  "tx_le tx tx' \<longleftrightarrow> phase_le (tx_phase_of tx) (tx_phase_of tx') \<and> participant_ids tx' = participant_ids tx \<and>
     (\<exists>more. tx_operations tx' = tx_operations tx @ more)"

definition log_le :: "'n coordinator \<Rightarrow> 'n coordinator \<Rightarrow> bool" where
  "log_le co co' \<longleftrightarrow> (\<forall>i tx. hm_get (co_log co) i = Some tx \<longrightarrow> (\<exists>tx'. hm_get (co_log co') i = Some tx' \<and> tx_le tx tx'))"

lemma phase_le_refl [simp]: "phase_le p p"
  by (cases p) auto

lemma phase_le_trans: "phase_le p q \<Longrightarrow> phase_le q r \<Longrightarrow> phase_le p r"
  by (cases p; cases q; cases r) auto

lemma tx_le_refl [simp]: "tx_le tx tx"
  by (simp add: tx_le_def)

lemma tx_le_trans: "tx_le a b \<Longrightarrow> tx_le b c \<Longrightarrow> tx_le a c"
  by (auto simp: tx_le_def intro: phase_le_trans)

subsection \<open>Votes\<close>

text \<open>The last response of a node, and the participants with these votes.\<close>

definition last_vote :: "prepare_response list \<Rightarrow> string \<Rightarrow> participant_vote option" where
  "last_vote rs node = map_of (rev (map (\<lambda>r. (pr_node r, pr_vote r)) rs)) node"

definition with_votes :: "prepare_response list \<Rightarrow> participant list \<Rightarrow> participant list" where
  "with_votes rs ps =
     map (\<lambda>p. case last_vote rs (pt_node p) of None \<Rightarrow> p | Some v \<Rightarrow> p\<lparr>pt_vote := Some v\<rparr>) ps"

lemma last_vote_simps [simp]:
  "last_vote [] = Map.empty"
  "last_vote (r # rs) n = (case last_vote rs n of Some v \<Rightarrow> Some v | None \<Rightarrow> if n = pr_node r then Some (pr_vote r) else None)"
  by (auto simp: last_vote_def map_add_def split: option.splits)

lemma set_vote_eq:
  "distinct (map pt_node ps) \<Longrightarrow>
   set_vote node v ps = (if node \<in> pt_node ` set ps
     then Some (map (\<lambda>p. if pt_node p = node then p\<lparr>pt_vote := Some v\<rparr> else p) ps) else None)"
proof (induction ps)
  case Nil
  then show ?case by simp
next
  case (Cons p ps)
  show ?case
  proof (cases "pt_node p = node")
    case True
    with Cons.prems have "node \<notin> pt_node ` set ps" by simp
    then have "map (\<lambda>p. if pt_node p = node then p\<lparr>pt_vote := Some v\<rparr> else p) ps = map (\<lambda>p. p) ps"
      by (intro map_cong) auto
    with True show ?thesis by simp
  qed (use Cons in auto)
qed

lemma with_votes_nodes [simp]: "map pt_node (with_votes rs ps) = map pt_node ps"
  by (auto simp: with_votes_def split: option.splits)

lemma record_responses_eq:
  "distinct (map pt_node (tx_participants tx)) \<Longrightarrow>
   record_responses rs tx =
     (if pr_node ` set rs \<subseteq> pt_node ` set (tx_participants tx)
      then Ok (tx\<lparr>tx_participants := with_votes rs (tx_participants tx)\<rparr>)
      else Err (DistTxError ''unknown participant''))"
proof (induction rs arbitrary: tx)
  case Nil
  then show ?case by (simp add: record_responses_def with_votes_def)
next
  case (Cons r rs)
  let ?ps = "tx_participants tx"
  define ps' where "ps' = map (\<lambda>p. if pt_node p = pr_node r then p\<lparr>pt_vote := Some (pr_vote r)\<rparr> else p) ?ps"
  have nodes: "map pt_node ps' = map pt_node ?ps" by (auto simp: ps'_def)
  then have img: "pt_node ` set ps' = pt_node ` set ?ps" by (metis list.set_map)
  have votes: "with_votes rs ps' = with_votes (r # rs) ?ps"
    by (auto simp: with_votes_def ps'_def split: option.splits)
  have step: "record_responses (r # rs) tx = and_then (tx_record_vote tx (pr_node r) (pr_vote r)) (record_responses rs)"
    by (cases "tx_record_vote tx (pr_node r) (pr_vote r)") (simp_all add: record_responses_def)
  show ?case
  proof (cases "pr_node r \<in> pt_node ` set ?ps")
    case True
    then have "tx_record_vote tx (pr_node r) (pr_vote r) = Ok (tx\<lparr>tx_participants := ps'\<rparr>)"
      using Cons.prems by (simp add: tx_record_vote_def set_vote_eq ps'_def)
    with step Cons.IH [of "tx\<lparr>tx_participants := ps'\<rparr>"] Cons.prems True show ?thesis
      by (simp add: nodes img votes)
  next
    case False
    with step Cons.prems show ?thesis by (simp add: tx_record_vote_def set_vote_eq)
  qed
qed

subsection \<open>Steps of the coordinator\<close>

text \<open>What every operation may do to a stored transaction.\<close>

definition change_ok :: "('n dist_tx \<Rightarrow> ('n dist_tx \<times> 'r) outcome) \<Rightarrow> bool" where
  "change_ok f \<longleftrightarrow> (\<forall>tx tx' r. tx_wf tx \<and> f tx = Ok (tx', r) \<longrightarrow> tx_id tx' = tx_id tx \<and> tx_wf tx' \<and> tx_le tx tx')"

lemma log_change_None [simp]:
  "hm_get (co_log co) i = None \<Longrightarrow> log_change f co i = (co, Err (DistTxError ''transaction not found''))"
  by (simp add: log_change_def)

lemma log_change_Some:
  assumes "hm_get (co_log co) i = Some tx"
  shows "f tx = Ok (tx', r) \<Longrightarrow> tx_id tx' = i \<Longrightarrow> log_change f co i = (co\<lparr>co_log := hm_insert i tx' (co_log co)\<rparr>, Ok r)"
    and "f tx = Err e \<Longrightarrow> log_change f co i = (co, Err e)"
    and "f tx = Panic \<Longrightarrow> log_change f co i = (co, Panic)"
  using assms by (auto simp: log_change_def log_update_def)

lemma log_change_ok:
  assumes "change_ok f" "coord_wf co"
  shows "coord_wf (fst (log_change f co i)) \<and> log_le co (fst (log_change f co i))"
proof (cases "hm_get (co_log co) i")
  case None
  with assms show ?thesis by (auto simp: log_le_def)
next
  case (Some tx)
  with assms(2) have tx: "tx_id tx = i" "tx_wf tx" by (auto simp: coord_wf_def)
  show ?thesis
  proof (cases "f tx")
    case (Ok y)
    obtain tx' r where y: "y = (tx', r)" by (cases y)
    with assms(1) tx Ok have "tx_id tx' = i" "tx_wf tx'" "tx_le tx tx'" by (auto simp: change_ok_def)
    with Some Ok y assms(2) show ?thesis
      by (auto simp: log_change_Some(1) coord_wf_def log_le_def hm_simps)
  qed (use Some assms(2) in \<open>auto simp: log_change_Some(2,3) log_le_def\<close>)
qed

lemma tx_wf_voting:
  assumes "tx_wf tx" "tx_phase_of tx = Voting"
  shows "distinct (map pt_node (tx_participants tx))" "list_all (\<lambda>p. pt_vote p = None) (tx_participants tx)"
  using assms by (auto simp: tx_wf_def)

lemma change_ok_add: "change_ok (\<lambda>tx. Ok (tx_add_operation op tx, ()))"
  by (auto simp: change_ok_def tx_add_operation_def tx_wf_def tx_le_def participant_ids_def)

lemma change_ok_commit: "change_ok (\<lambda>tx. outcome_map (\<lambda>tx'. (tx', ())) (tx_commit tx))"
  by (auto simp: change_ok_def tx_commit_def tx_wf_def tx_le_def participant_ids_def split: if_splits)

lemma change_ok_abort: "change_ok (\<lambda>tx. outcome_map (\<lambda>tx'. (tx', ())) (tx_abort tx))"
proof -
  have "phase_le (tx_phase_of tx) Aborted" if "tx_phase_of tx \<noteq> Committed" for tx :: "'n dist_tx"
    using that by (cases "tx_phase_of tx") auto
  then show ?thesis
    by (auto simp: change_ok_def tx_abort_def tx_wf_def tx_le_def participant_ids_def split: if_splits)
qed

definition prepare_change :: "prepare_response list \<Rightarrow> 'n dist_tx \<Rightarrow> ('n dist_tx \<times> tx_phase) outcome" where
  "prepare_change rs = (\<lambda>tx.
       if tx_phase_of tx \<noteq> Voting then Err (DistTxError ''transaction is not in voting phase'')
       else and_then (record_responses rs tx) (\<lambda>tx1.
            and_then (ok_or (tx_outcome tx1) (DistTxError ''votes not complete'')) (\<lambda>outcome.
              Ok (tx1\<lparr>tx_phase_of := outcome\<rparr>, outcome))))"

lemma coord_prepare_change: "coord_prepare co i rs = log_change (prepare_change rs) co i"
  by (simp add: coord_prepare_def prepare_change_def)

lemma tx_outcome_cases:
  assumes "tx_outcome tx = Some q"
  shows "q = Prepared \<and> list_all (\<lambda>p. pt_vote p = Some VoteYes) (tx_participants tx) \<or> q = Aborted"
  using assms by (auto simp: tx_outcome_def split: if_splits)

lemma change_ok_prepare: "change_ok (prepare_change rs)"
  unfolding change_ok_def
proof (intro allI impI, elim conjE)
  fix tx tx' :: "'a dist_tx" and q
  assume wf: "tx_wf tx" and ok: "prepare_change rs tx = Ok (tx', q)"
  let ?ps = "with_votes rs (tx_participants tx)"
  have voting: "tx_phase_of tx = Voting" using ok by (auto simp: prepare_change_def split: if_splits)
  note dist = tx_wf_voting [OF wf voting]
  have tx': "tx' = tx\<lparr>tx_participants := ?ps, tx_phase_of := q\<rparr>" "tx_outcome (tx\<lparr>tx_participants := ?ps\<rparr>) = Some q"
    using ok voting dist(1) by (auto simp: prepare_change_def record_responses_eq split: if_splits)
  have "map pt_node ?ps = map pt_node (tx_participants tx)" by simp
  then show "tx_id tx' = tx_id tx \<and> tx_wf tx' \<and> tx_le tx tx'"
    using tx_outcome_cases [OF tx'(2)] dist(1) voting
    by (auto simp: tx'(1) tx_wf_def tx_le_def participant_ids_def)
qed

lemma add_participants_new:
  assumes "distinct (map pt_node (tx_participants tx))" "list_all (\<lambda>p. pt_vote p = None) (tx_participants tx)"
  shows "let tx' = fold add_participant nodes tx in
    distinct (map pt_node (tx_participants tx')) \<and> list_all (\<lambda>p. pt_vote p = None) (tx_participants tx') \<and>
    tx_id tx' = tx_id tx \<and> tx_phase_of tx' = tx_phase_of tx"
  using assms
proof (induction nodes arbitrary: tx)
  case Nil
  then show ?case by simp
next
  case (Cons n nodes)
  then have "distinct (map pt_node (tx_participants (add_participant n tx)))"
    "list_all (\<lambda>p. pt_vote p = None) (tx_participants (add_participant n tx))"
    by (auto simp: add_participant_def)
  from Cons.IH [OF this] show ?case by (simp add: Let_def add_participant_def)
qed

lemma coord_begin_ok:
  assumes "coord_wf co" "hm_get (co_log co) i = None"
  shows "coord_wf (fst (coord_begin co i nodes)) \<and> log_le co (fst (coord_begin co i nodes))"
proof -
  define tx :: "'a dist_tx" where "tx = fold add_participant nodes (dist_tx_new i (co_node co))"
  have "distinct (map pt_node (tx_participants tx)) \<and> list_all (\<lambda>p. pt_vote p = None) (tx_participants tx) \<and>
      tx_id tx = i \<and> tx_phase_of tx = Voting"
    using add_participants_new [of "dist_tx_new i (co_node co) :: 'a dist_tx" nodes]
    by (simp add: Let_def tx_def dist_tx_new_def)
  then have "tx_id tx = i" "tx_wf tx" by (auto simp: tx_wf_def)
  with assms show ?thesis
    by (auto simp: coord_begin_def log_register_def coord_wf_def log_le_def hm_simps simp flip: tx_def)
qed

lemma coord_step_ok:
  assumes "coord_wf co" "fresh_begin co ev"
  shows "coord_wf (coord_step co ev) \<and> log_le co (coord_step co ev)"
  using assms log_change_ok [OF change_ok_add assms(1)] log_change_ok [OF change_ok_prepare assms(1)]
    log_change_ok [OF change_ok_commit assms(1)] log_change_ok [OF change_ok_abort assms(1)]
  by (cases ev) (simp_all add: coord_begin_ok coord_add_operation_def coord_prepare_change coord_commit_def coord_abort_def)

interpretation dtx: monotone_machine coord_step fresh_begin coord_wf log_le
proof
  show "log_le s s" for s :: "'a coordinator" by (simp add: log_le_def)
  show "log_le s u" if "log_le s t" "log_le t u" for s t u :: "'a coordinator"
    using that unfolding log_le_def by (meson tx_le_trans)
qed (use coord_step_ok in blast)+

lemma coordinator_new_wf: "coord_wf (coordinator_new node)"
  by (simp add: coord_wf_def coordinator_new_def)

subsection \<open>Properties\<close>

text \<open>
  C12: Two-phase commit. In every run of a coordinator that begins each transaction under a new
  id, a transaction that is prepared or committed has a yes vote of each of its participants;
  and whatever happens later, it stays in the log with the same participants, and once it is
  committed or aborted it stays so.
\<close>

theorem two_phase_commit_safe:
  assumes "ok_run fresh_begin coord_step (coordinator_new node) evs"
    and "co = foldl coord_step (coordinator_new node) evs" "hm_get (co_log co) i = Some tx"
    and "ok_run fresh_begin coord_step co later"
  shows "(tx_phase_of tx \<in> {Prepared, Committed} \<longrightarrow> (\<forall>p \<in> set (tx_participants tx). pt_vote p = Some VoteYes)) \<and>
    (\<exists>tx'. hm_get (co_log (foldl coord_step co later)) i = Some tx' \<and> participant_ids tx' = participant_ids tx \<and>
       (tx_phase_of tx \<in> {Committed, Aborted} \<longrightarrow> tx_phase_of tx' = tx_phase_of tx))"
proof -
  have wf: "coord_wf co" using dtx.run_inv [OF coordinator_new_wf assms(1)] assms(2) by simp
  then have tx: "tx_wf tx" using assms(3) by (simp add: coord_wf_def)
  have "log_le co (foldl coord_step co later)" by (rule dtx.run_rank [OF wf assms(4)])
  then obtain tx' where "hm_get (co_log (foldl coord_step co later)) i = Some tx'" "tx_le tx tx'"
    using assms(3) unfolding log_le_def by blast
  moreover have "tx_phase_of tx \<in> {Committed, Aborted} \<longrightarrow> tx_phase_of tx' = tx_phase_of tx"
    using \<open>tx_le tx tx'\<close> by (auto simp: tx_le_def)
  ultimately show ?thesis using tx by (auto simp: tx_wf_def tx_le_def list_all_iff)
qed

theorem two_phase_commit_safe_witness:
  "hm_get (co_log (foldl coord_step (coordinator_new ''c'')
       ([CoBegin ''t'' [''p'', ''q''], CoPrepare ''t'' [\<lparr>pr_tx = ''t'', pr_node = ''q'', pr_vote = VoteYes\<rparr>,
          \<lparr>pr_tx = ''t'', pr_node = ''p'', pr_vote = VoteYes\<rparr>], CoCommit ''t''] @ [CoAbort ''t'']))) ''t'' =
     Some \<lparr>tx_id = ''t'', tx_coordinator = ''c'',
       tx_participants = [\<lparr>pt_node = ''p'', pt_vote = Some VoteYes\<rparr>, \<lparr>pt_node = ''q'', pt_vote = Some VoteYes\<rparr>],
       tx_operations = ([] :: unit tx_op list), tx_phase_of = Committed\<rparr>"
proof -
  let ?evs = "[CoBegin ''t'' [''p'', ''q''], CoPrepare ''t'' [\<lparr>pr_tx = ''t'', pr_node = ''q'', pr_vote = VoteYes\<rparr>,
          \<lparr>pr_tx = ''t'', pr_node = ''p'', pr_vote = VoteYes\<rparr>], CoCommit ''t''] :: unit coord_event list"
  let ?co = "foldl coord_step (coordinator_new ''c'') ?evs"
  have "ok_run fresh_begin coord_step (coordinator_new ''c'') ?evs" by code_simp
  moreover have "hm_get (co_log ?co) ''t'' = Some \<lparr>tx_id = ''t'', tx_coordinator = ''c'',
       tx_participants = [\<lparr>pt_node = ''p'', pt_vote = Some VoteYes\<rparr>, \<lparr>pt_node = ''q'', pt_vote = Some VoteYes\<rparr>],
       tx_operations = [], tx_phase_of = Committed\<rparr>" by code_simp
  moreover have "ok_run fresh_begin coord_step ?co [CoAbort ''t'']" by simp
  moreover have "hm_get (co_log (foldl coord_step ?co [CoAbort ''t''])) ''t'' = hm_get (co_log ?co) ''t''" by code_simp
  ultimately show ?thesis
    using two_phase_commit_safe [of "''c''" ?evs ?co "''t''" _ "[CoAbort ''t'']"] by (simp only: foldl_append)
qed

text \<open>
  The vote. Preparing a transaction in the voting phase fails and changes nothing when a
  response comes from a node that does not take part or a participant has not answered;
  otherwise the last response of each participant counts: the transaction is prepared when all
  of them are yes and aborted when one is no.
\<close>

theorem prepare_decides_by_last_votes:
  assumes "coord_wf co" "hm_get (co_log co) i = Some tx" "tx_phase_of tx = Voting"
  shows "coord_prepare co i rs =
    (if \<not> set (map pr_node rs) \<subseteq> set (participant_ids tx) then (co, Err (DistTxError ''unknown participant''))
     else if \<exists>n \<in> set (participant_ids tx). last_vote rs n = None then (co, Err (DistTxError ''votes not complete''))
     else let q = (if \<forall>n \<in> set (participant_ids tx). last_vote rs n = Some VoteYes then Prepared else Aborted)
          in (co\<lparr>co_log := hm_insert i (tx\<lparr>tx_participants := with_votes rs (tx_participants tx), tx_phase_of := q\<rparr>)
                            (co_log co)\<rparr>, Ok q))"
proof -
  let ?ps = "tx_participants tx" and ?tx1 = "tx\<lparr>tx_participants := with_votes rs (tx_participants tx)\<rparr>"
  have tx: "tx_id tx = i" "tx_wf tx" using assms(1,2) by (auto simp: coord_wf_def)
  note new = tx_wf_voting [OF tx(2) assms(3)]
  have one: "pt_vote (case last_vote rs (pt_node p) of None \<Rightarrow> p | Some v \<Rightarrow> p\<lparr>pt_vote := Some v\<rparr>) = last_vote rs (pt_node p)"
    if "p \<in> set ?ps" for p
    using that new(2) by (auto simp: list_all_iff split: option.split)
  have vote: "list_all (\<lambda>p. P (pt_vote p)) (with_votes rs ?ps) \<longleftrightarrow> (\<forall>n \<in> set (participant_ids tx). P (last_vote rs n))" for P
    by (simp add: with_votes_def participant_ids_def list_all_iff one)
  have rec: "record_responses rs tx = (if set (map pr_node rs) \<subseteq> set (participant_ids tx) then Ok ?tx1
      else Err (DistTxError ''unknown participant''))"
    using record_responses_eq [OF new(1), of rs] by (simp add: participant_ids_def)
  have out: "tx_outcome ?tx1 = (if \<exists>n \<in> set (participant_ids tx). last_vote rs n = None then None
      else Some (if \<forall>n \<in> set (participant_ids tx). last_vote rs n = Some VoteYes then Prepared else Aborted))"
    using vote [of "\<lambda>v. v \<noteq> None"] vote [of "\<lambda>v. v = Some VoteYes"]
    by (simp add: tx_outcome_def all_votes_received_def) 
  show ?thesis
    using assms(3) tx(1)
    by (simp add: coord_prepare_change log_change_def assms(2) prepare_change_def rec out log_update_def Let_def) force
qed

theorem prepare_decides_by_last_votes_witness:
  "snd (coord_prepare (fst (coord_begin (coordinator_new ''c'') ''t'' [''p'', ''q'']) :: unit coordinator) ''t''
     [\<lparr>pr_tx = ''t'', pr_node = ''p'', pr_vote = VoteNo\<rparr>, \<lparr>pr_tx = ''t'', pr_node = ''q'', pr_vote = VoteYes\<rparr>,
      \<lparr>pr_tx = ''t'', pr_node = ''p'', pr_vote = VoteYes\<rparr>]) = Ok Prepared"
proof -
  let ?co = "fst (coord_begin (coordinator_new ''c'') ''t'' [''p'', ''q'']) :: unit coordinator"
  let ?tx = "\<lparr>tx_id = ''t'', tx_coordinator = ''c'',
    tx_participants = [\<lparr>pt_node = ''p'', pt_vote = None\<rparr>, \<lparr>pt_node = ''q'', pt_vote = None\<rparr>],
    tx_operations = [], tx_phase_of = Voting\<rparr> :: unit dist_tx"
  have "hm_get (co_log ?co) ''t'' = Some ?tx" by code_simp
  moreover have "coord_wf ?co"
    by (rule conjunct1 [OF coord_begin_ok [OF coordinator_new_wf]]) (simp add: coordinator_new_def)
  ultimately show ?thesis
    by (subst prepare_decides_by_last_votes [of _ _ ?tx]) (simp_all add: participant_ids_def)
qed

text \<open>
  A participant does the work when it is asked to vote. A transaction whose first operation
  succeeds and whose second fails is voted down, but the first document is in its shard and
  survives a restart, and no later step removes it.
\<close>

theorem no_vote_keeps_effects:
  assumes "bt_ok (rt_engines rt)" "map_of (rt_engines rt) s = Some e" "db_run c en e"
    and "op_ok c (envs 0) e (CInsert doc)" "s' \<noteq> s"
    and "map_of (rt_engines rt) s' = Some e'" "eng_abs e' j = None"
  shows "\<exists>rt' sent e1 e2. participant_prepare c envs node rt i [TxInsert doc s, TxDelete j s'] =
      (rt', Ok \<lparr>pr_tx = i, pr_node = node, pr_vote = VoteNo\<rparr>, sent) \<and>
    map_of (rt_engines rt') s = Some e1 \<and> eng_abs e1 = abs_op (envs 0) (eng_abs e) (CInsert doc) \<and>
    engine_open c en (engine_files [] e1) = Ok e2 \<and> eng_abs e2 = eng_abs e1"
proof -
  let ?env = "envs 0"
  define e1 where "e1 = fst (engine_insert c ?env e doc)"
  obtain sent where ins: "engine_insert c ?env e doc = (e1, Ok (doc_id (stored_doc ?env doc)), sent)"
    using insert_ok(1) [OF db_run_ok [OF assms(3)] assms(4)] by (metis e1_def prod.collapse)
  define rt1 where "rt1 = rt\<lparr>rt_engines := bt_insert s e1 (rt_engines rt)\<rparr>"
  have rt1: "apply_tx_op c ?env rt (TxInsert doc s) = (rt1, Ok (), sent)"
    using assms(2) ins by (simp add: on_shard_def rt1_def)
  have del: "engine_delete c (envs 1) e' j = (e', Err (NotFound j), [])"
    using assms(7) by (simp add: engine_delete_def eng_abs_def)
  have look: "map_of (rt_engines rt1) = (map_of (rt_engines rt))(s \<mapsto> e1)" "bt_ok (rt_engines rt1)"
    using assms(1) by (simp_all add: rt1_def hm_simps)
  define rt2 where "rt2 = rt1\<lparr>rt_engines := bt_insert s' e' (rt_engines rt1)\<rparr>"
  have "apply_tx_op c (envs 1) rt1 (TxDelete j s') = (rt2, Err (NotFound j), [])"
    using assms(5,6) del look by (simp add: on_shard_def rt2_def)
  then have "participant_prepare c envs node rt i [TxInsert doc s, TxDelete j s'] =
      (rt2, Ok \<lparr>pr_tx = i, pr_node = node, pr_vote = VoteNo\<rparr>, sent)"
    using rt1 by (simp add: participant_prepare_def)
  moreover have "map_of (rt_engines rt2) s = Some e1" using look assms(5) by (simp add: rt2_def hm_simps)
  moreover have "engine_ok c en e1" "eng_abs e1 = abs_op ?env (eng_abs e) (CInsert doc)"
    using apply_op_ok [OF db_run_ok [OF assms(3)] assms(4)] by (simp_all add: e1_def)
  moreover have "eng_abs (without_subscribers e1) = eng_abs e1"
    by (simp add: eng_abs_def without_subscribers_def)
  ultimately show ?thesis using reopen_ok [of c en e1] by blast
qed

theorem no_vote_keeps_effects_witness:
  "\<exists>rt' sent e1 e2. participant_prepare toy_codec (\<lambda>_. toy_env) ''n'' toy_router ''t'' [TxInsert toy_doc ''a'', TxDelete ''x'' ''b''] =
      (rt', Ok \<lparr>pr_tx = ''t'', pr_node = ''n'', pr_vote = VoteNo\<rparr>, sent) \<and>
    map_of (rt_engines rt') ''a'' = Some e1 \<and> eng_abs e1 = abs_op toy_env (eng_abs toy_engine) (CInsert toy_doc) \<and>
    engine_open toy_codec False (engine_files [] e1) = Ok e2 \<and> eng_abs e2 = eng_abs e1"
proof -
  have at: "map_of (rt_engines toy_router) ''a'' = Some toy_engine" "map_of (rt_engines toy_router) ''b'' = Some toy_engine"
    by (simp_all add: toy_router_def)
  have "eng_abs toy_engine ''x'' = None" by (simp add: eng_abs_def toy_engine_def)
  from no_vote_keeps_effects [OF toy_router_ok at(1) toy_run toy_insert _ at(2) this] show ?thesis by simp
qed

end
