(* ===== verification/Backup.thy ===== *)
theory Backup
  imports Engine Text
begin

text \<open>
  Snapshots (\<open>src/src/backup.rs\<close>): the files of the databases by path, the snapshot directory as
  the files it holds by name. Paths are texts; the JSON coding of the metadata and the errors the
  operating system gives for directories and files are arguments.
\<close>

subsection \<open>Data\<close>

record snapshot_meta =
  sm_id :: string
  sm_created :: string
  sm_db_name :: string
  sm_size :: nat

record backup_fs =
  bf_files :: "(string, bytes) hashmap"
  bf_snaps :: "(string, bytes) hashmap option"

record meta_codec =
  enc_meta :: "snapshot_meta \<Rightarrow> bytes"
  dec_meta :: "bytes \<Rightarrow> snapshot_meta option"

text \<open>
  What the operating system answers: creating the snapshot directory, creating (or truncating) and
  removing a file, in the snapshot directory or at a path of a database.
\<close>

datatype place = InSnaps string | AtPath string

record backup_os =
  bo_mkdir :: "error option"
  bo_create :: "place \<Rightarrow> error option"
  bo_remove :: "place \<Rightarrow> error option"

text \<open>\<open>copy_file\<close>: a buffer of 8192 bytes, written as it is read.\<close>

function copy_loop :: "bytes \<Rightarrow> bytes \<Rightarrow> bytes" where
  "copy_loop src dst = (let buf = take 8192 src in if buf = [] then dst else copy_loop (drop 8192 src) (dst @ buf))"
  by pat_completeness auto
termination
  by (relation "measure (\<lambda>(src, dst). length src)") auto

declare copy_loop.simps [simp del]

definition copy_file :: "bytes \<Rightarrow> bytes" where
  "copy_file src = copy_loop src []"

definition snap_db :: "string \<Rightarrow> string" where
  "snap_db i = i @ ''.cassette''"

definition snap_wal :: "string \<Rightarrow> string" where
  "snap_wal i = i @ ''.cassette.wal''"

definition snap_json :: "string \<Rightarrow> string" where
  "snap_json i = i @ ''.json''"

subsection \<open>Operations\<close>

text \<open>\<open>second\<close> is the clock as \<open>%Y%m%d_%H%M%S\<close>, \<open>created\<close> as RFC 3339.\<close>

definition create_snapshot ::
  "meta_codec \<Rightarrow> backup_os \<Rightarrow> string \<Rightarrow> string \<Rightarrow> backup_fs \<Rightarrow> string \<Rightarrow> backup_fs \<times> snapshot_meta outcome" where
  "create_snapshot mc os second created fs db_path =
     (case hm_get (bf_files fs) db_path of
        None \<Rightarrow> (fs, Err (NotFound (''Database not found: '' @ db_path)))
      | Some db \<Rightarrow>
     (case bo_mkdir os of
        Some x \<Rightarrow> (fs, Err x)
      | None \<Rightarrow>
     (let dir = (case bf_snaps fs of None \<Rightarrow> [] | Some dir \<Rightarrow> dir);
          i = ''snap_'' @ second;
          left = (\<lambda>dir. fs\<lparr>bf_snaps := Some dir\<rparr>) in
      case bo_create os (InSnaps (snap_db i)) of
        Some x \<Rightarrow> (left dir, Err x)
      | None \<Rightarrow>
     (let dir1 = hm_insert (snap_db i) (copy_file db) dir in
      case (case hm_get (bf_files fs) (with_extension db_path ''wal'') of
              None \<Rightarrow> Ok dir1
            | Some wal \<Rightarrow>
                (case bo_create os (InSnaps (snap_wal i)) of
                   Some x \<Rightarrow> Err x
                 | None \<Rightarrow> Ok (hm_insert (snap_wal i) (copy_file wal) dir1))) of
        Err x \<Rightarrow> (left dir1, Err x)
      | Panic \<Rightarrow> (left dir1, Panic)
      | Ok dir2 \<Rightarrow>
     (let size = length (copy_file db) + (case hm_get dir2 (snap_wal i) of None \<Rightarrow> 0 | Some wal \<Rightarrow> length wal);
          meta = \<lparr>sm_id = i, sm_created = created, sm_db_name = path_stem db_path, sm_size = size\<rparr> in
      case bo_create os (InSnaps (snap_json i)) of
        Some x \<Rightarrow> (left dir2, Err x)
      | None \<Rightarrow> (left (hm_insert (snap_json i) (enc_meta mc meta) dir2), Ok meta))))))"

text \<open>\<open>read_to_string\<close> fails on bytes that are no UTF-8.\<close>

fun read_metas :: "meta_codec \<Rightarrow> (string \<times> bytes) list \<Rightarrow> snapshot_meta list outcome" where
  "read_metas mc [] = Ok []"
| "read_metas mc ((name, content) # es) =
     (if path_extension name = Some ''json'' then
        (if utf8_lossy content \<noteq> content then Err (Io ''stream did not contain valid UTF-8'')
         else outcome_map (\<lambda>ms. (case dec_meta mc content of None \<Rightarrow> [] | Some m \<Rightarrow> [m]) @ ms) (read_metas mc es))
      else read_metas mc es)"

text \<open>\<open>sort_by(|a, b| b.created_at.cmp(&a.created_at))\<close> is stable: the reverse order of insertion sort from the right.\<close>

fun insert_by_created :: "snapshot_meta \<Rightarrow> snapshot_meta list \<Rightarrow> snapshot_meta list" where
  "insert_by_created m [] = [m]"
| "insert_by_created m (x # xs) = (if sm_created x \<le> sm_created m then m # x # xs else x # insert_by_created m xs)"

definition list_snapshots :: "meta_codec \<Rightarrow> backup_fs \<Rightarrow> snapshot_meta list outcome" where
  "list_snapshots mc fs =
     (case bf_snaps fs of
        None \<Rightarrow> Ok []
      | Some dir \<Rightarrow> outcome_map (\<lambda>ms. foldr insert_by_created ms []) (read_metas mc dir))"

definition restore_snapshot :: "backup_os \<Rightarrow> string \<Rightarrow> backup_fs \<Rightarrow> string \<Rightarrow> string \<Rightarrow> backup_fs \<times> unit outcome" where
  "restore_snapshot os dir_path fs i db_path =
     (let dir = (case bf_snaps fs of None \<Rightarrow> [] | Some dir \<Rightarrow> dir); wal_path = with_extension db_path ''wal'' in
      case hm_get dir (snap_db i) of
        None \<Rightarrow> (fs, Err (NotFound (''Snapshot '' @ [CHR 39] @ i @ [CHR 39] @ '' not found in '' @ dir_path)))
      | Some db \<Rightarrow>
     (case bo_create os (AtPath db_path) of
        Some x \<Rightarrow> (fs, Err x)
      | None \<Rightarrow>
     (let files1 = hm_insert db_path (copy_file db) (bf_files fs) in
      case hm_get dir (snap_wal i) of
        Some wal \<Rightarrow>
          (case bo_create os (AtPath wal_path) of
             Some x \<Rightarrow> (fs\<lparr>bf_files := files1\<rparr>, Err x)
           | None \<Rightarrow> (fs\<lparr>bf_files := hm_insert wal_path (copy_file wal) files1\<rparr>, Ok ()))
      | None \<Rightarrow>
          (if hm_get files1 wal_path = None then (fs\<lparr>bf_files := files1\<rparr>, Ok ())
           else case bo_remove os (AtPath wal_path) of
                  Some x \<Rightarrow> (fs\<lparr>bf_files := files1\<rparr>, Err x)
                | None \<Rightarrow> (fs\<lparr>bf_files := hm_remove wal_path files1\<rparr>, Ok ())))))"

text \<open>The three files of a snapshot are removed one after the other, when they exist.\<close>

fun remove_names :: "backup_os \<Rightarrow> string list \<Rightarrow> (string, bytes) hashmap \<Rightarrow> (string, bytes) hashmap \<times> unit outcome" where
  "remove_names os [] dir = (dir, Ok ())"
| "remove_names os (n # ns) dir =
     (if hm_get dir n = None then remove_names os ns dir
      else case bo_remove os (InSnaps n) of
             Some x \<Rightarrow> (dir, Err x)
           | None \<Rightarrow> remove_names os ns (hm_remove n dir))"

definition delete_snapshot :: "backup_os \<Rightarrow> backup_fs \<Rightarrow> string \<Rightarrow> backup_fs \<times> unit outcome" where
  "delete_snapshot os fs i =
     (case bf_snaps fs of
        None \<Rightarrow> (fs, Ok ())
      | Some dir \<Rightarrow>
          (let (dir', r) = remove_names os [snap_db i, snap_wal i, snap_json i] dir in (fs\<lparr>bf_snaps := Some dir'\<rparr>, r)))"

subsection \<open>Lemmas\<close>

lemma copy_loop_append: "copy_loop src dst = dst @ src"
proof (induction src dst rule: copy_loop.induct)
  case (1 src dst)
  then show ?case by (cases "src = []") (simp_all add: copy_loop.simps Let_def)
qed

lemma copy_file_id [simp]: "copy_file src = src"
  by (simp add: copy_file_def copy_loop_append)

lemma snap_names [simp]:
  "snap_db i \<noteq> snap_wal j" "snap_wal j \<noteq> snap_db i" "snap_db i \<noteq> snap_json j" "snap_json j \<noteq> snap_db i"
  "snap_wal i \<noteq> snap_json j" "snap_json j \<noteq> snap_wal i"
proof -
  have ends: "last (snap_db k) = CHR ''e''" "last (snap_wal k) = CHR ''l''" "last (snap_json k) = CHR ''n''" for k
    by (simp_all add: snap_db_def snap_wal_def snap_json_def)
  show "snap_db i \<noteq> snap_wal j" "snap_db i \<noteq> snap_json j" "snap_wal i \<noteq> snap_json j"
    using ends [of i] ends [of j] by auto
  then show "snap_wal j \<noteq> snap_db i" "snap_json j \<noteq> snap_db i" "snap_json j \<noteq> snap_wal i" by auto
qed

text \<open>What the snapshot directory holds of a new snapshot.\<close>

lemma create_snapshot_files:
  assumes "create_snapshot mc os second created fs db_path = (fs1, Ok meta)"
  shows "\<exists>db dir. hm_get (bf_files fs) db_path = Some db \<and> bf_snaps fs1 = Some dir \<and> bf_files fs1 = bf_files fs \<and>
    sm_id meta = ''snap_'' @ second \<and>
    hm_get dir (snap_db (sm_id meta)) = Some db \<and>
    hm_get dir (snap_wal (sm_id meta)) =
      (case hm_get (bf_files fs) (with_extension db_path ''wal'') of
         Some wal \<Rightarrow> Some wal | None \<Rightarrow> (case bf_snaps fs of None \<Rightarrow> None | Some old \<Rightarrow> hm_get old (snap_wal (sm_id meta))))"
  using assms
  by (cases "hm_get (bf_files fs) (with_extension db_path ''wal'')")
     (auto simp: create_snapshot_def hm_simps Let_def split: option.splits)

text \<open>Without errors of the operating system a snapshot of a database that exists is made.\<close>

lemma create_snapshot_succeeds:
  assumes "hm_get (bf_files fs) db_path \<noteq> None" "bo_mkdir os = None" "\<And>n. bo_create os (InSnaps n) = None"
  shows "\<exists>fs1 meta. create_snapshot mc os second created fs db_path = (fs1, Ok meta)"
  using assms by (cases "hm_get (bf_files fs) (with_extension db_path ''wal'')") (auto simp: create_snapshot_def Let_def)

definition may_replace :: "backup_os \<Rightarrow> string \<Rightarrow> bool" where
  "may_replace os p \<longleftrightarrow> bo_create os (AtPath p) = None \<and> bo_remove os (AtPath p) = None"

lemma restore_snapshot_files:
  assumes "bf_snaps fs = Some dir" "hm_get dir (snap_db i) = Some db" "with_extension target ''wal'' \<noteq> target"
    and "may_replace os target" "may_replace os (with_extension target ''wal'')"
  shows "\<exists>fs'. restore_snapshot os dir_path fs i target = (fs', Ok ()) \<and> bf_snaps fs' = bf_snaps fs \<and>
    hm_get (bf_files fs') =
      (hm_get (bf_files fs))(target \<mapsto> db, with_extension target ''wal'' := hm_get dir (snap_wal i))"
  using assms by (auto simp: restore_snapshot_def may_replace_def hm_simps fun_eq_iff Let_def split: option.split)

text \<open>Without its replication log a database still opens, with the feed disabled.\<close>

lemma open_without_feed:
  assumes "engine_ok c en e"
  shows "\<exists>e'. engine_open c False \<lparr>main_file = st_file (eng_storage e), wal_file = eng_wal e, repl_file = repl\<rparr> = Ok e' \<and>
    eng_docs e' = eng_docs e"
proof -
  obtain fs where fs: "logged c fs e" using assms by (auto simp: engine_ok_def)
  have "engine_open c False \<lparr>main_file = st_file (eng_storage e), wal_file = log_bytes fs, repl_file = []\<rparr> =
      Ok \<lparr>eng_wal = log_bytes fs, eng_storage = eng_storage e, eng_docs = eng_docs e, eng_index = eng_index e, eng_feed = None\<rparr>"
    using open_frames [of fs "eng_storage e" c None False "eng_docs e" "eng_index e"] assms fs
    by (simp add: engine_parts logged_def feed_ok_def)
  moreover have "engine_open c False \<lparr>main_file = m, wal_file = w, repl_file = repl\<rparr> =
      engine_open c False \<lparr>main_file = m, wal_file = w, repl_file = []\<rparr>" for m w
    by (simp add: engine_open_def)
  ultimately show ?thesis using fs by (simp add: logged_def)
qed

subsection \<open>Properties\<close>

text \<open>
  Backup round trip. A snapshot taken under a name that is new to the directory, and restored
  to any path that can be written, after anything has happened to the database files, gives back the database file and
  the log of the moment of the snapshot; a log made since is removed; no other file changes.
\<close>

theorem snapshot_restore_roundtrip:
  assumes "create_snapshot mc os second created fs db_path = (fs1, Ok meta)"
    and "case bf_snaps fs of None \<Rightarrow> True | Some dir \<Rightarrow> hm_get dir (snap_wal (sm_id meta)) = None"
    and "bf_snaps fs2 = bf_snaps fs1" "with_extension target ''wal'' \<noteq> target"
    and "may_replace os target" "may_replace os (with_extension target ''wal'')"
  shows "\<exists>fs3. restore_snapshot os dir_path fs2 (sm_id meta) target = (fs3, Ok ()) \<and>
    hm_get (bf_files fs3) = (hm_get (bf_files fs2))
      (target := hm_get (bf_files fs) db_path, with_extension target ''wal'' := hm_get (bf_files fs) (with_extension db_path ''wal''))"
proof -
  obtain db dir where "hm_get (bf_files fs) db_path = Some db" "bf_snaps fs1 = Some dir" "hm_get dir (snap_db (sm_id meta)) = Some db"
    "hm_get dir (snap_wal (sm_id meta)) = hm_get (bf_files fs) (with_extension db_path ''wal'')"
    using create_snapshot_files [OF assms(1)] assms(2) by (auto split: option.splits)
  with restore_snapshot_files [of fs2 dir "sm_id meta" db target os dir_path] assms(3-6) show ?thesis by auto
qed

text \<open>
  A snapshot of a database restores its documents. When the files of any engine that can arise
  are copied by a snapshot, the restored files open, whatever the replication log at the new path
  holds, and give the documents at the moment of the snapshot.
\<close>

theorem snapshot_restores_documents:
  assumes "db_run c en e" "create_snapshot mc os second created fs db_path = (fs1, Ok meta)"
    and "hm_get (bf_files fs) db_path = Some (st_file (eng_storage e))"
    and "hm_get (bf_files fs) (with_extension db_path ''wal'') = Some (eng_wal e)"
    and "bf_snaps fs2 = bf_snaps fs1" "with_extension target ''wal'' \<noteq> target"
    and "may_replace os target" "may_replace os (with_extension target ''wal'')"
  shows "\<exists>fs3 main wal e'. restore_snapshot os dir_path fs2 (sm_id meta) target = (fs3, Ok ()) \<and>
    hm_get (bf_files fs3) target = Some main \<and> hm_get (bf_files fs3) (with_extension target ''wal'') = Some wal \<and>
    engine_open c False \<lparr>main_file = main, wal_file = wal, repl_file = repl\<rparr> = Ok e' \<and> eng_abs e' = eng_abs e"
proof -
  obtain dir where dir: "bf_snaps fs1 = Some dir" "hm_get dir (snap_db (sm_id meta)) = Some (st_file (eng_storage e))"
    "hm_get dir (snap_wal (sm_id meta)) = Some (eng_wal e)"
    using create_snapshot_files [OF assms(2)] assms(3,4) by auto
  with restore_snapshot_files [of fs2 dir "sm_id meta" _ target os dir_path] assms(5-8)
  obtain fs3 where fs3: "restore_snapshot os dir_path fs2 (sm_id meta) target = (fs3, Ok ())"
    "hm_get (bf_files fs3) target = Some (st_file (eng_storage e))"
    "hm_get (bf_files fs3) (with_extension target ''wal'') = Some (eng_wal e)" by fastforce
  have ok: "engine_ok c en e" using db_run_ok [OF assms(1)] .
  then have "\<exists>e'. engine_open c False \<lparr>main_file = st_file (eng_storage e), wal_file = eng_wal e, repl_file = repl\<rparr> = Ok e' \<and> eng_docs e' = eng_docs e"
    by (rule open_without_feed)
  with fs3 show ?thesis by (auto simp: eng_abs_def)
qed

text \<open>
  Two snapshots in one second share their name. When the directory holds the log of an older
  snapshot of that name and the database has no log now, the restored database gets the older log.
\<close>

theorem snapshot_of_same_second_mixes:
  assumes "create_snapshot mc os second created fs db_path = (fs1, Ok meta)"
    and "bf_snaps fs = Some dir" "hm_get dir (snap_wal (''snap_'' @ second)) = Some old"
    and "hm_get (bf_files fs) (with_extension db_path ''wal'') = None" "with_extension db_path ''wal'' \<noteq> db_path"
    and "may_replace os db_path" "may_replace os (with_extension db_path ''wal'')"
  shows "\<exists>fs2. restore_snapshot os dir_path fs1 (sm_id meta) db_path = (fs2, Ok ()) \<and>
    hm_get (bf_files fs2) (with_extension db_path ''wal'') = Some old"
proof -
  from create_snapshot_files [OF assms(1)] assms(2-4) obtain db dir' where
    "bf_snaps fs1 = Some dir'" "hm_get dir' (snap_db (sm_id meta)) = Some db" "hm_get dir' (snap_wal (sm_id meta)) = Some old" by auto
  with restore_snapshot_files [of fs1 dir' "sm_id meta" db db_path os dir_path] assms(5-7) show ?thesis by auto
qed


subsection \<open>Witnesses\<close>

definition toy_meta :: meta_codec where
  "toy_meta = \<lparr>enc_meta = (\<lambda>m. sm_id m), dec_meta = (\<lambda>bs. None)\<rparr>"

definition toy_fs :: "bytes \<Rightarrow> bytes \<Rightarrow> backup_fs" where
  "toy_fs db wal = \<lparr>bf_files = [(''a.cassette'', db), (''a.wal'', wal)], bf_snaps = None\<rparr>"

definition toy_os :: backup_os where
  "toy_os = \<lparr>bo_mkdir = None, bo_create = (\<lambda>_. None), bo_remove = (\<lambda>_. None)\<rparr>"

lemma toy_os_replaces [simp]: "may_replace toy_os p"
  by (simp add: may_replace_def toy_os_def)

lemma toy_paths [simp]:
  "with_extension ''a.cassette'' ''wal'' = ''a.wal''" "with_extension ''b.cassette'' ''wal'' = ''b.wal''"
  by code_simp+

lemma toy_snapshot: "\<exists>fs1 meta. create_snapshot toy_meta toy_os ''s'' ''t'' (toy_fs db wal) ''a.cassette'' = (fs1, Ok meta)"
  by (rule create_snapshot_succeeds) (simp_all add: toy_fs_def toy_os_def)

theorem snapshot_restore_roundtrip_witness:
  "\<exists>fs1 meta fs3. create_snapshot toy_meta toy_os ''s'' ''t'' (toy_fs ''db'' ''log'') ''a.cassette'' = (fs1, Ok meta) \<and>
     restore_snapshot toy_os ''snaps'' (fs1\<lparr>bf_files := []\<rparr>) (sm_id meta) ''b.cassette'' = (fs3, Ok ()) \<and>
     hm_get (bf_files fs3) ''b.cassette'' = Some ''db'' \<and> hm_get (bf_files fs3) ''b.wal'' = Some ''log''"
proof -
  obtain fs1 meta where snap: "create_snapshot toy_meta toy_os ''s'' ''t'' (toy_fs ''db'' ''log'') ''a.cassette'' = (fs1, Ok meta)"
    using toy_snapshot by blast
  from snapshot_restore_roundtrip [OF this, of "fs1\<lparr>bf_files := []\<rparr>" "''b.cassette''" "''snaps''"] show ?thesis
    using snap by (auto simp: toy_fs_def)
qed

theorem snapshot_restores_documents_witness:
  "\<exists>fs1 meta fs3 main wal e'.
     create_snapshot toy_meta toy_os ''s'' ''t'' (toy_fs (st_file (eng_storage toy_engine)) (eng_wal toy_engine)) ''a.cassette'' = (fs1, Ok meta) \<and>
     restore_snapshot toy_os ''snaps'' fs1 (sm_id meta) ''b.cassette'' = (fs3, Ok ()) \<and>
     hm_get (bf_files fs3) ''b.cassette'' = Some main \<and>
     engine_open toy_codec False \<lparr>main_file = main, wal_file = wal, repl_file = ''x''\<rparr> = Ok e' \<and> eng_abs e' = eng_abs toy_engine"
proof -
  obtain fs1 meta where snap: "create_snapshot toy_meta toy_os ''s'' ''t'' (toy_fs (st_file (eng_storage toy_engine)) (eng_wal toy_engine)) ''a.cassette'' =
      (fs1, Ok meta)" using toy_snapshot by blast
  from snapshot_restores_documents [OF toy_run this, of fs1 "''b.cassette''" "''snaps''" "''x''"] snap show ?thesis
    by (simp add: toy_fs_def) blast
qed

theorem snapshot_of_same_second_mixes_witness:
  "\<exists>fs1 meta fs2. create_snapshot toy_meta toy_os ''s'' ''t'' \<lparr>bf_files = [(''a.cassette'', ''new'')], bf_snaps = Some [(snap_wal ''snap_s'', ''old'')]\<rparr>
       ''a.cassette'' = (fs1, Ok meta) \<and>
     restore_snapshot toy_os ''snaps'' fs1 (sm_id meta) ''a.cassette'' = (fs2, Ok ()) \<and> hm_get (bf_files fs2) ''a.wal'' = Some ''old''"
proof -
  let ?fs = "\<lparr>bf_files = [(''a.cassette'', ''new'')], bf_snaps = Some [(snap_wal ''snap_s'', ''old'')]\<rparr>"
  obtain fs1 meta where snap: "create_snapshot toy_meta toy_os ''s'' ''t'' ?fs ''a.cassette'' = (fs1, Ok meta)"
    using create_snapshot_succeeds [of ?fs "''a.cassette''" toy_os toy_meta "''s''" "''t''"] by (auto simp: toy_os_def)
  from snapshot_of_same_second_mixes [OF this, of _ "''old''" "''snaps''"] snap show ?thesis by auto
qed

end
