(* ===== verification/ConfigMigration.thy ===== *)
theory ConfigMigration
  imports Document Text
begin

text \<open>
  Migration of configuration files (\<open>src/src/config_migration.rs\<close>). The files are given by path;
  JSON is an argument.
\<close>

subsection \<open>Configurations\<close>

definition CURRENT_CONFIG_VERSION :: nat where
  "CURRENT_CONFIG_VERSION = 1"

record 'n versioned_config =
  vc_version :: nat
  vc_data :: "'n json"

text \<open>A migration changes the data in place, or fails.\<close>

type_synonym 'n migration = "'n json \<Rightarrow> 'n json option"

type_synonym 'n migrator = "(nat, 'n migration) hashmap"

datatype config_error = ReadingConfig string | ParsingConfig string | NoMigration nat | MigrationFailed

record 'n config_codec =
  enc_config :: "'n versioned_config \<Rightarrow> bytes"
  dec_config :: "bytes \<Rightarrow> 'n versioned_config option"

definition migrate_v0_to_v1 :: "'n json \<Rightarrow> 'n json option" where
  "migrate_v0_to_v1 data =
     Some (case data of
             JObj obj \<Rightarrow> JObj (if map_of obj ''tracing_enabled'' = None then bt_insert ''tracing_enabled'' (JBool False) obj else obj)
           | _ \<Rightarrow> data)"

definition migrator_new :: "'n migrator" where
  "migrator_new = [(0, migrate_v0_to_v1)]"

subsection \<open>Migrating\<close>

function migrate_value :: "'n migrator \<Rightarrow> 'n versioned_config \<Rightarrow> config_error + 'n versioned_config" where
  "migrate_value ms cfg =
     (if vc_version cfg < CURRENT_CONFIG_VERSION then
        (case hm_get ms (vc_version cfg) of
           None \<Rightarrow> Inl (NoMigration (vc_version cfg))
         | Some m \<Rightarrow>
             (case m (vc_data cfg) of
                None \<Rightarrow> Inl MigrationFailed
              | Some data \<Rightarrow> migrate_value ms \<lparr>vc_version = vc_version cfg + 1, vc_data = data\<rparr>))
      else Inr cfg)"
  by pat_completeness auto
termination
  by (relation "measure (\<lambda>(ms, cfg). CURRENT_CONFIG_VERSION - vc_version cfg)") auto

declare migrate_value.simps [simp del]

definition backup_path :: "string \<Rightarrow> nat \<Rightarrow> string" where
  "backup_path path v = with_extension path (''json.v'' @ nat_to_string v)"

definition migrate_file ::
  "'n migrator \<Rightarrow> 'n config_codec \<Rightarrow> (string, bytes) hashmap \<Rightarrow> string \<Rightarrow> (string, bytes) hashmap \<times> (config_error + unit)" where
  "migrate_file ms c files path =
     (case hm_get files path of
        None \<Rightarrow> (files, Inl (ReadingConfig path))
      | Some raw \<Rightarrow>
          if utf8_lossy raw \<noteq> raw then (files, Inl (ReadingConfig path))
          else (case dec_config c raw of
                  None \<Rightarrow> (files, Inl (ParsingConfig path))
                | Some config \<Rightarrow>
                    (case migrate_value ms config of
                       Inl e \<Rightarrow> (files, Inl e)
                     | Inr config' \<Rightarrow>
                         if vc_version config' \<noteq> vc_version config
                         then (hm_insert path (enc_config c config') (hm_insert (backup_path path (vc_version config)) raw files), Inr ())
                         else (files, Inr ()))))"

text \<open>The loop over the directory; a failure is printed and the file is left out of the answer.\<close>

fun migrate_entries ::
  "'n migrator \<Rightarrow> 'n config_codec \<Rightarrow> (string, bytes) hashmap \<Rightarrow> string list \<Rightarrow> (string, bytes) hashmap \<times> string list" where
  "migrate_entries ms c files [] = (files, [])"
| "migrate_entries ms c files (p # ps) =
     (if path_extension p = Some ''json'' then
        (case migrate_file ms c files p of
           (files', Inl e) \<Rightarrow> migrate_entries ms c files' ps
         | (files', Inr _) \<Rightarrow> (let (files2, done) = migrate_entries ms c files' ps in (files2, p # done)))
      else migrate_entries ms c files ps)"

text \<open>\<open>dir\<close> is the files of the directory, \<open>None\<close> when it is no directory.\<close>

definition migrate_directory ::
  "'n migrator \<Rightarrow> 'n config_codec \<Rightarrow> (string, bytes) hashmap option \<Rightarrow> (string, bytes) hashmap option \<times> string list" where
  "migrate_directory ms c dir =
     (case dir of
        None \<Rightarrow> (None, [])
      | Some files \<Rightarrow> (let (files', done) = migrate_entries ms c files (map fst files) in (Some files', done)))"

subsection \<open>Lemmas\<close>

definition upgraded :: "'n versioned_config \<Rightarrow> 'n versioned_config" where
  "upgraded cfg = (if vc_version cfg = 0 then \<lparr>vc_version = 1, vc_data = the (migrate_v0_to_v1 (vc_data cfg))\<rparr> else cfg)"

lemma migrate_value_new: "migrate_value migrator_new cfg = Inr (upgraded cfg)"
proof (cases "vc_version cfg = 0")
  case True
  then show ?thesis
    by (simp add: migrate_value.simps [of _ cfg] migrate_value.simps [of _ "\<lparr>vc_version = Suc 0, vc_data = _\<rparr>"]
        migrator_new_def CURRENT_CONFIG_VERSION_def upgraded_def migrate_v0_to_v1_def)
next
  case False
  then show ?thesis by (simp add: migrate_value.simps CURRENT_CONFIG_VERSION_def upgraded_def)
qed

lemma upgraded_idem [simp]: "upgraded (upgraded cfg) = upgraded cfg"
  by (simp add: upgraded_def)

text \<open>The backup of a configuration is no configuration itself.\<close>

lemma backup_extension: "path_extension (backup_path p 0) = Some ''v0''"
proof -
  have "nat_to_string 0 = ''0''" by code_simp
  then have "path_base (backup_path p 0) = path_stem p @ ''.json.v0''"
    unfolding backup_path_def by (simp add: path_base_with_extension)
  then show ?thesis by (cases "path_stem p") (simp_all add: path_extension_def Let_def)
qed

lemma migrate_file_new:
  "migrate_file migrator_new c files path =
     (case hm_get files path of
        None \<Rightarrow> (files, Inl (ReadingConfig path))
      | Some raw \<Rightarrow>
          if utf8_lossy raw \<noteq> raw then (files, Inl (ReadingConfig path))
          else (case dec_config c raw of
                  None \<Rightarrow> (files, Inl (ParsingConfig path))
                | Some cfg \<Rightarrow>
                    (if vc_version cfg = 0
                     then hm_insert path (enc_config c (upgraded cfg)) (hm_insert (backup_path path 0) raw files) else files, Inr ())))"
  by (auto simp: migrate_file_def migrate_value_new upgraded_def split: option.split)

text \<open>What the coding must keep is the version.\<close>

definition config_codec_ok :: "'n config_codec \<Rightarrow> bool" where
  "config_codec_ok c \<longleftrightarrow> (\<forall>cfg cfg'. dec_config c (enc_config c cfg) = Some cfg' \<longrightarrow> vc_version cfg' = vc_version cfg)"

text \<open>A file that is no JSON or that migration leaves alone.\<close>

definition settled :: "'n config_codec \<Rightarrow> (string, bytes) hashmap \<Rightarrow> string \<Rightarrow> bool" where
  "settled c files p \<longleftrightarrow>
     (path_extension p = Some ''json'' \<longrightarrow>
        (\<forall>raw cfg. hm_get files p = Some raw \<and> utf8_lossy raw = raw \<and> dec_config c raw = Some cfg \<longrightarrow> vc_version cfg \<noteq> 0))"

lemma upgraded_version: "vc_version (upgraded cfg) \<noteq> 0"
  by (simp add: upgraded_def)

lemma upgraded_settled: "config_codec_ok c \<Longrightarrow> dec_config c (enc_config c (upgraded cfg)) = Some cfg' \<Longrightarrow> vc_version cfg' \<noteq> 0"
  using upgraded_version by (metis config_codec_ok_def)

lemma migrate_file_settles:
  assumes "config_codec_ok c" "path_extension p = Some ''json''"
  shows "settled c (fst (migrate_file migrator_new c files p)) p"
    and "settled c files q \<Longrightarrow> settled c (fst (migrate_file migrator_new c files p)) q"
    and "path_extension q = Some ''json'' \<Longrightarrow> hm_get (fst (migrate_file migrator_new c files p)) q = None \<longleftrightarrow> hm_get files q = None"
proof -
  have ne: "backup_path p 0 \<noteq> q" if "path_extension q = Some ''json''" for q
    using backup_extension [of p] that by auto
  show "settled c (fst (migrate_file migrator_new c files p)) p"
    using assms upgraded_settled [OF assms(1)]
    by (auto simp: migrate_file_new settled_def hm_simps split: option.split if_splits)
  show "settled c (fst (migrate_file migrator_new c files p)) q" if "settled c files q"
    using that upgraded_settled [OF assms(1)] ne
    by (auto simp: migrate_file_new settled_def hm_simps split: option.split if_splits)
  show "hm_get (fst (migrate_file migrator_new c files p)) q = None \<longleftrightarrow> hm_get files q = None" if "path_extension q = Some ''json''"
    using ne [OF that] by (auto simp: migrate_file_new hm_simps split: option.split if_splits)
qed

lemma migrate_entries_settles:
  assumes "config_codec_ok c"
  shows "(settled c files q \<longrightarrow> settled c (fst (migrate_entries migrator_new c files ps)) q) \<and>
    (q \<in> set ps \<longrightarrow> settled c (fst (migrate_entries migrator_new c files ps)) q) \<and>
    (path_extension q = Some ''json'' \<longrightarrow> (hm_get (fst (migrate_entries migrator_new c files ps)) q = None) = (hm_get files q = None))"
proof (induction ps arbitrary: files)
  case Nil
  then show ?case by simp
next
  case (Cons p ps)
  show ?case
  proof (cases "path_extension p = Some ''json''")
    case True
    let ?files = "fst (migrate_file migrator_new c files p)"
    have "fst (migrate_entries migrator_new c files (p # ps)) = fst (migrate_entries migrator_new c ?files ps)"
      using True by (cases "migrate_file migrator_new c files p"; cases "snd (migrate_file migrator_new c files p)")
        (auto simp: case_prod_beta Let_def)
    then show ?thesis using Cons.IH [of ?files] migrate_file_settles [OF assms True] by auto
  next
    case False
    then have "settled c files p" for files by (simp add: settled_def)
    with False Cons.IH [of files] show ?thesis by auto
  qed
qed

lemma migrate_entries_settled:
  assumes "\<And>p. settled c files p"
  shows "fst (migrate_entries migrator_new c files ps) = files"
proof (induction ps)
  case Nil
  then show ?case by simp
next
  case (Cons p ps)
  have "fst (migrate_file migrator_new c files p) = files" if "path_extension p = Some ''json''"
    using assms [of p] that by (auto simp: migrate_file_new settled_def split: option.split)
  with Cons show ?case
    by (cases "migrate_file migrator_new c files p"; cases "snd (migrate_file migrator_new c files p)")
       (auto simp: case_prod_beta Let_def)
qed

subsection \<open>Properties\<close>

text \<open>
  Migrating one file. A configuration that can be read and parsed is migrated without error:
  of version 0 it becomes version 1 with the field \<open>tracing_enabled\<close> (false unless it was there),
  every other field unchanged, and the old text in a backup beside it; of any later version the
  files stay as they are.
\<close>

theorem migrate_file_upgrades:
  assumes "hm_get files p = Some raw" "utf8_lossy raw = raw" "dec_config c raw = Some cfg" "vc_data cfg = JObj obj" "bt_ok obj"
    and "path_extension p = Some ''json''"
  shows "if vc_version cfg = 0
    then \<exists>files' obj'. migrate_file migrator_new c files p = (files', Inr ()) \<and>
      hm_get files' p = Some (enc_config c \<lparr>vc_version = 1, vc_data = JObj obj'\<rparr>) \<and>
      map_of obj' = (map_of obj)(''tracing_enabled'' \<mapsto> (case map_of obj ''tracing_enabled'' of None \<Rightarrow> JBool False | Some v \<Rightarrow> v)) \<and>
      hm_get files' (backup_path p 0) = Some raw \<and>
      (\<forall>q. q \<noteq> p \<and> q \<noteq> backup_path p 0 \<longrightarrow> hm_get files' q = hm_get files q)
    else migrate_file migrator_new c files p = (files, Inr ())"
proof -
  have ne: "backup_path p 0 \<noteq> p" using backup_extension [of p] assms(6) by auto
  define obj' where "obj' = (if map_of obj ''tracing_enabled'' = None then bt_insert ''tracing_enabled'' (JBool False) obj else obj)"
  have map: "map_of obj' = (map_of obj)(''tracing_enabled'' \<mapsto> (case map_of obj ''tracing_enabled'' of None \<Rightarrow> JBool False | Some v \<Rightarrow> v))"
    using assms(5) by (auto simp: obj'_def hm_simps fun_eq_iff)
  have "upgraded cfg = \<lparr>vc_version = 1, vc_data = JObj obj'\<rparr>" if "vc_version cfg = 0"
    using assms(4) that by (simp add: upgraded_def migrate_v0_to_v1_def obj'_def)
  then show ?thesis using assms(1-3) ne map by (auto simp: migrate_file_new hm_simps)
qed

text \<open>
  Migrating a directory twice is migrating it once. After a migration every JSON file that
  parses has a version above 0, and a second migration changes no file; in particular backups
  are never taken for configurations.
\<close>

theorem migrate_directory_idempotent:
  assumes "config_codec_ok c"
  shows "fst (migrate_directory migrator_new c (fst (migrate_directory migrator_new c dir))) = fst (migrate_directory migrator_new c dir)"
proof (cases dir)
  case None
  then show ?thesis by (simp add: migrate_directory_def)
next
  case (Some files)
  let ?files = "fst (migrate_entries migrator_new c files (map fst files))"
  have "settled c ?files q" for q
  proof (cases "path_extension q = Some ''json'' \<and> hm_get files q \<noteq> None")
    case True
    then have "q \<in> set (map fst files)" by (cases "hm_get files q") (auto dest: map_of_SomeD intro: rev_image_eqI)
    then show ?thesis using migrate_entries_settles [OF assms] by blast
  next
    case False
    then have "settled c files q" by (auto simp: settled_def)
    then show ?thesis using migrate_entries_settles [OF assms] by blast
  qed
  then show ?thesis using migrate_entries_settled [of c ?files] Some by (simp add: migrate_directory_def case_prod_beta)
qed


definition toy_migration :: "unit config_codec" where
  "toy_migration = \<lparr>enc_config = (\<lambda>cfg. replicate (vc_version cfg) CHR ''1''),
     dec_config = (\<lambda>bs. Some \<lparr>vc_version = length bs, vc_data = JObj []\<rparr>)\<rparr>"

theorem migrate_file_upgrades_witness:
  "\<exists>files'. migrate_file migrator_new toy_migration [(''c.json'', [])] ''c.json'' = (files', Inr ()) \<and>
     hm_get files' ''c.json'' = Some ''1'' \<and> hm_get files' (backup_path ''c.json'' 0) = Some []"
proof -
  have "path_extension ''c.json'' = Some ''json''" by code_simp
  from migrate_file_upgrades [OF _ _ _ _ _ this, of "[(''c.json'', [])]" "[]" toy_migration "\<lparr>vc_version = 0, vc_data = JObj []\<rparr>" "[]"]
  show ?thesis by (auto simp: toy_migration_def hm_simps)
qed

theorem migrate_directory_idempotent_witness:
  "fst (migrate_directory migrator_new toy_migration (fst (migrate_directory migrator_new toy_migration (Some [(''c.json'', [])])))) =
   fst (migrate_directory migrator_new toy_migration (Some [(''c.json'', [])]))"
  by (rule migrate_directory_idempotent) (simp add: config_codec_ok_def toy_migration_def)

end
