(* ===== verification/Feedback.thy ===== *)
theory Feedback
  imports Text
begin

text \<open>
  The feedback log (\<open>src/src/feedback.rs\<close>): a file of JSON lines, appended to and read whole.
  JSON is an argument, also the clock.
\<close>

datatype feedback_category = Bug | FeatureRequest | Performance | Documentation | General

record feedback_entry =
  fb_timestamp :: string
  fb_category :: feedback_category
  fb_message :: string
  fb_version :: string
  fb_contact :: "string option"

record feedback_codec =
  enc_entry :: "feedback_entry \<Rightarrow> string"
  dec_feedback :: "string \<Rightarrow> feedback_entry option"

text \<open>The file is created when it is missing, and written at its end.\<close>

definition submit_feedback ::
  "feedback_codec \<Rightarrow> string \<Rightarrow> bytes option \<Rightarrow> feedback_category \<Rightarrow> string \<Rightarrow> string \<Rightarrow> string option \<Rightarrow> bytes option" where
  "submit_feedback c now log category message version contact =
     Some ((case log of None \<Rightarrow> [] | Some bs \<Rightarrow> bs) @
       enc_entry c \<lparr>fb_timestamp = now, fb_category = category, fb_message = message, fb_version = version, fb_contact = contact\<rparr> @
       [CHR 10])"

fun read_lines :: "feedback_codec \<Rightarrow> string list \<Rightarrow> feedback_entry list" where
  "read_lines c [] = []"
| "read_lines c (line # ls) =
     (if trim line = [] then read_lines c ls
      else (case dec_feedback c line of Some e \<Rightarrow> e # read_lines c ls | None \<Rightarrow> read_lines c ls))"

definition read_feedback :: "feedback_codec \<Rightarrow> bytes option \<Rightarrow> feedback_entry list outcome" where
  "read_feedback c log =
     (case log of
        None \<Rightarrow> Ok []
      | Some raw \<Rightarrow>
          if utf8_lossy raw \<noteq> raw then Err (Io ''stream did not contain valid UTF-8'')
          else Ok (read_lines c (str_lines raw)))"

text \<open>What JSON text guarantees: one line of text, not blank, that decodes to its entry.\<close>

definition line_coded :: "feedback_codec \<Rightarrow> feedback_entry \<Rightarrow> bool" where
  "line_coded c e \<longleftrightarrow> is_ascii (enc_entry c e) \<and> CHR 10 \<notin> set (enc_entry c e) \<and> CHR 13 \<notin> set (enc_entry c e) \<and>
     trim (enc_entry c e) \<noteq> [] \<and> dec_feedback c (enc_entry c e) = Some e"

definition feedback_bytes :: "feedback_codec \<Rightarrow> feedback_entry list \<Rightarrow> bytes" where
  "feedback_bytes c es = concat (map (\<lambda>e. enc_entry c e @ [CHR 10]) es)"

lemma str_lines_Cons:
  assumes "CHR 10 \<notin> set l" "CHR 13 \<notin> set l"
  shows "str_lines (l @ CHR 10 # rest) = l # str_lines rest"
proof -
  have "split_by (\<lambda>c. c = CHR 10) (l @ CHR 10 # rest) = l # split_by (\<lambda>c. c = CHR 10) rest"
    using assms by (subst split_by_segment) auto
  moreover have "strip_cr l = l" using assms(2) by (metis last_in_set strip_cr_def)
  ultimately show ?thesis by (simp add: str_lines_def Let_def)
qed

lemma str_lines_Nil: "str_lines [] = []"
  by (simp add: str_lines_def)

lemma read_feedback_lines:
  assumes "list_all (line_coded c) es"
  shows "read_lines c (str_lines (feedback_bytes c es)) = es" "is_ascii (feedback_bytes c es)"
  using assms by (induction es) (auto simp: feedback_bytes_def str_lines_Nil str_lines_Cons line_coded_def is_ascii_def)

text \<open>
  Feedback is kept. A log that was written by any number of submissions, in order, is read
  back as exactly these entries, and one more submission adds its entry at the end.
\<close>

theorem feedback_roundtrip:
  assumes "list_all (line_coded c) es"
    and "line_coded c \<lparr>fb_timestamp = now, fb_category = k, fb_message = m, fb_version = v, fb_contact = contact\<rparr>"
  shows "read_feedback c (if es = [] then None else Some (feedback_bytes c es)) = Ok es \<and>
    read_feedback c (submit_feedback c now (if es = [] then None else Some (feedback_bytes c es)) k m v contact) =
      Ok (es @ [\<lparr>fb_timestamp = now, fb_category = k, fb_message = m, fb_version = v, fb_contact = contact\<rparr>])"
proof -
  let ?e = "\<lparr>fb_timestamp = now, fb_category = k, fb_message = m, fb_version = v, fb_contact = contact\<rparr>"
  have "submit_feedback c now (if es = [] then None else Some (feedback_bytes c es)) k m v contact = Some (feedback_bytes c (es @ [?e]))"
    by (simp add: submit_feedback_def feedback_bytes_def)
  moreover have "read_feedback c (Some (feedback_bytes c es')) = Ok es'" if "list_all (line_coded c) es'" for es'
    using read_feedback_lines [OF that] by (simp add: read_feedback_def utf8_lossy_ascii)
  ultimately show ?thesis using assms by (simp add: read_feedback_def)
qed

definition toy_feedback :: feedback_codec where
  "toy_feedback = \<lparr>enc_entry = (\<lambda>e. ''x'' @ fb_message e),
     dec_feedback = (\<lambda>s. Some \<lparr>fb_timestamp = [], fb_category = Bug, fb_message = tl s, fb_version = [], fb_contact = None\<rparr>)\<rparr>"

theorem feedback_roundtrip_witness:
  "read_feedback toy_feedback (submit_feedback toy_feedback [] None Bug ''slow'' [] None) =
     Ok [\<lparr>fb_timestamp = [], fb_category = Bug, fb_message = ''slow'', fb_version = [], fb_contact = None\<rparr>]"
  using feedback_roundtrip [of toy_feedback "[]" "[]" Bug "''slow''" "[]" None]
  by (simp add: line_coded_def toy_feedback_def is_ascii_def trim_by_def is_whitespace_def)

end
