(* ===== verification/Cli.thy ===== *)
theory Cli
  imports Disk Cluster DistTx Backup ConfigMigration Feedback
begin

text \<open>
  The command line tool (\<open>src/src/bin/cassette.rs\<close>): one process per command, over files that
  outlive it. A command is its parsed arguments; its result is the lines it prints, or the error
  that ends \<open>main\<close>. Files are texts by path; the directories of snapshots and of configurations are
  kept apart from them. The three files of a database are those of its path and of the paths with
  the extensions \<open>wal\<close> and \<open>repl\<close>, which are taken to be different from it. JSON, clocks, and what
  the operating system says about directories are arguments.
\<close>

subsection \<open>Commands\<close>

datatype cluster_cmd =
    ClusterInit string string string string
  | ClusterJoin string string string string
  | ClusterLeave string
  | ClusterShowStatus string
  | ClusterAddNode string string string string
  | ClusterRemoveNode string string
  | ClusterFailover string string
  | ClusterShards string
  | ClusterRebalance string nat

datatype dist_tx_cmd =
    DistBegin string string
  | DistCommit string
  | DistAbort string

datatype cli_cmd =
    CmdInit string
  | CmdInsert string string
  | CmdQuery string string
  | CmdCompact string
  | CmdDump string
  | CmdDelete string string
  | CmdGet string string
  | CmdBackup string string
  | CmdRestore string string string
  | CmdListBackups string
  | CmdDeleteBackup string string
  | CmdFollow string nat
  | CmdCluster cluster_cmd
  | CmdDistTx dist_tx_cmd
  | CmdMigrateConfig string
  | CmdFeedback string string "string option" string

record world =
  w_files :: "(string, bytes) hashmap"
  w_dirs :: "string \<Rightarrow> (string, bytes) hashmap option"

record 'n cli_api =
  ca_codec :: "'n codec"
  ca_num :: "'n number_api"
  ca_dir :: "string \<Rightarrow> bool"
  ca_feed :: "string \<Rightarrow> bool"
  ca_mkdir :: "string \<Rightarrow> error option"
  ca_parse :: "string \<Rightarrow> 'n json option"
  ca_doc :: "'n document \<Rightarrow> string"
  ca_docs :: "'n document list \<Rightarrow> string"
  ca_meta :: meta_codec
  ca_enc_cluster :: "cluster_config \<Rightarrow> bytes"
  ca_dec_cluster :: "bytes \<Rightarrow> cluster_config option"
  ca_status :: "cluster_status \<Rightarrow> string"
  ca_shards :: "shard_map \<Rightarrow> string"
  ca_config :: "'n config_codec"
  ca_feedback :: feedback_codec
  ca_version :: string

text \<open>What a process reads of the time: for snapshots, feedback, node stamps and the monotonic clock.\<close>

record cli_env =
  en_call :: call_env
  en_second :: string
  en_created :: string
  en_stamp :: int
  en_clock :: nat

type_synonym cli_result = "(world \<times> string list outcome) option"

abbreviation no_such_file :: error where
  "no_such_file \<equiv> Io ''No such file or directory (os error 2)''"

subsection \<open>Databases\<close>

definition content :: "(string, bytes) hashmap \<Rightarrow> string \<Rightarrow> bytes" where
  "content files p = (case hm_get files p of None \<Rightarrow> [] | Some bs \<Rightarrow> bs)"

definition files_at :: "(string, bytes) hashmap \<Rightarrow> string \<Rightarrow> db_files" where
  "files_at files p =
     \<lparr>main_file = content files p, wal_file = content files (with_extension p ''wal''),
      repl_file = content files (with_extension p ''repl'')\<rparr>"

definition put_files :: "bool \<Rightarrow> string \<Rightarrow> db_files \<Rightarrow> (string, bytes) hashmap \<Rightarrow> (string, bytes) hashmap" where
  "put_files en p fs files =
     (let files1 = hm_insert p (main_file fs) (hm_insert (with_extension p ''wal'') (wal_file fs) files)
      in if en then hm_insert (with_extension p ''repl'') (repl_file fs) files1 else files1)"

text \<open>Open the database of a path, use it, and leave; \<open>None\<close> is a compaction that does not end.\<close>

definition on_database ::
  "'n cli_api \<Rightarrow> world \<Rightarrow> string \<Rightarrow> ('n engine \<Rightarrow> ('n engine \<times> string list outcome) option) \<Rightarrow> cli_result" where
  "on_database api w p f =
     (if hm_get (w_files w) p = None \<and> \<not> ca_dir api p then Some (w, Err no_such_file)
      else (let en = ca_feed api p; fs = files_at (w_files w) p;
                put = (\<lambda>fs. w\<lparr>w_files := put_files en p fs (w_files w)\<rparr>) in
        case engine_open (ca_codec api) en fs of
          Err x \<Rightarrow> Some (put (opened_with (ca_codec api) en fs), Err x)
        | Panic \<Rightarrow> Some (put (opened_with (ca_codec api) en fs), Panic)
        | Ok e \<Rightarrow> map_option (\<lambda>(e', r). (put (engine_files (repl_file fs) e'), r)) (f e)))"

definition changed :: "('r \<Rightarrow> string list) \<Rightarrow> ('n, 'r) result \<Rightarrow> ('n engine \<times> string list outcome) option" where
  "changed g res = (case res of (e', r, sent) \<Rightarrow> Some (e', outcome_map g r))"

definition cmd_insert :: "'n cli_api \<Rightarrow> cli_env \<Rightarrow> world \<Rightarrow> string \<Rightarrow> string \<Rightarrow> cli_result" where
  "cmd_insert api env w p json =
     on_database api w p (\<lambda>e.
       case ca_parse api json of
         None \<Rightarrow> Some (e, Err Serialization)
       | Some d \<Rightarrow> changed (\<lambda>i. [i]) (engine_insert (ca_codec api) (en_call env) e (document_new (ce_uuid (en_call env)) d)))"

definition cmd_query :: "'n cli_api \<Rightarrow> world \<Rightarrow> string \<Rightarrow> string \<Rightarrow> cli_result" where
  "cmd_query api w p expr =
     on_database api w p (\<lambda>e.
       Some (e, outcome_map (\<lambda>q. [ca_docs api (documents (engine_query (ca_num api) e q))]) (parse_query (ca_num api) expr)))"

definition cmd_compact :: "'n cli_api \<Rightarrow> world \<Rightarrow> string \<Rightarrow> cli_result" where
  "cmd_compact api w p =
     on_database api w p (\<lambda>e.
       map_option (\<lambda>(e', r). (e', outcome_map (\<lambda>_. [''Compacted '' @ p]) r)) (engine_compact (ca_codec api) e))"

definition cmd_delete :: "'n cli_api \<Rightarrow> cli_env \<Rightarrow> world \<Rightarrow> string \<Rightarrow> string \<Rightarrow> cli_result" where
  "cmd_delete api env w p i =
     on_database api w p (\<lambda>e. changed (\<lambda>_. [''Deleted '' @ i]) (engine_delete (ca_codec api) (en_call env) e i))"

definition cmd_get :: "'n cli_api \<Rightarrow> world \<Rightarrow> string \<Rightarrow> string \<Rightarrow> cli_result" where
  "cmd_get api w p i =
     on_database api w p (\<lambda>e.
       Some (e, Ok [case engine_get e i of None \<Rightarrow> ''Not found'' | Some doc \<Rightarrow> ca_doc api doc]))"

subsection \<open>Snapshots and the replication log\<close>

definition snaps_of :: "world \<Rightarrow> string \<Rightarrow> backup_fs" where
  "snaps_of w dir = \<lparr>bf_files = w_files w, bf_snaps = w_dirs w dir\<rparr>"

definition put_snaps :: "string \<Rightarrow> backup_fs \<Rightarrow> world \<Rightarrow> world" where
  "put_snaps dir fs w = w\<lparr>w_files := bf_files fs, w_dirs := (w_dirs w)(dir := bf_snaps fs)\<rparr>"

text \<open>
  A file of a database can be created when its directory exists; the files of a snapshot are
  created in a directory that \<open>create_dir_all\<close> has made, unless that failed.
\<close>

definition os_of :: "'n cli_api \<Rightarrow> world \<Rightarrow> string \<Rightarrow> backup_os" where
  "os_of api w dir =
     \<lparr>bo_mkdir = ca_mkdir api dir,
      bo_create = (\<lambda>pl. case pl of
         InSnaps n \<Rightarrow> None
       | AtPath p \<Rightarrow> if hm_get (w_files w) p = None \<and> \<not> ca_dir api p then Some no_such_file else None),
      bo_remove = (\<lambda>_. None)\<rparr>"

definition cmd_backup :: "'n cli_api \<Rightarrow> cli_env \<Rightarrow> world \<Rightarrow> string \<Rightarrow> string \<Rightarrow> cli_result" where
  "cmd_backup api env w file dir =
     (let (fs, r) = create_snapshot (ca_meta api) (os_of api w dir) (en_second env) (en_created env) (snaps_of w dir) file in
      Some (put_snaps dir fs w, outcome_map (\<lambda>meta.
        [''Created snapshot '' @ sm_id meta, ''  Size: '' @ nat_to_string (sm_size meta) @ '' bytes'',
         ''  Created: '' @ sm_created meta]) r))"

definition cmd_restore :: "'n cli_api \<Rightarrow> world \<Rightarrow> string \<Rightarrow> string \<Rightarrow> string \<Rightarrow> cli_result" where
  "cmd_restore api w dir i file =
     (let (fs, r) = restore_snapshot (os_of api w dir) dir (snaps_of w dir) i file in
      Some (put_snaps dir fs w, outcome_map (\<lambda>_. [''Restored '' @ i @ '' to '' @ file]) r))"

definition snapshot_line :: "snapshot_meta \<Rightarrow> string" where
  "snapshot_line meta =
     sm_id meta @ ''  '' @ sm_db_name meta @ ''  '' @ sm_created meta @ ''  '' @ nat_to_string (sm_size meta) @ '' bytes''"

definition cmd_list_backups :: "'n cli_api \<Rightarrow> world \<Rightarrow> string \<Rightarrow> cli_result" where
  "cmd_list_backups api w dir =
     Some (w, outcome_map (\<lambda>ms. if ms = [] then [''No snapshots found''] else map snapshot_line ms)
       (list_snapshots (ca_meta api) (snaps_of w dir)))"

definition cmd_delete_backup :: "'n cli_api \<Rightarrow> world \<Rightarrow> string \<Rightarrow> string \<Rightarrow> cli_result" where
  "cmd_delete_backup api w dir i =
     (let (fs, r) = delete_snapshot (os_of api w dir) (snaps_of w dir) i in
      Some (put_snaps dir fs w, outcome_map (\<lambda>_. [''Deleted snapshot '' @ i]) r))"

fun op_debug :: "wal_op \<Rightarrow> string" where
  "op_debug OpInsert = ''Insert''"
| "op_debug OpUpdate = ''Update''"
| "op_debug OpDelete = ''Delete''"
| "op_debug OpTxEntry = ''TxEntry''"

definition int_text :: "int \<Rightarrow> string" where
  "int_text i = (if i < 0 then CHR ''-'' # nat_to_string (nat (- i)) else nat_to_string (nat i))"

definition change_line :: "change_record \<Rightarrow> string" where
  "change_line r =
     ''seq='' @ nat_to_string (sequence r) @ ''  op='' @ op_debug (chg_op r) @ ''  doc_id='' @ chg_doc_id r @
     ''  ts='' @ int_text (timestamp r)"

text \<open>The starting point \<open>since\<close> is read and not used.\<close>

definition cmd_follow :: "'n cli_api \<Rightarrow> world \<Rightarrow> string \<Rightarrow> nat \<Rightarrow> cli_result" where
  "cmd_follow api w file since =
     (if hm_get (w_files w) file = None \<and> \<not> ca_dir api file then Some (w, Err no_such_file)
      else (let (f, fo, r) = poll (dec_change (ca_codec api)) (content (w_files w) file) follower_new in
        Some (w\<lparr>w_files := hm_insert file f (w_files w)\<rparr>,
              outcome_map (\<lambda>cs. if cs = [] then [''No new changes''] else map change_line cs) r)))"

subsection \<open>Cluster\<close>

definition cluster_file :: "world \<Rightarrow> string \<Rightarrow> bytes option" where
  "cluster_file w dir = (case w_dirs w dir of None \<Rightarrow> None | Some files \<Rightarrow> hm_get files ''cluster.json'')"

definition put_cluster :: "string \<Rightarrow> bytes option \<Rightarrow> world \<Rightarrow> world" where
  "put_cluster dir file w =
     (case file of
        None \<Rightarrow> w
      | Some bs \<Rightarrow>
          w\<lparr>w_dirs := (w_dirs w)(dir \<mapsto> hm_insert ''cluster.json'' bs (case w_dirs w dir of None \<Rightarrow> [] | Some files \<Rightarrow> files))\<rparr>)"

definition create_dir :: "string \<Rightarrow> world \<Rightarrow> world" where
  "create_dir dir w = w\<lparr>w_dirs := (w_dirs w)(dir \<mapsto> (case w_dirs w dir of None \<Rightarrow> [] | Some files \<Rightarrow> files))\<rparr>"

text \<open>\<open>ClusterManager::load("unknown", dir)\<close>, an operation on the node, and its answer.\<close>

definition on_cluster ::
  "'n cli_api \<Rightarrow> cli_env \<Rightarrow> world \<Rightarrow> string \<Rightarrow> (cluster_node \<Rightarrow> cluster_node \<times> string list outcome) \<Rightarrow> cli_result" where
  "on_cluster api env w dir f =
     (case cluster_load (ca_dec_cluster api) ''unknown'' (cluster_file w dir) (en_clock env) of
        Err x \<Rightarrow> Some (w, Err x)
      | Panic \<Rightarrow> Some (w, Panic)
      | Ok n \<Rightarrow> (let (n', r) = f n in Some (put_cluster dir (cl_file n') w, r)))"

fun role_of :: "string \<Rightarrow> node_role" where
  "role_of s = (if s = ''primary'' then NodePrimary else if s = ''observer'' then NodeObserver else NodeSecondary)"

fun cmd_cluster :: "'n cli_api \<Rightarrow> cli_env \<Rightarrow> world \<Rightarrow> cluster_cmd \<Rightarrow> cli_result" where
  "cmd_cluster api env w (ClusterInit cluster node address dir) =
     (let n = init_cluster (ca_enc_cluster api) cluster node address (en_stamp env) (en_clock env);
          status = status_from_node n in
      Some (put_cluster dir (cl_file n) (create_dir dir w),
        Ok [''Initialized cluster '' @ cs_cluster_id status, ''Local node: '' @ cs_local_id status]))"
| "cmd_cluster api env w (ClusterJoin node address dir config_path) =
     (let w1 = create_dir dir w in
      case hm_get (w_files w) config_path of
        None \<Rightarrow> Some (w1, Err no_such_file)
      | Some bs \<Rightarrow>
          (case ca_dec_cluster api bs of
             None \<Rightarrow> Some (w1, Err Serialization)
           | Some cfg \<Rightarrow>
               (let n = join_cluster node (cluster_file w1 dir) cfg (en_clock env); status = status_from_node n in
                Some (put_cluster dir (cl_file n) w1,
                  Ok [''Joined cluster '' @ cs_cluster_id status, ''Local node: '' @ cs_local_id status]))))"
| "cmd_cluster api env w (ClusterLeave dir) =
     Some (w\<lparr>w_dirs := (w_dirs w)(dir := map_option (hm_remove ''cluster.json'') (w_dirs w dir))\<rparr>,
           Ok [''Left cluster (local config removed)''])"
| "cmd_cluster api env w (ClusterShowStatus dir) =
     on_cluster api env w dir (\<lambda>n. (n, Ok [ca_status api (status_from_node n)]))"
| "cmd_cluster api env w (ClusterAddNode dir node address role_name) =
     on_cluster api env w dir (\<lambda>n.
       let (n', r) = cluster_add_node (ca_enc_cluster api) n
             \<lparr>ni_id = node, ni_address = address, ni_role = role_of role_name, ni_last_seen = en_stamp env\<rparr>
       in (n', outcome_map (\<lambda>_. [''Added node '' @ node]) r))"
| "cmd_cluster api env w (ClusterRemoveNode dir node) =
     on_cluster api env w dir (\<lambda>n.
       let (n', r) = cluster_remove_node (ca_enc_cluster api) n node in (n', outcome_map (\<lambda>_. [''Removed node '' @ node]) r))"
| "cmd_cluster api env w (ClusterFailover dir failed) =
     on_cluster api env w dir (\<lambda>n.
       let (n', r) = perform_failover (ca_enc_cluster api) (en_clock env) (en_clock env) n failed
       in (n', outcome_map (\<lambda>_. [''Failover to local node triggered (failed node: '' @ failed @ '')'']) r))"
| "cmd_cluster api env w (ClusterShards dir) =
     on_cluster api env w dir (\<lambda>n. (n, Ok [ca_shards api (allocate 16 (map ni_id (cc_nodes (cl_config n))))]))"
| "cmd_cluster api env w (ClusterRebalance dir num) =
     on_cluster api env w dir (\<lambda>n.
       (n, Ok [''Rebalanced shard map:'', ca_shards api (allocate num (map ni_id (cc_nodes (cl_config n))))]))"

subsection \<open>Transactions, configurations, feedback\<close>

fun phase_debug :: "tx_phase \<Rightarrow> string" where
  "phase_debug Voting = ''Voting''"
| "phase_debug Prepared = ''Prepared''"
| "phase_debug Committed = ''Committed''"
| "phase_debug Aborted = ''Aborted''"

text \<open>Every command makes a coordinator of its own; \<open>api\<close> gives the type of the documents.\<close>

fun cmd_dist_tx :: "'n cli_api \<Rightarrow> dist_tx_cmd \<Rightarrow> string list outcome" where
  "cmd_dist_tx api (DistBegin i participants) =
     (let parts = filter (\<lambda>s. s \<noteq> []) (map trim (split_by (\<lambda>c. c = CHR '','') participants));
          tx = snd (coord_begin (coordinator_new ''cli'' :: 'n coordinator) i parts)
      in Ok [''Started transaction '' @ tx_id tx, ''Phase: '' @ phase_debug (tx_phase_of tx)])"
| "cmd_dist_tx api (DistCommit i) =
     outcome_map (\<lambda>_. [''Committed transaction '' @ i]) (snd (coord_commit (coordinator_new ''cli'' :: 'n coordinator) i))"
| "cmd_dist_tx api (DistAbort i) =
     outcome_map (\<lambda>_. [''Aborted transaction '' @ i]) (snd (coord_abort (coordinator_new ''cli'' :: 'n coordinator) i))"

definition path_join :: "string \<Rightarrow> string \<Rightarrow> string" where
  "path_join dir name = (if dir = [] \<or> last dir = CHR ''/'' then dir @ name else dir @ ''/'' @ name)"

definition cmd_migrate :: "'n cli_api \<Rightarrow> world \<Rightarrow> string \<Rightarrow> cli_result" where
  "cmd_migrate api w dir =
     (let (files, migrated) = migrate_directory migrator_new (ca_config api) (w_dirs w dir) in
      Some (w\<lparr>w_dirs := (w_dirs w)(dir := files)\<rparr>,
        Ok (if migrated = [] then [''No configuration files needed migration in '' @ dir]
            else (''Migrated '' @ nat_to_string (length migrated) @ '' configuration file(s):'') #
                 map (\<lambda>name. ''  '' @ path_join dir name) migrated)))"

definition category_of :: "string \<Rightarrow> feedback_category" where
  "category_of s =
     (if s = ''bug'' then Bug else if s = ''feature'' then FeatureRequest else if s = ''performance'' then Performance
      else if s = ''docs'' then Documentation else General)"

definition cmd_feedback :: "'n cli_api \<Rightarrow> cli_env \<Rightarrow> world \<Rightarrow> string \<Rightarrow> string \<Rightarrow> string option \<Rightarrow> string \<Rightarrow> cli_result" where
  "cmd_feedback api env w message category contact file =
     (if hm_get (w_files w) file = None \<and> \<not> ca_dir api file then Some (w, Err no_such_file)
      else Some (w\<lparr>w_files :=
          (case submit_feedback (ca_feedback api) (en_created env) (hm_get (w_files w) file) (category_of category)
                  message (ca_version api) contact of
             None \<Rightarrow> w_files w
           | Some bs \<Rightarrow> hm_insert file bs (w_files w))\<rparr>, Ok [''Feedback recorded to '' @ file]))"

fun cli_run :: "'n cli_api \<Rightarrow> cli_env \<Rightarrow> world \<Rightarrow> cli_cmd \<Rightarrow> cli_result" where
  "cli_run api env w (CmdInit file) = on_database api w file (\<lambda>e. Some (e, Ok [''Initialized '' @ file]))"
| "cli_run api env w (CmdInsert file json) = cmd_insert api env w file json"
| "cli_run api env w (CmdQuery file expr) = cmd_query api w file expr"
| "cli_run api env w (CmdCompact file) = cmd_compact api w file"
| "cli_run api env w (CmdDump file) = on_database api w file (\<lambda>e. Some (e, Ok [engine_dump (ca_docs api) e]))"
| "cli_run api env w (CmdDelete file i) = cmd_delete api env w file i"
| "cli_run api env w (CmdGet file i) = cmd_get api w file i"
| "cli_run api env w (CmdBackup file dir) = cmd_backup api env w file dir"
| "cli_run api env w (CmdRestore dir i file) = cmd_restore api w dir i file"
| "cli_run api env w (CmdListBackups dir) = cmd_list_backups api w dir"
| "cli_run api env w (CmdDeleteBackup dir i) = cmd_delete_backup api w dir i"
| "cli_run api env w (CmdFollow file since) = cmd_follow api w file since"
| "cli_run api env w (CmdCluster c) = cmd_cluster api env w c"
| "cli_run api env w (CmdDistTx c) = Some (w, cmd_dist_tx api c)"
| "cli_run api env w (CmdMigrateConfig dir) = cmd_migrate api w dir"
| "cli_run api env w (CmdFeedback message category contact file) = cmd_feedback api env w message category contact file"

end
