(* ===== verification/CliLaws.thy ===== *)
theory CliLaws
  imports Cli
begin

text \<open>
  What the command line tool guarantees: commands on one database, each a process of its own, act
  on a map of documents that the files carry from one to the next; and the commands of clusters and
  of distributed transactions that cannot work, because each process starts from nothing.
\<close>

subsection \<open>The files of one database\<close>

definition own_files :: "string \<Rightarrow> bool" where
  "own_files p \<longleftrightarrow> with_extension p ''wal'' \<noteq> p \<and> with_extension p ''repl'' \<noteq> p"

lemma files_at_put:
  assumes "own_files p" "en \<or> repl_file fs = content files (with_extension p ''repl'')"
  shows "files_at (put_files en p fs files) p = fs" "hm_get (put_files en p fs files) p \<noteq> None"
proof -
  have "with_extension p ''repl'' \<noteq> with_extension p ''wal''" by (simp add: with_extension_def)
  then show "files_at (put_files en p fs files) p = fs" "hm_get (put_files en p fs files) p \<noteq> None"
    using assms by (cases fs; auto simp: files_at_def put_files_def own_files_def content_def hm_simps Let_def)+
qed

definition world_ok :: "'n cli_api \<Rightarrow> string \<Rightarrow> world \<Rightarrow> bool" where
  "world_ok api p w \<longleftrightarrow> own_files p \<and> ca_dir api p \<and>
     (files_at (w_files w) p = no_files \<or> (\<exists>e. agrees (ca_codec api) (ca_feed api p) (files_at (w_files w) p) e))"

definition world_docs :: "'n cli_api \<Rightarrow> string \<Rightarrow> world \<Rightarrow> string \<rightharpoonup> 'n document" where
  "world_docs api p w =
     (case engine_open (ca_codec api) (ca_feed api p) (files_at (w_files w) p) of Ok e \<Rightarrow> eng_abs e | _ \<Rightarrow> Map.empty)"

text \<open>Opening succeeds, with the documents of the world, whether the files exist or not.\<close>

lemma world_opens:
  assumes "world_ok api p w"
  shows "\<exists>e fs. engine_open (ca_codec api) (ca_feed api p) (files_at (w_files w) p) = Ok e \<and>
    agrees (ca_codec api) (ca_feed api p) fs e \<and> eng_abs e = world_docs api p w"
proof -
  consider "files_at (w_files w) p = no_files" | e where "agrees (ca_codec api) (ca_feed api p) (files_at (w_files w) p) e"
    using assms by (auto simp: world_ok_def)
  then show ?thesis
  proof cases
    case 1
    with agrees_fresh [of "ca_codec api" "ca_feed api p"] show ?thesis by (auto simp: world_docs_def)
  next
    case 2
    from agrees_open(1,2) [OF this] show ?thesis by (auto simp: world_docs_def)
  qed
qed

text \<open>A command that leaves the engine in a state that can arise keeps the world, with its documents.\<close>

lemma on_database_ok:
  assumes "world_ok api p w"
    and "\<And>e. engine_open (ca_codec api) (ca_feed api p) (files_at (w_files w) p) = Ok e \<Longrightarrow> eng_abs e = world_docs api p w \<Longrightarrow>
      (\<exists>fs. agrees (ca_codec api) (ca_feed api p) fs e) \<Longrightarrow>
      \<exists>e' fs. f e = Some (e', r) \<and> agrees (ca_codec api) (ca_feed api p) fs e' \<and> eng_abs e' = m"
  shows "\<exists>w'. on_database api w p f = Some (w', r) \<and> world_ok api p w' \<and> world_docs api p w' = m"
proof -
  let ?c = "ca_codec api" and ?en = "ca_feed api p" and ?fs = "files_at (w_files w) p"
  obtain e where e: "engine_open ?c ?en ?fs = Ok e" "eng_abs e = world_docs api p w" "\<exists>fs. agrees ?c ?en fs e"
    using world_opens [OF assms(1)] by blast
  from assms(2) [OF e] obtain e' fs where e': "f e = Some (e', r)" "agrees ?c ?en fs e'" "eng_abs e' = m" by blast
  let ?fs' = "engine_files (repl_file ?fs) e'" and ?w = "w\<lparr>w_files := put_files ?en p (engine_files (repl_file ?fs) e') (w_files w)\<rparr>"
  have run: "on_database api w p f = Some (?w, r)"
    using assms(1) e(1) e'(1) by (auto simp: on_database_def world_ok_def)
  have "?en \<or> repl_file ?fs' = content (w_files w) (with_extension p ''repl'')"
    using agrees_feed [OF e'(2)] by (auto simp: engine_files_def files_at_def)
  then have at: "files_at (w_files ?w) p = ?fs'"
    using assms(1) files_at_put(1) [of p ?en ?fs' "w_files w"] by (simp add: world_ok_def)
  have "engine_files (repl_file ?fs') e' = ?fs'" by (cases "eng_feed e'") (simp_all add: engine_files_def)
  then have new: "agrees ?c ?en ?fs' e'" using e'(2) by (simp add: agrees_def)
  have "world_ok api p ?w" using assms(1) new unfolding world_ok_def at by blast
  moreover have "world_docs api p ?w = m"
    using agrees_open(1) [OF new] e'(3) unfolding world_docs_def at by (simp add: eng_abs_without_subscribers)
  ultimately show ?thesis using run by blast
qed

subsection \<open>Sessions on one database\<close>

type_synonym shell = "world \<times> string list outcome list"

definition shell_step :: "'n cli_api \<Rightarrow> cli_env \<Rightarrow> shell \<Rightarrow> cli_cmd \<Rightarrow> shell" where
  "shell_step api env s cmd = (case cli_run api env (fst s) cmd of None \<Rightarrow> s | Some (w, r) \<Rightarrow> (w, snd s @ [r]))"

text \<open>The commands on documents, on a map of documents and with what they print.\<close>

type_synonym 'n shell_view = "(string \<rightharpoonup> 'n document) \<times> string list outcome list"

fun shell_spec :: "'n cli_api \<Rightarrow> cli_env \<Rightarrow> 'n shell_view \<Rightarrow> cli_cmd \<Rightarrow> 'n shell_view" where
  "shell_spec api env (m, outs) (CmdInit p) = (m, outs @ [Ok [''Initialized '' @ p]])"
| "shell_spec api env (m, outs) (CmdInsert p json) =
     (case ca_parse api json of
        None \<Rightarrow> (m, outs @ [Err Serialization])
      | Some d \<Rightarrow>
          (m(ce_uuid (en_call env) \<mapsto> document_new (ce_uuid (en_call env)) d), outs @ [Ok [ce_uuid (en_call env)]]))"
| "shell_spec api env (m, outs) (CmdDelete p i) =
     (if m i = None then (m, outs @ [Err (NotFound i)]) else (m(i := None), outs @ [Ok [''Deleted '' @ i]]))"
| "shell_spec api env (m, outs) (CmdGet p i) =
     (m, outs @ [Ok [case m i of None \<Rightarrow> ''Not found'' | Some doc \<Rightarrow> ca_doc api doc]])"
| "shell_spec api env s cmd = s"

definition change_fits :: "'n cli_api \<Rightarrow> cli_env \<Rightarrow> string \<Rightarrow> shell \<Rightarrow> 'n change_op \<Rightarrow> bool" where
  "change_fits api env p s op =
     (case engine_open (ca_codec api) (ca_feed api p) (files_at (w_files (fst s)) p) of
        Ok e \<Rightarrow> op_ok (ca_codec api) (en_call env) e op
      | _ \<Rightarrow> False)"

fun shell_ok :: "'n cli_api \<Rightarrow> string \<Rightarrow> cli_env \<Rightarrow> shell \<Rightarrow> cli_cmd \<Rightarrow> bool" where
  "shell_ok api p env s (CmdInit q) = (q = p)"
| "shell_ok api p env s (CmdInsert q json) = (q = p \<and>
     (case ca_parse api json of None \<Rightarrow> True | Some d \<Rightarrow> change_fits api env p s (CInsert (document_new (ce_uuid (en_call env)) d))))"
| "shell_ok api p env s (CmdDelete q i) = (q = p \<and> change_fits api env p s (CDelete i))"
| "shell_ok api p env s (CmdGet q i) = (q = p)"
| "shell_ok api p env s cmd = False"

definition shell_view :: "'n cli_api \<Rightarrow> string \<Rightarrow> shell \<Rightarrow> 'n shell_view" where
  "shell_view api p s = (world_docs api p (fst s), snd s)"

definition prints :: "'n cli_api \<Rightarrow> string \<Rightarrow> cli_result \<Rightarrow> (string \<rightharpoonup> 'n document) \<Rightarrow> string list outcome \<Rightarrow> bool" where
  "prints api p res m r \<longleftrightarrow> (\<exists>w'. res = Some (w', r) \<and> world_ok api p w' \<and> world_docs api p w' = m)"

lemma reading_prints:
  assumes "world_ok api p w" "\<And>e. eng_abs e = world_docs api p w \<Longrightarrow> f e = Some (e, r)"
  shows "prints api p (on_database api w p f) (world_docs api p w) r"
  unfolding prints_def by (rule on_database_ok [OF assms(1)]) (use assms(2) in blast)

lemma insert_prints:
  assumes "world_ok api p w" "change_fits api env p (w, outs) (CInsert (document_new (ce_uuid (en_call env)) d))" "ca_parse api json = Some d"
  shows "prints api p (cmd_insert api env w p json)
    ((world_docs api p w)(ce_uuid (en_call env) \<mapsto> document_new (ce_uuid (en_call env)) d)) (Ok [ce_uuid (en_call env)])"
  unfolding prints_def cmd_insert_def
proof (rule on_database_ok [OF assms(1)])
  fix e
  let ?c = "ca_codec api" and ?env = "en_call env" and ?doc = "document_new (ce_uuid (en_call env)) d"
  assume e: "engine_open ?c (ca_feed api p) (files_at (w_files w) p) = Ok e" "eng_abs e = world_docs api p w"
    "\<exists>fs. agrees ?c (ca_feed api p) fs e"
  then obtain fs where fs: "agrees ?c (ca_feed api p) fs e" by blast
  then have run: "db_run ?c (ca_feed api p) e" by (simp add: agrees_def)
  have ok: "op_ok ?c ?env e (CInsert ?doc)" using assms(2) e(1) by (simp add: change_fits_def)
  have stored: "stored_doc ?env ?doc = ?doc" by (simp add: stored_doc_def document_new_def)
  obtain sent where "engine_insert ?c ?env e ?doc = (apply_op ?c ?env e (CInsert ?doc), Ok (doc_id ?doc), sent)"
    using change_results(1) [OF run ok] stored by auto
  moreover have "eng_abs (apply_op ?c ?env e (CInsert ?doc)) = (world_docs api p w)(doc_id ?doc \<mapsto> ?doc)"
    using change_answers(2) [OF ok run] e(2) stored by simp
  moreover have "doc_id ?doc = ce_uuid ?env" by (simp add: document_new_def)
  ultimately show "\<exists>e' fs. (case ca_parse api json of None \<Rightarrow> Some (e, Err Serialization)
        | Some d \<Rightarrow> changed (\<lambda>i. [i]) (engine_insert ?c ?env e (document_new (ce_uuid ?env) d))) =
      Some (e', Ok [ce_uuid ?env]) \<and> agrees ?c (ca_feed api p) fs e' \<and> eng_abs e' = (world_docs api p w)(ce_uuid ?env \<mapsto> ?doc)"
    using agrees_change [OF fs ok] assms(3) by (auto simp: changed_def simp del: apply_op.simps)
qed

lemma delete_prints:
  assumes "world_ok api p w" "change_fits api env p (w, outs) (CDelete i)"
  shows "prints api p (cmd_delete api env w p i) ((world_docs api p w)(i := None))
    (if world_docs api p w i = None then Err (NotFound i) else Ok [''Deleted '' @ i])"
  unfolding prints_def cmd_delete_def
proof (rule on_database_ok [OF assms(1)])
  fix e
  let ?c = "ca_codec api" and ?env = "en_call env"
  assume e: "engine_open ?c (ca_feed api p) (files_at (w_files w) p) = Ok e" "eng_abs e = world_docs api p w"
    "\<exists>fs. agrees ?c (ca_feed api p) fs e"
  then obtain fs where fs: "agrees ?c (ca_feed api p) fs e" by blast
  then have run: "db_run ?c (ca_feed api p) e" by (simp add: agrees_def)
  have ok: "op_ok ?c ?env e (CDelete i)" using assms(2) e(1) by (simp add: change_fits_def)
  obtain sent where "engine_delete ?c ?env e i =
      (apply_op ?c ?env e (CDelete i), if eng_abs e i = None then Err (NotFound i) else Ok (), sent)"
    using change_results(3) [OF run ok] by blast
  moreover have "eng_abs (apply_op ?c ?env e (CDelete i)) = (world_docs api p w)(i := None)"
    using change_answers(2) [OF ok run] e(2) by simp
  ultimately show "\<exists>e' fs. changed (\<lambda>_. [''Deleted '' @ i]) (engine_delete ?c ?env e i) =
      Some (e', if world_docs api p w i = None then Err (NotFound i) else Ok [''Deleted '' @ i]) \<and>
      agrees ?c (ca_feed api p) fs e' \<and> eng_abs e' = (world_docs api p w)(i := None)"
    using agrees_change [OF fs ok] e(2) by (auto simp: changed_def simp del: apply_op.simps)
qed

lemma shell_step_prints:
  assumes "prints api p (cli_run api env (fst s) cmd) m r"
  shows "world_ok api p (fst (shell_step api env s cmd))" "shell_view api p (shell_step api env s cmd) = (m, snd s @ [r])"
  using assms by (auto simp: prints_def shell_step_def shell_view_def)

lemma command_prints:
  assumes "world_ok api p (fst s)" "shell_ok api p env s cmd"
  shows "\<exists>m r. prints api p (cli_run api env (fst s) cmd) m r \<and> shell_spec api env (shell_view api p s) cmd = (m, snd s @ [r])"
proof (cases cmd)
  case (CmdInit q)
  with assms(2) show ?thesis
    using reading_prints [OF assms(1), of "\<lambda>e. Some (e, Ok [''Initialized '' @ p])"] by (auto simp: shell_view_def)
next
  case (CmdInsert q json)
  with assms(2) have q: "q = p" by simp
  show ?thesis
  proof (cases "ca_parse api json")
    case None
    then show ?thesis using CmdInsert q reading_prints [OF assms(1), of _ "Err Serialization"]
      by (auto simp: shell_view_def cmd_insert_def)
  next
    case (Some d)
    with assms(2) CmdInsert have "change_fits api env p (fst s, snd s) (CInsert (document_new (ce_uuid (en_call env)) d))" by simp
    from insert_prints [OF assms(1) this Some] CmdInsert q Some show ?thesis by (auto simp: shell_view_def)
  qed
next
  case (CmdDelete q i)
  with assms(2) have "q = p" "change_fits api env p (fst s, snd s) (CDelete i)" by simp_all
  with delete_prints [OF assms(1) this(2)] CmdDelete show ?thesis
    by (cases "world_docs api p (fst s) i") (auto simp: shell_view_def fun_upd_idem)
next
  case (CmdGet q i)
  with assms(2) have q: "q = p" by simp
  have "prints api p (cmd_get api (fst s) p i) (world_docs api p (fst s))
      (Ok [case world_docs api p (fst s) i of None \<Rightarrow> ''Not found'' | Some doc \<Rightarrow> ca_doc api doc])"
    unfolding cmd_get_def by (rule reading_prints [OF assms(1)]) (simp add: engine_get_def eng_abs_def fun_eq_iff split: option.split)
  with CmdGet q show ?thesis by (auto simp: shell_view_def)
qed (use assms(2) in simp_all)

interpretation shell: doc_store "\<lambda>s. world_ok api p (fst s)" "shell_ok api p" "shell_step api" "shell_view api p" "shell_spec api"
  for api :: "'n cli_api" and p
proof
  fix s env cmd
  assume "world_ok api p (fst s)" "shell_ok api p env s cmd"
  from command_prints [OF this] shell_step_prints show "world_ok api p (fst (shell_step api env s cmd))"
    "shell_view api p (shell_step api env s cmd) = shell_spec api env (shell_view api p s) cmd" by (metis)+
qed


subsection \<open>Snapshots\<close>

text \<open>The documents do not depend on the replication log: a copy without it opens to the same.\<close>

lemma open_copy:
  assumes "engine_open c en fs = Ok e" "main_file fs' = main_file fs" "wal_file fs' = wal_file fs" "repl_file fs' = []"
  shows "\<exists>e'. engine_open c en' fs' = Ok e' \<and> eng_docs e' = eng_docs e"
proof -
  obtain w st docs ix docs' ix' where s: "wal_open (wal_file fs) = Ok w" "storage_open (main_file fs) = Ok st"
    "wal_fold (recover_step c) (iter_committed w) ([], Map.empty) = Ok (docs, ix)"
    "(if docs = [] \<and> 1 < num_pages (st_header st) then load_main c st ix else Ok (docs, ix)) = Ok (docs', ix')"
    "eng_docs e = docs'"
    using assms(1) unfolding engine_open_def by (elim and_then_OkE) (auto elim!: and_then_OkE split: prod.splits)
  have "\<exists>feed. (if en' then outcome_map Some (feed_open (dec_change c) []) else Ok None) = Ok feed"
    by (simp add: feed_open_def repl_open_def)
  then obtain feed where "(if en' then outcome_map Some (feed_open (dec_change c) []) else Ok None) = Ok feed" ..
  then show ?thesis using assms(2-4) s unfolding engine_open_def by (simp only: and_then.simps prod.case) simp
qed

text \<open>A database can be written at a path when its two files are there, or the directory is.\<close>

definition writable :: "'n cli_api \<Rightarrow> world \<Rightarrow> string \<Rightarrow> bool" where
  "writable api w q \<longleftrightarrow> (\<forall>x \<in> {q, with_extension q ''wal''}. hm_get (w_files w) x \<noteq> None \<or> ca_dir api x)"

definition fresh_snapshot :: "cli_env \<Rightarrow> world \<Rightarrow> string \<Rightarrow> bool" where
  "fresh_snapshot env w dir \<longleftrightarrow>
     (case w_dirs w dir of None \<Rightarrow> True | Some files \<Rightarrow> hm_get files (snap_wal (''snap_'' @ en_second env)) = None)"

text \<open>
  C34: Snapshots across commands. Let the files of a path be those of a database that was made by opens
  and by inserts of new ids, updates and deletions that fit, never compacted, its log and
  replication log beside it under names of their own. When \<open>backup\<close> succeeds on it and no log of
  another snapshot of the same second is in the directory (or the database has a log, which replaces
  it), then as long as the snapshot directory is left alone, \<open>restore\<close> succeeds to any path that can
  be written, whose log and replication log have names of their own and whose replication log is
  missing or empty, whatever has happened to the other files, and the restored database has the
  documents of the moment of the backup. To a path in a directory that does not exist, \<open>restore\<close> fails
  with the error of the operating system and changes nothing.
\<close>

theorem cli_backup_restores:
  assumes "world_ok api p w" "hm_get (w_files w) (with_extension p ''wal'') \<noteq> None \<or> fresh_snapshot env w dir"
    and "cli_run api env w (CmdBackup p dir) = Some (w1, Ok lines)" "w_dirs w2 dir = w_dirs w1 dir"
    and "own_files q" "content (w_files w2) (with_extension q ''repl'') = []"
  shows "(writable api w2 q \<longrightarrow> (\<exists>w3. cli_run api env' w2 (CmdRestore dir (''snap_'' @ en_second env) q) =
      Some (w3, Ok [''Restored snap_'' @ en_second env @ '' to '' @ q]) \<and> world_docs api q w3 = world_docs api p w)) \<and>
    (hm_get (w_files w2) q = None \<and> \<not> ca_dir api q \<longrightarrow>
      cli_run api env' w2 (CmdRestore dir (''snap_'' @ en_second env) q) = Some (w2, Err no_such_file))"
proof -
  let ?c = "ca_codec api" and ?i = "''snap_'' @ en_second env" and ?wal = "with_extension q ''wal''"
  obtain fs1 r where snap: "create_snapshot (ca_meta api) (os_of api w dir) (en_second env) (en_created env) (snaps_of w dir) p = (fs1, r)"
    by fastforce
  with assms(3) obtain meta where r: "r = Ok meta" "w1 = put_snaps dir fs1 w"
    by (auto simp: cmd_backup_def Let_def elim!: outcome_map_OkE)
  obtain db sdir where dir: "hm_get (w_files w) p = Some db" "bf_snaps fs1 = Some sdir" "hm_get sdir (snap_db ?i) = Some db"
    "hm_get sdir (snap_wal ?i) = hm_get (w_files w) (with_extension p ''wal'')"
    using create_snapshot_files [OF snap [unfolded r(1)]] assms(2)
    by (auto simp: snaps_of_def fresh_snapshot_def split: option.splits)
  have snaps: "bf_snaps (snaps_of w2 dir) = Some sdir" using assms(4) r(2) dir(2) by (simp add: snaps_of_def put_snaps_def)
  have missing: "cli_run api env' w2 (CmdRestore dir ?i q) = Some (w2, Err no_such_file)"
    if "hm_get (w_files w2) q = None" "\<not> ca_dir api q"
    using that snaps dir(3)
    by (cases w2) (simp add: cmd_restore_def restore_snapshot_def os_of_def put_snaps_def snaps_of_def Let_def fun_upd_idem)
  have "\<exists>w3. cli_run api env' w2 (CmdRestore dir ?i q) = Some (w3, Ok [''Restored '' @ ?i @ '' to '' @ q]) \<and>
      world_docs api q w3 = world_docs api p w" if "writable api w2 q"
  proof -
    have "may_replace (os_of api w2 dir) q" "may_replace (os_of api w2 dir) ?wal"
      using that by (auto simp: may_replace_def os_of_def writable_def)
    with restore_snapshot_files [OF snaps dir(3), of q "os_of api w2 dir" dir] assms(5)
    obtain fs3 where fs3: "restore_snapshot (os_of api w2 dir) dir (snaps_of w2 dir) ?i q = (fs3, Ok ())"
      "hm_get (bf_files fs3) = (hm_get (w_files w2))(q \<mapsto> db, ?wal := hm_get (w_files w) (with_extension p ''wal''))"
      using dir(4) by (auto simp: own_files_def snaps_of_def)
    let ?copy = "\<lparr>main_file = db, wal_file = content (w_files w) (with_extension p ''wal''), repl_file = []\<rparr>"
    have "with_extension q ''repl'' \<noteq> ?wal" "q \<noteq> ?wal" using assms(5) by (auto simp: with_extension_def own_files_def)
    then have at: "files_at (w_files (put_snaps dir fs3 w2)) q = ?copy"
      using fs3(2) assms(5,6) by (simp add: files_at_def content_def put_snaps_def own_files_def)
    obtain e where e: "engine_open ?c (ca_feed api p) (files_at (w_files w) p) = Ok e" "eng_abs e = world_docs api p w"
      using world_opens [OF assms(1)] by blast
    from open_copy [OF e(1), of ?copy "ca_feed api q"] dir(1)
    obtain e' where "engine_open ?c (ca_feed api q) ?copy = Ok e'" "eng_docs e' = eng_docs e"
      by (auto simp: files_at_def content_def)
    with at e(2) have "world_docs api q (put_snaps dir fs3 w2) = world_docs api p w" by (simp add: world_docs_def eng_abs_def)
    with fs3(1) show ?thesis by (simp add: cmd_restore_def)
  qed
  with missing show ?thesis by simp
qed

subsection \<open>Commands that cannot work\<close>

lemma loaded_follows:
  "cluster_load dec i file now = Ok n \<Longrightarrow> \<not> cluster_is_leader n \<and> cl_local n = i \<and> cl_file n = file \<and> cl_last_failover n = None \<and>
   config_load dec file = Ok (cl_config n)"
  by (cases "config_load dec file") (auto simp: cluster_load_def cluster_is_leader_def is_leader_def raft_new_def volatile_new_def)

lemma put_same_cluster: "cluster_file w dir = file \<Longrightarrow> cluster_file (put_cluster dir file w) d = cluster_file w d"
  by (auto simp: put_cluster_def cluster_file_def hm_simps split: option.splits)

text \<open>
  No process may change the cluster. \<open>cluster add-node\<close> and \<open>cluster remove-node\<close> load the node
  afresh, which makes it a follower: whatever the configuration says, they fail, and no
  configuration changes.
\<close>

theorem cli_cluster_is_read_only:
  assumes "cmd_cluster api env w cmd = Some (w', r)"
    and "cmd \<in> {ClusterAddNode dir node address role_name, ClusterRemoveNode dir node}"
  shows "(\<forall>lines. r \<noteq> Ok lines) \<and> (\<forall>d. cluster_file w' d = cluster_file w d)"
proof (cases "cluster_load (ca_dec_cluster api) ''unknown'' (cluster_file w dir) (en_clock env)")
  case (Ok n)
  with loaded_follows [OF Ok] put_same_cluster [of w dir] assms show ?thesis
    by (auto simp: on_cluster_def cluster_add_node_def cluster_remove_node_def)
qed (use assms in \<open>auto simp: on_cluster_def\<close>)

text \<open>
  \<open>cluster failover\<close> leaves a cluster without a primary. The process calls itself \<open>unknown\<close>, so
  when it takes over from the primary of a configuration that does not know this name, it reports
  success, the failed node becomes a secondary, and nobody becomes primary.
\<close>

theorem cli_failover_loses_primary:
  assumes "config_load (ca_dec_cluster api) (cluster_file w dir) = Ok cfg" "cc_failover cfg"
    and "find_node cfg failed = Some nd" "ni_role nd = NodePrimary" "''unknown'' \<notin> set (map ni_id (cc_nodes cfg))"
    and "\<And>n. n \<in> set (cc_nodes cfg) \<Longrightarrow> ni_role n = NodePrimary \<Longrightarrow> ni_id n = failed"
    and "cfg' = cfg\<lparr>cc_nodes := map (failover_role ''unknown'' failed) (cc_nodes cfg)\<rparr>"
    and "ca_dec_cluster api (ca_enc_cluster api cfg') = Some cfg'"
  shows "\<exists>w' lines. cmd_cluster api env w (ClusterFailover dir failed) = Some (w', Ok lines) \<and>
    config_load (ca_dec_cluster api) (cluster_file w' dir) = Ok cfg' \<and> primary cfg' = None \<and>
    map ni_id (cc_nodes cfg') = map ni_id (cc_nodes cfg)"
proof -
  obtain n where n: "cluster_load (ca_dec_cluster api) ''unknown'' (cluster_file w dir) (en_clock env) = Ok n" "cl_config n = cfg"
    using assms(1) by (auto simp: cluster_load_def)
  note load = loaded_follows [OF n(1)]
  let ?cfg = "cfg\<lparr>cc_nodes := map (failover_role ''unknown'' failed) (cc_nodes cfg)\<rparr>"
  note coded = assms(8) [unfolded assms(7)]
  have "nd \<in> set (cc_nodes cfg) \<and> ni_id nd = failed"
    using assms(3) by (auto simp: find_node_def find_Some_iff)
  then have "''unknown'' \<noteq> failed" using assms(5) by auto
  then have "should_failover (en_clock env) n failed" using load n(2) assms(2-4) by (simp add: should_failover_def)
  then have "\<exists>n'. perform_failover (ca_enc_cluster api) (en_clock env) (en_clock env) n failed = (n', Ok ()) \<and>
      cl_file n' = Some (ca_enc_cluster api ?cfg)"
    using load n(2) by (simp add: perform_failover_def save_config_def Let_def)
  then obtain n' where n': "perform_failover (ca_enc_cluster api) (en_clock env) (en_clock env) n failed = (n', Ok ())"
    "cl_file n' = Some (ca_enc_cluster api ?cfg)" by blast
  have "cluster_file (put_cluster dir (cl_file n') w) dir = Some (ca_enc_cluster api ?cfg)"
    by (simp add: n'(2) put_cluster_def cluster_file_def hm_simps)
  then have saved: "config_load (ca_dec_cluster api) (cluster_file (put_cluster dir (cl_file n') w) dir) = Ok ?cfg"
    by (simp add: config_load_def coded)
  have "ni_role (failover_role ''unknown'' failed x) \<noteq> NodePrimary" if "x \<in> set (cc_nodes cfg)" for x
  proof -
    have "ni_id x \<noteq> ''unknown''" using assms(5) that by (metis image_eqI set_map)
    moreover have "ni_role x = NodePrimary \<Longrightarrow> ni_id x = failed" using assms(6) that by blast
    ultimately show ?thesis by (auto simp: failover_role_def Let_def)
  qed
  then have "primary ?cfg = None" by (simp add: primary_def find_None_iff)
  moreover have "ni_id (failover_role ''unknown'' failed x) = ni_id x" for x by (simp add: failover_role_def Let_def)
  then have "map ni_id (cc_nodes ?cfg) = map ni_id (cc_nodes cfg)" by simp
  ultimately show ?thesis unfolding assms(7) using n n'(1) saved by (fastforce simp: on_cluster_def)
qed

text \<open>
  Transactions do not outlive their process. \<open>dist-tx commit\<close> and \<open>dist-tx abort\<close> fail for every
  transaction, because the coordinator is made anew; \<open>dist-tx begin\<close> keeps nothing.
\<close>

theorem cli_transactions_vanish:
  "cmd_dist_tx api (DistCommit i) = Err (DistTxError ''transaction not found'') \<and>
   cmd_dist_tx api (DistAbort i) = Err (DistTxError ''transaction not found'') \<and>
   cli_run api env w (CmdDistTx (DistBegin i participants)) =
     Some (w, Ok [''Started transaction '' @ i, ''Phase: Voting''])"
proof -
  have "tx_id (fold add_participant ps tx) = tx_id tx \<and> tx_phase_of (fold add_participant ps tx) = tx_phase_of tx"
    for ps and tx :: "'a dist_tx"
    by (induction ps arbitrary: tx) (auto simp: add_participant_def)
  then show ?thesis
    by (simp add: coord_commit_def coord_abort_def log_change_def coordinator_new_def coord_begin_def dist_tx_new_def Let_def)
qed

text \<open>
  \<open>cluster join\<close> saves nothing. In a directory without a configuration it reports that the node
  has joined, and the next command of the cluster does not find a configuration.
\<close>

theorem cli_join_is_forgotten:
  assumes "cluster_file w dir = None" "hm_get (w_files w) path = Some bs" "ca_dec_cluster api bs = Some cfg"
  shows "\<exists>w'. cmd_cluster api env w (ClusterJoin node address dir path) =
      Some (w', Ok [''Joined cluster '' @ cc_id cfg, ''Local node: '' @ node]) \<and>
    cmd_cluster api env' w' (ClusterShowStatus dir) = Some (w', Err no_such_file)"
  using assms
  by (auto simp: create_dir_def cluster_file_def join_cluster_def status_from_node_def status_raw_def put_cluster_def Let_def
      on_cluster_def cluster_load_def config_load_def split: option.splits)

subsection \<open>Witnesses\<close>

definition toy_cli :: "unit cli_api" where
  "toy_cli = \<lparr>ca_codec = toy_codec, ca_num = toy_numbers, ca_dir = (\<lambda>_. True), ca_feed = (\<lambda>_. False),
     ca_mkdir = (\<lambda>_. None),
     ca_parse = (\<lambda>s. if s = [] then None else Some (JStr s)), ca_doc = doc_id, ca_docs = (\<lambda>ds. concat (map doc_id ds)),
     ca_meta = \<lparr>enc_meta = sm_id, dec_meta = (\<lambda>bs. None)\<rparr>, ca_enc_cluster = (\<lambda>c. []), ca_dec_cluster = (\<lambda>bs. Some toy_config),
     ca_status = (\<lambda>_. []), ca_shards = (\<lambda>_. []), ca_config = \<lparr>enc_config = (\<lambda>_. []), dec_config = (\<lambda>_. None)\<rparr>,
     ca_feedback = \<lparr>enc_entry = (\<lambda>_. []), dec_feedback = (\<lambda>_. None)\<rparr>, ca_version = []\<rparr>"

definition toy_process :: cli_env where
  "toy_process = \<lparr>en_call = toy_env, en_second = [], en_created = [], en_stamp = 0, en_clock = 0\<rparr>"

definition toy_world :: world where
  "toy_world = \<lparr>w_files = [(''join.json'', ''x'')], w_dirs = Map.empty\<rparr>"


theorem cli_cluster_is_read_only_witness:
  "\<exists>w' r. cmd_cluster toy_cli toy_process toy_world (ClusterRemoveNode ''d'' ''b'') = Some (w', r) \<and> cluster_file w' ''d'' = None"
proof -
  obtain w' r where run: "cmd_cluster toy_cli toy_process toy_world (ClusterRemoveNode ''d'' ''b'') = Some (w', r)"
    by (fastforce simp: on_cluster_def cluster_load_def config_load_def cluster_file_def toy_world_def)
  have "(\<forall>lines. r \<noteq> Ok lines) \<and> (\<forall>d. cluster_file w' d = cluster_file toy_world d)"
    by (rule cli_cluster_is_read_only [OF run, of "''d''" "''b''"]) simp
  then have "cluster_file w' ''d'' = cluster_file toy_world ''d''" by blast
  with run show ?thesis by (simp add: cluster_file_def toy_world_def)
qed

definition toy_failed :: cluster_config where
  "toy_failed = toy_config\<lparr>cc_nodes := map (failover_role ''unknown'' ''a'') (cc_nodes toy_config)\<rparr>"

definition toy_cluster_cli :: "unit cli_api" where
  "toy_cluster_cli = toy_cli\<lparr>ca_enc_cluster := (\<lambda>c. if c = toy_failed then ''x'' else []),
     ca_dec_cluster := (\<lambda>bs. Some (if bs = ''x'' then toy_failed else toy_config))\<rparr>"

theorem cli_failover_loses_primary_witness:
  "\<exists>w' lines. cmd_cluster toy_cluster_cli toy_process (toy_world\<lparr>w_dirs := [''d'' \<mapsto> [(''cluster.json'', [])]]\<rparr>) (ClusterFailover ''d'' ''a'') =
     Some (w', Ok lines) \<and> config_load (ca_dec_cluster toy_cluster_cli) (cluster_file w' ''d'') = Ok toy_failed \<and> primary toy_failed = None"
proof -
  let ?w = "toy_world\<lparr>w_dirs := [''d'' \<mapsto> [(''cluster.json'', [])]]\<rparr>"
  have "\<exists>w' lines. cmd_cluster toy_cluster_cli toy_process ?w (ClusterFailover ''d'' ''a'') = Some (w', Ok lines) \<and>
    config_load (ca_dec_cluster toy_cluster_cli) (cluster_file w' ''d'') = Ok toy_failed \<and> primary toy_failed = None \<and>
    map ni_id (cc_nodes toy_failed) = map ni_id (cc_nodes toy_config)"
    by (rule cli_failover_loses_primary [where cfg = toy_config])
       (auto simp: toy_cluster_cli_def toy_failed_def toy_config_def cluster_config_new_def config_load_def cluster_file_def
          find_node_def toy_world_def)
  then show ?thesis by blast
qed

theorem cli_join_is_forgotten_witness:
  "\<exists>w'. cmd_cluster toy_cli toy_process toy_world (ClusterJoin ''n'' ''addr'' ''d'' ''join.json'') =
     Some (w', Ok [''Joined cluster k'', ''Local node: n'']) \<and>
   cmd_cluster toy_cli toy_process w' (ClusterShowStatus ''d'') = Some (w', Err no_such_file)"
  using cli_join_is_forgotten [of toy_world "''d''" "''join.json''" "''x''" toy_cli toy_config toy_process "''n''" "''addr''" toy_process]
  by (simp add: cluster_file_def toy_world_def toy_cli_def toy_config_def cluster_config_new_def)

text \<open>The files of a database with one document.\<close>

definition toy_stored :: "unit engine" where
  "toy_stored = apply_op toy_codec toy_env toy_engine (CInsert (document_new ''u'' (JStr ''hi'')))"

definition toy_backup_world :: world where
  "toy_backup_world = toy_world\<lparr>w_files := [(''a.db'', st_file (eng_storage toy_stored)), (''a.wal'', eng_wal toy_stored)]\<rparr>"

theorem cli_backup_restores_witness:
  "\<exists>w1 lines w3. cli_run toy_cli toy_process toy_backup_world (CmdBackup ''a.db'' ''d'') = Some (w1, Ok lines) \<and>
   cli_run toy_cli toy_process w1 (CmdRestore ''d'' ''snap_'' ''b.db'') = Some (w3, Ok [''Restored snap_ to b.db'']) \<and>
   world_docs toy_cli ''b.db'' w3 = [''u'' \<mapsto> document_new ''u'' (JStr ''hi'')]"
proof -
  let ?w = toy_backup_world
  have paths: "with_extension ''a.db'' ''wal'' = ''a.wal''" "with_extension ''a.db'' ''repl'' = ''a.repl''"
    "with_extension ''b.db'' ''wal'' = ''b.wal''" "with_extension ''b.db'' ''repl'' = ''b.repl''" by code_simp+
  have op: "op_ok toy_codec toy_env toy_engine (CInsert (document_new ''u'' (JStr ''hi'')))"
    by (simp add: toy_engine_def toy_codec_def toy_env_def toy_doc_def stored_doc_def doc_coded_def document_new_def payload_ok_def)
  note run = change_answers [OF op toy_run]
  have files: "files_at (w_files ?w) ''a.db'' = engine_files [] toy_stored"
    using db_run_ok [OF run(1)]
    by (simp add: files_at_def content_def toy_backup_world_def paths engine_files_def toy_stored_def engine_ok_def split: option.split)
  have agrees: "agrees toy_codec False (files_at (w_files ?w) ''a.db'') toy_stored"
    unfolding files using run(1) db_run_ok [OF run(1)]
    by (simp add: agrees_def toy_stored_def engine_ok_def engine_files_def split: option.split)
  then have ok: "world_ok toy_cli ''a.db'' ?w" by (auto simp: world_ok_def own_files_def paths toy_cli_def)
  have "world_docs toy_cli ''a.db'' ?w = eng_abs (without_subscribers toy_stored)"
    using agrees_open(1) [OF agrees] by (simp add: world_docs_def toy_cli_def)
  also have "\<dots> = [''u'' \<mapsto> document_new ''u'' (JStr ''hi'')]"
  proof -
    have "eng_abs (without_subscribers toy_stored) = eng_abs toy_stored" by (rule eng_abs_without_subscribers)
    also have "\<dots> = abs_op toy_env (eng_abs toy_engine) (CInsert (document_new ''u'' (JStr ''hi'')))"
      unfolding toy_stored_def by (rule run(2))
    also have "\<dots> = [''u'' \<mapsto> document_new ''u'' (JStr ''hi'')]"
      by (simp add: eng_abs_def toy_engine_def stored_doc_def document_new_def fun_eq_iff)
    finally show ?thesis .
  qed
  finally have docs: "world_docs toy_cli ''a.db'' ?w = [''u'' \<mapsto> document_new ''u'' (JStr ''hi'')]" .
  obtain fs1 meta where snap: "create_snapshot (ca_meta toy_cli) (os_of toy_cli ?w ''d'') [] [] (snaps_of ?w ''d'') ''a.db'' = (fs1, Ok meta)"
    using create_snapshot_succeeds [of "snaps_of ?w ''d''" "''a.db''" "os_of toy_cli ?w ''d''"]
    by (fastforce simp: os_of_def toy_cli_def snaps_of_def toy_backup_world_def)
  then obtain w1 lines where backup: "cli_run toy_cli toy_process ?w (CmdBackup ''a.db'' ''d'') = Some (w1, Ok lines)"
    "w1 = put_snaps ''d'' fs1 ?w" by (simp add: cmd_backup_def toy_process_def)
  have same: "w_files w1 = w_files ?w" using create_snapshot_files [OF snap] backup(2) by (auto simp: put_snaps_def snaps_of_def)
  have "hm_get (w_files ?w) (with_extension ''a.db'' ''wal'') \<noteq> None \<or> fresh_snapshot toy_process ?w ''d''"
    by (simp add: paths toy_backup_world_def)
  from cli_backup_restores [OF ok this backup(1) refl, of "''b.db''" toy_process]
  have "\<exists>w3. cli_run toy_cli toy_process w1 (CmdRestore ''d'' (''snap_'' @ en_second toy_process) ''b.db'') =
      Some (w3, Ok [''Restored snap_'' @ en_second toy_process @ '' to '' @ ''b.db'']) \<and>
      world_docs toy_cli ''b.db'' w3 = world_docs toy_cli ''a.db'' ?w"
    by (simp add: same paths own_files_def content_def writable_def toy_backup_world_def toy_cli_def del: cli_run.simps)
  with backup(1) docs show ?thesis by (simp add: toy_process_def del: cli_run.simps)
qed

end
