(* ===== verification/Node.thy ===== *)
theory Node
  imports Disk Tcp
begin

text \<open>
  The Node.js class (\<open>src/bindings/node/src/lib.rs\<close>): an engine behind methods that take and give
  JSON texts. A method returns, throws an error with a status, ends the process (a panic), or runs
  on (a compaction that does not end). JSON is an argument, with its error texts.
\<close>

subsection \<open>The class\<close>

datatype status = InvalidArg | GenericFailure

datatype 'a exit = Returns 'a | Throws status string | Dies | Runs_on

record 'n node_api =
  na_codec :: "'n codec"
  na_num :: "'n number_api"
  na_parse :: "string \<Rightarrow> string + 'n json"
  na_doc :: "'n document \<Rightarrow> string"
  na_docs :: "'n document list \<Rightarrow> string"
  na_pretty :: "'n document list \<Rightarrow> string"
  na_detail :: string

definition result_exit :: "'n node_api \<Rightarrow> 'a outcome \<Rightarrow> 'a exit" where
  "result_exit api r =
     (case r of
        Ok v \<Rightarrow> Returns v
      | Err e \<Rightarrow> Throws GenericFailure (error_text (na_detail api) e)
      | Panic \<Rightarrow> Dies)"

definition node_new :: "'n node_api \<Rightarrow> bool \<Rightarrow> db_files \<Rightarrow> db_files \<times> 'n engine exit" where
  "node_new api en fs = (opened_with (na_codec api) en fs, result_exit api (engine_open (na_codec api) en fs))"

definition node_insert :: "'n node_api \<Rightarrow> call_env \<Rightarrow> 'n engine \<Rightarrow> string \<Rightarrow> 'n engine \<times> string exit" where
  "node_insert api env e json =
     (case na_parse api json of
        Inl x \<Rightarrow> (e, Throws InvalidArg (''invalid JSON: '' @ x))
      | Inr v \<Rightarrow>
          (let (e', r, sent) = engine_insert (na_codec api) env e (document_new (ce_uuid env) v) in (e', result_exit api r)))"

definition node_get :: "'n node_api \<Rightarrow> 'n engine \<Rightarrow> string \<Rightarrow> string option exit" where
  "node_get api e i = Returns (map_option (na_doc api) (engine_get e i))"

definition node_update :: "'n node_api \<Rightarrow> call_env \<Rightarrow> 'n engine \<Rightarrow> string \<Rightarrow> string \<Rightarrow> 'n engine \<times> unit exit" where
  "node_update api env e i json =
     (case na_parse api json of
        Inl x \<Rightarrow> (e, Throws InvalidArg (''invalid JSON: '' @ x))
      | Inr v \<Rightarrow> (let (e', r, sent) = engine_update (na_codec api) env e i v in (e', result_exit api r)))"

definition node_delete :: "'n node_api \<Rightarrow> call_env \<Rightarrow> 'n engine \<Rightarrow> string \<Rightarrow> 'n engine \<times> unit exit" where
  "node_delete api env e i = (let (e', r, sent) = engine_delete (na_codec api) env e i in (e', result_exit api r))"

definition node_query :: "'n node_api \<Rightarrow> 'n engine \<Rightarrow> string \<Rightarrow> string exit" where
  "node_query api e s =
     (case parse_query (na_num api) s of
        Ok q \<Rightarrow> Returns (na_docs api (documents (engine_query (na_num api) e q)))
      | Err x \<Rightarrow> Throws InvalidArg (''invalid query: '' @ error_text (na_detail api) x)
      | Panic \<Rightarrow> Dies)"

definition node_dump :: "'n node_api \<Rightarrow> 'n engine \<Rightarrow> string exit" where
  "node_dump api e = Returns (engine_dump (na_pretty api) e)"

definition node_compact :: "'n node_api \<Rightarrow> 'n engine \<Rightarrow> 'n engine \<times> unit exit" where
  "node_compact api e =
     (case engine_compact (na_codec api) e of
        None \<Rightarrow> (e, Runs_on)
      | Some (e', r) \<Rightarrow> (e', result_exit api r))"

subsection \<open>What a client sees\<close>

datatype 'n node_op = NInsert string | NUpdate string string | NDelete string | NGet string

datatype seen = SText string | SDone | SMissing | SThrown status string | SGone

fun what_is_seen :: "('a \<Rightarrow> seen) \<Rightarrow> 'a exit \<Rightarrow> seen" where
  "what_is_seen f (Returns v) = f v"
| "what_is_seen f (Throws st m) = SThrown st m"
| "what_is_seen f Dies = SGone"
| "what_is_seen f Runs_on = SGone"

abbreviation seen_doc :: "string option \<Rightarrow> seen" where
  "seen_doc r \<equiv> (case r of None \<Rightarrow> SMissing | Some s \<Rightarrow> SText s)"

text \<open>The object with what its methods have given so far.\<close>

fun node_step :: "'n node_api \<Rightarrow> call_env \<Rightarrow> 'n engine \<times> seen list \<Rightarrow> 'n node_op \<Rightarrow> 'n engine \<times> seen list" where
  "node_step api env (e, outs) (NInsert s) = (let (e', r) = node_insert api env e s in (e', outs @ [what_is_seen SText r]))"
| "node_step api env (e, outs) (NUpdate i s) = (let (e', r) = node_update api env e i s in (e', outs @ [what_is_seen (\<lambda>_. SDone) r]))"
| "node_step api env (e, outs) (NDelete i) = (let (e', r) = node_delete api env e i in (e', outs @ [what_is_seen (\<lambda>_. SDone) r]))"
| "node_step api env (e, outs) (NGet i) = (e, outs @ [what_is_seen seen_doc (node_get api e i)])"

definition unknown_id :: "'n node_api \<Rightarrow> string \<Rightarrow> seen" where
  "unknown_id api i = SThrown GenericFailure (error_text (na_detail api) (NotFound i))"

fun node_spec :: "'n node_api \<Rightarrow> call_env \<Rightarrow> (string \<rightharpoonup> 'n document) \<times> seen list \<Rightarrow> 'n node_op
    \<Rightarrow> (string \<rightharpoonup> 'n document) \<times> seen list" where
  "node_spec api env (m, outs) (NInsert s) =
     (case na_parse api s of
        Inl x \<Rightarrow> (m, outs @ [SThrown InvalidArg (''invalid JSON: '' @ x)])
      | Inr v \<Rightarrow> (m(ce_uuid env \<mapsto> document_new (ce_uuid env) v), outs @ [SText (ce_uuid env)]))"
| "node_spec api env (m, outs) (NUpdate i s) =
     (case na_parse api s of
        Inl x \<Rightarrow> (m, outs @ [SThrown InvalidArg (''invalid JSON: '' @ x)])
      | Inr v \<Rightarrow>
          (case m i of
             None \<Rightarrow> (m, outs @ [unknown_id api i])
           | Some old \<Rightarrow> (m(i \<mapsto> old\<lparr>doc_data := v\<rparr>), outs @ [SDone])))"
| "node_spec api env (m, outs) (NDelete i) =
     (m(i := None), outs @ [if m i = None then unknown_id api i else SDone])"
| "node_spec api env (m, outs) (NGet i) = (m, outs @ [seen_doc (map_option (na_doc api) (m i))])"

fun node_ok :: "'n node_api \<Rightarrow> call_env \<Rightarrow> 'n engine \<times> seen list \<Rightarrow> 'n node_op \<Rightarrow> bool" where
  "node_ok api env (e, outs) (NInsert s) =
     (case na_parse api s of Inl _ \<Rightarrow> True | Inr v \<Rightarrow> op_ok (na_codec api) env e (CInsert (document_new (ce_uuid env) v)))"
| "node_ok api env (e, outs) (NUpdate i s) =
     (case na_parse api s of Inl _ \<Rightarrow> True | Inr v \<Rightarrow> op_ok (na_codec api) env e (CUpdate i v))"
| "node_ok api env (e, outs) (NDelete i) = op_ok (na_codec api) env e (CDelete i)"
| "node_ok api env (e, outs) (NGet i) = True"

definition node_view :: "'n engine \<times> seen list \<Rightarrow> (string \<rightharpoonup> 'n document) \<times> seen list" where
  "node_view s = (eng_abs (fst s), snd s)"

lemma node_step_ok:
  assumes "db_run (na_codec api) en (fst s)" "node_ok api env s op"
  shows "db_run (na_codec api) en (fst (node_step api env s op)) \<and> node_view (node_step api env s op) = node_spec api env (node_view s) op"
proof -
  obtain e outs where s: "s = (e, outs)" by (cases s)
  let ?c = "na_codec api"
  have run: "db_run ?c en e" using assms(1) s by simp
  show ?thesis
  proof (cases op)
    case (NInsert t)
    show ?thesis
    proof (cases "na_parse api t")
      case (Inr v)
      let ?doc = "document_new (ce_uuid env) v"
      have ok: "op_ok ?c env e (CInsert ?doc)" using assms(2) s NInsert Inr by simp
      have stored: "stored_doc env ?doc = ?doc" "doc_id ?doc = ce_uuid env" by (simp_all add: stored_doc_def document_new_def)
      obtain sent where "engine_insert ?c env e ?doc = (apply_op ?c env e (CInsert ?doc), Ok (ce_uuid env), sent)"
        using change_results(1) [OF run ok] stored by auto
      with change_answers(1,2) [OF ok run] s NInsert Inr stored show ?thesis
        by (simp add: node_insert_def result_exit_def node_view_def del: apply_op.simps)
    qed (use s NInsert run in \<open>simp add: node_insert_def node_view_def\<close>)
  next
    case (NUpdate i t)
    show ?thesis
    proof (cases "na_parse api t")
      case (Inr v)
      have ok: "op_ok ?c env e (CUpdate i v)" using assms(2) s NUpdate Inr by simp
      obtain sent where "engine_update ?c env e i v =
          (apply_op ?c env e (CUpdate i v), if eng_abs e i = None then Err (NotFound i) else Ok (), sent)"
        using change_results(2) [OF run ok] by blast
      with change_answers(1,2) [OF ok run] s NUpdate Inr show ?thesis
        by (cases "eng_abs e i") (simp_all add: node_update_def result_exit_def node_view_def unknown_id_def del: apply_op.simps)
    qed (use s NUpdate run in \<open>simp add: node_update_def node_view_def\<close>)
  next
    case (NDelete i)
    have ok: "op_ok ?c env e (CDelete i)" using assms(2) s NDelete by simp
    obtain sent where "engine_delete ?c env e i =
        (apply_op ?c env e (CDelete i), if eng_abs e i = None then Err (NotFound i) else Ok (), sent)"
      using change_results(3) [OF run ok] by blast
    with change_answers(1,2) [OF ok run] s NDelete show ?thesis
      by (cases "eng_abs e i") (simp_all add: node_delete_def result_exit_def node_view_def unknown_id_def del: apply_op.simps)
  next
    case (NGet i)
    with s run show ?thesis by (simp add: node_get_def node_view_def engine_get_def eng_abs_def)
  qed
qed

interpretation node: doc_store "\<lambda>s. db_run (na_codec api) en (fst s)" "node_ok api" "node_step api" node_view "node_spec api"
  for api :: "'n node_api" and en
  by unfold_locales (use node_step_ok in blast)+

text \<open>
  C33: The class is a map of documents. An object on a new file that is used through \<open>insert\<close>,
  \<open>update\<close>, \<open>delete\<close> and \<open>get\<close> gives what a map of documents gives: identifiers, texts, nothing
  for a missing document, and errors with their status, which change nothing.
\<close>

theorem node_serves_documents:
  assumes "node_new api en no_files = (fs, Returns e)" "ok_history (node_ok api) (node_step api) (e, []) ops"
  shows "node_view (history_state (node_step api) (e, []) ops) = history_state (node_spec api) (Map.empty, []) ops"
proof -
  obtain e0 where e0: "engine_open (na_codec api) en no_files = Ok e0"
    "agrees (na_codec api) en (opened_with (na_codec api) en no_files) e0" "eng_docs e0 = []"
    using agrees_fresh by blast
  with assms(1) have "e0 = e" by (simp add: node_new_def result_exit_def)
  with e0 have "db_run (na_codec api) en (fst (e, []))" "node_view (e, []) = (Map.empty, [])"
    by (simp_all add: agrees_def node_view_def eng_abs_def fun_eq_iff)
  with node.history_refines [OF this(1) assms(2)] show ?thesis by simp
qed

definition toy_node :: "unit node_api" where
  "toy_node = \<lparr>na_codec = toy_codec, na_num = toy_numbers, na_parse = (\<lambda>s. if s = [] then Inl ''EOF'' else Inr (JStr s)),
     na_doc = doc_id, na_docs = (\<lambda>ds. concat (map doc_id ds)), na_pretty = (\<lambda>ds. []), na_detail = []\<rparr>"

theorem node_serves_documents_witness:
  "\<exists>fs e. node_new toy_node False no_files = (fs, Returns e) \<and>
    snd (node_view (history_state (node_step toy_node) (e, []) [(toy_env, NInsert ''hi''), (toy_env, NGet ''u''), (toy_env, NInsert [])])) =
    [SText ''u'', SText ''u'', SThrown InvalidArg ''invalid JSON: EOF'']"
proof -
  let ?ops = "[(toy_env, NInsert ''hi''), (toy_env, NGet ''u''), (toy_env, NInsert [])]"
  have new: "node_new toy_node False no_files = (opened_with toy_codec False no_files, Returns toy_engine)"
    by (simp add: node_new_def toy_node_def result_exit_def toy_open)
  have "op_ok toy_codec toy_env toy_engine (CInsert (document_new ''u'' (JStr ''hi'')))"
    by (simp add: toy_engine_def toy_codec_def toy_env_def toy_doc_def stored_doc_def doc_coded_def document_new_def payload_ok_def)
  then have "ok_history (node_ok toy_node) (node_step toy_node) (toy_engine, []) ?ops"
    by (simp add: toy_node_def toy_env_def case_prod_beta Let_def del: op_ok.simps)
  from node_serves_documents [OF new this]
  have "node_view (history_state (node_step toy_node) (toy_engine, []) ?ops) =
      ([''u'' \<mapsto> document_new ''u'' (JStr ''hi'')], [SText ''u'', SText ''u'', SThrown InvalidArg ''invalid JSON: EOF''])"
    by (simp add: toy_node_def toy_env_def document_new_def)
  with new show ?thesis by auto
qed

end
