(* ===== verification/Fuzz.thy ===== *)
theory Fuzz
  imports DatabaseLaws Text
begin

text \<open>
  The fuzz target (\<open>src/fuzz/targets/fuzz_storage.rs\<close>): decoding the input into operations, and
  running them on a \<open>Cassette\<close> and its file. Results of operations are dropped, as the target
  drops them. JSON and the coding of the database are arguments; every operation has a \<open>stamp\<close>,
  what it reads of the clock and of the random numbers.
\<close>

subsection \<open>Operations\<close>

datatype fuzz_op =
    FInsert string string
  | FUpdate string string string
  | FDelete string string
  | FQuery string string
  | FSearch string string
  | FCompact
  | FSave
  | FOpen

definition part :: "string list \<Rightarrow> nat \<Rightarrow> string \<Rightarrow> string" where
  "part parts k d = (if k < length parts then parts ! k else d)"

definition decode_op :: "nat \<Rightarrow> string list \<Rightarrow> fuzz_op" where
  "decode_op code parts =
     (let coll = part parts 0 ''fuzz''; k = code mod 8 in
      if k = 0 then FInsert coll (part parts 1 ''{}'')
      else if k = 1 then FUpdate coll (part parts 1 []) (part parts 2 ''{}'')
      else if k = 2 then FDelete coll (part parts 1 [])
      else if k = 3 then FQuery coll (part parts 1 [])
      else if k = 4 then FSearch coll (part parts 1 [])
      else if k = 5 then FCompact
      else if k = 6 then FSave
      else FOpen)"

function parse_ops :: "bytes \<Rightarrow> fuzz_op list" where
  "parse_ops data =
     (case data of
        c # n # rest \<Rightarrow>
          (let len = of_char n in
           if length rest < len then []
           else decode_op (of_char c) (split_by (\<lambda>b. b = CHR 0x00) (utf8_lossy (take len rest))) # parse_ops (drop len rest))
      | _ \<Rightarrow> [])"
  by pat_completeness auto
termination
  by (relation "measure length") auto

declare parse_ops.simps [simp del]

subsection \<open>The driver\<close>

record 'n fuzz_state =
  fz_db :: "'n cassette"
  fz_ids :: "string list"
  fz_files :: cassette_files

definition fuzz_start :: "'n fuzz_state" where
  "fuzz_start = \<lparr>fz_db = cassette_new, fz_ids = [], fz_files = \<lparr>cf_main = None, cf_wal = None\<rparr>\<rparr>"

definition fuzz_value :: "(string \<Rightarrow> 'n json option) \<Rightarrow> string \<Rightarrow> 'n json" where
  "fuzz_value parse doc = (case parse doc of None \<Rightarrow> JObj [(''fuzz'', JBool True)] | Some v \<Rightarrow> v)"

definition fuzz_id :: "string list \<Rightarrow> string \<Rightarrow> string" where
  "fuzz_id ids i = (if i \<noteq> [] then i else if ids = [] then [] else last ids)"

fun fuzz_step ::
  "'n text_api \<Rightarrow> 'n db_codec \<Rightarrow> (string \<Rightarrow> 'n json option) \<Rightarrow> 'n fuzz_state \<Rightarrow> stamp \<times> fuzz_op \<Rightarrow> 'n fuzz_state" where
  "fuzz_step api c parse s (st, FInsert coll doc) =
     (let (db, i) = db_insert api st (fz_db s) coll (fuzz_value parse doc) in s\<lparr>fz_db := db, fz_ids := fz_ids s @ [i]\<rparr>)"
| "fuzz_step api c parse s (st, FUpdate coll i doc) =
     s\<lparr>fz_db := fst (db_update api (stamp_updated st) (fz_db s) coll (fuzz_id (fz_ids s) i) (fuzz_value parse doc))\<rparr>"
| "fuzz_step api c parse s (st, FDelete coll i) =
     s\<lparr>fz_db := fst (db_delete (stamp_updated st) (fz_db s) coll (fuzz_id (fz_ids s) i))\<rparr>"
| "fuzz_step api c parse s (st, FQuery coll f) = s"
| "fuzz_step api c parse s (st, FSearch coll q) = s"
| "fuzz_step api c parse s (st, FCompact) = s\<lparr>fz_db := fst (db_compact api (fz_db s))\<rparr>"
| "fuzz_step api c parse s (st, FSave) = s\<lparr>fz_files := cassette_save c (fz_db s) (fz_files s)\<rparr>"
| "fuzz_step api c parse s (st, FOpen) =
     (case cassette_open c (fz_files s) of Inl e \<Rightarrow> s | Inr db \<Rightarrow> s\<lparr>fz_db := db\<rparr>)"

text \<open>The state before the final \<open>save\<close> and \<open>open\<close>; \<open>stamps\<close> gives the stamps in their order.\<close>

definition stamped :: "(nat \<Rightarrow> stamp) \<Rightarrow> fuzz_op list \<Rightarrow> (stamp \<times> fuzz_op) list" where
  "stamped stamps ops = zip (map stamps [0..<length ops]) ops"

definition fuzz_ops ::
  "'n text_api \<Rightarrow> 'n db_codec \<Rightarrow> (string \<Rightarrow> 'n json option) \<Rightarrow> (nat \<Rightarrow> stamp) \<Rightarrow> bytes \<Rightarrow> 'n fuzz_state" where
  "fuzz_ops api c parse stamps data = foldl (fuzz_step api c parse) fuzz_start (stamped stamps (parse_ops data))"

text \<open>The whole target: the database at the end, and what opening its saved file gives.\<close>

definition fuzz_target ::
  "'n text_api \<Rightarrow> 'n db_codec \<Rightarrow> (string \<Rightarrow> 'n json option) \<Rightarrow> (nat \<Rightarrow> stamp) \<Rightarrow> bytes
     \<Rightarrow> 'n cassette \<times> (db_error + 'n cassette)" where
  "fuzz_target api c parse stamps data =
     (let s = fuzz_ops api c parse stamps data in
      (fz_db s, cassette_open c (cassette_save c (fz_db s) (fz_files s))))"

subsection \<open>What the target checks\<close>

text \<open>
  An identifier made of clock and random number is new to its collection, and a database that is
  saved is read back.
\<close>

definition reads_back :: "'n db_codec \<Rightarrow> 'n cassette \<Rightarrow> bool" where
  "reads_back c db \<longleftrightarrow> dec_db c (enc_db c db) = Some db"

fun fuzz_fits :: "'n db_codec \<Rightarrow> 'n fuzz_state \<Rightarrow> stamp \<times> fuzz_op \<Rightarrow> bool" where
  "fuzz_fits c s (st, FInsert coll doc) = (stamp_id st \<notin> known_ids (fz_db s) coll)"
| "fuzz_fits c s (st, FSave) = reads_back c (fz_db s)"
| "fuzz_fits c s _ = True"

definition fuzz_ok :: "'n text_api \<Rightarrow> 'n db_codec \<Rightarrow> 'n fuzz_state \<Rightarrow> bool" where
  "fuzz_ok api c s \<longleftrightarrow> cassette_ok api (fz_db s) \<and>
     (case cf_main (fz_files s) of None \<Rightarrow> True | Some bs \<Rightarrow> (\<exists>db. dec_db c bs = Some db \<and> cassette_ok api db))"

lemma fuzz_step_ok:
  assumes "fuzz_ok api c s" "fuzz_fits c s e"
  shows "fuzz_ok api c (fuzz_step api c parse s e)"
proof -
  obtain st op where e: "e = (st, op)" by (cases e)
  have db: "cassette_ok api (fz_db s)" using assms(1) by (simp add: fuzz_ok_def)
  note apply_ok = cassette_apply_ok [OF db, of st, THEN conjunct1]
  show ?thesis
  proof (cases op)
    case (FInsert coll doc)
    with assms e apply_ok [of "DbInsert coll (fuzz_value parse doc)"] show ?thesis
      by (simp add: fuzz_ok_def case_prod_beta)
  next
    case (FUpdate coll i doc)
    with assms e apply_ok [of "DbUpdate coll (fuzz_id (fz_ids s) i) (fuzz_value parse doc)"] show ?thesis
      by (simp add: fuzz_ok_def)
  next
    case (FDelete coll i)
    with assms e apply_ok [of "DbDelete coll (fuzz_id (fz_ids s) i)"] show ?thesis by (simp add: fuzz_ok_def)
  next
    case FCompact
    with assms e apply_ok [of DbCompact] show ?thesis by (simp add: fuzz_ok_def)
  next
    case FSave
    with assms e show ?thesis by (auto simp: fuzz_ok_def cassette_save_def reads_back_def)
  next
    case FOpen
    with assms e cassette_new_ok [of api] show ?thesis
      by (auto simp: fuzz_ok_def cassette_open_def split: option.splits)
  qed (use assms e in simp_all)
qed

interpretation fuzz: machine "fuzz_step api c parse" "fuzz_fits c" "fuzz_ok api c" for api :: "'n text_api" and c parse
  by unfold_locales (rule fuzz_step_ok)

text \<open>
  With identifiers that do not repeat and saved databases that are read back, the operations leave
  the database with its documents and all of its indexes in order.
\<close>

lemma fuzz_ops_in_order:
  assumes "ok_run (fuzz_fits c) (fuzz_step api c parse) fuzz_start (stamped stamps (parse_ops data))"
  shows "cassette_ok api (fz_db (fuzz_ops api c parse stamps data))"
proof -
  have "fuzz_ok api c fuzz_start" using cassette_new_ok [of api] by (simp add: fuzz_ok_def fuzz_start_def)
  from fuzz.run_inv [OF this assms] show ?thesis by (simp add: fuzz_ops_def fuzz_ok_def)
qed

subsection \<open>Inputs for given operations\<close>

fun op_fields :: "fuzz_op \<Rightarrow> nat \<times> string list" where
  "op_fields (FInsert coll doc) = (0, [coll, doc])"
| "op_fields (FUpdate coll i doc) = (1, [coll, i, doc])"
| "op_fields (FDelete coll i) = (2, [coll, i])"
| "op_fields (FQuery coll f) = (3, [coll, f])"
| "op_fields (FSearch coll q) = (4, [coll, q])"
| "op_fields FCompact = (5, [])"
| "op_fields FSave = (6, [])"
| "op_fields FOpen = (7, [])"

text \<open>The payload of an operation has its fields with a zero byte between them.\<close>

fun separated :: "string list \<Rightarrow> bytes" where
  "separated [] = []"
| "separated [f] = f"
| "separated (f # fs) = f @ CHR 0x00 # separated fs"

definition op_payload :: "fuzz_op \<Rightarrow> bytes" where
  "op_payload op = separated (snd (op_fields op))"

definition op_frame :: "nat \<times> fuzz_op \<Rightarrow> bytes" where
  "op_frame p = char_of (fst (op_fields (snd p)) + 8 * fst p) # char_of (length (op_payload (snd p))) # op_payload (snd p)"

definition frame_fits :: "nat \<times> fuzz_op \<Rightarrow> bool" where
  "frame_fits p \<longleftrightarrow> fst p < 32 \<and> length (op_payload (snd p)) < 256 \<and>
     list_all (\<lambda>f. is_ascii f \<and> CHR 0x00 \<notin> set f) (snd (op_fields (snd p)))"

lemma split_separated:
  "list_all (\<lambda>f. CHR 0x00 \<notin> set f) fs \<Longrightarrow> split_by (\<lambda>b. b = CHR 0x00) (separated fs) = (if fs = [] then [[]] else fs)"
proof (induction fs rule: separated.induct)
  case (2 f)
  then show ?case by (simp add: split_by_last)
next
  case (3 f g gs)
  then have "split_by (\<lambda>b. b = CHR 0x00) (f @ CHR 0x00 # separated (g # gs)) = f # split_by (\<lambda>b. b = CHR 0x00) (separated (g # gs))"
    by (intro split_by_segment) auto
  with 3 show ?case by simp
qed simp

lemma separated_ascii: "list_all is_ascii fs \<Longrightarrow> is_ascii (separated fs)"
  by (induction fs rule: separated.induct) (auto simp: is_ascii_def)

lemma decode_op_frame:
  assumes "frame_fits (j, op)"
  shows "decode_op (of_char (char_of (fst (op_fields op) + 8 * j) :: char))
    (split_by (\<lambda>b. b = CHR 0x00) (utf8_lossy (op_payload op))) = op"
proof -
  have fields: "list_all is_ascii (snd (op_fields op))" "list_all (\<lambda>f. CHR 0x00 \<notin> set f) (snd (op_fields op))"
    using assms by (auto simp: frame_fits_def list_all_iff)
  have parts: "split_by (\<lambda>b. b = CHR 0x00) (utf8_lossy (op_payload op)) =
      (if snd (op_fields op) = [] then [[]] else snd (op_fields op))"
    using fields by (simp add: op_payload_def utf8_lossy_ascii separated_ascii split_separated)
  have small: "fst (op_fields op) < 8" by (cases op) simp_all
  with assms have "(of_char (char_of (fst (op_fields op) + 8 * j) :: char) :: nat) = fst (op_fields op) + 8 * j"
    by (simp add: frame_fits_def)
  with small have "(of_char (char_of (fst (op_fields op) + 8 * j) :: char) :: nat) mod 8 = fst (op_fields op)" by simp
  then show ?thesis unfolding parts decode_op_def Let_def by (cases op) (simp_all add: part_def)
qed

lemma parse_ops_cut: "length rest < 2 \<or> length rest < 2 + of_char (rest ! 1) \<Longrightarrow> parse_ops rest = []"
  by (subst parse_ops.simps) (auto split: list.split)

text \<open>
  C39: The fuzz target can be given any operations. Encode operations whose fields are ASCII
  without zero bytes, each as the byte of its code (or the code plus a multiple of eight), the
  byte of the length of its payload, which is below 256, and the payload, its fields with zero
  bytes between them. \<open>parse_ops\<close> decodes these frames, followed by any part of a frame that ends
  too early, to exactly the operations, in order.
\<close>

theorem parse_ops_frames:
  assumes "list_all frame_fits ps" "length rest < 2 \<or> length rest < 2 + of_char (rest ! 1)"
  shows "parse_ops (concat (map op_frame ps) @ rest) = map snd ps"
  using assms
proof (induction ps)
  case Nil
  then show ?case by (simp add: parse_ops_cut)
next
  case (Cons p ps)
  obtain j op where p: "p = (j, op)" by (cases p)
  have len: "length (op_payload op) mod 256 = length (op_payload op)" and fits: "frame_fits (j, op)"
    using Cons.prems(1) by (simp_all add: p frame_fits_def)
  have "parse_ops (concat (map op_frame ps) @ rest) = map snd ps" using Cons by simp
  then show ?case
    by (subst parse_ops.simps) (simp add: p op_frame_def [of "(j, op)"] len decode_op_frame [OF fits, simplified])
qed

theorem parse_ops_frames_witness:
  "parse_ops (concat (map op_frame [(0, FInsert ''c'' ''{}''), (3, FUpdate ''c'' [] ''[]''), (0, FSave), (31, FOpen)]) @ ''ab'') =
     [FInsert ''c'' ''{}'', FUpdate ''c'' [] ''[]'', FSave, FOpen]"
proof -
  have "list_all frame_fits [(0, FInsert ''c'' ''{}''), (3, FUpdate ''c'' [] ''[]''), (0, FSave), (31, FOpen)]"
    by (simp add: frame_fits_def op_payload_def is_ascii_def)
  from parse_ops_frames [OF this, of "''ab''"] show ?thesis by simp
qed

end
