(* ===== verification/Tantivy.thy ===== *)
theory Tantivy
  imports Disk "HOL-Library.Multiset"
begin

text \<open>
  Search through Tantivy (\<open>src/src/search.rs\<close> and the parts of \<open>engine.rs\<close> under the feature
  \<open>tantivy-search\<close>): a second index of the documents, in a directory beside the database. The
  crate is an argument, a record of the functions that are called, each with the text of its
  error; \<open>'d\<close> is what the library keeps in the directory, \<open>'w\<close> a writer, \<open>'r\<close> a searcher. What
  the documentation of the crate says of them is \<open>tantivy_laws\<close>.
\<close>

subsection \<open>The library\<close>

datatype text_option = STRING | TEXT | STORED

type_synonym schema = "(string \<times> text_option list) list"

record ('n, 'd, 'w, 'r, 'q, 'a, 't, 's) tantivy_lib =
  tl_fresh :: 'd
  tl_entries :: "'d \<Rightarrow> bool"
  tl_mmap :: "'d \<Rightarrow> string option"
  tl_open :: "'d \<Rightarrow> string option"
  tl_create :: "'d \<Rightarrow> schema \<Rightarrow> 'd \<times> string option"
  tl_writer :: "'d \<Rightarrow> nat \<Rightarrow> string + 'w"
  tl_new_doc :: 't
  tl_add_text :: "'t \<Rightarrow> nat \<Rightarrow> string \<Rightarrow> 't"
  tl_add :: "'w \<Rightarrow> 't \<Rightarrow> 'w \<times> string option"
  tl_delete :: "'w \<Rightarrow> nat \<Rightarrow> string \<Rightarrow> 'w"
  tl_commit :: "'w \<Rightarrow> 'w \<times> string option"
  tl_left :: "'w \<Rightarrow> 'd"
  tl_reader :: "'d \<Rightarrow> string + 'r"
  tl_parse :: "'d \<Rightarrow> nat list \<Rightarrow> string \<Rightarrow> string + 'q"
  tl_limit :: "nat \<Rightarrow> bool"
  tl_search :: "'r \<Rightarrow> 'q \<Rightarrow> nat \<Rightarrow> string + ('s \<times> 'a) list"
  tl_doc :: "'r \<Rightarrow> 'a \<Rightarrow> string + 't"
  tl_first_str :: "'t \<Rightarrow> nat \<Rightarrow> string option"
  tl_print :: "'n json \<Rightarrow> string option"
  tl_json :: "string \<Rightarrow> 'n json option"

text \<open>
  \<open>tl_fresh\<close> is a directory just made, \<open>tl_entries\<close> whether a directory has any, \<open>tl_left\<close> what a
  writer leaves in it when it is dropped, and \<open>tl_limit\<close> whether \<open>TopDocs::with_limit\<close> takes the
  number (it panics otherwise). \<open>tl_print\<close> and \<open>tl_json\<close> are \<open>serde_json\<close>.
\<close>

datatype 'd index_entry = Absent | NotADirectory string | Directory 'd

subsection \<open>The index\<close>

record 'd tantivy_index =
  ts_dir :: 'd
  ts_schema :: schema
  ts_doc_id_field :: nat
  ts_data_field :: nat

record ('n, 's) search_result =
  res_doc_id :: string
  res_data :: "'n json"
  res_score :: 's

definition tantivy_schema :: schema where
  "tantivy_schema = [(''doc_id'', [STRING, STORED]), (''data'', [TEXT, STORED])]"

definition tantivy_at :: "'d \<Rightarrow> 'd tantivy_index" where
  "tantivy_at d = \<lparr>ts_dir = d, ts_schema = tantivy_schema, ts_doc_id_field = 0, ts_data_field = 1\<rparr>"

definition open_existing ::
  "('n, 'd, 'w, 'r, 'q, 'a, 't, 's) tantivy_lib \<Rightarrow> 'd \<Rightarrow> 'd index_entry \<times> 'd tantivy_index outcome" where
  "open_existing lib d =
     (Directory d,
      case tl_mmap lib d of
        Some x \<Rightarrow> Err (IndexError (''Failed to open MmapDirectory: '' @ x))
      | None \<Rightarrow>
          (case tl_open lib d of
             Some x \<Rightarrow> Err (IndexError (''Failed to open Tantivy index: '' @ x))
           | None \<Rightarrow> Ok (tantivy_at d)))"

definition create_new ::
  "('n, 'd, 'w, 'r, 'q, 'a, 't, 's) tantivy_lib \<Rightarrow> 'd \<Rightarrow> 'd index_entry \<times> 'd tantivy_index outcome" where
  "create_new lib d =
     (case tl_mmap lib d of
        Some x \<Rightarrow> (Directory d, Err (IndexError (''Failed to open MmapDirectory: '' @ x)))
      | None \<Rightarrow>
          (case tl_create lib d tantivy_schema of
             (d', Some x) \<Rightarrow> (Directory d', Err (IndexError (''Failed to create Tantivy index: '' @ x)))
           | (d', None) \<Rightarrow> (Directory d', Ok (tantivy_at d'))))"

definition tantivy_open ::
  "('n, 'd, 'w, 'r, 'q, 'a, 't, 's) tantivy_lib \<Rightarrow> 'd index_entry \<Rightarrow> 'd index_entry \<times> 'd tantivy_index outcome" where
  "tantivy_open lib entry =
     (case entry of
        Absent \<Rightarrow> create_new lib (tl_fresh lib)
      | NotADirectory x \<Rightarrow> (entry, Err (Io x))
      | Directory d \<Rightarrow> if tl_entries lib d then open_existing lib d else create_new lib d)"

definition writer_memory :: nat where
  "writer_memory = 50000000"

text \<open>A commit, after which the writer is dropped.\<close>

definition commit_drop ::
  "('n, 'd, 'w, 'r, 'q, 'a, 't, 's) tantivy_lib \<Rightarrow> 'd tantivy_index \<Rightarrow> 'w \<Rightarrow> 'd tantivy_index \<times> unit outcome" where
  "commit_drop lib ts w =
     (case tl_commit lib w of
        (w', Some x) \<Rightarrow> (ts\<lparr>ts_dir := tl_left lib w'\<rparr>, Err (IndexError (''Tantivy commit error: '' @ x)))
      | (w', None) \<Rightarrow> (ts\<lparr>ts_dir := tl_left lib w'\<rparr>, Ok ()))"

definition entry_text :: "('n, 'd, 'w, 'r, 'q, 'a, 't, 's) tantivy_lib \<Rightarrow> 'n document \<Rightarrow> string" where
  "entry_text lib doc = (case tl_print lib (doc_data doc) of None \<Rightarrow> [] | Some s \<Rightarrow> s)"

definition tantivy_doc ::
  "('n, 'd, 'w, 'r, 'q, 'a, 't, 's) tantivy_lib \<Rightarrow> 'd tantivy_index \<Rightarrow> 'n document \<Rightarrow> 't" where
  "tantivy_doc lib ts doc =
     tl_add_text lib (tl_add_text lib (tl_new_doc lib) (ts_doc_id_field ts) (doc_id doc)) (ts_data_field ts) (entry_text lib doc)"

definition tantivy_index_document ::
  "('n, 'd, 'w, 'r, 'q, 'a, 't, 's) tantivy_lib \<Rightarrow> 'd tantivy_index \<Rightarrow> 'n document \<Rightarrow> 'd tantivy_index \<times> unit outcome" where
  "tantivy_index_document lib ts doc =
     (case tl_writer lib (ts_dir ts) writer_memory of
        Inl x \<Rightarrow> (ts, Err (IndexError (''Tantivy writer error: '' @ x)))
      | Inr w \<Rightarrow>
          (case tl_add lib w (tantivy_doc lib ts doc) of
             (w', Some x) \<Rightarrow> (ts\<lparr>ts_dir := tl_left lib w'\<rparr>, Err (IndexError (''Tantivy add_document error: '' @ x)))
           | (w', None) \<Rightarrow> commit_drop lib ts w'))"

definition tantivy_remove_document ::
  "('n, 'd, 'w, 'r, 'q, 'a, 't, 's) tantivy_lib \<Rightarrow> 'd tantivy_index \<Rightarrow> string \<Rightarrow> 'd tantivy_index \<times> unit outcome" where
  "tantivy_remove_document lib ts i =
     (case tl_writer lib (ts_dir ts) writer_memory of
        Inl x \<Rightarrow> (ts, Err (IndexError (''Tantivy writer error: '' @ x)))
      | Inr w \<Rightarrow> commit_drop lib ts (tl_delete lib w (ts_doc_id_field ts) i))"

text \<open>One document that was found, and the loop over all of them.\<close>

definition found ::
  "('n, 'd, 'w, 'r, 'q, 'a, 't, 's) tantivy_lib \<Rightarrow> 'd tantivy_index \<Rightarrow> 's \<Rightarrow> 't \<Rightarrow> ('n, 's) search_result" where
  "found lib ts score t =
     (let i = (case tl_first_str lib t (ts_doc_id_field ts) of None \<Rightarrow> [] | Some s \<Rightarrow> s);
          json = (case tl_first_str lib t (ts_data_field ts) of None \<Rightarrow> ''{}'' | Some s \<Rightarrow> s)
      in \<lparr>res_doc_id = i, res_data = (case tl_json lib json of None \<Rightarrow> JNull | Some v \<Rightarrow> v), res_score = score\<rparr>)"

fun retrieve ::
  "('n, 'd, 'w, 'r, 'q, 'a, 't, 's) tantivy_lib \<Rightarrow> 'd tantivy_index \<Rightarrow> 'r \<Rightarrow> ('s \<times> 'a) list \<Rightarrow> ('n, 's) search_result list outcome" where
  "retrieve lib ts r [] = Ok []"
| "retrieve lib ts r ((score, a) # hits) =
     (case tl_doc lib r a of
        Inl x \<Rightarrow> Err (IndexError (''Tantivy doc retrieval error: '' @ x))
      | Inr t \<Rightarrow> and_then (retrieve lib ts r hits) (\<lambda>rs. Ok (found lib ts score t # rs)))"

definition tantivy_query ::
  "('n, 'd, 'w, 'r, 'q, 'a, 't, 's) tantivy_lib \<Rightarrow> 'd tantivy_index \<Rightarrow> string \<Rightarrow> nat \<Rightarrow> ('n, 's) search_result list outcome" where
  "tantivy_query lib ts query_str limit =
     (case tl_reader lib (ts_dir ts) of
        Inl x \<Rightarrow> Err (IndexError (''Tantivy reader error: '' @ x))
      | Inr r \<Rightarrow>
          (case tl_parse lib (ts_dir ts) [ts_data_field ts] query_str of
             Inl x \<Rightarrow> Err (InvalidQuery (''Tantivy query parse error: '' @ x))
           | Inr q \<Rightarrow>
               if \<not> tl_limit lib limit then Panic
               else (case tl_search lib r q limit of
                       Inl x \<Rightarrow> Err (IndexError (''Tantivy search error: '' @ x))
                     | Inr hits \<Rightarrow> retrieve lib ts r hits)))"

subsection \<open>The engine with the feature\<close>

record ('n, 'd) search_engine =
  se_engine :: "'n engine"
  se_index :: "'d tantivy_index option"

definition search_engine_open ::
  "('n, 'd, 'w, 'r, 'q, 'a, 't, 's) tantivy_lib \<Rightarrow> 'n codec \<Rightarrow> bool \<Rightarrow> db_files \<Rightarrow> 'd index_entry
     \<Rightarrow> 'd index_entry \<times> ('n, 'd) search_engine outcome" where
  "search_engine_open lib c en files entry =
     (case engine_open c en files of
        Err x \<Rightarrow> (entry, Err x)
      | Panic \<Rightarrow> (entry, Panic)
      | Ok e \<Rightarrow>
          (let (entry', r) = tantivy_open lib entry in
           (entry', outcome_map (\<lambda>ts. \<lparr>se_engine = e, se_index = Some ts\<rparr>) r)))"

text \<open>The calls at the end of a change that went well; their errors are the result.\<close>

definition then_index ::
  "('d tantivy_index \<Rightarrow> 'd tantivy_index \<times> unit outcome) \<Rightarrow> 'd tantivy_index option \<Rightarrow> 'd tantivy_index option \<times> unit outcome" where
  "then_index f ix = (case ix of None \<Rightarrow> (None, Ok ()) | Some ts \<Rightarrow> (let (ts', r) = f ts in (Some ts', r)))"

definition search_engine_insert ::
  "('n, 'd, 'w, 'r, 'q, 'a, 't, 's) tantivy_lib \<Rightarrow> 'n codec \<Rightarrow> call_env \<Rightarrow> ('n, 'd) search_engine \<Rightarrow> 'n document
     \<Rightarrow> ('n, 'd) search_engine \<times> string outcome" where
  "search_engine_insert lib c env se doc =
     (let (e, r, sent) = engine_insert c env (se_engine se) doc in
      case r of
        Ok i \<Rightarrow>
          (let (ix, r') = then_index (\<lambda>ts. tantivy_index_document lib ts (stored_doc env doc)) (se_index se)
           in (\<lparr>se_engine = e, se_index = ix\<rparr>, outcome_map (\<lambda>_. i) r'))
      | _ \<Rightarrow> (se\<lparr>se_engine := e\<rparr>, r))"

definition reindex ::
  "('n, 'd, 'w, 'r, 'q, 'a, 't, 's) tantivy_lib \<Rightarrow> string \<Rightarrow> 'n document \<Rightarrow> 'd tantivy_index \<Rightarrow> 'd tantivy_index \<times> unit outcome" where
  "reindex lib i doc ts =
     (case tantivy_remove_document lib ts i of
        (ts', Ok _) \<Rightarrow> tantivy_index_document lib ts' doc
      | (ts', r) \<Rightarrow> (ts', r))"

definition search_engine_update ::
  "('n, 'd, 'w, 'r, 'q, 'a, 't, 's) tantivy_lib \<Rightarrow> 'n codec \<Rightarrow> call_env \<Rightarrow> ('n, 'd) search_engine \<Rightarrow> string \<Rightarrow> 'n json
     \<Rightarrow> ('n, 'd) search_engine \<times> unit outcome" where
  "search_engine_update lib c env se i data =
     (let (e, r, sent) = engine_update c env (se_engine se) i data in
      case (r, hm_get (eng_docs (se_engine se)) i) of
        (Ok _, Some old) \<Rightarrow>
          (let (ix, r') = then_index (reindex lib i (old\<lparr>doc_data := data\<rparr>)) (se_index se)
           in (\<lparr>se_engine = e, se_index = ix\<rparr>, r'))
      | _ \<Rightarrow> (se\<lparr>se_engine := e\<rparr>, r))"

definition search_engine_delete ::
  "('n, 'd, 'w, 'r, 'q, 'a, 't, 's) tantivy_lib \<Rightarrow> 'n codec \<Rightarrow> call_env \<Rightarrow> ('n, 'd) search_engine \<Rightarrow> string
     \<Rightarrow> ('n, 'd) search_engine \<times> unit outcome" where
  "search_engine_delete lib c env se i =
     (let (e, r, sent) = engine_delete c env (se_engine se) i in
      case r of
        Ok _ \<Rightarrow>
          (let (ix, r') = then_index (\<lambda>ts. tantivy_remove_document lib ts i) (se_index se)
           in (\<lparr>se_engine = e, se_index = ix\<rparr>, r'))
      | _ \<Rightarrow> (se\<lparr>se_engine := e\<rparr>, r))"

definition tantivy_search ::
  "('n, 'd, 'w, 'r, 'q, 'a, 't, 's) tantivy_lib \<Rightarrow> ('n, 'd) search_engine \<Rightarrow> string \<Rightarrow> nat
     \<Rightarrow> ('n, 's) search_result list outcome" where
  "tantivy_search lib se query limit =
     (case se_index se of
        Some ts \<Rightarrow> tantivy_query lib ts query limit
      | None \<Rightarrow> Err (IndexError ''Tantivy search not initialized''))"

subsection \<open>What the documentation of the library says\<close>

text \<open>
  \<open>stored d\<close> are the entries, identifier and text, committed to a directory, and \<open>pending w\<close> those
  a writer will commit. A term that is too long is not indexed, so deletion is stated for those
  that \<open>fits\<close>. Hits are stored entries, each given at most once, and not more than the limit.
\<close>

definition entry_doc :: "('n, 'd, 'w, 'r, 'q, 'a, 't, 's) tantivy_lib \<Rightarrow> string \<times> string \<Rightarrow> 't" where
  "entry_doc lib p = tl_add_text lib (tl_add_text lib (tl_new_doc lib) 0 (fst p)) 1 (snd p)"

definition tantivy_laws ::
  "('n, 'd, 'w, 'r, 'q, 'a, 't, 's) tantivy_lib \<Rightarrow> ('d \<Rightarrow> (string \<times> string) multiset) \<Rightarrow> ('w \<Rightarrow> (string \<times> string) multiset)
     \<Rightarrow> (string \<Rightarrow> bool) \<Rightarrow> bool" where
  "tantivy_laws lib stored pending fits \<longleftrightarrow>
     (\<forall>d d'. \<not> tl_entries lib d \<longrightarrow> tl_create lib d tantivy_schema = (d', None) \<longrightarrow> stored d' = {#}) \<and>
     (\<forall>d n w. tl_writer lib d n = Inr w \<longrightarrow> pending w = stored d) \<and>
     (\<forall>w p w'. tl_add lib w (entry_doc lib p) = (w', None) \<longrightarrow> pending w' = add_mset p (pending w)) \<and>
     (\<forall>w i. fits i \<longrightarrow> pending (tl_delete lib w 0 i) = filter_mset (\<lambda>p. fst p \<noteq> i) (pending w)) \<and>
     (\<forall>w w'. tl_commit lib w = (w', None) \<longrightarrow> stored (tl_left lib w') = pending w) \<and>
     (\<forall>d r q n hits. tl_reader lib d = Inr r \<longrightarrow> tl_search lib r q n = Inr hits \<longrightarrow>
        length hits \<le> n \<and>
        (\<exists>ps. mset ps \<subseteq># stored d \<and>
           list_all2 (\<lambda>(s, a) p. \<forall>t. tl_doc lib r a = Inr t \<longrightarrow>
              tl_first_str lib t 0 = Some (fst p) \<and> tl_first_str lib t 1 = Some (snd p)) hits ps)) \<and>
     (\<forall>d. \<not> tl_entries lib d \<longrightarrow> stored d = {#}) \<and>
     \<not> tl_entries lib (tl_fresh lib)"

lemma laws_D:
  assumes "tantivy_laws lib stored pending fits"
  shows "\<not> tl_entries lib d \<Longrightarrow> tl_create lib d tantivy_schema = (d', None) \<Longrightarrow> stored d' = {#}"
    and "tl_writer lib d n = Inr w \<Longrightarrow> pending w = stored d"
    and "tl_add lib w (entry_doc lib p) = (w', None) \<Longrightarrow> pending w' = add_mset p (pending w)"
    and "fits i \<Longrightarrow> pending (tl_delete lib w 0 i) = filter_mset (\<lambda>p. fst p \<noteq> i) (pending w)"
    and "tl_commit lib w = (w', None) \<Longrightarrow> stored (tl_left lib w') = pending w"
    and "tl_reader lib d = Inr r \<Longrightarrow> tl_search lib r q n = Inr hits \<Longrightarrow> length hits \<le> n \<and>
        (\<exists>ps. mset ps \<subseteq># stored d \<and>
           list_all2 (\<lambda>(s, a) p. \<forall>t. tl_doc lib r a = Inr t \<longrightarrow>
              tl_first_str lib t 0 = Some (fst p) \<and> tl_first_str lib t 1 = Some (snd p)) hits ps)"
    and "\<not> tl_entries lib d \<Longrightarrow> stored d = {#}"
    and "\<not> tl_entries lib (tl_fresh lib)"
  using assms unfolding tantivy_laws_def by blast+

subsection \<open>The index follows the documents\<close>

text \<open>The entries of one identifier, and what they should be.\<close>

definition entries_of :: "(string \<times> string) multiset \<Rightarrow> string \<Rightarrow> (string \<times> string) multiset" where
  "entries_of es i = filter_mset (\<lambda>p. fst p = i) es"

definition entry_for ::
  "('n, 'd, 'w, 'r, 'q, 'a, 't, 's) tantivy_lib \<Rightarrow> (string \<rightharpoonup> 'n document) \<Rightarrow> string \<Rightarrow> (string \<times> string) multiset" where
  "entry_for lib m i = (case m i of None \<Rightarrow> {#} | Some d \<Rightarrow> {#(i, entry_text lib d)#})"

definition readable :: "('n, 'd, 'w, 'r, 'q, 'a, 't, 's) tantivy_lib \<Rightarrow> 'n json \<Rightarrow> bool" where
  "readable lib v \<longleftrightarrow> (case tl_print lib v of None \<Rightarrow> False | Some s \<Rightarrow> tl_json lib s = Some v)"

definition follows ::
  "('n, 'd, 'w, 'r, 'q, 'a, 't, 's) tantivy_lib \<Rightarrow> ('d \<Rightarrow> (string \<times> string) multiset) \<Rightarrow> 'd tantivy_index \<Rightarrow> (string \<rightharpoonup> 'n document) \<Rightarrow> bool" where
  "follows lib stored ts m \<longleftrightarrow> ts = tantivy_at (ts_dir ts) \<and> entries_of (stored (ts_dir ts)) = entry_for lib m"

lemma tantivy_at_fields [simp]:
  "ts_dir (tantivy_at d) = d" "ts_doc_id_field (tantivy_at d) = 0" "ts_data_field (tantivy_at d) = 1"
  "(tantivy_at d)\<lparr>ts_dir := d'\<rparr> = tantivy_at d'"
  by (simp_all add: tantivy_at_def)

lemma entries_of_simps [simp]:
  "entries_of {#} i = {#}"
  "entries_of (add_mset p es) i = (if fst p = i then add_mset p (entries_of es i) else entries_of es i)"
  "entries_of (filter_mset (\<lambda>p. fst p \<noteq> j) es) i = (if i = j then {#} else entries_of es i)"
  by (auto simp: entries_of_def filter_filter_mset intro!: filter_mset_cong0)

lemma commit_drop_Ok:
  assumes "tantivy_laws lib stored pending fits" "commit_drop lib (tantivy_at d) w = (ts', Ok ())"
  shows "\<exists>d'. ts' = tantivy_at d' \<and> stored d' = pending w"
  using assms(2) laws_D(5) [OF assms(1), of w]
  by (auto simp: commit_drop_def split: prod.splits option.splits)

lemma index_document_Ok:
  assumes laws: "tantivy_laws lib stored pending fits" and "tantivy_index_document lib (tantivy_at d) doc = (ts', Ok ())"
  shows "\<exists>d'. ts' = tantivy_at d' \<and> stored d' = add_mset (doc_id doc, entry_text lib doc) (stored d)"
proof -
  have doc: "tantivy_doc lib (tantivy_at d) doc = entry_doc lib (doc_id doc, entry_text lib doc)"
    by (simp add: tantivy_doc_def entry_doc_def)
  from assms(2) obtain w w' where w: "tl_writer lib d writer_memory = Inr w"
    "tl_add lib w (entry_doc lib (doc_id doc, entry_text lib doc)) = (w', None)"
    "commit_drop lib (tantivy_at d) w' = (ts', Ok ())"
    by (auto simp: tantivy_index_document_def doc split: sum.splits prod.splits option.splits)
  with commit_drop_Ok [OF laws w(3)] laws_D(2) [OF laws w(1)] laws_D(3) [OF laws w(2)] show ?thesis by auto
qed

lemma remove_document_Ok:
  assumes laws: "tantivy_laws lib stored pending fits" and "tantivy_remove_document lib (tantivy_at d) i = (ts', Ok ())" "fits i"
  shows "\<exists>d'. ts' = tantivy_at d' \<and> stored d' = filter_mset (\<lambda>p. fst p \<noteq> i) (stored d)"
proof -
  from assms(2) obtain w where w: "tl_writer lib d writer_memory = Inr w"
    "commit_drop lib (tantivy_at d) (tl_delete lib w 0 i) = (ts', Ok ())"
    by (auto simp: tantivy_remove_document_def split: sum.splits)
  with commit_drop_Ok [OF laws w(2)] laws_D(2) [OF laws w(1)] laws_D(4) [OF laws assms(3)] show ?thesis by auto
qed

lemma followsE:
  assumes "follows lib stored ts m"
  obtains d where "ts = tantivy_at d" "entries_of (stored d) = entry_for lib m"
  using assms by (auto simp: follows_def)

lemma follows_insert:
  assumes "tantivy_laws lib stored pending fits" "follows lib stored ts m" "m (doc_id doc) = None"
    and "tantivy_index_document lib ts doc = (ts', Ok ())"
  shows "follows lib stored ts' (m(doc_id doc \<mapsto> doc))"
proof -
  obtain d where d: "ts = tantivy_at d" "entries_of (stored d) = entry_for lib m" using assms(2) by (rule followsE)
  from index_document_Ok [OF assms(1), of d doc ts'] assms(4) d obtain d' where
    "ts' = tantivy_at d'" "stored d' = add_mset (doc_id doc, entry_text lib doc) (stored d)" by auto
  with d assms(3) show ?thesis by (auto simp: follows_def fun_eq_iff entry_for_def)
qed

lemma follows_delete:
  assumes "tantivy_laws lib stored pending fits" "follows lib stored ts m" "fits i"
    and "tantivy_remove_document lib ts i = (ts', Ok ())"
  shows "follows lib stored ts' (m(i := None))"
proof -
  obtain d where d: "ts = tantivy_at d" "entries_of (stored d) = entry_for lib m" using assms(2) by (rule followsE)
  from remove_document_Ok [OF assms(1), of d i ts'] assms(3,4) d obtain d' where
    "ts' = tantivy_at d'" "stored d' = filter_mset (\<lambda>p. fst p \<noteq> i) (stored d)" by auto
  with d show ?thesis by (auto simp: follows_def fun_eq_iff entry_for_def)
qed

lemma follows_update:
  assumes "tantivy_laws lib stored pending fits" "follows lib stored ts m" "fits i" "doc_id doc = i"
    and "reindex lib i doc ts = (ts', Ok ())"
  shows "follows lib stored ts' (m(i \<mapsto> doc))"
proof -
  from assms(5) obtain ts1 where ts1: "tantivy_remove_document lib ts i = (ts1, Ok ())" "tantivy_index_document lib ts1 doc = (ts', Ok ())"
    by (auto simp: reindex_def split: prod.splits outcome.splits)
  from follows_delete [OF assms(1-3) ts1(1)] have "follows lib stored ts1 (m(i := None))" .
  from follows_insert [OF assms(1) this _ ts1(2)] assms(4) show ?thesis by simp
qed

text \<open>What a search gives for an index that follows the documents.\<close>

lemma retrieve_Ok:
  assumes "retrieve lib (tantivy_at d) r hits = Ok rs"
    and "list_all2 (\<lambda>(s, a) p. \<forall>t. tl_doc lib r a = Inr t \<longrightarrow>
          tl_first_str lib t 0 = Some (fst p) \<and> tl_first_str lib t 1 = Some (snd p)) hits ps"
  shows "list_all2 (\<lambda>res p. res_doc_id res = fst p \<and>
      res_data res = (case tl_json lib (snd p) of None \<Rightarrow> JNull | Some v \<Rightarrow> v)) rs ps"
  using assms
proof (induction hits arbitrary: rs ps)
  case Nil
  then show ?case by simp
next
  case (Cons h hits)
  then show ?case
    by (cases h) (auto simp: list_all2_Cons1 found_def split: sum.splits)
qed

lemma distinct_map_single:
  assumes "\<And>i. length (filter (\<lambda>p. fst p = i) ps) \<le> 1"
  shows "distinct (map fst ps)"
  using assms
proof (induction ps)
  case Nil
  then show ?case by simp
next
  case (Cons p ps)
  have "length (filter (\<lambda>q. fst q = i) ps) \<le> 1" for i using Cons.prems [of i] by (auto split: if_splits)
  moreover have "filter (\<lambda>q. fst q = fst p) ps = []" using Cons.prems [of "fst p"] by simp
  then have "fst p \<notin> fst ` set ps" by (auto simp: filter_empty_conv)
  ultimately show ?case using Cons.IH by simp
qed

lemma follows_entries:
  assumes "follows lib stored ts m" "mset ps \<subseteq># stored (ts_dir ts)"
  shows "distinct (map fst ps)" "p \<in> set ps \<Longrightarrow> \<exists>doc. m (fst p) = Some doc \<and> snd p = entry_text lib doc"
proof -
  obtain d where d: "ts = tantivy_at d" "entries_of (stored d) = entry_for lib m" using assms(1) by (rule followsE)
  have sub: "mset (filter (\<lambda>p. fst p = i) ps) \<subseteq># entry_for lib m i" for i
  proof -
    have "entry_for lib m i = filter_mset (\<lambda>p. fst p = i) (stored d)" unfolding d(2) [symmetric] by (simp add: entries_of_def)
    with multiset_filter_mono [OF assms(2), of "\<lambda>p. fst p = i"] d(1) show ?thesis by simp
  qed
  show "distinct (map fst ps)"
  proof (rule distinct_map_single)
    fix i
    have "length (filter (\<lambda>p. fst p = i) ps) = size (mset (filter (\<lambda>p. fst p = i) ps))" by (simp only: size_mset)
    also have "\<dots> \<le> size (entry_for lib m i)" by (rule size_mset_mono [OF sub])
    also have "\<dots> \<le> 1" by (simp add: entry_for_def split: option.split)
    finally show "length (filter (\<lambda>p. fst p = i) ps) \<le> 1" .
  qed
  show "\<exists>doc. m (fst p) = Some doc \<and> snd p = entry_text lib doc" if "p \<in> set ps"
  proof -
    have "p \<in># mset (filter (\<lambda>q. fst q = fst p) ps)" using that by simp
    from mset_subset_eqD [OF sub [of "fst p"] this] show ?thesis
      by (auto simp: entry_for_def prod_eq_iff split: option.splits)
  qed
qed

lemma query_Ok:
  assumes laws: "tantivy_laws lib stored pending fits" and "follows lib stored ts m"
    and "\<And>i doc. m i = Some doc \<Longrightarrow> readable lib (doc_data doc)"
    and "tantivy_query lib ts query limit = Ok rs"
  shows "distinct (map res_doc_id rs) \<and> length rs \<le> limit \<and>
    (\<forall>res\<in>set rs. \<exists>doc. m (res_doc_id res) = Some doc \<and> res_data res = doc_data doc)"
proof -
  obtain d where d: "ts = tantivy_at d" using assms(2) by (rule followsE)
  from assms(4) obtain r q hits where run: "tl_reader lib d = Inr r" "tl_search lib r q limit = Inr hits"
    "retrieve lib ts r hits = Ok rs"
    by (auto simp: tantivy_query_def d split: sum.splits if_splits)
  from laws_D(6) [OF laws run(1,2)] obtain ps where ps: "length hits \<le> limit" "mset ps \<subseteq># stored d"
    "list_all2 (\<lambda>(s, a) p. \<forall>t. tl_doc lib r a = Inr t \<longrightarrow>
        tl_first_str lib t 0 = Some (fst p) \<and> tl_first_str lib t 1 = Some (snd p)) hits ps" by auto
  have res: "list_all2 (\<lambda>res p. res_doc_id res = fst p \<and>
      res_data res = (case tl_json lib (snd p) of None \<Rightarrow> JNull | Some v \<Rightarrow> v)) rs ps"
    using run(3) ps(3) unfolding d by (rule retrieve_Ok)
  have ids: "map res_doc_id rs = map fst ps" using res by (induction rule: list_all2_induct) auto
  have "length rs \<le> limit" using list_all2_lengthD [OF res] list_all2_lengthD [OF ps(3)] ps(1) by simp
  moreover have "\<exists>doc. m (res_doc_id x) = Some doc \<and> res_data x = doc_data doc" if x: "x \<in> set rs" for x
  proof -
    obtain k where k: "k < length rs" "x = rs ! k" using x by (auto simp: in_set_conv_nth)
    with res have p: "ps ! k \<in> set ps" "res_doc_id x = fst (ps ! k)"
      "res_data x = (case tl_json lib (snd (ps ! k)) of None \<Rightarrow> JNull | Some v \<Rightarrow> v)"
      by (auto simp: list_all2_conv_all_nth)
    with follows_entries(2) [OF assms(2), of ps "ps ! k"] ps(2) d obtain doc where
      doc: "m (fst (ps ! k)) = Some doc" "snd (ps ! k) = entry_text lib doc" by auto
    with assms(3) [OF doc(1)] p show ?thesis by (auto simp: readable_def entry_text_def split: option.splits)
  qed
  ultimately show ?thesis using ids follows_entries(1) [OF assms(2), of ps] ps(2) d by simp
qed

subsection \<open>Histories\<close>

definition search_step ::
  "('n, 'd, 'w, 'r, 'q, 'a, 't, 's) tantivy_lib \<Rightarrow> 'n codec \<Rightarrow> call_env \<Rightarrow> ('n, 'd) search_engine \<Rightarrow> 'n change_op
     \<Rightarrow> ('n, 'd) search_engine \<times> unit outcome" where
  "search_step lib c env se op =
     (case op of
        CInsert doc \<Rightarrow> (let (se', r) = search_engine_insert lib c env se doc in (se', outcome_map (\<lambda>_. ()) r))
      | CUpdate i data \<Rightarrow> search_engine_update lib c env se i data
      | CDelete i \<Rightarrow> search_engine_delete lib c env se i)"

definition search_apply where
  "search_apply lib c env se op = fst (search_step lib c env se op)"

text \<open>
  A change the engine can make, of a document that JSON can read back, and in which the second
  index does not fail.
\<close>

definition no_index_error :: "'a outcome \<Rightarrow> bool" where
  "no_index_error r = (case r of Err (IndexError _) \<Rightarrow> False | _ \<Rightarrow> True)"

fun op_readable :: "('n, 'd, 'w, 'r, 'q, 'a, 't, 's) tantivy_lib \<Rightarrow> (string \<Rightarrow> bool) \<Rightarrow> 'n change_op \<Rightarrow> bool" where
  "op_readable lib fits (CInsert doc) = readable lib (doc_data doc)"
| "op_readable lib fits (CUpdate i data) = (fits i \<and> readable lib data)"
| "op_readable lib fits (CDelete i) = fits i"

definition search_ok ::
  "('n, 'd, 'w, 'r, 'q, 'a, 't, 's) tantivy_lib \<Rightarrow> 'n codec \<Rightarrow> (string \<Rightarrow> bool) \<Rightarrow> call_env \<Rightarrow> ('n, 'd) search_engine
     \<Rightarrow> 'n change_op \<Rightarrow> bool" where
  "search_ok lib c fits env se op \<longleftrightarrow> op_ok c env (se_engine se) op \<and> op_readable lib fits op \<and>
     no_index_error (snd (search_step lib c env se op))"

definition search_abs :: "('n, 'd) search_engine \<Rightarrow> string \<rightharpoonup> 'n document" where
  "search_abs se = eng_abs (se_engine se)"

definition search_inv ::
  "('n, 'd, 'w, 'r, 'q, 'a, 't, 's) tantivy_lib \<Rightarrow> 'n codec \<Rightarrow> bool \<Rightarrow> ('d \<Rightarrow> (string \<times> string) multiset)
     \<Rightarrow> ('n, 'd) search_engine \<Rightarrow> bool" where
  "search_inv lib c en stored se \<longleftrightarrow> db_run c en (se_engine se) \<and>
     (\<forall>i doc. search_abs se i = Some doc \<longrightarrow> readable lib (doc_data doc)) \<and>
     (\<exists>ts. se_index se = Some ts \<and> follows lib stored ts (search_abs se))"

text \<open>The index gives \<open>Ok\<close> or an index error, never anything else.\<close>

definition index_result :: "'a \<times> unit outcome \<Rightarrow> bool" where
  "index_result r \<longleftrightarrow> snd r = Ok () \<or> \<not> no_index_error (snd r)"

lemma index_error_simps [simp]: "\<not> no_index_error (Err (IndexError x))" "no_index_error (Ok y)"
  by (simp_all add: no_index_error_def)

lemma index_error_map [simp]: "no_index_error (outcome_map f r) = no_index_error r"
  by (cases r) (simp_all add: no_index_error_def)

lemma index_resultD: "index_result f \<Longrightarrow> f = (ts, r) \<Longrightarrow> no_index_error r \<Longrightarrow> r = Ok ()"
  by (simp add: index_result_def)

lemma commit_drop_result: "index_result (commit_drop lib ts w)"
  by (simp add: index_result_def commit_drop_def split: prod.split option.split)

lemma index_document_result: "index_result (tantivy_index_document lib ts doc)"
  using commit_drop_result [of lib ts]
  by (simp add: index_result_def tantivy_index_document_def split: prod.split option.split sum.split)

lemma remove_document_result: "index_result (tantivy_remove_document lib ts i)"
  using commit_drop_result [of lib ts]
  by (simp add: index_result_def tantivy_remove_document_def split: prod.split option.split sum.split)

lemma reindex_result: "index_result (reindex lib i doc ts)"
  using remove_document_result [of lib ts i] index_document_result [of lib _ doc]
  by (auto simp: reindex_def index_result_def split: prod.split outcome.split)

lemma search_step_ok:
  assumes laws: "tantivy_laws lib stored pending fits" and inv: "search_inv lib c en stored se"
    and ok: "search_ok lib c fits env se op"
  shows "search_inv lib c en stored (search_apply lib c env se op) \<and>
    search_abs (search_apply lib c env se op) = abs_op env (search_abs se) op"
proof -
  let ?e = "se_engine se"
  have run: "db_run c en ?e" using inv by (simp add: search_inv_def)
  obtain ts where ts: "se_index se = Some ts" "follows lib stored ts (eng_abs ?e)"
    using inv by (auto simp: search_inv_def search_abs_def)
  have op: "op_ok c env ?e op" and rd: "op_readable lib fits op" and res: "no_index_error (snd (search_step lib c env se op))"
    using ok by (simp_all add: search_ok_def)
  note after = change_answers(1,2) [OF op run]
  have readable: "readable lib (doc_data doc)" if "abs_op env (eng_abs ?e) op i = Some doc" for i doc
    using that rd inv by (cases op) (auto simp: search_inv_def search_abs_def stored_doc_def split: if_splits option.splits)
  have "se_engine (search_apply lib c env se op) = apply_op c env ?e op \<and>
      (\<exists>ts'. se_index (search_apply lib c env se op) = Some ts' \<and> follows lib stored ts' (abs_op env (eng_abs ?e) op))"
  proof (cases op)
    case (CInsert doc)
    let ?doc = "stored_doc env doc"
    let ?op = "CInsert doc"
    obtain sent where ins: "engine_insert c env ?e doc = (apply_op c env ?e ?op, Ok (doc_id ?doc), sent)"
      using change_results(1) [OF run, of env doc] op CInsert by auto
    obtain ts' r where ix: "tantivy_index_document lib ts ?doc = (ts', r)" by fastforce
    have step: "search_step lib c env se ?op = (\<lparr>se_engine = apply_op c env ?e ?op, se_index = Some ts'\<rparr>, outcome_map (\<lambda>_. ()) r)"
      by (cases r) (simp_all add: search_step_def search_engine_insert_def ins then_index_def ts(1) ix del: apply_op.simps)
    have "r = Ok ()" using index_resultD [OF index_document_result ix] res by (simp add: CInsert step)
    moreover have "eng_abs ?e (doc_id ?doc) = None" using op CInsert by (simp add: eng_abs_def Let_def)
    ultimately show ?thesis using follows_insert [OF laws ts(2), of ?doc ts'] ix
      by (simp add: search_apply_def CInsert step del: apply_op.simps)
  next
    case (CUpdate i data)
    let ?op = "CUpdate i data"
    obtain sent where upd: "engine_update c env ?e i data =
        (apply_op c env ?e ?op, if eng_abs ?e i = None then Err (NotFound i) else Ok (), sent)"
      using change_results(2) [OF run, of env i data] op CUpdate by auto
    show ?thesis
    proof (cases "eng_abs ?e i")
      case None
      then show ?thesis using upd ts
        by (simp add: search_apply_def search_step_def CUpdate search_engine_update_def del: apply_op.simps)
    next
      case (Some old)
      let ?doc = "old\<lparr>doc_data := data\<rparr>"
      obtain ts' r where ix: "reindex lib i ?doc ts = (ts', r)" by fastforce
      have step: "search_step lib c env se ?op = (\<lparr>se_engine = apply_op c env ?e ?op, se_index = Some ts'\<rparr>, r)"
        using Some by (simp add: search_step_def search_engine_update_def upd then_index_def ts(1) ix eng_abs_def del: apply_op.simps)
      have "r = Ok ()" using index_resultD [OF reindex_result ix] res by (simp add: CUpdate step)
      moreover have "doc_id old = i" using db_run_ok [OF run] Some by (simp add: engine_ok_def docs_ok_def eng_abs_def)
      ultimately show ?thesis using follows_update [OF laws ts(2), of i ?doc ts'] ix rd Some
        by (simp add: search_apply_def CUpdate step del: apply_op.simps)
    qed
  next
    case (CDelete i)
    let ?op = "CDelete i"
    obtain sent where del: "engine_delete c env ?e i =
        (apply_op c env ?e ?op, if eng_abs ?e i = None then Err (NotFound i) else Ok (), sent)"
      using change_results(3) [OF run, of env i] op CDelete by auto
    show ?thesis
    proof (cases "eng_abs ?e i")
      case None
      then show ?thesis using del ts
        by (simp add: search_apply_def search_step_def CDelete search_engine_delete_def fun_upd_idem del: apply_op.simps)
    next
      case (Some old)
      obtain ts' r where ix: "tantivy_remove_document lib ts i = (ts', r)" by fastforce
      have step: "search_step lib c env se ?op = (\<lparr>se_engine = apply_op c env ?e ?op, se_index = Some ts'\<rparr>, r)"
        using Some by (simp add: search_step_def search_engine_delete_def del then_index_def ts(1) ix del: apply_op.simps)
      have "r = Ok ()" using index_resultD [OF remove_document_result ix] res by (simp add: CDelete step)
      then show ?thesis using follows_delete [OF laws ts(2), of i ts'] ix rd
        by (simp add: search_apply_def CDelete step del: apply_op.simps)
    qed
  qed
  with after readable show ?thesis by (auto simp: search_inv_def search_abs_def)
qed

text \<open>
  The engines that can arise: opened on nothing, changed without index errors, and opened again
  on what the files and the directory then hold.
\<close>

inductive search_run ::
  "('n, 'd, 'w, 'r, 'q, 'a, 't, 's) tantivy_lib \<Rightarrow> 'n codec \<Rightarrow> bool \<Rightarrow> (string \<Rightarrow> bool) \<Rightarrow> ('n, 'd) search_engine \<Rightarrow> bool"
  for lib c en fits where
  search_fresh: "search_engine_open lib c en no_files Absent = (entry, Ok se) \<Longrightarrow> search_run lib c en fits se"
| search_change: "search_run lib c en fits se \<Longrightarrow> search_ok lib c fits env se op \<Longrightarrow>
    search_run lib c en fits (search_apply lib c env se op)"
| search_reopen: "search_run lib c en fits se \<Longrightarrow> se_index se = Some ts \<Longrightarrow>
    search_engine_open lib c en (engine_files [] (se_engine se)) (Directory (ts_dir ts)) = (entry, Ok se') \<Longrightarrow>
    search_run lib c en fits se'"

lemma search_engine_open_Ok:
  "search_engine_open lib c en files entry = (entry', Ok se) \<longleftrightarrow>
    (\<exists>e ts. engine_open c en files = Ok e \<and> tantivy_open lib entry = (entry', Ok ts) \<and> se = \<lparr>se_engine = e, se_index = Some ts\<rparr>)"
  by (cases "tantivy_open lib entry"; cases "snd (tantivy_open lib entry)")
    (auto simp: search_engine_open_def split: outcome.splits)

lemma create_new_Ok:
  assumes "tantivy_laws lib stored pending fits" "create_new lib d = (entry, Ok ts)" "\<not> tl_entries lib d"
  shows "\<exists>d'. ts = tantivy_at d' \<and> stored d' = {#}"
  using assms(2) laws_D(1) [OF assms(1,3)] by (auto simp: create_new_def split: option.splits prod.splits)

lemma tantivy_open_Ok:
  assumes "tantivy_laws lib stored pending fits" "tantivy_open lib (Directory d) = (entry, Ok ts)"
  shows "\<exists>d'. ts = tantivy_at d' \<and> stored d' = stored d"
proof (cases "tl_entries lib d")
  case True
  with assms(2) show ?thesis by (auto simp: tantivy_open_def open_existing_def split: option.splits)
next
  case False
  with create_new_Ok [OF assms(1), of d entry ts] laws_D(7) [OF assms(1) False] assms(2) show ?thesis
    by (auto simp: tantivy_open_def)
qed

lemma search_run_inv:
  assumes "search_run lib c en fits se" "tantivy_laws lib stored pending fits"
  shows "search_inv lib c en stored se"
  using assms
proof (induction rule: search_run.induct)
  case (search_fresh entry se)
  then obtain e ts where e: "engine_open c en no_files = Ok e" and ts: "create_new lib (tl_fresh lib) = (entry, Ok ts)"
    and se: "se = \<lparr>se_engine = e, se_index = Some ts\<rparr>" by (auto simp: search_engine_open_Ok tantivy_open_def)
  from create_new_Ok [OF search_fresh.prems ts laws_D(8) [OF search_fresh.prems]]
  have "follows lib stored ts Map.empty" by (auto simp: follows_def entry_for_def fun_eq_iff)
  moreover have "eng_abs e = Map.empty" using fresh_ok [OF e] by (simp add: eng_abs_def fun_eq_iff)
  ultimately show ?case using e by (simp add: search_inv_def se search_abs_def db_fresh)
next
  case (search_change se env op)
  then show ?case using search_step_ok by blast
next
  case (search_reopen se ts entry se')
  then have inv: "search_inv lib c en stored se" by simp
  then have run: "db_run c en (se_engine se)" by (simp add: search_inv_def)
  let ?e = "without_subscribers (se_engine se)"
  have open_eq: "engine_open c en (engine_files [] (se_engine se)) = Ok ?e" by (rule reopen_ok [OF db_run_ok [OF run]])
  with search_reopen obtain ts' where ts': "tantivy_open lib (Directory (ts_dir ts)) = (entry, Ok ts')"
    and se': "se' = \<lparr>se_engine = ?e, se_index = Some ts'\<rparr>" by (auto simp: search_engine_open_Ok)
  have "search_abs se' = search_abs se" by (simp add: search_abs_def se' eng_abs_without_subscribers)
  moreover have "follows lib stored ts' (search_abs se)"
    using tantivy_open_Ok [OF search_reopen.prems ts'] inv search_reopen.hyps(2) by (auto simp: search_inv_def follows_def)
  ultimately show ?case using inv db_reopen [OF run open_eq] by (simp add: search_inv_def se')
qed

interpretation sstore: doc_store "\<lambda>se. search_run lib c en fits se \<and> tantivy_laws lib stored pending fits"
    "search_ok lib c fits" "search_apply lib c" search_abs abs_op
  for lib :: "('n, 'd, 'w, 'r, 'q, 'a, 't, 's) tantivy_lib" and c en fits stored pending
  using search_step_ok search_run_inv by unfold_locales (blast intro: search_change)+

text \<open>
  C32: Search is exact about what it gives. Take a history of inserts of ids not in use, updates and
  deletions on an engine with an index that came from a fresh directory by such changes and by
  opens. The changes code and fit, their documents are printed and read back as JSON, the ids of
  updates and deletes fit a term of the index, and the index reports no error. Then every result of
  a search is a document that the same changes to a map leave, with its data; no document is given
  twice, and there are at most \<open>limit\<close> results. Stated under what the documentation of Tantivy
  says. An insert over an id in use is excluded: it leaves the entry of the old document
  (\<open>insert_existing_keeps_old_entry\<close>).
\<close>

theorem tantivy_finds_current_documents:
  assumes "tantivy_laws lib stored pending fits" "search_run lib c en fits se"
    and "ok_history (search_ok lib c fits) (search_apply lib c) se ops"
    and "tantivy_search lib (history_state (search_apply lib c) se ops) query limit = Ok rs"
  shows "distinct (map res_doc_id rs) \<and> length rs \<le> limit \<and>
    (\<forall>res\<in>set rs. \<exists>doc. history_state abs_op (search_abs se) ops (res_doc_id res) = Some doc \<and>
       res_data res = doc_data doc)"
proof -
  let ?se = "history_state (search_apply lib c) se ops"
  have run: "search_run lib c en fits se \<and> tantivy_laws lib stored pending fits" using assms(1,2) by simp
  from sstore.history_arises [OF run assms(3)] have inv: "search_inv lib c en stored ?se" by (blast intro: search_run_inv)
  then obtain ts where ts: "se_index ?se = Some ts" "follows lib stored ts (search_abs ?se)" by (auto simp: search_inv_def)
  have "tantivy_query lib ts query limit = Ok rs" using assms(4) ts(1) by (simp add: tantivy_search_def)
  from query_Ok [OF assms(1) ts(2) _ this] inv sstore.history_refines [OF run assms(3)] show ?thesis
    by (simp add: search_inv_def)
qed

subsection \<open>When the index fails\<close>

lemma search_step_engine: "se_engine (fst (search_step lib c env se op)) = apply_op c env (se_engine se) op"
  by (cases op) (auto simp: search_step_def search_engine_insert_def search_engine_update_def search_engine_delete_def
      split: prod.split outcome.split option.split)

text \<open>
  An error of the index comes too late: the change it reports as failed has been made, is in the
  log, and is there after a restart.
\<close>

theorem index_error_keeps_change:
  assumes "db_run c en (se_engine se)" "op_ok c env (se_engine se) op"
    and "search_step lib c env se op = (se', Err (IndexError x))"
  shows "search_abs se' = abs_op env (search_abs se) op \<and>
    (\<exists>e. engine_open c en (engine_files [] (se_engine se')) = Ok e \<and> eng_abs e = abs_op env (search_abs se) op)"
proof -
  have e: "se_engine se' = apply_op c env (se_engine se) op" using search_step_engine [of lib c env se op] assms(3) by simp
  note after = change_answers(1,2) [OF assms(2,1)]
  have "engine_open c en (engine_files [] (se_engine se')) = Ok (without_subscribers (se_engine se'))"
    using reopen_ok [OF db_run_ok [OF after(1)]] by (simp add: e)
  with after(2) show ?thesis by (simp add: search_abs_def e eng_abs_without_subscribers)
qed

text \<open>
  Opening does not repair the index: a document without an entry is found by no search, however
  often the engine is opened.
\<close>

theorem open_does_not_index:
  assumes "tantivy_laws lib stored pending fits" "entries_of (stored d) i = {#}"
    and "search_engine_open lib c en files (Directory d) = (entry, Ok se)"
    and "tantivy_search lib se query limit = Ok rs"
  shows "i \<notin> res_doc_id ` set rs"
proof -
  from assms(3) obtain ts where "tantivy_open lib (Directory d) = (entry, Ok ts)" and se: "se_index se = Some ts"
    by (auto simp: search_engine_open_Ok)
  from tantivy_open_Ok [OF assms(1) this(1)] obtain d' where d': "ts = tantivy_at d'" "stored d' = stored d" by auto
  from assms(4) obtain r q hits where run: "tl_reader lib d' = Inr r" "tl_search lib r q limit = Inr hits"
    "retrieve lib (tantivy_at d') r hits = Ok rs"
    by (auto simp: tantivy_search_def se tantivy_query_def d' split: sum.splits if_splits)
  from laws_D(6) [OF assms(1) run(1,2)] obtain ps where ps: "mset ps \<subseteq># stored d'"
    "list_all2 (\<lambda>(s, a) p. \<forall>t. tl_doc lib r a = Inr t \<longrightarrow>
        tl_first_str lib t 0 = Some (fst p) \<and> tl_first_str lib t 1 = Some (snd p)) hits ps" by auto
  from retrieve_Ok [OF run(3) ps(2)] have "map res_doc_id rs = map fst ps"
    by (induction rule: list_all2_induct) auto
  then have "res_doc_id ` set rs = fst ` set ps" by (metis set_map)
  moreover have "i \<notin> fst ` set ps"
  proof
    assume "i \<in> fst ` set ps"
    then obtain p where "p \<in> set ps" "fst p = i" by auto
    then have "p \<in># entries_of (stored d) i"
      using mset_subset_eqD [OF ps(1), of p] by (simp add: entries_of_def d')
    with assms(2) show False by simp
  qed
  ultimately show ?thesis by simp
qed

text \<open>An insert over an existing identifier leaves the entry of the old document in the index.\<close>

theorem insert_existing_keeps_old_entry:
  assumes "tantivy_laws lib stored pending fits" "follows lib stored ts m" "m (doc_id doc) = Some old"
    and "tantivy_index_document lib ts doc = (ts', Ok ())"
  shows "entries_of (stored (ts_dir ts')) (doc_id doc) = {#(doc_id doc, entry_text lib doc), (doc_id doc, entry_text lib old)#}"
proof -
  obtain d where d: "ts = tantivy_at d" "entries_of (stored d) = entry_for lib m" using assms(2) by (rule followsE)
  from index_document_Ok [OF assms(1), of d doc ts'] assms(4) d obtain d' where
    "ts' = tantivy_at d'" "stored d' = add_mset (doc_id doc, entry_text lib doc) (stored d)" by auto
  with d assms(3) show ?thesis by (simp add: entry_for_def)
qed

subsection \<open>Witness\<close>

type_synonym toy_dir = "(string \<times> string) list option"

definition toy_tantivy ::
  "(unit, toy_dir, (string \<times> string) list, (string \<times> string) list, string, string \<times> string, (nat \<times> string) list, unit) tantivy_lib" where
  "toy_tantivy =
     \<lparr>tl_fresh = None, tl_entries = (\<lambda>d. d \<noteq> None), tl_mmap = (\<lambda>d. None), tl_open = (\<lambda>d. None),
      tl_create = (\<lambda>d s. (Some [], None)), tl_writer = (\<lambda>d n. Inr (case d of None \<Rightarrow> [] | Some ps \<Rightarrow> ps)),
      tl_new_doc = [], tl_add_text = (\<lambda>t f s. t @ [(f, s)]),
      tl_add = (\<lambda>w t. ((snd (t ! 0), snd (t ! 1)) # w, None)),
      tl_delete = (\<lambda>w f i. filter (\<lambda>p. fst p \<noteq> i) w), tl_commit = (\<lambda>w. (w, None)), tl_left = Some,
      tl_reader = (\<lambda>d. Inr (case d of None \<Rightarrow> [] | Some ps \<Rightarrow> ps)), tl_parse = (\<lambda>d fs s. Inr s), tl_limit = (\<lambda>n. n \<noteq> 0),
      tl_search = (\<lambda>r q n. Inr (map (Pair ()) (take n (filter (\<lambda>p. snd p = q) r)))),
      tl_doc = (\<lambda>r a. Inr [(0, fst a), (1, snd a)]), tl_first_str = map_of,
      tl_print = (\<lambda>v. case v of JStr s \<Rightarrow> Some s | _ \<Rightarrow> None), tl_json = (\<lambda>s. Some (JStr s))\<rparr>"

definition toy_stored :: "toy_dir \<Rightarrow> (string \<times> string) multiset" where
  "toy_stored d = (case d of None \<Rightarrow> {#} | Some ps \<Rightarrow> mset ps)"

lemma toy_laws: "tantivy_laws toy_tantivy toy_stored mset (\<lambda>_. True)"
proof -
  have hits: "\<exists>ps. mset ps \<subseteq># mset r \<and> list_all2 (\<lambda>(s, a) p. a = p) (map (Pair ()) (take n (filter f r))) ps"
    for n f and r :: "(string \<times> string) list"
  proof (intro exI conjI)
    have "mset (take n (filter f r)) \<subseteq># mset (filter f r)"
      by (metis append_take_drop_id mset_append mset_subset_eq_add_left)
    also have "\<dots> \<subseteq># mset r" by (simp add: multiset_filter_subset)
    finally show "mset (take n (filter f r)) \<subseteq># mset r" .
  qed (simp add: list_all2_conv_all_nth)
  have single: "list_all2 (\<lambda>(s, a) p. \<forall>t. tl_doc toy_tantivy r a = Inr t \<longrightarrow>
      tl_first_str toy_tantivy t 0 = Some (fst p) \<and> tl_first_str toy_tantivy t 1 = Some (snd p)) hs ps"
    if "list_all2 (\<lambda>(s, a) p. a = p) hs ps" for r and hs :: "(unit \<times> string \<times> string) list" and ps
    using that by (rule list_all2_mono) (auto simp: toy_tantivy_def)
  have search: "tl_reader toy_tantivy d = Inr r \<Longrightarrow> tl_search toy_tantivy r q n = Inr hs \<Longrightarrow> length hs \<le> n \<and>
      (\<exists>ps. mset ps \<subseteq># toy_stored d \<and> list_all2 (\<lambda>(s, a) p. \<forall>t. tl_doc toy_tantivy r a = Inr t \<longrightarrow>
        tl_first_str toy_tantivy t 0 = Some (fst p) \<and> tl_first_str toy_tantivy t 1 = Some (snd p)) hs ps)" for d r q n hs
  proof -
    assume *: "tl_reader toy_tantivy d = Inr r" "tl_search toy_tantivy r q n = Inr hs"
    then have d: "toy_stored d = mset r" and hs: "hs = map (Pair ()) (take n (filter (\<lambda>p. snd p = q) r))"
      by (auto simp: toy_tantivy_def toy_stored_def split: option.splits)
    from hits [of r n "\<lambda>p. snd p = q"] obtain ps where
      "mset ps \<subseteq># mset r" "list_all2 (\<lambda>(s, a) p. a = p) hs ps" unfolding hs by blast
    with single [OF this(2), of r] d show ?thesis by (auto simp: hs)
  qed
  show ?thesis
    unfolding tantivy_laws_def
    by (intro conjI; (intro allI impI, erule (1) search
        | auto simp: toy_tantivy_def toy_stored_def entry_doc_def split: option.split))
qed

definition toy_search_engine :: "(unit, toy_dir) search_engine" where
  "toy_search_engine = \<lparr>se_engine = toy_engine, se_index = Some (tantivy_at (Some []))\<rparr>"

theorem tantivy_finds_current_documents_witness:
  "tantivy_search toy_tantivy (history_state (search_apply toy_tantivy toy_codec) toy_search_engine [(toy_env, CInsert toy_doc)]) ''hi'' 5 =
     Ok [\<lparr>res_doc_id = ''k'', res_data = JStr ''hi'', res_score = ()\<rparr>] \<and>
   (\<exists>doc. history_state abs_op Map.empty [(toy_env, CInsert toy_doc)] ''k'' = Some doc \<and> doc_data doc = JStr ''hi'')"
proof -
  let ?ops = "[(toy_env, CInsert toy_doc)]"
  have "search_engine_open toy_tantivy toy_codec False no_files Absent = (Directory (Some []), Ok toy_search_engine)"
    by (simp add: search_engine_open_def tantivy_open_def create_new_def toy_tantivy_def toy_search_engine_def toy_open)
  then have run: "search_run toy_tantivy toy_codec False (\<lambda>_. True) toy_search_engine" by (rule search_fresh)
  have stored: "stored_doc toy_env toy_doc = toy_doc" by (simp add: stored_doc_def toy_doc_def)
  obtain sent where "engine_insert toy_codec toy_env toy_engine toy_doc =
      (apply_op toy_codec toy_env toy_engine (CInsert toy_doc), Ok (doc_id toy_doc), sent)"
    using change_results(1) [OF toy_run toy_insert] unfolding stored by blast
  then have step: "search_step toy_tantivy toy_codec toy_env toy_search_engine (CInsert toy_doc) =
      (\<lparr>se_engine = apply_op toy_codec toy_env toy_engine (CInsert toy_doc), se_index = Some (tantivy_at (Some [(''k'', ''hi'')]))\<rparr>, Ok ())"
    by (simp add: search_step_def search_engine_insert_def toy_search_engine_def then_index_def tantivy_index_document_def
        tantivy_doc_def entry_text_def commit_drop_def toy_tantivy_def stored_doc_def toy_doc_def del: apply_op.simps)
  have ok: "ok_history (search_ok toy_tantivy toy_codec (\<lambda>_. True)) (search_apply toy_tantivy toy_codec) toy_search_engine ?ops"
    using toy_insert by (simp add: search_ok_def step del: op_ok.simps) (simp add: toy_search_engine_def toy_doc_def readable_def toy_tantivy_def del: op_ok.simps)
  have res: "tantivy_search toy_tantivy (history_state (search_apply toy_tantivy toy_codec) toy_search_engine ?ops) ''hi'' 5 =
     Ok [\<lparr>res_doc_id = ''k'', res_data = JStr ''hi'', res_score = ()\<rparr>]"
    by (simp add: search_apply_def step tantivy_search_def) (simp add: tantivy_query_def found_def toy_tantivy_def)
  have "search_abs toy_search_engine = Map.empty"
    by (simp add: search_abs_def toy_search_engine_def toy_engine_def eng_abs_def fun_eq_iff hm_simps)
  with tantivy_finds_current_documents [OF toy_laws run ok res] res show ?thesis by (auto split: if_splits)
qed

end
