(* ===== verification/RaftCommit.thy ===== *)
theory RaftCommit
  imports RaftElection
begin

text \<open>
  Replication in a cluster of Raft nodes whose append requests are those the code builds
  (\<open>heartbeat_for\<close> in \<open>src/src/raft.rs\<close>, the only place that makes one). Requests and replies are
  kept and may be delivered at any time, any number of times, to anyone, or never; elections are
  left open: a node may see any vote request and count any vote. The handlers are those of the
  node as they are.
\<close>

record append_net =
  an_nodes :: "string \<Rightarrow> raft_node"
  an_requests :: "(string \<times> append_request) set"
  an_replies :: "(string \<times> string \<times> append_response) set"

fun append_event :: "raft_event \<Rightarrow> bool" where
  "append_event (EvAppend now req) = True"
| "append_event (EvAppendSuccess peer res) = True"
| "append_event (EvAppendFailure peer res) = True"
| "append_event _ = False"

definition append_init :: "append_net \<Rightarrow> bool" where
  "append_init s \<longleftrightarrow> an_requests s = {} \<and> an_replies s = {} \<and> (\<forall>i. \<exists>ps now. an_nodes s i = raft_new i ps now)"

text \<open>A request is kept with its sender, a reply with the node it goes back to and the one it is from.\<close>

inductive append_step :: "append_net \<Rightarrow> append_net \<Rightarrow> bool" where
  app_local: "\<not> append_event ev \<Longrightarrow> term_room (an_nodes s i) ev \<Longrightarrow>
    append_step s (s\<lparr>an_nodes := (an_nodes s)(i := raft_step (an_nodes s i) ev)\<rparr>)"
| app_send: "is_leader (an_nodes s i) \<Longrightarrow>
    append_step s (s\<lparr>an_requests := insert (i, heartbeat_for (an_nodes s i) peer) (an_requests s)\<rparr>)"
| app_receive: "(i, req) \<in> an_requests s \<Longrightarrow> handle_append_entries now (an_nodes s j) req = (n', res) \<Longrightarrow>
    append_step s (s\<lparr>an_nodes := (an_nodes s)(j := n'), an_replies := insert (i, j, res) (an_replies s)\<rparr>)"
| app_success: "(i, j, res) \<in> an_replies s \<Longrightarrow> ar_success res \<Longrightarrow>
    append_step s (s\<lparr>an_nodes := (an_nodes s)(i := record_append_success (an_nodes s i) j res)\<rparr>)"
| app_failure: "(i, j, res) \<in> an_replies s \<Longrightarrow> \<not> ar_success res \<Longrightarrow>
    append_step s (s\<lparr>an_nodes := (an_nodes s)(i := record_append_failure (an_nodes s i) j res)\<rparr>)"

inductive append_run :: "append_net \<Rightarrow> append_net \<Rightarrow> bool" where
  append_refl: "append_run s s"
| append_trans: "append_run s t \<Longrightarrow> append_step t u \<Longrightarrow> append_run s u"

subsection \<open>Old entries\<close>

text \<open>
  The first \<open>m\<close> entries of a log are of terms before the current one. What a leader knows of its
  peers is about such entries only, and the rule for commits takes none of them.
\<close>

definition old_upto :: "raft_node \<Rightarrow> nat \<Rightarrow> bool" where
  "old_upto n m \<longleftrightarrow> m \<le> length (rlog (persistent n)) \<and>
     (\<forall>e \<in> set (take m (rlog (persistent n))). le_term e < current_term (persistent n))"

definition grows :: "raft_node \<Rightarrow> raft_node \<Rightarrow> bool" where
  "grows n n' \<longleftrightarrow> current_term (persistent n) \<le> current_term (persistent n') \<and>
     (\<exists>es. rlog (persistent n') = rlog (persistent n) @ es)"

definition quiet :: "raft_node \<Rightarrow> bool" where
  "quiet n \<longleftrightarrow> commit_index (volatile n) = 0 \<and> last_applied (volatile n) = 0 \<and>
     (\<forall>e \<in> set (rlog (persistent n)). le_term e \<le> current_term (persistent n)) \<and>
     (role (volatile n) = RoleCandidate \<longrightarrow> old_upto n (last_index (persistent n))) \<and>
     (\<forall>m \<in> snd ` set (next_index (volatile n)). old_upto n (m - 1)) \<and>
     (\<forall>m \<in> snd ` set (match_index (volatile n)). old_upto n m)"

lemma old_upto_0 [simp]: "old_upto n 0"
  by (simp add: old_upto_def)

lemma old_upto_le: "old_upto n m \<Longrightarrow> k \<le> m \<Longrightarrow> old_upto n k"
  using set_take_subset_set_take [of k m] unfolding old_upto_def by fastforce

lemma old_entry:
  assumes "old_upto n m" "log_entry_at (rlog (persistent n)) m = Some e"
  shows "le_term e < current_term (persistent n)"
proof -
  have m: "m \<noteq> 0" "m \<le> length (rlog (persistent n))" "e = rlog (persistent n) ! (m - 1)"
    using assms(2) by (auto simp: log_entry_at_def split: if_splits)
  then have "e = take m (rlog (persistent n)) ! (m - 1)" "m - 1 < length (take m (rlog (persistent n)))" by auto
  then have "e \<in> set (take m (rlog (persistent n)))" using nth_mem by blast
  with assms(1) show ?thesis by (simp add: old_upto_def)
qed

lemma old_upto_grows:
  assumes "old_upto n m" "grows n n'"
  shows "old_upto n' m"
  using assms by (auto simp: old_upto_def grows_def intro: less_le_trans)

lemma grows_refl [simp]: "grows n n"
  by (simp add: grows_def)

lemma set_hm_insert: "set (hm_insert k v m) \<subseteq> insert (k, v) (set m)"
  by (induction m) auto

lemma hm_insert_all: "\<forall>x \<in> snd ` set m. P x \<Longrightarrow> P v \<Longrightarrow> \<forall>x \<in> snd ` set (hm_insert k v m). P x"
  using set_hm_insert [of k v m] by fastforce

lemma hm_remove_all: "\<forall>x \<in> snd ` set m. P x \<Longrightarrow> \<forall>x \<in> snd ` set (hm_remove k m). P x"
  by (auto simp: AList.delete_eq)

lemma hm_fold_insert_all: "\<forall>x \<in> snd ` set m. P x \<Longrightarrow> P v \<Longrightarrow> \<forall>x \<in> snd ` set (fold (\<lambda>k. hm_insert k v) ks m). P x"
proof (induction ks arbitrary: m)
  case Nil
  then show ?case by simp
next
  case (Cons k ks)
  from Cons.IH [OF hm_insert_all [OF Cons.prems] Cons.prems(2)] show ?case by simp
qed

lemma hm_get_all: "\<forall>x \<in> snd ` set m. P x \<Longrightarrow> hm_get m k = Some v \<Longrightarrow> P v"
  by (force dest: map_of_SomeD)

text \<open>A node whose log and term are as before, or have grown, stays quiet if its new numbers are old.\<close>

lemma quietI:
  assumes "quiet n" "grows n n'"
    and "commit_index (volatile n') = 0" "last_applied (volatile n') = 0"
    and "\<And>e. e \<in> set (rlog (persistent n')) \<Longrightarrow> le_term e \<le> current_term (persistent n')"
    and "role (volatile n') = RoleCandidate \<Longrightarrow> old_upto n' (last_index (persistent n'))"
    and "\<And>m. m \<in> snd ` set (next_index (volatile n')) \<Longrightarrow> m \<in> snd ` set (next_index (volatile n)) \<or> old_upto n' (m - 1)"
    and "\<And>m. m \<in> snd ` set (match_index (volatile n')) \<Longrightarrow> m \<in> snd ` set (match_index (volatile n)) \<or> old_upto n' m"
  shows "quiet n'"
  using assms old_upto_grows [OF _ assms(2)] unfolding quiet_def by metis

lemma quietD:
  assumes "quiet n"
  shows "commit_index (volatile n) = 0" "last_applied (volatile n) = 0"
    "e \<in> set (rlog (persistent n)) \<Longrightarrow> le_term e \<le> current_term (persistent n)"
    "role (volatile n) = RoleCandidate \<Longrightarrow> old_upto n (last_index (persistent n))"
    "m \<in> snd ` set (next_index (volatile n)) \<Longrightarrow> old_upto n (m - 1)"
    "m \<in> snd ` set (match_index (volatile n)) \<Longrightarrow> old_upto n m"
  using assms by (auto simp: quiet_def)

lemma quiet_new: "quiet (raft_new i ps now)"
proof -
  have "\<forall>x \<in> snd ` set (fold (\<lambda>p. hm_insert p v) ps []). x = v" for v :: nat
    by (rule hm_fold_insert_all) simp_all
  then show ?thesis
    by (auto simp: quiet_def raft_new_def volatile_new_def persistent_new_def index_peers_def)
qed

subsection \<open>Every step keeps a node quiet\<close>

lemma propose_quiet:
  assumes "quiet n"
  shows "quiet (fst (propose n cmd)) \<and> grows n (fst (propose n cmd))"
proof (cases "role (volatile n) = RoleLeader")
  case True
  let ?n = "fst (propose n cmd)"
  have n: "volatile ?n = volatile n" "current_term (persistent ?n) = current_term (persistent n)"
    "\<exists>e. rlog (persistent ?n) = rlog (persistent n) @ [e] \<and> le_term e = current_term (persistent n)"
    using True by (auto simp: propose_def persistent_append_def Let_def)
  then have g: "grows n ?n" by (auto simp: grows_def)
  then have "quiet ?n" using n True quietD [OF assms] by (intro quietI [OF assms g]) auto
  with g show ?thesis by simp
next
  case False
  then show ?thesis using assms by (simp add: propose_def)
qed

lemma start_election_quiet:
  assumes "quiet n" "current_term (persistent n) + 1 < 2 ^ 64"
  shows "quiet (fst (start_election now n)) \<and> grows n (fst (start_election now n))"
proof -
  let ?n = "fst (start_election now n)"
  have n: "rlog (persistent ?n) = rlog (persistent n)" "current_term (persistent ?n) = Suc (current_term (persistent n))"
    "next_index (volatile ?n) = next_index (volatile n)" "match_index (volatile ?n) = match_index (volatile n)"
    "commit_index (volatile ?n) = commit_index (volatile n)" "last_applied (volatile ?n) = last_applied (volatile n)"
    using assms(2) by (simp_all add: start_election_def Let_def)
  then have g: "grows n ?n" by (simp add: grows_def)
  moreover have "old_upto ?n (last_index (persistent ?n))"
    using n quietD(3) [OF assms(1)] by (auto simp: old_upto_def last_index_def intro: le_imp_less_Suc)
  ultimately have "quiet ?n" using n quietD [OF assms(1)] by (intro quietI [OF assms(1) g]) (auto intro: le_SucI)
  with g show ?thesis by simp
qed

lemma adopt_quiet:
  assumes "quiet n" "current_term (persistent n) \<le> current_term (persistent n')" "rlog (persistent n') = rlog (persistent n)"
    and "role (volatile n') = RoleCandidate \<Longrightarrow> role (volatile n) = RoleCandidate"
    and "commit_index (volatile n') = 0" "last_applied (volatile n') = 0"
    and "next_index (volatile n') = next_index (volatile n)" "match_index (volatile n') = match_index (volatile n)"
  shows "quiet n' \<and> grows n n'"
proof -
  have g: "grows n n'" using assms(2,3) by (simp add: grows_def)
  then have "quiet n'"
    using assms quietD [OF assms(1)] old_upto_grows [OF _ g] by (intro quietI [OF assms(1) g]) (auto simp: last_index_def intro: order_trans)
  with g show ?thesis by simp
qed

lemma request_vote_quiet:
  assumes "quiet n"
  shows "quiet (fst (handle_request_vote now n req)) \<and> grows n (fst (handle_request_vote now n req))"
  using quietD(1,2) [OF assms]
  by (intro adopt_quiet [OF assms]) (auto simp: handle_request_vote_def Let_def step_down_def split: if_splits)

lemma record_vote_quiet:
  assumes "quiet n"
  shows "quiet (fst (record_vote n voter res)) \<and> grows n (fst (record_vote n voter res))"
proof -
  let ?n = "fst (record_vote n voter res)"
  show ?thesis
  proof (cases "snd (record_vote n voter res)")
    case True
    then have cand: "role (volatile n) = RoleCandidate" and n: "persistent ?n = persistent n" "role (volatile ?n) = RoleLeader"
      "commit_index (volatile ?n) = commit_index (volatile n)" "last_applied (volatile ?n) = last_applied (volatile n)"
      and ix: "next_index (volatile ?n) = fold (\<lambda>p. hm_insert p (u64_add (last_index (persistent n)) 1)) (peers n) (next_index (volatile n))"
        "match_index (volatile ?n) = fold (\<lambda>p. hm_insert p 0) (peers n) (match_index (volatile n))"
      by (auto simp: record_vote_def Let_def index_peers_def split: if_splits)
    have g: "grows n ?n" using n by (simp add: grows_def)
    have same: "old_upto ?n = old_upto n" using n by (simp add: old_upto_def fun_eq_iff)
    have "u64_add (last_index (persistent n)) 1 - 1 \<le> last_index (persistent n)"
      using mod_less_eq_dividend [of "Suc (last_index (persistent n))" "2 ^ 64"] unfolding u64_add_def by simp
    from old_upto_le [OF quietD(4) [OF assms cand] this]
    have "\<forall>m \<in> snd ` set (next_index (volatile ?n)). old_upto n (m - 1)" "\<forall>m \<in> snd ` set (match_index (volatile ?n)). old_upto n m"
      unfolding ix using quietD(5,6) [OF assms] by (intro hm_fold_insert_all; simp)+
    then have "quiet ?n" using n quietD(1-3) [OF assms] by (simp add: quiet_def same)
    with g show ?thesis by simp
  next
    case False
    then show ?thesis using quietD(1,2) [OF assms]
      by (intro adopt_quiet [OF assms]) (auto simp: record_vote_def Let_def step_down_def split: if_splits)
  qed
qed

lemma append_quiet:
  assumes "quiet n" "aq_entries req = []" "aq_commit req = 0"
  shows "quiet (fst (handle_append_entries now n req)) \<and> grows n (fst (handle_append_entries now n req))"
  using quietD(1,2) [OF assms(1)] assms(2,3)
  by (intro adopt_quiet [OF assms(1)]) (auto simp: handle_append_entries_def Let_def split: if_splits)

lemma append_match:
  "aq_entries req = [] \<Longrightarrow> ar_match (snd (handle_append_entries now n req)) \<le> aq_prev_index req"
  by (simp add: handle_append_entries_def Let_def u64_add_def)

text \<open>The middle of the descending list is not above every peer, as the leader itself is only one.\<close>

lemma quorum_match_peer:
  assumes "ms \<noteq> []"
  shows "\<exists>m \<in> set ms. quorum_match (ms @ [l]) \<le> m"
proof (rule ccontr)
  assume "\<not> ?thesis"
  then have "filter (\<lambda>x. quorum_match (ms @ [l]) \<le> x) ms = []" by (simp add: filter_empty_conv)
  then have "length (filter (\<lambda>x. quorum_match (ms @ [l]) \<le> x) (ms @ [l])) \<le> 1" by simp
  with quorum_match_majority [of "ms @ [l]"] assms show False by (cases ms) auto
qed

lemma success_quiet:
  assumes "quiet n" "old_upto n (ar_match res)"
  shows "quiet (record_append_success n peer res) \<and> grows n (record_append_success n peer res)"
proof (cases "current_term (persistent n) < ar_term res \<or> role (volatile n) \<noteq> RoleLeader")
  case True
  then show ?thesis using quietD(1,2) [OF assms(1)]
    by (intro adopt_quiet [OF assms(1)]) (auto simp: record_append_success_def Let_def step_down_def split: if_splits)
next
  case False
  let ?ms = "hm_insert peer (ar_match res) (match_index (volatile n))"
  let ?qm = "quorum_match (hm_values ?ms @ [last_index (persistent n)])"
  let ?n = "record_append_success n peer res"
  have ms: "\<forall>m \<in> snd ` set ?ms. old_upto n m" using quietD(6) [OF assms(1)] assms(2) by (intro hm_insert_all) auto
  have ns: "\<forall>m \<in> snd ` set (hm_insert peer (u64_add (ar_match res) 1) (next_index (volatile n))). old_upto n (m - 1)"
  proof (rule hm_insert_all)
    have "u64_add (ar_match res) 1 - 1 \<le> ar_match res"
      using mod_less_eq_dividend [of "Suc (ar_match res)" "2 ^ 64"] unfolding u64_add_def by simp
    with assms(2) show "old_upto n (u64_add (ar_match res) 1 - 1)" by (rule old_upto_le)
  qed (use quietD(5) [OF assms(1)] in auto)
  have "peer \<in> fst ` set ?ms" by (metis image_eqI map_of_SomeD fst_conv hm_get_insert fun_upd_same)
  then have "hm_values ?ms \<noteq> []" by auto
  from quorum_match_peer [OF this] ms have old: "old_upto n ?qm" by (auto intro: old_upto_le)
  then have "?qm = 0 \<or> (case log_entry_at (rlog (persistent n)) ?qm of None \<Rightarrow> 0 | Some e \<Rightarrow> le_term e) \<noteq> current_term (persistent n)"
    using old_entry [OF old] by (auto simp: log_entry_at_def old_upto_def split: option.splits)
  then have n: "?n = n\<lparr>volatile := (volatile n)\<lparr>match_index := ?ms,
      next_index := hm_insert peer (u64_add (ar_match res) 1) (next_index (volatile n))\<rparr>\<rparr>"
    using False quietD(1) [OF assms(1)] by (auto simp: record_append_success_def Let_def)
  have g: "grows n ?n" unfolding n by (simp add: grows_def)
  have same: "old_upto ?n = old_upto n" unfolding n by (simp add: old_upto_def fun_eq_iff)
  have "quiet ?n" using quietD(1-4) [OF assms(1)] ms ns same by (simp add: quiet_def n)
  with g show ?thesis by simp
qed

lemma same_log_quiet:
  assumes "quiet n" "persistent n' = persistent n" "role (volatile n') = role (volatile n)"
    and "commit_index (volatile n') = 0" "last_applied (volatile n') = 0"
    and "\<forall>m \<in> snd ` set (next_index (volatile n')). old_upto n (m - 1)"
    and "\<forall>m \<in> snd ` set (match_index (volatile n')). old_upto n m"
  shows "quiet n' \<and> grows n n'"
proof -
  have "old_upto n' = old_upto n" using assms(2) by (simp add: old_upto_def fun_eq_iff)
  with assms show ?thesis by (simp add: quiet_def grows_def)
qed

lemma failure_quiet:
  assumes "quiet n"
  shows "quiet (record_append_failure n peer res) \<and> grows n (record_append_failure n peer res)"
proof (cases "current_term (persistent n) < ar_term res")
  case True
  then show ?thesis using quietD(1,2) [OF assms]
    by (intro adopt_quiet [OF assms]) (simp_all add: record_append_failure_def Let_def step_down_def)
next
  case False
  let ?n = "record_append_failure n peer res"
  have old: "\<forall>m \<in> snd ` set (next_index (volatile n)). old_upto n (m - 1)" using quietD(5) [OF assms] by simp
  have "\<forall>m \<in> snd ` set (next_index (volatile ?n)). old_upto n (m - 1)"
  proof (cases "hm_get (next_index (volatile n)) peer")
    case None
    then show ?thesis using False old by (simp add: record_append_failure_def Let_def)
  next
    case (Some k)
    have "old_upto n (k - 1)" by (rule hm_get_all [OF old Some])
    then have "old_upto n (k - 1 - 1)" by (rule old_upto_le) simp
    from hm_insert_all [OF old this, of peer] old show ?thesis
      using False Some by (simp add: record_append_failure_def Let_def)
  qed
  then show ?thesis using False quietD(1,2,6) [OF assms]
    by (intro same_log_quiet [OF assms]) (simp_all add: record_append_failure_def Let_def)
qed

lemma local_quiet:
  assumes "quiet n" "\<not> append_event ev" "term_room n ev"
  shows "quiet (raft_step n ev) \<and> grows n (raft_step n ev)"
proof (cases ev)
  case (EvAddPeer peer)
  have "\<forall>m \<in> snd ` set (hm_insert peer 1 (next_index (volatile n))). old_upto n (m - 1)"
    "\<forall>m \<in> snd ` set (hm_insert peer 0 (match_index (volatile n))). old_upto n m"
    using quietD(5,6) [OF assms(1)] by (intro hm_insert_all; simp)+
  with EvAddPeer show ?thesis using quietD(1,2,5,6) [OF assms(1)]
    by (intro same_log_quiet [OF assms(1)]) (simp_all add: add_peer_def)
next
  case (EvRemovePeer peer)
  have "\<forall>m \<in> snd ` set (hm_remove peer (next_index (volatile n))). old_upto n (m - 1)"
    "\<forall>m \<in> snd ` set (hm_remove peer (match_index (volatile n))). old_upto n m"
    using quietD(5,6) [OF assms(1)] by (intro hm_remove_all; simp)+
  with EvRemovePeer show ?thesis using quietD(1,2) [OF assms(1)]
    by (intro same_log_quiet [OF assms(1)]) (simp_all add: remove_peer_def)
next
  case EvApply
  then show ?thesis using quietD(1,2,5,6) [OF assms(1)]
    by (intro same_log_quiet [OF assms(1)]) (simp_all add: apply_committed_def Let_def)
qed (use assms in \<open>simp_all add: propose_quiet start_election_quiet request_vote_quiet record_vote_quiet\<close>)

subsection \<open>The network\<close>

definition append_net_ok :: "append_net \<Rightarrow> bool" where
  "append_net_ok s \<longleftrightarrow> (\<forall>i. quiet (an_nodes s i)) \<and>
     (\<forall>(i, req) \<in> an_requests s. aq_entries req = [] \<and> aq_commit req = 0 \<and> old_upto (an_nodes s i) (aq_prev_index req)) \<and>
     (\<forall>(i, j, res) \<in> an_replies s. old_upto (an_nodes s i) (ar_match res))"

lemma append_net_ok_update:
  assumes "append_net_ok s" "quiet n'" "grows (an_nodes s i) n'"
  shows "append_net_ok (s\<lparr>an_nodes := (an_nodes s)(i := n')\<rparr>)"
  using assms old_upto_grows [OF _ assms(3)] by (fastforce simp: append_net_ok_def)

lemma append_step_ok:
  assumes "append_step s t" "append_net_ok s"
  shows "append_net_ok t"
  using assms
proof cases
  case (app_local ev i)
  have "quiet (an_nodes s i)" using assms(2) by (simp add: append_net_ok_def)
  from local_quiet [OF this app_local(2,3)] show ?thesis
    using append_net_ok_update [OF assms(2)] app_local(1) by simp
next
  case (app_send i peer)
  let ?n = "an_nodes s i"
  have q: "quiet ?n" using assms(2) by (simp add: append_net_ok_def)
  then have nxt: "\<forall>m \<in> snd ` set (next_index (volatile ?n)). old_upto ?n (m - 1)" using quietD(5) by simp
  have "old_upto ?n (aq_prev_index (heartbeat_for ?n peer))"
    using hm_get_all [OF nxt, of peer]
    by (cases "hm_get (next_index (volatile ?n)) peer") (simp_all add: heartbeat_for_def Let_def)
  moreover have "aq_entries (heartbeat_for ?n peer) = []" "aq_commit (heartbeat_for ?n peer) = 0"
    using quietD(1) [OF q] by (simp_all add: heartbeat_for_def Let_def)
  ultimately show ?thesis using assms(2) by (auto simp: app_send append_net_ok_def)
next
  case (app_receive i req now j n' res)
  let ?t = "s\<lparr>an_nodes := (an_nodes s)(j := n')\<rparr>"
  have req: "aq_entries req = []" "aq_commit req = 0" "old_upto (an_nodes s i) (aq_prev_index req)"
    and q: "quiet (an_nodes s j)" using assms(2) app_receive(2) by (auto simp: append_net_ok_def)
  have n': "quiet n'" "grows (an_nodes s j) n'" using append_quiet [OF q req(1,2), of now] app_receive(3) by simp_all
  have ok: "append_net_ok ?t" using append_net_ok_update [OF assms(2) n'] .
  then have "old_upto (an_nodes ?t i) (aq_prev_index req)" using app_receive(2) by (fastforce simp: append_net_ok_def)
  moreover have "ar_match res \<le> aq_prev_index req" using append_match [OF req(1), of now "an_nodes s j"] app_receive(3) by simp
  ultimately have "old_upto (an_nodes ?t i) (ar_match res)" by (rule old_upto_le)
  then show ?thesis using ok by (auto simp: app_receive(1) append_net_ok_def)
next
  case (app_success i j res)
  have "quiet (an_nodes s i)" "old_upto (an_nodes s i) (ar_match res)"
    using assms(2) app_success(2) by (auto simp: append_net_ok_def)
  from success_quiet [OF this, of j] show ?thesis using append_net_ok_update [OF assms(2)] app_success(1) by simp
next
  case (app_failure i j res)
  have "quiet (an_nodes s i)" using assms(2) by (simp add: append_net_ok_def)
  from failure_quiet [OF this] show ?thesis using append_net_ok_update [OF assms(2)] app_failure(1) by simp
qed

lemma append_init_ok: "append_init s \<Longrightarrow> append_net_ok s"
  by (metis append_init_def append_net_ok_def empty_iff quiet_new)

lemma append_run_ok: "append_run s t \<Longrightarrow> append_net_ok s \<Longrightarrow> append_net_ok t"
  by (induction rule: append_run.induct) (auto intro: append_step_ok)

text \<open>
  C4: No command is ever committed. In any cluster started fresh, of any size, whose append requests
  are those the code builds, whatever is proposed, elected, delivered, lost or repeated, the commit
  index of every node stays 0 and no node ever applies a command: the requests carry no entries,
  so what peers acknowledge is from before the term of the leader, which may not be committed.
\<close>

theorem nothing_is_ever_committed:
  assumes "append_init s0" "append_run s0 s"
  shows "commit_index (volatile (an_nodes s i)) = 0 \<and> snd (apply_committed (an_nodes s i)) = []"
proof -
  have "quiet (an_nodes s i)" using append_run_ok [OF assms(2) append_init_ok [OF assms(1)]] by (simp add: append_net_ok_def)
  then have "commit_index (volatile (an_nodes s i)) = 0" "last_applied (volatile (an_nodes s i)) = 0" by (rule quietD)+
  then show ?thesis by (simp add: apply_committed_def Let_def apply_loop.simps)
qed

subsection \<open>Witness\<close>

text \<open>Two nodes: one is elected, proposes a command, and gets its heartbeat acknowledged.\<close>

definition toy_append_net :: append_net where
  "toy_append_net = \<lparr>an_nodes = (\<lambda>i. raft_new i (if i = ''a'' then [''b''] else [''a'']) 0), an_requests = {}, an_replies = {}\<rparr>"

definition toy_local :: "raft_event \<Rightarrow> append_net \<Rightarrow> append_net" where
  "toy_local ev s = s\<lparr>an_nodes := (an_nodes s)(''a'' := raft_step (an_nodes s ''a'') ev)\<rparr>"

definition toy_proposed :: append_net where
  "toy_proposed = toy_local (EvPropose NoOp)
     (toy_local (EvVote ''b'' \<lparr>vr_term = 1, vr_granted = True\<rparr>) (toy_local (EvElection 1) toy_append_net))"

lemma toy_local_step: "append_run s0 s \<Longrightarrow> \<not> append_event ev \<Longrightarrow> term_room (an_nodes s ''a'') ev \<Longrightarrow> append_run s0 (toy_local ev s)"
  unfolding toy_local_def by (blast intro: append_trans app_local)

definition toy_leading :: raft_node where
  "toy_leading = \<lparr>node_id = ''a'', peers = [''b''],
     persistent = \<lparr>current_term = 1, voted_for = Some ''a'', rlog = [\<lparr>le_index = 1, le_term = 1, le_command = NoOp\<rparr>]\<rparr>,
     volatile = (volatile_new 150 50 1)\<lparr>role := RoleLeader, leader_id := Some ''a'', votes_received := [''a'', ''b''],
       next_index := [(''b'', 1)], match_index := [(''b'', 0)]\<rparr>\<rparr>"

lemma toy_proposed_node: "an_nodes toy_proposed ''a'' = toy_leading"
  by (simp add: toy_proposed_def toy_local_def toy_append_net_def toy_leading_def start_election_def record_vote_def propose_def
      raft_new_def volatile_new_def index_peers_def persistent_new_def persistent_append_def last_index_def Let_def)

lemma toy_proposed_run: "append_run toy_append_net toy_proposed"
  unfolding toy_proposed_def
  by (intro toy_local_step append_refl)
    (simp_all add: toy_append_net_def toy_local_def raft_new_def persistent_new_def)

theorem nothing_is_ever_committed_witness:
  "\<exists>s res. append_run toy_append_net s \<and> (''a'', ''b'', res) \<in> an_replies s \<and> ar_success res \<and>
     map le_command (rlog (persistent (an_nodes s ''a''))) = [NoOp] \<and>
     commit_index (volatile (an_nodes s ''a'')) = 0 \<and> snd (apply_committed (an_nodes s ''a'')) = []"
proof -
  let ?req = "heartbeat_for toy_leading ''b''"
  let ?s1 = "toy_proposed\<lparr>an_requests := insert (''a'', ?req) (an_requests toy_proposed)\<rparr>"
  obtain n' res where h: "handle_append_entries 2 (an_nodes ?s1 ''b'') ?req = (n', res)" by fastforce
  let ?s2 = "?s1\<lparr>an_nodes := (an_nodes ?s1)(''b'' := n'), an_replies := insert (''a'', ''b'', res) (an_replies ?s1)\<rparr>"
  let ?s3 = "?s2\<lparr>an_nodes := (an_nodes ?s2)(''a'' := record_append_success (an_nodes ?s2 ''a'') ''b'' res)\<rparr>"
  have b: "an_nodes toy_proposed ''b'' = raft_new ''b'' [''a''] 0" by (simp add: toy_proposed_def toy_local_def toy_append_net_def)
  have req: "?req = \<lparr>aq_term = 1, aq_leader = ''a'', aq_prev_index = 0, aq_prev_term = 0, aq_entries = [], aq_commit = 0\<rparr>"
    by (simp add: heartbeat_for_def toy_leading_def volatile_new_def log_entry_at_def)
  have res: "res = \<lparr>ar_term = 1, ar_success = True, ar_match = 0\<rparr>"
    using h by (auto simp: b req handle_append_entries_def raft_new_def persistent_new_def prev_consistent_def adopt_term_def Let_def)
  have "append_step toy_proposed ?s1"
    using app_send [of toy_proposed "''a''" "''b''"] by (simp add: toy_proposed_node is_leader_def toy_leading_def)
  moreover have "append_step ?s1 ?s2" using h by (intro app_receive) auto
  moreover have "append_step ?s2 ?s3" by (rule app_success) (simp_all add: res)
  ultimately have run: "append_run toy_append_net ?s3" using toy_proposed_run by (blast intro: append_trans)
  have "append_init toy_append_net" by (auto simp: append_init_def toy_append_net_def)
  from nothing_is_ever_committed [OF this run, of "''a''"]
  have none: "commit_index (volatile (an_nodes ?s3 ''a'')) = 0" "snd (apply_committed (an_nodes ?s3 ''a'')) = []"
    by (simp_all del: fun_upd_apply)
  have log: "map le_command (rlog (persistent (an_nodes ?s3 ''a''))) = [NoOp]"
    by (simp add: toy_proposed_node res record_append_success_def Let_def toy_leading_def volatile_new_def)
  have reply: "(''a'', ''b'', res) \<in> an_replies ?s3" "ar_success res" by (simp_all add: res)
  show ?thesis by (intro exI conjI) (rule run, rule reply, rule reply, rule log, rule none, rule none)
qed

end
