(* ===== verification/Crash.thy ===== *)
theory Crash
  imports Text
begin

text \<open>
  The crash reporter (\<open>src/src/crash_reporter.rs\<close>): the panic hook of the process, installed once,
  what it prints, and the report for programs. The backtrace is an argument, as a text.
\<close>

subsection \<open>Reports\<close>

text \<open>A panic carries a value; only the two kinds of strings are shown.\<close>

datatype panic_payload = StrPayload string | StringPayload string | OtherPayload

record panic_info =
  pn_location :: "(string \<times> nat) option"
  pn_payload :: panic_payload

definition location_text :: "string \<times> nat \<Rightarrow> string" where
  "location_text l = fst l @ '':'' @ nat_to_string (snd l)"

definition panic_message :: "panic_payload \<Rightarrow> string option" where
  "panic_message p =
     (case p of
        StrPayload m \<Rightarrow> Some m
      | StringPayload m \<Rightarrow> Some m
      | OtherPayload \<Rightarrow> None)"

text \<open>The rule is 57 times U+2501 in UTF-8.\<close>

definition rule_line :: string where
  "rule_line = concat (replicate 57 [char_of (226 :: nat), char_of (148 :: nat), char_of (129 :: nat)])"

definition panic_hook :: "string \<Rightarrow> panic_info \<Rightarrow> string list" where
  "panic_hook bt info =
     [rule_line, ''CassetteDB has encountered a fatal error and crashed.'', []] @
     (case pn_location info of None \<Rightarrow> [] | Some l \<Rightarrow> [''  Location: '' @ location_text l]) @
     (case panic_message (pn_payload info) of None \<Rightarrow> [] | Some m \<Rightarrow> [''  Message:  '' @ m]) @
     [[], ''Backtrace:'', bt, rule_line]"

definition newline :: string where
  "newline = [char_of (10 :: nat)]"

definition capture_crash_report :: "string \<Rightarrow> panic_info \<Rightarrow> string" where
  "capture_crash_report bt info =
     ''CassetteDB Crash Report'' @ newline @ ''========================'' @ newline @ newline @
     (case pn_location info of None \<Rightarrow> [] | Some l \<Rightarrow> ''Location: '' @ location_text l @ newline) @
     (case panic_message (pn_payload info) of None \<Rightarrow> [] | Some m \<Rightarrow> ''Message:  '' @ m @ newline) @
     newline @ ''Backtrace:'' @ newline @ bt"

subsection \<open>The hook of the process\<close>

datatype hook = DefaultHook | ReporterHook | OtherHook nat

record hook_state =
  hs_once :: bool
  hs_hook :: hook

definition install_panic_hook :: "hook_state \<Rightarrow> hook_state" where
  "install_panic_hook s = (if hs_once s then s else \<lparr>hs_once = True, hs_hook = ReporterHook\<rparr>)"

text \<open>Installing it again does not replace a hook that was set in the meantime.\<close>

lemma install_once:
  "install_panic_hook (install_panic_hook s) = install_panic_hook s"
  "install_panic_hook ((install_panic_hook s)\<lparr>hs_hook := h\<rparr>) = (install_panic_hook s)\<lparr>hs_hook := h\<rparr>"
  by (simp_all add: install_panic_hook_def)

text \<open>
  The report holds what the hook prints: of the same panic and backtrace both give the location
  and the message, in the same order, and the two kinds of strings are reported alike.
\<close>

lemma report_is_printed:
  "capture_crash_report bt info =
     ''CassetteDB Crash Report'' @ newline @ ''========================'' @ newline @ newline @
     concat (map (\<lambda>l. drop 2 l @ newline) (takeWhile (\<lambda>l. l \<noteq> []) (drop 3 (panic_hook bt info)))) @
     newline @ ''Backtrace:'' @ newline @ bt"
  by (simp add: capture_crash_report_def panic_hook_def split: option.split)

end
