(* ===== verification/Spec2Isabelle.thy ===== *)
theory Spec2Isabelle
  imports QueryShape RaftElection DatabaseLaws Rebalance MultiDb ServiceLaws FfiLaws CliLaws Node Fuzz Tantivy RaftCommit Crash
begin

text \<open>
  CassetteDB: an embedded document database in Rust with a write-ahead log, full-text search,
  a query language, a replication feed, sharding, Raft clustering, distributed transactions, and
  servers, a command line tool and bindings around it.

  Parts. A database is three files: pages (\<open>storage.rs\<close>), the write-ahead log (\<open>wal.rs\<close>) and
  the replication log (\<open>replication.rs\<close>). The engine (\<open>engine.rs\<close>) keeps all documents in memory
  with an inverted index (\<open>index.rs\<close>); each change is appended to the log, committed, applied in
  memory and published to the change feed; \<open>open\<close> rebuilds the memory from the log, or from the
  pages when the log is empty; \<open>compact\<close> writes the pages and empties the log. Queries
  (\<open>query.rs\<close>) are parsed from text and evaluated on the documents and the index. The shard
  router (\<open>shard.rs\<close>) spreads documents over engines by consistent hashing. A cluster node
  (\<open>cluster.rs\<close>) couples a stored configuration and health records with a Raft node (\<open>raft.rs\<close>);
  \<open>dist_tx.rs\<close> is two-phase commit over routers. \<open>db.rs\<close> is the older database of named
  collections in one JSON file, with indexes of its own. The server (\<open>server/\<close>) gives clients the
  engines of a directory through a pool of connections, over a framed TCP protocol and over HTTP.
  The command line tool (\<open>bin/cassette.rs\<close>), the C interface (\<open>libcassettedb\<close>) and the Node.js
  class (\<open>bindings/node\<close>) are clients of the engine; \<open>backup.rs\<close>, \<open>config_migration.rs\<close> and
  \<open>feedback.rs\<close> work on files. With a feature that is off by default the engine keeps a second
  index in Tantivy (\<open>search.rs\<close>). A fuzz target drives \<open>db.rs\<close>.

  Theories, in the order they build on each other; every definition has the name of the function
  it models, or a suffix of it.
    \<open>Prelude\<close>: \<open>outcome\<close> (Ok, Err with the variants of \<open>CassetteError\<close>, Panic), machine integers
      as naturals with the wrap-around written out, byte strings and cursor reads, hash maps and
      B-tree maps as association lists; the locales \<open>framed\<close> and \<open>framed_strict\<close> (files that are
      sequences of records), \<open>machine\<close> and \<open>monotone_machine\<close> (an invariant and an order that
      every step respects, hence every run), \<open>doc_store\<close> (operations that refine an abstract map).
    \<open>Document\<close>, \<open>Index\<close>: JSON values, documents; the inverted index and its contract \<open>ft_index\<close>.
    \<open>Wal\<close>, \<open>Storage\<close>, \<open>Replication\<close>: the three files as bytes, with their codings.
    \<open>Query\<close>, \<open>QueryShape\<close>: the parser on bytes, its error texts and panics, and evaluation; the
      form of the queries it gives.
    \<open>Engine\<close>: the record \<open>engine\<close> is the struct, with the contents of the three files.
    \<open>Shard\<close>, \<open>Rebalance\<close>: shard map, ring, router, allocator; moving documents between shards.
    \<open>Raft\<close>, \<open>RaftElection\<close>: one node with every handler; nodes that exchange requests and votes by
      these handlers over a network that may lose, repeat and reorder them, and that may restart
      with their persistent state. The tick of \<open>ClusterNode\<close> is not among the steps: it is in \<open>Cluster\<close>.
    \<open>RaftCommit\<close>: the same nodes exchanging the append requests the code builds.
    \<open>DistTx\<close>, \<open>Cluster\<close>: two-phase commit; membership, health, failover, the tick.
    \<open>Database\<close>, \<open>DatabaseLaws\<close>: the collections of \<open>db.rs\<close> and what they guarantee.
    \<open>Text\<close>: operations of Rust strings that the following need.
    \<open>Disk\<close>: databases on a disk that several engines share, each with its own memory.
    \<open>ServerPool\<close>, \<open>MultiDb\<close>: pools of connections and the commands on them; the registry.
    \<open>Tcp\<close>, \<open>Http\<close>: authentication, both protocols from bytes to responses, one connection each.
    \<open>Service\<close>, \<open>Calm\<close>, \<open>ServiceLaws\<close>: the whole server, the tasks of its TCP and HTTP clients
      interleaved; the commands that return on databases that were not compacted; its laws.
    \<open>Backup\<close>, \<open>ConfigMigration\<close>, \<open>Feedback\<close>: the tools that work on files.
    \<open>Ffi\<close>, \<open>FfiLaws\<close>: the exported C functions on the memory they share with the client.
    \<open>Cli\<close>, \<open>CliLaws\<close>: every command as a process on files and directories.
    \<open>Node\<close>: the methods of the Node.js class.
    \<open>Tantivy\<close>: the second index, and the engine with it.
    \<open>Fuzz\<close>: the fuzz target from its input bytes to the database at the end.
    \<open>Crash\<close>: the panic hook and its report.

  What is shown. Codings: what is appended to the logs is read back, committed records only, and
  replay applies serial transactions in order. Storage: pages and the free list. Engine: every
  history of inserts of new ids, updates and deletes refines a map from ids to documents, a reopened
  engine is the one that was closed, a crash between append and commit loses exactly the operation
  under way, a crash after it keeps it (but a torn record of the replication log makes open fail),
  and a query gives exactly the satisfying documents. Query: parsing never panics but for
  the lone quotation mark, inverts printing on the forms stated, and gives conjunctions of
  disjunctions only. Raft: terms and votes, log matching on appends, the commit rule, at most one
  leader per term as long as votes are those of the peers (the tick counts others); and that with
  the append requests of the code nothing is ever committed. Ring: adding or removing a shard moves
  only the keys it must; rebalancing keeps the documents. Two-phase commit: prepared means unanimous, outcomes are final. Collections:
  refinement of maps, ranking of search, index-independence of range queries; the input of the
  fuzz target can encode any operations. Tantivy: results are current documents. Server: every
  sequence of commands refines a map from names to maps of documents, HTTP routes are commands,
  no data without a token; for all interleavings of TCP and HTTP clients, the pool bounds the
  connections, a token counts for its own client only, and all clients can be served: every
  command they send is read and answered. The C functions,
  the commands of the tool and the methods of the class refine maps of documents too. The same
  contract \<open>doc_store\<close> carries all of these refinements.
  A number of theorems show defects: compaction, torn logs, the first-insert path of the router,
  appends that leave gaps, the tick that elects by itself, recovery of \<open>db.rs\<close>, connections that
  come back to another database, commands of the tool that cannot work.

  Parameters. Code that is not in the repository is an argument: the JSON coding of documents and
  records, CRC, the hash function of the ring, number conversions, the clock, fresh identifiers,
  the allocator of the C heap, the functions of the tantivy crate. Theorems name what they need of it, mostly that decoding inverts
  encoding. No fuel is used: every loop is recursion with a proved measure, and a call that waits
  or does not end (a permit that is not free, a compaction that loops) has no result.

  Not modelled, and why: the benches and tests (drivers), the parsing of arguments by clap,
  sockets, the dead function \<open>reindex_secondary\<close>, getters and the wrappers of \<open>ClusterManager\<close>,
  which only pass on. This is all of the code that is left. Locks are not modelled: each method of
  a component is one atomic step, and the server interleaves them. Text is bytes:
  \<open>from_utf8_lossy\<close> of identifiers in the write-ahead log is the identity, as they are valid UTF-8,
  and case mapping is that of ASCII.
\<close>

end
